(* ===== verification/Prelude.thy ===== *)
theory Prelude
  imports Main "HOL-Library.Word"
begin

text \<open>
  The prelude of the development: names for the machine integers of the Rust sources, the
  saturating and checked arithmetic of the Rust standard library on them, decimal printing
  (the \<open>{}\<close> of \<open>format!\<close>), the result type of fallible functions, and the generic lemmas and
  fact collections the component theories share.

  Conventions used everywhere:
  \<^item> \<open>u8\<close>, \<open>u16\<close>, \<open>u32\<close>, \<open>u64\<close> are words of that width; \<open>AtomicU64::fetch_add\<close> wraps, so it is
    \<open>+\<close> on words, and the explicit saturating operations are the functions below.
  \<^item> \<open>usize\<close> values that are lengths, capacities or indices are natural numbers (every
    supported target is 64 bit, so a length never reaches the bound).
  \<^item> \<open>String\<close>, \<open>&str\<close> and \<open>Box<str>\<close> are \<open>string\<close>, the list of their UTF-8 bytes.
  \<^item> \<open>Instant\<close> and \<open>Duration\<close> are natural numbers of nanoseconds.
\<close>

section \<open>Machine integers\<close>

type_synonym u8 = "8 word"
type_synonym u16 = "16 word"
type_synonym u32 = "32 word"
type_synonym u64 = "64 word"
type_synonym usize = nat
type_synonym instant = nat
type_synonym duration = nat
type_synonym bytes = "u8 list"

named_theorems sat_arith "unat characterisations of the saturating and checked operations"

definition sat_add :: "'a::len word \<Rightarrow> 'a word \<Rightarrow> 'a word" where
  "sat_add a b = (if b \<le> - 1 - a then a + b else - 1)"

definition sat_sub :: "'a::len word \<Rightarrow> 'a word \<Rightarrow> 'a word" where
  "sat_sub a b = (if b \<le> a then a - b else 0)"

definition sat_mul :: "'a::len word \<Rightarrow> 'a word \<Rightarrow> 'a word" where
  "sat_mul a b = (if unat a * unat b < 2 ^ LENGTH('a) then a * b else - 1)"

definition checked_sub :: "'a::len word \<Rightarrow> 'a word \<Rightarrow> 'a word option" where
  "checked_sub a b = (if b \<le> a then Some (a - b) else None)"

text \<open>\<open>u64::try_from(n).unwrap_or(u64::MAX)\<close> on a wider unsigned value.\<close>

definition u64_saturating :: "nat \<Rightarrow> u64" where
  "u64_saturating n = (if n < 2 ^ 64 then of_nat n else - 1)"

lemma unat_max: "unat (- 1 :: 'a::len word) = 2 ^ LENGTH('a) - 1"
  by (simp add: unsigned_minus_1_eq_mask mask_eq_exp_minus_1)

lemma unat_le_max: "unat (a :: 'a::len word) \<le> 2 ^ LENGTH('a) - 1"
proof -
  have "unat a < 2 ^ LENGTH('a)" by (rule unsigned_less)
  then show ?thesis by linarith
qed

lemma le_diff_max: "b \<le> - 1 - a \<longleftrightarrow> unat a + unat b \<le> 2 ^ LENGTH('a) - 1"
  for a b :: "'a::len word"
proof -
  have "unat (- 1 - a) = 2 ^ LENGTH('a) - 1 - unat a"
    using unat_le_max [of a] by (simp add: unat_sub_if' unat_max)
  then show ?thesis
    using unat_le_max [of a] by (auto simp: word_le_nat_alt)
qed

lemma unat_sat_add [sat_arith]:
  "unat (sat_add a b) = min (unat a + unat b) (2 ^ LENGTH('a) - 1)" for a b :: "'a::len word"
proof (cases "unat a + unat b \<le> 2 ^ LENGTH('a) - 1")
  case True
  then have "unat a + unat b < 2 ^ LENGTH('a)"
    by (meson less_eq_iff_succ_less le_less_trans zero_less_power zero_less_numeral
        diff_less zero_less_one)
  with True show ?thesis
    by (simp add: sat_add_def le_diff_max unat_word_ariths)
next
  case False
  then show ?thesis by (simp add: sat_add_def le_diff_max unat_max)
qed

lemma unat_sat_sub [sat_arith]: "unat (sat_sub a b) = unat a - unat b"
  by (auto simp: sat_sub_def word_le_nat_alt unat_sub_if')

lemma unat_sat_mul [sat_arith]:
  "unat (sat_mul a b) = min (unat a * unat b) (2 ^ LENGTH('a) - 1)" for a b :: "'a::len word"
proof (cases "unat a * unat b < 2 ^ LENGTH('a)")
  case True
  then show ?thesis by (simp add: sat_mul_def unat_word_ariths)
next
  case False
  then have "2 ^ LENGTH('a) - 1 \<le> unat a * unat b" by simp
  with False show ?thesis by (simp add: sat_mul_def unat_max)
qed

lemma checked_sub_Some_iff:
  "checked_sub a b = Some c \<longleftrightarrow> unat b \<le> unat a \<and> unat c = unat a - unat b"
  by (auto simp: checked_sub_def word_le_nat_alt unat_sub_if' word_unat_eq_iff)

lemma checked_sub_None_iff: "checked_sub a b = None \<longleftrightarrow> unat a < unat b"
  by (auto simp: checked_sub_def word_le_nat_alt)

lemma unat_u64_saturating [sat_arith]: "unat (u64_saturating n) = min n (2 ^ 64 - 1)"
  using unat_max [where 'a = 64] by (auto simp: u64_saturating_def unat_of_nat)

lemma sat_add_one_less:
  assumes "unat a + 1 < 2 ^ LENGTH('a)"
  shows "unat (sat_add a (1 :: 'a::len word)) = unat a + 1"
  using assms by (simp add: unat_sat_add)

lemma sat_add_one_of_less: "a < b \<Longrightarrow> sat_add a 1 = a + 1" for a b :: "'a::len word"
  using unat_le_max [of b] by (simp add: sat_add_def le_diff_max word_less_nat_alt)

lemma sat_add_mono: "unat a \<le> unat (sat_add a b)"
  using unat_le_max [of a] by (simp add: unat_sat_add)

section \<open>Results, errors and decimal printing\<close>

text \<open>A Rust \<open>Result<T, E>\<close> is \<open>E + T\<close>: \<open>Inl\<close> is \<open>Err\<close>, \<open>Inr\<close> is \<open>Ok\<close>.\<close>

type_synonym ('e, 'a) result = "'e + 'a"

definition is_ok :: "('e, 'a) result \<Rightarrow> bool" where
  "is_ok r = (case r of Inl _ \<Rightarrow> False | Inr _ \<Rightarrow> True)"

lemma is_ok_simps [simp]: "is_ok (Inr a)" "\<not> is_ok (Inl e)"
  by (simp_all add: is_ok_def)

text \<open>The decimal digits of a natural number, most significant first.\<close>

fun show_nat :: "nat \<Rightarrow> string" where
  "show_nat n =
     (if n < 10 then [char_of (48 + n)] else show_nat (n div 10) @ [char_of (48 + n mod 10)])"

declare show_nat.simps [simp del]

text \<open>Reading the digits back; used only to state that printing loses nothing.\<close>

definition read_digits :: "string \<Rightarrow> nat" where
  "read_digits s = foldl (\<lambda>acc c. 10 * acc + (of_char c - 48)) 0 s"

lemma read_digits_snoc: "read_digits (s @ [c]) = 10 * read_digits s + (of_char c - 48)"
  by (simp add: read_digits_def)

lemma read_show_nat: "read_digits (show_nat n) = n"
proof (induction n rule: show_nat.induct)
  case (1 n)
  show ?case
  proof (cases "n < 10")
    case True
    then show ?thesis by (subst show_nat.simps) (simp add: read_digits_def)
  next
    case False
    then have "show_nat n = show_nat (n div 10) @ [char_of (48 + n mod 10)]"
      by (subst show_nat.simps) simp
    moreover have "(of_char (char_of (48 + n mod 10) :: char) :: nat) = 48 + n mod 10"
      by simp
    ultimately show ?thesis using False 1 by (simp add: read_digits_snoc)
  qed
qed

lemma show_nat_inject [simp]: "show_nat m = show_nat n \<longleftrightarrow> m = n"
  by (metis read_show_nat)

text \<open>A value printed between single quotes, as the format strings do with \<open>'{}'\<close>.\<close>

definition quoted :: "string \<Rightarrow> string" where
  "quoted s = CHR 0x27 # s @ [CHR 0x27]"

lemma quoted_inject [simp]: "quoted s = quoted t \<longleftrightarrow> s = t"
  by (simp add: quoted_def)

text \<open>\<open>join\<close> of a list of strings.\<close>

fun join :: "string \<Rightarrow> string list \<Rightarrow> string" where
  "join s [] = []"
| "join s [x] = x"
| "join s (x # y # ys) = x @ s @ join s (y # ys)"

section \<open>Lists\<close>

text \<open>Removing one position from a list, as \<open>VecDeque::remove\<close> does.\<close>

definition remove_at :: "nat \<Rightarrow> 'a list \<Rightarrow> 'a list" where
  "remove_at i xs = take i xs @ drop (Suc i) xs"

lemma length_remove_at [simp]: "i < length xs \<Longrightarrow> length (remove_at i xs) = length xs - 1"
  by (simp add: remove_at_def)

lemma set_remove_at: "set (remove_at i xs) \<subseteq> set xs"
  by (auto simp: remove_at_def dest: in_set_takeD in_set_dropD)

text \<open>\<open>Vec::resize\<close> up to a length, never shrinking.\<close>

definition grow_to :: "nat \<Rightarrow> 'a \<Rightarrow> 'a list \<Rightarrow> 'a list" where
  "grow_to n d xs = xs @ replicate (n - length xs) d"

lemma length_grow_to [simp]: "length (grow_to n d xs) = max n (length xs)"
  by (simp add: grow_to_def)

lemma nth_grow_to: "i < max n (length xs) \<Longrightarrow>
    grow_to n d xs ! i = (if i < length xs then xs ! i else d)"
  by (simp add: grow_to_def nth_append)

end
