(* ===== verification/Sequence.thy ===== *)
theory Sequence
  imports Prelude
begin

text \<open>
  \<open>wafer-types/src/sequence.rs\<close>: exact per-message sequence accounting shared by the
  benchmark sink and the load generator's subscriber, and \<open>wafer-types/src/latency.rs\<close>, the
  clamping of latency samples. The tracker's \<open>Vec<u64>\<close> bitset is kept as a list of 64-bit
  words; the theorems relate it to the set of numbers seen.
\<close>

unbundle bit_operations_syntax

section \<open>The tracker\<close>

definition MAX_TRACKED_SEQUENCES :: u64 where
  "MAX_TRACKED_SEQUENCES = 268435456"

datatype sequence_outcome = Unique | Duplicate | OutOfRange

definition is_duplicate :: "sequence_outcome \<Rightarrow> bool" where
  "is_duplicate oc = (case oc of Duplicate \<Rightarrow> True | _ \<Rightarrow> False)"

record missing_ranges =
  mr_ranges :: "(u64 \<times> u64) list"
  mr_total :: u64

definition missing_ranges_default :: missing_ranges where
  "missing_ranges_default = \<lparr>mr_ranges = [], mr_total = 0\<rparr>"

definition truncated :: "missing_ranges \<Rightarrow> bool" where
  "truncated m = (mr_total m > u64_saturating (length (mr_ranges m)))"

record sequence_tracker =
  st_start :: "u64 option"
  st_end :: "u64 option"
  st_seen :: "u64 list"
  st_highest :: "u64 option"
  st_received :: u64
  st_unique :: u64
  st_duplicates :: u64
  st_out_of_order :: u64
  st_out_of_range :: u64
  st_duplicate_examples :: "u64 list"
  st_max_examples :: "usize option"
  st_duplicates_truncated :: bool

definition tracker_new :: sequence_tracker where
  "tracker_new =
     \<lparr>st_start = Some 0, st_end = None, st_seen = [], st_highest = None, st_received = 0,
      st_unique = 0, st_duplicates = 0, st_out_of_order = 0, st_out_of_range = 0,
      st_duplicate_examples = [], st_max_examples = None, st_duplicates_truncated = False\<rparr>"

definition unanchored :: sequence_tracker where
  "unanchored = tracker_new\<lparr>st_start := None\<rparr>"

definition with_max_examples :: "usize \<Rightarrow> sequence_tracker \<Rightarrow> sequence_tracker" where
  "with_max_examples limit t = t\<lparr>st_max_examples := Some limit\<rparr>"

definition anchor_start :: "u64 \<Rightarrow> sequence_tracker \<Rightarrow> sequence_tracker" where
  "anchor_start s t = (if st_start t = None then t\<lparr>st_start := Some s\<rparr> else t)"

definition anchor_end :: "u64 \<Rightarrow> sequence_tracker \<Rightarrow> sequence_tracker" where
  "anchor_end e t = (if st_end t = None then t\<lparr>st_end := Some e\<rparr> else t)"

definition slot :: "u64 \<Rightarrow> usize \<times> u64" where
  "slot index = (unat (index div 64), push_bit (unat (index mod 64)) 1)"

definition index_of :: "sequence_tracker \<Rightarrow> u64 \<Rightarrow> u64 option" where
  "index_of t s =
     (case st_start t of
        None \<Rightarrow> None
      | Some st \<Rightarrow>
          (case checked_sub s st of
             None \<Rightarrow> None
           | Some index \<Rightarrow>
               if (case st_end t of None \<Rightarrow> True | Some e \<Rightarrow> s < e) \<and> index < MAX_TRACKED_SEQUENCES
               then Some index else None))"

definition is_seen :: "u64 list \<Rightarrow> u64 \<Rightarrow> bool" where
  "is_seen seen index =
     (case slot index of (w, bm) \<Rightarrow> w < length seen \<and> seen ! w AND bm \<noteq> 0)"

definition mark :: "u64 list \<Rightarrow> u64 \<Rightarrow> u64 list" where
  "mark seen index =
     (case slot index of (w, bm) \<Rightarrow>
        let seen1 = (if w \<ge> length seen then grow_to (Suc w) 0 seen else seen)
        in seen1[w := (seen1 ! w) OR bm])"

definition record_seq :: "u64 \<Rightarrow> sequence_tracker \<Rightarrow> sequence_tracker \<times> sequence_outcome" where
  "record_seq s t0 =
     (let t1 = anchor_start s t0;
          t = t1\<lparr>st_received := sat_add (st_received t1) 1\<rparr>
      in case index_of t s of
           None \<Rightarrow> (t\<lparr>st_out_of_range := sat_add (st_out_of_range t) 1\<rparr>, OutOfRange)
         | Some index \<Rightarrow>
             if is_seen (st_seen t) index then
               (let t2 = t\<lparr>st_duplicates := sat_add (st_duplicates t) 1\<rparr>
                in if (case st_max_examples t of None \<Rightarrow> True
                       | Some limit \<Rightarrow> length (st_duplicate_examples t) < limit)
                   then (t2\<lparr>st_duplicate_examples := st_duplicate_examples t @ [s]\<rparr>, Duplicate)
                   else (t2\<lparr>st_duplicates_truncated := True\<rparr>, Duplicate))
             else
               (let t2 = t\<lparr>st_seen := mark (st_seen t) index,
                           st_unique := sat_add (st_unique t) 1\<rparr>;
                    t3 = (if (case st_highest t of None \<Rightarrow> False | Some h \<Rightarrow> s < h)
                          then t2\<lparr>st_out_of_order := sat_add (st_out_of_order t2) 1\<rparr> else t2)
                in (t3\<lparr>st_highest := Some (case st_highest t of None \<Rightarrow> s | Some h \<Rightarrow> max h s)\<rparr>,
                    Unique)))"

definition expected :: "sequence_tracker \<Rightarrow> u64" where
  "expected t =
     (case st_start t of
        None \<Rightarrow> 0
      | Some st \<Rightarrow>
          (case (case st_end t of Some e \<Rightarrow> Some e
                 | None \<Rightarrow> map_option (\<lambda>h. sat_add h 1) (st_highest t)) of
             None \<Rightarrow> 0
           | Some e \<Rightarrow> min (sat_sub e st) MAX_TRACKED_SEQUENCES))"

definition missing :: "sequence_tracker \<Rightarrow> u64" where
  "missing t = sat_sub (expected t) (st_unique t)"

definition ranges_push :: "u64 \<Rightarrow> u64 \<Rightarrow> u64 \<Rightarrow> usize \<Rightarrow> missing_ranges \<Rightarrow> missing_ranges" where
  "ranges_push st first lst limit m =
     (let m1 = m\<lparr>mr_total := sat_add (mr_total m) 1\<rparr>
      in if length (mr_ranges m) < limit
         then m1\<lparr>mr_ranges := mr_ranges m @ [(sat_add st first, sat_add st lst)]\<rparr> else m1)"

text \<open>One iteration of the scan of \<open>missing_ranges\<close>, over the pair of the open run and the result.\<close>

definition missing_step ::
  "u64 list \<Rightarrow> u64 \<Rightarrow> usize \<Rightarrow> u64 \<Rightarrow> u64 option \<times> missing_ranges \<Rightarrow> u64 option \<times> missing_ranges"
where
  "missing_step seen st limit index acc =
     (case acc of (run_start, result) \<Rightarrow>
        (case (is_seen seen index, run_start) of
           (False, None) \<Rightarrow> (Some index, result)
         | (True, Some first) \<Rightarrow> (None, ranges_push st first (sat_sub index 1) limit result)
         | _ \<Rightarrow> (run_start, result)))"

definition missing_ranges_of :: "sequence_tracker \<Rightarrow> missing_ranges" where
  "missing_ranges_of t =
     (let limit = (case st_max_examples t of None \<Rightarrow> 2 ^ 64 - 1 | Some l \<Rightarrow> l)
      in case st_start t of
           None \<Rightarrow> missing_ranges_default
         | Some st \<Rightarrow>
             (case fold (missing_step (st_seen t) st limit)
                     (map of_nat [0..<unat (expected t)]) (None, missing_ranges_default) of
                (None, result) \<Rightarrow> result
              | (Some first, result) \<Rightarrow>
                  ranges_push st first (sat_sub (expected t) 1) limit result))"

text \<open>Recording a whole arrival history.\<close>

definition record_all :: "u64 list \<Rightarrow> sequence_tracker \<Rightarrow> sequence_tracker" where
  "record_all xs t = fold (\<lambda>s t. fst (record_seq s t)) xs t"

lemma record_all_simps [simp]:
  "record_all [] t = t"
  "record_all (x # xs) t = record_all xs (fst (record_seq x t))"
  "record_all (xs @ ys) t = record_all ys (record_all xs t)"
  by (simp_all add: record_all_def)

section \<open>The bitset is a set\<close>

text \<open>
  What the tracker needs of its bitset, as an interface: an empty set, membership and insertion
  of an index. The lemmas of the locale are about any such set; the interpretation below
  discharges the laws for the \<open>Vec<u64>\<close> of the code.
\<close>

locale index_set =
  fixes empty_set :: "'s"
    and member :: "'s \<Rightarrow> 'i::finite \<Rightarrow> bool"
    and insert_index :: "'s \<Rightarrow> 'i \<Rightarrow> 's"
  assumes member_empty: "\<not> member empty_set i"
    and member_insert: "member (insert_index s i) j \<longleftrightarrow> j = i \<or> member s j"
begin

definition elems :: "'s \<Rightarrow> 'i set" where
  "elems s = {i. member s i}"

lemma elems_empty: "elems empty_set = {}"
  by (simp add: elems_def member_empty)

lemma elems_insert: "elems (insert_index s i) = insert i (elems s)"
  by (auto simp: elems_def member_insert)

lemma card_elems_insert: "card (elems (insert_index s i)) = card (elems s) + (if member s i then 0 else 1)"
  by (auto simp: elems_insert card_insert_if) (auto simp: elems_def)

lemma elems_fold: "elems (fold (\<lambda>i s. insert_index s i) is s) = elems s \<union> set is"
  by (induction "is" arbitrary: s) (auto simp: elems_insert)

end

lemma and_one_bit: "seen AND 2 ^ n \<noteq> 0 \<longleftrightarrow> bit seen n" if "n < 64" for seen :: u64
proof -
  have eq: "seen AND 2 ^ n = (if bit seen n then 2 ^ n else 0)"
    by (rule bit_eqI) (auto simp: bit_simps)
  have "bit (2 ^ n :: u64) n"
    using that by (simp add: bit_simps)
  then have "(2 ^ n :: u64) \<noteq> 0"
    by (metis bit_0_eq bot_apply bot_bool_def)
  with eq show ?thesis by simp
qed

lemma or_one_bit: "bit (seen OR 2 ^ n) k \<longleftrightarrow> bit seen k \<or> k = n" if "n < 64" for seen :: u64
  using that by (auto simp: bit_simps)

lemma one_bit: "bit (2 ^ n :: u64) k \<longleftrightarrow> k = n" if "n < 64"
  using that by (auto simp: bit_simps)

lemma slot_bit_less: "unat (i mod 64 :: u64) < 64"
  by (simp add: unat_mod)

lemma slot_inject: "i = j \<longleftrightarrow> unat (i div 64) = unat (j div 64) \<and> unat (i mod 64) = unat (j mod 64)"
  for i j :: u64
  by (metis div_mult_mod_eq word_unat_eq_iff)

lemma is_seen_iff: "is_seen seen i \<longleftrightarrow>
    unat (i div 64) < length seen \<and> bit (seen ! unat (i div 64)) (unat (i mod 64))"
  by (auto simp: is_seen_def slot_def and_one_bit slot_bit_less)

lemma is_seen_mark: "is_seen (mark seen i) j \<longleftrightarrow> j = i \<or> is_seen seen j"
proof -
  let ?w = "unat (i div 64)" and ?v = "unat (j div 64)"
  define s1 where "s1 = (if ?w \<ge> length seen then grow_to (Suc ?w) 0 seen else seen)"
  have len: "length s1 = max (Suc ?w) (length seen)"
    by (simp add: s1_def)
  have nth: "?v < length s1 \<Longrightarrow> s1 ! ?v = (if ?v < length seen then seen ! ?v else 0)"
    by (auto simp: s1_def nth_grow_to)
  have m: "mark seen i = s1[?w := (s1 ! ?w) OR push_bit (unat (i mod 64)) 1]"
    by (simp add: mark_def slot_def s1_def Let_def)
  show ?thesis
  proof (cases "?v = ?w")
    case True
    then show ?thesis
      using nth len slot_inject [of j i]
      by (auto simp: is_seen_iff m or_one_bit one_bit slot_bit_less)
  next
    case False
    then show ?thesis
      using nth len slot_inject [of j i] by (auto simp: is_seen_iff m split: if_splits)
  qed
qed

interpretation bs: index_set "[] :: u64 list" is_seen mark
  by unfold_locales (simp add: is_seen_iff, rule is_seen_mark)

section \<open>What a history of arrivals means\<close>

text \<open>
  A number belongs to the population when it is at least the start, before the declared end (if
  any) and within the tracking cap. The specification functions below are over the arrival
  history alone; they never mention the tracker's fields.
\<close>

definition in_population :: "u64 \<Rightarrow> u64 option \<Rightarrow> u64 \<Rightarrow> bool" where
  "in_population s e q \<longleftrightarrow>
     s \<le> q \<and> (case e of None \<Rightarrow> True | Some x \<Rightarrow> q < x) \<and> q - s < MAX_TRACKED_SEQUENCES"

definition arrived :: "u64 \<Rightarrow> u64 option \<Rightarrow> u64 list \<Rightarrow> u64 set" where
  "arrived s e h = {q \<in> set h. in_population s e q}"

text \<open>Without a declared end the population ends at the highest number that arrived.\<close>

definition population :: "u64 \<Rightarrow> u64 option \<Rightarrow> u64 list \<Rightarrow> u64 set" where
  "population s e h =
     {q. in_population s e q \<and> (e = None \<longrightarrow> (\<exists>r \<in> arrived s e h. q \<le> r))}"

text \<open>First arrivals that come after a higher number; the list is read with the latest arrival first.\<close>

primrec late_firsts_rev :: "u64 list \<Rightarrow> nat" where
  "late_firsts_rev [] = 0"
| "late_firsts_rev (q # earlier) =
     (if q \<notin> set earlier \<and> (\<exists>y \<in> set earlier. q < y) then 1 else 0) + late_firsts_rev earlier"

definition late_firsts :: "u64 list \<Rightarrow> nat" where
  "late_firsts xs = late_firsts_rev (rev xs)"

text \<open>A fresh tracker over a population, built by the operations its callers use.\<close>

definition population_tracker :: "u64 \<Rightarrow> u64 option \<Rightarrow> usize option \<Rightarrow> sequence_tracker" where
  "population_tracker s e lim =
     (let t0 = (case lim of None \<Rightarrow> unanchored | Some l \<Rightarrow> with_max_examples l unanchored);
          t1 = anchor_start s t0
      in case e of None \<Rightarrow> t1 | Some x \<Rightarrow> anchor_end x t1)"

definition tracker_inv :: "u64 \<Rightarrow> u64 option \<Rightarrow> u64 list \<Rightarrow> sequence_tracker \<Rightarrow> bool" where
  "tracker_inv s e h t \<longleftrightarrow>
     st_start t = Some s \<and> st_end t = e \<and>
     (\<forall>i. is_seen (st_seen t) i \<longleftrightarrow> s + i \<in> arrived s e h) \<and>
     unat (st_received t) = length h \<and>
     unat (st_unique t) = card (arrived s e h) \<and>
     unat (st_duplicates t) + card (arrived s e h) = length (filter (in_population s e) h) \<and>
     unat (st_out_of_range t) = length (filter (\<lambda>q. \<not> in_population s e q) h) \<and>
     st_highest t = (if arrived s e h = {} then None else Some (Max (arrived s e h))) \<and>
     unat (st_out_of_order t) = late_firsts (filter (in_population s e) h)"

lemma index_of_Some_iff:
  "index_of t q = Some i \<longleftrightarrow>
     (\<exists>s. st_start t = Some s \<and> in_population s (st_end t) q \<and> i = q - s)"
  by (auto simp: index_of_def in_population_def checked_sub_def split: option.splits if_splits)

lemma index_of_None_iff:
  "st_start t = Some s \<Longrightarrow> index_of t q = None \<longleftrightarrow> \<not> in_population s (st_end t) q"
  by (auto simp: index_of_def in_population_def checked_sub_def split: option.splits if_splits)

lemma arrived_simps [simp]:
  "arrived s e [] = {}"
  "arrived s e (h @ [q]) = (if in_population s e q then insert q (arrived s e h) else arrived s e h)"
  by (auto simp: arrived_def)

lemma finite_arrived [simp]: "finite (arrived s e h)"
  by (simp add: arrived_def)

lemma set_filter_population: "set (filter (in_population s e) h) = arrived s e h"
  by (auto simp: arrived_def)

lemma card_arrived_le: "card (arrived s e h) \<le> length (filter (in_population s e) h)"
  by (metis set_filter_population card_length)

lemma late_firsts_Nil [simp]: "late_firsts [] = 0"
  by (simp add: late_firsts_def)

lemma late_firsts_snoc:
  "late_firsts (xs @ [x]) =
     late_firsts xs + (if x \<notin> set xs \<and> (\<exists>y \<in> set xs. x < y) then 1 else 0)"
  by (simp add: late_firsts_def)

lemma late_firsts_rev_le: "late_firsts_rev xs \<le> length xs"
  by (induction xs) auto

lemma late_firsts_le: "late_firsts xs \<le> length xs"
  using late_firsts_rev_le [of "rev xs"] by (simp add: late_firsts_def)

lemma tracker_inv_fresh: "tracker_inv s e [] (population_tracker s e lim)"
  by (auto simp: tracker_inv_def population_tracker_def unanchored_def tracker_new_def
      anchor_start_def anchor_end_def with_max_examples_def is_seen_iff Let_def
      split: option.splits)

lemma seen_index_iff:
  assumes "tracker_inv s e h t" "in_population s e q"
  shows "is_seen (st_seen t) (q - s) \<longleftrightarrow> q \<in> set h"
proof -
  from assms(1) have "is_seen (st_seen t) (q - s) \<longleftrightarrow> s + (q - s) \<in> arrived s e h"
    unfolding tracker_inv_def by blast
  with assms(2) show ?thesis by (simp add: arrived_def)
qed

text \<open>One arrival: what is reported, and that the invariant extends to the longer history.\<close>

lemma record_seq_outcome:
  assumes "tracker_inv s e h t"
  shows "snd (record_seq q t) =
     (if \<not> in_population s e q then OutOfRange else if q \<in> set h then Duplicate else Unique)"
proof -
  from assms have st: "st_start t = Some s" "st_end t = e"
    by (simp_all add: tracker_inv_def)
  then have t1: "anchor_start q t = t" by (simp add: anchor_start_def)
  have idx: "index_of (t\<lparr>st_received := r\<rparr>) q = (if in_population s e q then Some (q - s) else None)" for r
    using st by (auto simp: index_of_Some_iff index_of_None_iff)
  show ?thesis
    using seen_index_iff [OF assms, of q] by (simp add: record_seq_def t1 idx Let_def)
qed

lemma tracker_inv_bounds:
  assumes "tracker_inv s e h t"
  shows "unat (st_received t) \<le> length h" "unat (st_out_of_range t) \<le> length h"
    "unat (st_duplicates t) \<le> length h" "unat (st_unique t) \<le> length h"
    "unat (st_out_of_order t) \<le> length h"
proof -
  have le: "length (filter P h) \<le> length h" for P by (rule length_filter_le)
  note le' = le [of "in_population s e"] le [of "\<lambda>q. \<not> in_population s e q"]
    card_arrived_le [of s e h] late_firsts_le [of "filter (in_population s e) h"]
  from assms show "unat (st_received t) \<le> length h" by (simp add: tracker_inv_def)
  from assms le' show "unat (st_out_of_range t) \<le> length h" unfolding tracker_inv_def by linarith
  from assms le' show "unat (st_duplicates t) \<le> length h" unfolding tracker_inv_def by linarith
  from assms le' show "unat (st_unique t) \<le> length h" unfolding tracker_inv_def by linarith
  from assms le' show "unat (st_out_of_order t) \<le> length h" unfolding tracker_inv_def by linarith
qed

lemma tracker_inv_record:
  assumes inv: "tracker_inv s e h t" and len: "length h + 1 < 2 ^ 64"
  shows "tracker_inv s e (h @ [q]) (fst (record_seq q t))"
proof -
  from inv have st: "st_start t = Some s" "st_end t = e"
    by (simp_all add: tracker_inv_def)
  then have t1: "anchor_start q t = t" by (simp add: anchor_start_def)
  have idx: "index_of (t\<lparr>st_received := r\<rparr>) q = (if in_population s e q then Some (q - s) else None)" for r
    using st by (auto simp: index_of_Some_iff index_of_None_iff)
  have inc: "unat (sat_add x 1) = Suc (unat x)" if "unat x \<le> length h" for x :: u64
    using that len by (simp add: sat_add_one_less)
  have incs: "unat (sat_add (st_received t) 1) = Suc (unat (st_received t))"
      "unat (sat_add (st_out_of_range t) 1) = Suc (unat (st_out_of_range t))"
      "unat (sat_add (st_duplicates t) 1) = Suc (unat (st_duplicates t))"
      "unat (sat_add (st_unique t) 1) = Suc (unat (st_unique t))"
      "unat (sat_add (st_out_of_order t) 1) = Suc (unat (st_out_of_order t))"
    using tracker_inv_bounds [OF inv] by (simp_all add: inc)
  show ?thesis
  proof (cases "in_population s e q")
    case False
    with inv show ?thesis
      by (simp add: record_seq_def t1 idx Let_def tracker_inv_def incs)
  next
    case pop: True
    note seen = seen_index_iff [OF inv pop]
    show ?thesis
    proof (cases "q \<in> set h")
      case True
      with pop have "insert q (arrived s e h) = arrived s e h" by (auto simp: arrived_def)
      with inv pop seen True show ?thesis
        by (simp add: record_seq_def t1 idx Let_def tracker_inv_def incs late_firsts_snoc)
    next
      case False
      then have notin: "q \<notin> arrived s e h" by (simp add: arrived_def)
      have marks: "is_seen (mark (st_seen t) (q - s)) i \<longleftrightarrow> s + i = q \<or> s + i \<in> arrived s e h" for i
        using inv by (auto simp: bs.member_insert tracker_inv_def)
      have hi: "st_highest t = (if arrived s e h = {} then None else Some (Max (arrived s e h)))"
        using inv by (simp add: tracker_inv_def)
      have above: "(\<exists>y \<in> arrived s e h. q < y) \<longleftrightarrow>
          (case st_highest t of None \<Rightarrow> False | Some x \<Rightarrow> q < x)"
        by (auto simp: hi Max_gr_iff)
      have "record_seq q t = (let t2 = t\<lparr>st_received := sat_add (st_received t) 1,
              st_seen := mark (st_seen t) (q - s), st_unique := sat_add (st_unique t) 1,
              st_out_of_order := (if \<exists>y \<in> arrived s e h. q < y
                 then sat_add (st_out_of_order t) 1 else st_out_of_order t)\<rparr>
            in (t2\<lparr>st_highest := Some (Max (insert q (arrived s e h)))\<rparr>, Unique))"
        using pop seen False unfolding above
        by (simp add: record_seq_def t1 idx Let_def hi max.commute split: option.splits)
      moreover have "late_firsts (filter (in_population s e) h @ [q]) =
          late_firsts (filter (in_population s e) h) + (if \<exists>y \<in> arrived s e h. q < y then 1 else 0)"
        using False by (auto simp: late_firsts_snoc arrived_def)
      ultimately show ?thesis
        using inv pop notin by (simp add: tracker_inv_def Let_def incs marks)
    qed
  qed
qed

lemma tracker_inv_run:
  "length h < 2 ^ 64 \<Longrightarrow> tracker_inv s e h (record_all h (population_tracker s e lim))"
  by (induction h rule: rev_induct) (simp_all add: tracker_inv_fresh tracker_inv_record)

section \<open>Missing numbers\<close>

lemma population_iff_offset:
  assumes inv: "tracker_inv s e h t" and "\<forall>q \<in> arrived s e h. q \<noteq> - 1"
  shows "q \<in> population s e h \<longleftrightarrow> s \<le> q \<and> unat q - unat s < unat (expected t)"
proof (cases e)
  case (Some x)
  with inv have "expected t = min (sat_sub x s) MAX_TRACKED_SEQUENCES"
    by (simp add: expected_def tracker_inv_def)
  with Some show ?thesis
    by (auto simp: population_def in_population_def min_def word_le_nat_alt word_less_nat_alt
        unat_sub_if' unat_sat_sub split: if_splits)
next
  case None
  show ?thesis
  proof (cases "arrived s e h = {}")
    case True
    with None inv show ?thesis by (simp add: population_def expected_def tracker_inv_def)
  next
    case False
    define m where "m = Max (arrived s e h)"
    have m: "m \<in> arrived s e h" using False by (simp add: m_def)
    have ub: "(\<exists>r \<in> arrived s e h. q \<le> r) \<longleftrightarrow> q \<le> m"
      using False by (simp add: m_def Max_ge_iff)
    have "unat (sat_add m 1) = unat m + 1"
    proof (rule sat_add_one_less)
      from assms(2) m have "m \<noteq> - 1" by blast
      then have "unat m \<noteq> unat (- 1 :: u64)" by (metis word_unat_eq_iff)
      then have "unat m \<noteq> 2 ^ 64 - 1" by (simp add: unat_max)
      moreover have "unat m \<le> 2 ^ 64 - 1" using unat_le_max [of m] by simp
      ultimately show "unat m + 1 < 2 ^ LENGTH(64)" by simp
    qed
    moreover have "expected t = min (sat_sub (sat_add m 1) s) MAX_TRACKED_SEQUENCES"
      using inv None False by (simp add: expected_def tracker_inv_def m_def)
    ultimately show ?thesis
      using None ub
      by (auto simp: population_def in_population_def min_def word_le_nat_alt word_less_nat_alt
          unat_sub_if' unat_sat_sub split: if_splits)
  qed
qed

lemma expected_fits:
  assumes "st_start t = Some s" "i < unat (expected t)"
  shows "unat s + i < 2 ^ 64 - 1"
proof -
  obtain x :: u64 where "expected t = min (sat_sub x s) MAX_TRACKED_SEQUENCES"
    using assms by (auto simp: expected_def split: option.splits)
  then have "unat (expected t) \<le> unat x - unat s"
    by (simp add: min_def word_le_nat_alt unat_sat_sub split: if_splits)
  moreover have "unat x \<le> 2 ^ 64 - 1" using unat_le_max [of x] by simp
  ultimately show ?thesis using assms(2) by linarith
qed

lemma unat_offset:
  "st_start t = Some s \<Longrightarrow> i < unat (expected t) \<Longrightarrow> unat (s + of_nat i) = unat s + i"
  using expected_fits [of t s i] by (simp add: unat_word_ariths unat_of_nat)

lemma population_image:
  assumes inv: "tracker_inv s e h t" and "\<forall>q \<in> arrived s e h. q \<noteq> - 1"
  shows "population s e h = (\<lambda>i. s + of_nat i) ` {..<unat (expected t)}"
proof -
  note iff = population_iff_offset [OF assms]
  from inv have st: "st_start t = Some s" by (simp add: tracker_inv_def)
  show ?thesis
  proof (intro set_eqI iffI)
    fix q assume "q \<in> population s e h"
    with iff have "s \<le> q" "unat q - unat s < unat (expected t)" by simp_all
    moreover from this have "q = s + of_nat (unat q - unat s)"
      by (simp add: word_le_nat_alt of_nat_diff)
    ultimately show "q \<in> (\<lambda>i. s + of_nat i) ` {..<unat (expected t)}" by blast
  next
    fix q assume "q \<in> (\<lambda>i. s + of_nat i) ` {..<unat (expected t)}"
    then show "q \<in> population s e h"
      using unat_offset [OF st] by (auto simp: iff word_le_nat_alt)
  qed
qed

lemma inj_offset: "st_start t = Some s \<Longrightarrow> inj_on (\<lambda>i. s + of_nat i) {..<unat (expected t)}"
  by (rule inj_onI) (metis unat_offset lessThan_iff add_left_cancel)

lemma card_population:
  assumes "tracker_inv s e h t" "\<forall>q \<in> arrived s e h. q \<noteq> - 1"
  shows "card (population s e h) = unat (expected t)"
  using assms inj_offset [of t s]
  by (simp add: population_image card_image tracker_inv_def)

lemma arrived_subset_population: "arrived s e h \<subseteq> population s e h"
  by (auto simp: arrived_def population_def)

lemma population_diff: "population s e h - set h = population s e h - arrived s e h"
  by (auto simp: arrived_def population_def)

lemma missing_card:
  assumes "tracker_inv s e h t" "\<forall>q \<in> arrived s e h. q \<noteq> - 1"
  shows "unat (missing t) = card (population s e h - set h)"
proof -
  have "unat (missing t) = card (population s e h) - card (arrived s e h)"
    using assms by (simp add: missing_def unat_sat_sub card_population tracker_inv_def)
  then show ?thesis
    by (simp add: population_diff card_Diff_subset arrived_subset_population)
qed

subsection \<open>The runs of missing numbers\<close>

text \<open>
  The specification of the scan: the maximal runs of indices below \<open>k\<close> that satisfy \<open>U\<close>, with
  the run still open at \<open>k\<close> kept apart.
\<close>

fun runs_upto :: "(nat \<Rightarrow> bool) \<Rightarrow> nat \<Rightarrow> nat option \<times> (nat \<times> nat) list" where
  "runs_upto U 0 = (None, [])"
| "runs_upto U (Suc k) =
     (case runs_upto U k of
        (None, rs) \<Rightarrow> (if U k then Some k else None, rs)
      | (Some f, rs) \<Rightarrow> if U k then (Some f, rs) else (None, rs @ [(f, k - 1)]))"

definition all_runs :: "(nat \<Rightarrow> bool) \<Rightarrow> nat \<Rightarrow> (nat \<times> nat) list" where
  "all_runs U k = (case runs_upto U k of (None, rs) \<Rightarrow> rs | (Some f, rs) \<Rightarrow> rs @ [(f, k - 1)])"

text \<open>Non-empty runs in ascending order with a gap between any two: the runs are maximal.\<close>

definition separated_runs :: "(nat \<times> nat) list \<Rightarrow> bool" where
  "separated_runs rs \<longleftrightarrow>
     (\<forall>(a, b) \<in> set rs. a \<le> b) \<and> sorted_wrt (\<lambda>(a, b) (c, d). b + 1 < c) rs"

definition run_elems :: "(nat \<times> nat) list \<Rightarrow> nat set" where
  "run_elems rs = (\<Union>(a, b) \<in> set rs. {a..b})"

lemma run_elems_snoc [simp]: "run_elems (rs @ [(a, b)]) = run_elems rs \<union> {a..b}"
  and run_elems_Nil [simp]: "run_elems [] = {}"
  by (auto simp: run_elems_def)

lemma separated_runs_snoc:
  "separated_runs (rs @ [(a, b)]) \<longleftrightarrow>
     separated_runs rs \<and> a \<le> b \<and> (\<forall>(c, d) \<in> set rs. d + 1 < a)"
  by (auto simp: separated_runs_def sorted_wrt_append)

lemma separated_runs_Nil [simp]: "separated_runs []"
  by (simp add: separated_runs_def)

lemma run_end_elem:
  assumes "separated_runs rs" "(c, d) \<in> set rs"
  shows "d \<in> run_elems rs"
proof -
  from assms have "c \<le> d" by (auto simp: separated_runs_def)
  with assms(2) show ?thesis unfolding run_elems_def by (intro UN_I) auto
qed

lemma runs_upto_inv:
  "runs_upto U k = (r, rs) \<Longrightarrow>
     separated_runs rs \<and>
     (case r of
        None \<Rightarrow> run_elems rs = {i. i < k \<and> U i} \<and> (k = 0 \<or> \<not> U (k - 1))
      | Some f \<Rightarrow> f < k \<and> run_elems rs \<union> {f..k - 1} = {i. i < k \<and> U i} \<and>
          (\<forall>(c, d) \<in> set rs. d + 1 < f))"
proof (induction k arbitrary: r rs)
  case 0
  then show ?case by auto
next
  case (Suc k)
  obtain r0 rs0 where prev: "runs_upto U k = (r0, rs0)" by fastforce
  note IH = Suc.IH [OF prev]
  show ?case
  proof (cases r0)
    case None
    show ?thesis
    proof (cases "U k")
      case True
      have "d + 1 < k" if "(c, d) \<in> set rs0" for c d
      proof -
        from IH None have "separated_runs rs0" and re: "run_elems rs0 = {i. i < k \<and> U i}"
          and "k = 0 \<or> \<not> U (k - 1)" by simp_all
        moreover from run_end_elem [OF this(1) that] have "d \<in> {i. i < k \<and> U i}"
          by (simp only: re)
        ultimately have "d < k" "d \<noteq> k - 1" by auto
        then show ?thesis by linarith
      qed
      then have sep: "\<forall>(c, d) \<in> set rs0. d + 1 < k" by blast
      have "{i. i < Suc k \<and> U i} = insert k {i. i < k \<and> U i}"
        using True by (auto simp: less_Suc_eq)
      moreover from Suc.prems prev None True have "r = Some k" "rs = rs0" by simp_all
      ultimately show ?thesis using sep IH None by simp
    next
      case False
      then have "{i. i < Suc k \<and> U i} = {i. i < k \<and> U i}" by (auto simp: less_Suc_eq)
      moreover from Suc.prems prev None False have "r = None" "rs = rs0" by simp_all
      ultimately show ?thesis using IH None False by simp
    qed
  next
    case (Some f)
    with IH have f: "f < k" "run_elems rs0 \<union> {f..k - 1} = {i. i < k \<and> U i}"
      "\<forall>(c, d) \<in> set rs0. d + 1 < f" "separated_runs rs0" by auto
    have "{f..k} = insert k {f..k - 1}" using f(1) by auto
    then have "run_elems rs0 \<union> {f..k} = {i. i < Suc k \<and> U i}" if "U k"
      using f(2) that by (auto simp: less_Suc_eq)
    moreover have "{i. i < Suc k \<and> U i} = {i. i < k \<and> U i}" if "\<not> U k"
      using that by (auto simp: less_Suc_eq)
    moreover from Suc.prems prev Some
    have "(r, rs) = (if U k then (Some f, rs0) else (None, rs0 @ [(f, k - 1)]))" by simp
    ultimately show ?thesis
      using f by (cases "U k") (simp_all add: separated_runs_snoc)
  qed
qed

lemma all_runs_spec:
  "separated_runs (all_runs U k)" "run_elems (all_runs U k) = {i. i < k \<and> U i}"
proof -
  obtain r rs where "runs_upto U k = (r, rs)" by fastforce
  from runs_upto_inv [OF this] this
  show "separated_runs (all_runs U k)" "run_elems (all_runs U k) = {i. i < k \<and> U i}"
    by (auto simp: all_runs_def separated_runs_snoc split: option.splits)
qed

lemma length_runs_upto: "length (snd (runs_upto U k)) \<le> k - 1"
proof (induction k)
  case (Suc k)
  then show ?case
    by (cases k) (auto split: prod.splits option.splits)
qed simp

text \<open>
  The loop over \<open>0..expected\<close> refines the specification: its open run is the specification's, the
  listed ranges are the first \<open>limit\<close> runs shifted by the start, the total counts every run.
\<close>

definition shift_run :: "u64 \<Rightarrow> nat \<times> nat \<Rightarrow> u64 \<times> u64" where
  "shift_run st r = (case r of (a, b) \<Rightarrow> (st + of_nat a, st + of_nat b))"

definition ranges_refine :: "u64 \<Rightarrow> usize \<Rightarrow> (nat \<times> nat) list \<Rightarrow> missing_ranges \<Rightarrow> bool" where
  "ranges_refine st limit rs m \<longleftrightarrow>
     mr_ranges m = map (shift_run st) (take limit rs) \<and> mr_total m = of_nat (length rs)"

lemma sat_add_offset:
  fixes st :: u64
  assumes "unat st + i < 2 ^ 64" shows "sat_add st (of_nat i) = st + of_nat i"
proof -
  have "unat (of_nat i :: u64) = i" using assms by (simp add: unat_of_nat)
  then show ?thesis using assms by (simp add: sat_add_def le_diff_max)
qed

lemma ranges_refine_push:
  assumes "ranges_refine st limit rs m" "unat st + b < 2 ^ 64" "a \<le> b" "length rs + 1 < 2 ^ 64"
  shows "ranges_refine st limit (rs @ [(a, b)]) (ranges_push st (of_nat a) (of_nat b) limit m)"
proof -
  have len: "length (take limit rs) < limit \<longleftrightarrow> length rs < limit" by auto
  have "sat_add (of_nat (length rs) :: u64) 1 = of_nat (length rs) + 1"
    using assms(4) sat_add_offset [of "of_nat (length rs) :: u64" 1] by (simp add: unat_of_nat)
  with assms len show ?thesis
    by (auto simp: ranges_refine_def ranges_push_def Let_def shift_run_def sat_add_offset add.commute)
qed

lemma missing_step_simps:
  "missing_step seen st limit i (None, m) = (if is_seen seen i then None else Some i, m)"
  "missing_step seen st limit i (Some f, m) =
     (if is_seen seen i then (None, ranges_push st f (sat_sub i 1) limit m) else (Some f, m))"
  by (simp_all add: missing_step_def)

lemma scan_refines:
  fixes seen :: "u64 list" and st :: u64
  assumes "unat st + k \<le> 2 ^ 64" "k < 2 ^ 64"
  defines "U \<equiv> \<lambda>i. \<not> is_seen seen (of_nat i)"
  shows "\<exists>m. fold (missing_step seen st limit) (map of_nat [0..<k]) (None, missing_ranges_default) =
           (map_option of_nat (fst (runs_upto U k)), m) \<and>
         ranges_refine st limit (snd (runs_upto U k)) m"
  using assms(1,2)
proof (induction k)
  case 0
  show ?case by (simp add: ranges_refine_def missing_ranges_default_def)
next
  case (Suc k)
  then obtain m where m: "fold (missing_step seen st limit) (map of_nat [0..<k]) (None, missing_ranges_default) =
      (map_option of_nat (fst (runs_upto U k)), m)"
    "ranges_refine st limit (snd (runs_upto U k)) m" by auto
  obtain r rs where prev: "runs_upto U k = (r, rs)" by fastforce
  have len: "length rs + 1 < 2 ^ 64"
    using length_runs_upto [of U k] prev Suc.prems by simp
  have pred: "sat_sub (of_nat k :: u64) 1 = of_nat (k - 1)" if "0 < k"
    using that Suc.prems by (simp add: sat_sub_def word_le_nat_alt unat_of_nat of_nat_diff)
  show ?case
  proof (cases r)
    case None
    with prev m show ?thesis by (simp add: missing_step_simps U_def)
  next
    case (Some f)
    with runs_upto_inv [OF prev] have "f \<le> k - 1" "0 < k" by auto
    with ranges_refine_push [of st limit rs m "k - 1" f] m prev len Suc.prems Some pred
    show ?thesis by (simp add: missing_step_simps U_def)
  qed
qed

lemma missing_ranges_refines:
  assumes "st_start t = Some s" "0 < unat (expected t)"
  shows "ranges_refine s (case st_max_examples t of None \<Rightarrow> 2 ^ 64 - 1 | Some l \<Rightarrow> l)
           (all_runs (\<lambda>i. \<not> is_seen (st_seen t) (of_nat i)) (unat (expected t)))
           (missing_ranges_of t)"
proof -
  define k U limit where "k = unat (expected t)"
    and "U = (\<lambda>i. \<not> is_seen (st_seen t) (of_nat i))"
    and "limit = (case st_max_examples t of None \<Rightarrow> 2 ^ 64 - 1 | Some l \<Rightarrow> l)"
  have fits: "unat s + (k - 1) < 2 ^ 64 - 1" using expected_fits [OF assms(1), of "k - 1"] assms(2) by (simp add: k_def)
  then have kb: "unat s + k \<le> 2 ^ 64" "k < 2 ^ 64" using assms(2) by (auto simp: k_def)
  then obtain m where m: "fold (missing_step (st_seen t) s limit) (map of_nat [0..<k]) (None, missing_ranges_default) =
      (map_option of_nat (fst (runs_upto U k)), m)" "ranges_refine s limit (snd (runs_upto U k)) m"
    using scan_refines [OF kb, of "st_seen t" limit] by (auto simp: U_def)
  obtain r rs where prev: "runs_upto U k = (r, rs)" by fastforce
  have len: "length rs + 1 < 2 ^ 64"
    using length_runs_upto [of U k] prev fits by simp
  have pred: "sat_sub (expected t) 1 = of_nat (k - 1)"
    using assms(2) by (simp add: sat_sub_def word_le_nat_alt k_def of_nat_diff)
  have "ranges_refine s limit (all_runs U k) (missing_ranges_of t)"
  proof (cases r)
    case None
    with prev m assms(1) show ?thesis
      by (simp add: missing_ranges_of_def all_runs_def Let_def limit_def k_def)
  next
    case (Some f)
    with runs_upto_inv [OF prev] have "f \<le> k - 1" by auto
    with ranges_refine_push [of s limit rs m "k - 1" f] m prev len fits Some pred assms(1)
    show ?thesis by (simp add: missing_ranges_of_def all_runs_def Let_def limit_def k_def)
  qed
  then show ?thesis by (simp add: k_def U_def limit_def)
qed

text \<open>The same set, read as sequence numbers.\<close>

definition range_elems :: "(u64 \<times> u64) list \<Rightarrow> u64 set" where
  "range_elems rs = (\<Union>(a, b) \<in> set rs. {a..b})"

lemma range_elems_shift:
  assumes "separated_runs rs" "run_elems rs \<subseteq> {..<k}" "\<And>i. i < k \<Longrightarrow> unat (st + of_nat i) = unat st + i"
  shows "range_elems (map (shift_run st) rs) = (\<lambda>i. st + of_nat i) ` run_elems rs"
proof -
  have "{st + of_nat a..st + of_nat b} = (\<lambda>i. st + of_nat i) ` {a..b}"
    if "(a, b) \<in> set rs" for a b
  proof -
    from assms(1) that have ab: "a \<le> b" by (auto simp: separated_runs_def)
    have "b < k" using run_end_elem [OF assms(1) that] assms(2) by auto
    note un = assms(3) [OF this] assms(3) [OF le_less_trans [OF ab this]]
    show ?thesis
    proof (intro set_eqI iffI)
      fix q assume "q \<in> {st + of_nat a..st + of_nat b}"
      then have "unat st + a \<le> unat q" "unat q \<le> unat st + b"
        using un by (simp_all add: word_le_nat_alt)
      moreover from this have "q = st + of_nat (unat q - unat st)" by (simp add: of_nat_diff)
      ultimately show "q \<in> (\<lambda>i. st + of_nat i) ` {a..b}" by (intro image_eqI [where x = "unat q - unat st"]) auto
    next
      fix q assume "q \<in> (\<lambda>i. st + of_nat i) ` {a..b}"
      then show "q \<in> {st + of_nat a..st + of_nat b}"
        using un assms(3) \<open>b < k\<close> by (auto simp: word_le_nat_alt)
    qed
  qed
  then show ?thesis
    unfolding range_elems_def run_elems_def by (auto simp: shift_run_def image_UN split: prod.splits)
qed

lemma missing_ranges_missing:
  assumes inv: "tracker_inv s e h t" and ne: "\<forall>q \<in> arrived s e h. q \<noteq> - 1"
  shows "\<exists>rs. separated_runs rs \<and> run_elems rs = {i. i < unat (expected t) \<and> s + of_nat i \<notin> set h} \<and>
     range_elems (map (shift_run s) rs) = population s e h - set h \<and>
     ranges_refine s (case st_max_examples t of None \<Rightarrow> 2 ^ 64 - 1 | Some l \<Rightarrow> l) rs
       (missing_ranges_of t)"
proof (cases "unat (expected t) = 0")
  case True
  with inv have "missing_ranges_of t = missing_ranges_default"
    by (simp add: missing_ranges_of_def tracker_inv_def)
  moreover have "population s e h = {}"
    using True population_image [OF inv ne] by simp
  ultimately show ?thesis using True
    by (intro exI [of _ "[]"]) (simp add: ranges_refine_def missing_ranges_default_def range_elems_def)
next
  case False
  let ?k = "unat (expected t)" and ?U = "\<lambda>i. \<not> is_seen (st_seen t) (of_nat i)"
  from inv have st: "st_start t = Some s" by (simp add: tracker_inv_def)
  have U: "?U i \<longleftrightarrow> s + of_nat i \<notin> set h" if "i < ?k" for i
  proof -
    have "s + of_nat i \<in> population s e h" using that population_image [OF inv ne] by auto
    then have "in_population s e (s + of_nat i)" by (simp add: population_def)
    from seen_index_iff [OF inv this] show ?thesis by simp
  qed
  then have el: "run_elems (all_runs ?U ?k) = {i. i < ?k \<and> s + of_nat i \<notin> set h}"
    by (auto simp: all_runs_spec)
  moreover from this have "range_elems (map (shift_run s) (all_runs ?U ?k)) =
      (\<lambda>i. s + of_nat i) ` {i. i < ?k \<and> s + of_nat i \<notin> set h}"
    using range_elems_shift [of "all_runs ?U ?k" ?k s] unat_offset [OF st] by (auto simp: all_runs_spec)
  moreover have "\<dots> = population s e h - set h"
    by (auto simp: population_image [OF inv ne])
  ultimately show ?thesis
    using missing_ranges_refines [OF st] False all_runs_spec(1) by (intro exI [of _ "all_runs ?U ?k"]) simp
qed

section \<open>Properties\<close>

text \<open>
  An arrival is classified by the history alone: out of range when it is outside the
  population, a duplicate when the same number arrived before, unique otherwise, even when it
  arrives late.
\<close>

theorem record_outcome_exact:
  assumes "length h < 2 ^ 64"
  shows "snd (record_seq q (record_all h (population_tracker s e lim))) =
     (if \<not> in_population s e q then OutOfRange else if q \<in> set h then Duplicate else Unique)"
  by (rule record_seq_outcome [OF tracker_inv_run [OF assms]])

theorem record_outcome_exact_witness:
  "snd (record_seq 2 (record_all [0, 1, 3] (population_tracker 0 (Some 10) None))) = Unique"
  using record_outcome_exact [of "[0, 1, 3]" 2 0 "Some 10" None]
  by (simp add: in_population_def MAX_TRACKED_SEQUENCES_def)

text \<open>
  The counters account for every arrival: each is unique, a duplicate or out of range, the
  unique count is the number of distinct population members that arrived, and reorderings are the
  first arrivals that came after a higher number.
\<close>

theorem sequence_accounting:
  assumes "length h < 2 ^ 64"
  shows "let t = record_all h (population_tracker s e lim) in
    unat (st_received t) = length h \<and>
    unat (st_unique t) + unat (st_duplicates t) + unat (st_out_of_range t) = length h \<and>
    unat (st_unique t) = card {q \<in> set h. in_population s e q} \<and>
    unat (st_out_of_order t) = late_firsts (filter (in_population s e) h)"
  using tracker_inv_run [OF assms(1), of s e lim] sum_length_filter_compl [of "in_population s e" h]
  by (simp add: Let_def tracker_inv_def arrived_def)

theorem sequence_accounting_witness:
  "unat (st_duplicates (record_all [0, 2, 1, 2] (population_tracker 0 None (Some 4)))) \<le> 4 \<and>
   unat (st_received (record_all [0, 2, 1, 2] (population_tracker 0 None (Some 4)))) = 4"
  using sequence_accounting [of "[0, 2, 1, 2]" 0 None "Some 4"] by (auto simp: Let_def)

text \<open>
  The missing count is exact: the population members that never arrived, the tail before a
  declared end included. (Without a declared end a number \<open>u64::MAX\<close> would make the population
  end saturate, so such an arrival is excluded.)
\<close>

theorem missing_exact:
  assumes "length h < 2 ^ 64" "- 1 \<notin> set h"
  shows "unat (missing (record_all h (population_tracker s e lim))) = card (population s e h - set h)"
  using assms by (intro missing_card tracker_inv_run) (auto simp: arrived_def)

theorem missing_exact_witness:
  "unat (missing (record_all [0, 1, 2, 5, 5, 6] (population_tracker 0 None None))) =
     card (population 0 None [0, 1, 2, 5, 5, 6] - {0, 1, 2, 5, 6})"
  using missing_exact [of "[0, 1, 2, 5, 5, 6]" 0 None None] by simp

text \<open>
  The listed ranges are the first runs (up to the example limit) of a list of maximal,
  ascending runs that together hold exactly the missing numbers, and the total counts all of them.
\<close>

theorem missing_ranges_exact:
  assumes "length h < 2 ^ 64" "- 1 \<notin> set h"
  shows "let t = record_all h (population_tracker s e lim) in
     \<exists>rs. separated_runs rs \<and>
     range_elems (map (shift_run s) rs) = population s e h - set h \<and>
     mr_ranges (missing_ranges_of t) =
       map (shift_run s) (take (case st_max_examples t of None \<Rightarrow> 2 ^ 64 - 1 | Some l \<Rightarrow> l) rs) \<and>
     mr_total (missing_ranges_of t) = of_nat (length rs)"
proof -
  have "\<forall>q \<in> arrived s e h. q \<noteq> - 1" using assms(2) by (auto simp: arrived_def)
  from missing_ranges_missing [OF tracker_inv_run [OF assms(1), of s e lim] this]
  show ?thesis unfolding Let_def ranges_refine_def by blast
qed

theorem missing_ranges_exact_witness:
  "\<exists>rs. separated_runs rs \<and>
     range_elems (map (shift_run 0) rs) = population 0 (Some 10) [0, 3, 4] - {0, 3, 4}"
  using missing_ranges_exact [of "[0, 3, 4]" 0 "Some 10" None] by (auto simp: Let_def)

section \<open>Latency samples\<close>

definition LATENCY_LOWEST_NS :: u64 where
  "LATENCY_LOWEST_NS = 1000"

definition LATENCY_HIGHEST_NS :: u64 where
  "LATENCY_HIGHEST_NS = 3600000000000"

record latency_clamps =
  lc_negative :: u64
  lc_above_highest :: u64

definition bound :: "u64 \<Rightarrow> u64 \<Rightarrow> latency_clamps \<Rightarrow> latency_clamps \<times> u64" where
  "bound frm to c =
     (case checked_sub to frm of
        None \<Rightarrow> (c\<lparr>lc_negative := sat_add (lc_negative c) 1\<rparr>, LATENCY_LOWEST_NS)
      | Some elapsed \<Rightarrow>
          if elapsed > LATENCY_HIGHEST_NS
          then (c\<lparr>lc_above_highest := sat_add (lc_above_highest c) 1\<rparr>, LATENCY_HIGHEST_NS)
          else if elapsed < LATENCY_LOWEST_NS then (c, LATENCY_LOWEST_NS)
          else (c, elapsed))"

text \<open>A run of samples, as a histogram recorder feeds them.\<close>

fun bound_all :: "(u64 \<times> u64) list \<Rightarrow> latency_clamps \<Rightarrow> latency_clamps \<times> u64 list" where
  "bound_all [] c = (c, [])"
| "bound_all ((frm, to) # xs) c =
     (let (c1, v) = bound frm to c; (c2, vs) = bound_all xs c1 in (c2, v # vs))"

definition sample_backwards :: "u64 \<times> u64 \<Rightarrow> bool" where
  "sample_backwards p = (unat (snd p) < unat (fst p))"

definition sample_above :: "u64 \<times> u64 \<Rightarrow> bool" where
  "sample_above p = (unat (fst p) + unat LATENCY_HIGHEST_NS < unat (snd p))"

lemma bound_value:
  "unat (snd (bound frm to c)) =
     max (unat LATENCY_LOWEST_NS) (min (unat LATENCY_HIGHEST_NS) (unat to - unat frm))"
proof (cases "checked_sub to frm")
  case None
  then have "unat to < unat frm" by (simp add: checked_sub_None_iff)
  with None show ?thesis
    by (simp add: bound_def LATENCY_LOWEST_NS_def LATENCY_HIGHEST_NS_def)
next
  case (Some d)
  then have "unat d = unat to - unat frm" by (simp add: checked_sub_Some_iff)
  with Some show ?thesis
    by (auto simp: bound_def word_less_nat_alt LATENCY_LOWEST_NS_def LATENCY_HIGHEST_NS_def)
qed

lemma bound_counts:
  "fst (bound frm to c) = c\<lparr>
     lc_negative := (if sample_backwards (frm, to) then sat_add (lc_negative c) 1 else lc_negative c),
     lc_above_highest :=
       (if sample_above (frm, to) then sat_add (lc_above_highest c) 1 else lc_above_highest c)\<rparr>"
proof (cases "checked_sub to frm")
  case None
  then have "unat to < unat frm" by (simp add: checked_sub_None_iff)
  with None show ?thesis
    by (simp add: bound_def sample_backwards_def sample_above_def)
next
  case (Some d)
  then have d: "unat frm \<le> unat to" "unat d = unat to - unat frm"
    by (simp_all add: checked_sub_Some_iff)
  then have "sample_above (frm, to) \<longleftrightarrow> LATENCY_HIGHEST_NS < d"
    by (auto simp: sample_above_def word_less_nat_alt)
  with Some d show ?thesis by (simp add: bound_def sample_backwards_def)
qed

text \<open>
  Every latency sample is recorded at the elapsed time clamped into one microsecond to one
  hour, and the two clamp counters hold exactly how many samples ran backwards and how many
  exceeded the hour.
\<close>

theorem bound_all_exact:
  assumes "unat (lc_negative c) + length xs < 2 ^ 64"
    and "unat (lc_above_highest c) + length xs < 2 ^ 64"
  shows "map unat (snd (bound_all xs c)) =
      map (\<lambda>(frm, to). max 1000 (min 3600000000000 (unat to - unat frm))) xs \<and>
    unat (lc_negative (fst (bound_all xs c))) =
      unat (lc_negative c) + length (filter sample_backwards xs) \<and>
    unat (lc_above_highest (fst (bound_all xs c))) =
      unat (lc_above_highest c) + length (filter sample_above xs)"
  using assms
proof (induction xs c rule: bound_all.induct)
  case (1 c)
  then show ?case by simp
next
  case (2 frm to xs c)
  obtain c1 v where b: "bound frm to c = (c1, v)" by fastforce
  obtain c2 vs where r: "bound_all xs c1 = (c2, vs)" by fastforce
  have v: "unat v = max 1000 (min 3600000000000 (unat to - unat frm))"
    using bound_value [of frm to c] b by (simp add: LATENCY_LOWEST_NS_def LATENCY_HIGHEST_NS_def)
  have c1: "c1 = fst (bound frm to c)" using b by simp
  have "unat (lc_negative c1) = unat (lc_negative c) + (if sample_backwards (frm, to) then 1 else 0)"
    "unat (lc_above_highest c1) =
       unat (lc_above_highest c) + (if sample_above (frm, to) then 1 else 0)"
    using "2.prems" unfolding c1 bound_counts by (simp_all add: sat_add_one_less)
  with 2 b r v show ?case by simp
qed

theorem bound_all_exact_witness:
  "map unat (snd (bound_all [(10000, 5000), (10000, 10500), (10000, 2010000)]
      \<lparr>lc_negative = 0, lc_above_highest = 0\<rparr>)) = [1000, 1000, 2000000]"
  using bound_all_exact [of "\<lparr>lc_negative = 0, lc_above_highest = 0\<rparr>"
      "[(10000, 5000), (10000, 10500), (10000, 2010000)]"] by simp

end
