(* ===== verification/Config.thy ===== *)
theory Config
  imports Prelude
begin

text \<open>
  The configuration data model: \<open>wafer-types/src/config/mod.rs\<close>, \<open>engine.rs\<close>, \<open>pipeline.rs\<close> and
  \<open>source_sink.rs\<close>, with their defaults and accessors. A \<open>HashMap<String, NodeDef>\<close> is the list of
  its entries in the map's iteration order (keys distinct); a \<open>NonZero\<close> integer is a non-zero word;
  a floating point field is its bit pattern; a TOML value is opaque.
\<close>

typedecl toml_value

type_synonym f64_bits = u64

section \<open>Engine, error policy and overflow\<close>

text \<open>
  The metering deserializer: an absent value is unlimited, zero is refused.
\<close>

definition METERING_ZERO :: string where
  "METERING_ZERO =
     ''metering value must not be 0 (would trap immediately); omit the field for unlimited''"

definition deserialize_metering_limit :: "u64 option \<Rightarrow> (string, u64 option) result" where
  "deserialize_metering_limit v =
     (case v of
        None \<Rightarrow> Inr None
      | Some n \<Rightarrow> if n = 0 then Inl METERING_ZERO else Inr (Some n))"

definition serialize_metering_limit :: "u64 option \<Rightarrow> u64 option" where
  "serialize_metering_limit v = v"

record fuel_budgets =
  fb_transform :: "u64 option"
  fb_filter :: "u64 option"
  fb_router :: "u64 option"

definition fuel_budgets_default :: fuel_budgets where
  "fuel_budgets_default = \<lparr>fb_transform = None, fb_filter = None, fb_router = None\<rparr>"

record memory_limits =
  ml_transform :: usize
  ml_filter :: usize
  ml_router :: usize

definition memory_limits_default :: memory_limits where
  "memory_limits_default =
     \<lparr>ml_transform = 64 * 1024 * 1024, ml_filter = 16 * 1024 * 1024,
      ml_router = 16 * 1024 * 1024\<rparr>"

record hot_swap_config =
  hc_canary_success_count :: u32
  hc_canary_window_ms :: u64

definition hot_swap_config_default :: hot_swap_config where
  "hot_swap_config_default = \<lparr>hc_canary_success_count = 32, hc_canary_window_ms = 10000\<rparr>"

record engine_config =
  ec_epoch_deadline :: "u64 option"
  ec_epoch_tick_ms :: u64
  ec_default_queue_capacity :: usize
  ec_fuel :: fuel_budgets
  ec_memory :: memory_limits
  ec_hot_swap :: hot_swap_config

definition engine_config_default :: engine_config where
  "engine_config_default =
     \<lparr>ec_epoch_deadline = None, ec_epoch_tick_ms = 10, ec_default_queue_capacity = 1024,
      ec_fuel = fuel_budgets_default, ec_memory = memory_limits_default,
      ec_hot_swap = hot_swap_config_default\<rparr>"

datatype simple_action = Skip | Dlq | Teardown

definition simple_action_display :: "simple_action \<Rightarrow> string" where
  "simple_action_display a = (case a of Skip \<Rightarrow> ''skip'' | Dlq \<Rightarrow> ''dlq'' | Teardown \<Rightarrow> ''teardown'')"

record retry_config =
  rc_retries :: u32
  rc_backoff_ms :: u64
  rc_exhausted :: simple_action

definition retry_config_default :: retry_config where
  "retry_config_default = \<lparr>rc_retries = 3, rc_backoff_ms = 100, rc_exhausted = Dlq\<rparr>"

definition default_dependency_failed_retry :: retry_config where
  "default_dependency_failed_retry = \<lparr>rc_retries = 3, rc_backoff_ms = 100, rc_exhausted = Dlq\<rparr>"

definition default_processing_failed_retry :: retry_config where
  "default_processing_failed_retry = \<lparr>rc_retries = 2, rc_backoff_ms = 100, rc_exhausted = Dlq\<rparr>"

record error_policy_config =
  pc_bad_input :: simple_action
  pc_dependency_failed :: retry_config
  pc_processing_failed :: retry_config
  pc_timed_out :: simple_action
  pc_retry_buffer_capacity :: usize

definition error_policy_config_default :: error_policy_config where
  "error_policy_config_default =
     \<lparr>pc_bad_input = Dlq, pc_dependency_failed = default_dependency_failed_retry,
      pc_processing_failed = default_processing_failed_retry, pc_timed_out = Skip,
      pc_retry_buffer_capacity = 1000\<rparr>"

definition dlq_actions :: "error_policy_config \<Rightarrow> string list" where
  "dlq_actions p =
     map fst (filter (\<lambda>(_, a). a = Dlq)
       [(''bad_input'', pc_bad_input p), (''timed_out'', pc_timed_out p),
        (''dependency_failed.exhausted'', rc_exhausted (pc_dependency_failed p)),
        (''processing_failed.exhausted'', rc_exhausted (pc_processing_failed p))])"

datatype overflow_policy = Slow | Drop | DeadLetter

definition overflow_default :: overflow_policy where
  "overflow_default = Slow"

definition overflow_policy_display :: "overflow_policy \<Rightarrow> string" where
  "overflow_policy_display v =
     (case v of Slow \<Rightarrow> ''slow'' | Drop \<Rightarrow> ''drop'' | DeadLetter \<Rightarrow> ''dead-letter'')"

record tls_config =
  tls_ca :: "string option"
  tls_cert :: "string option"
  tls_key :: "string option"

record auth_config =
  au_username :: string
  au_password :: string

datatype dead_letter_config =
    DlMqtt string u16 string usize "tls_config option" "auth_config option"
  | DlFile string usize

definition dead_letter_queue_capacity :: "dead_letter_config \<Rightarrow> usize" where
  "dead_letter_queue_capacity d = (case d of DlMqtt _ _ _ n _ _ \<Rightarrow> n | DlFile _ n \<Rightarrow> n)"

section \<open>Outbound HTTP and capabilities\<close>

datatype http_scheme = Http | Https

definition default_port :: "http_scheme \<Rightarrow> u16" where
  "default_port s = (case s of Http \<Rightarrow> 80 | Https \<Rightarrow> 443)"

record outbound_http_destination =
  od_scheme :: http_scheme
  od_host :: string
  od_port :: "u16 option"

record capabilities =
  cap_inherit_stdio :: bool
  cap_inherit_env :: bool
  cap_allow_inference :: bool
  cap_outbound_http :: "outbound_http_destination list"

definition capabilities_default :: capabilities where
  "capabilities_default =
     \<lparr>cap_inherit_stdio = False, cap_inherit_env = False, cap_allow_inference = False,
      cap_outbound_http = []\<rparr>"

section \<open>Sources and sinks\<close>

definition default_mqtt_port :: u16 where
  "default_mqtt_port = 1883"

record mqtt_source_config =
  ms_broker :: string
  ms_port :: u16
  ms_topic :: string
  ms_qos :: u8
  ms_client_id :: "string option"
  ms_tls :: "tls_config option"
  ms_auth :: "auth_config option"

record mqtt_sink_config =
  mk_broker :: string
  mk_port :: u16
  mk_topic :: string
  mk_qos :: u8
  mk_client_id :: "string option"
  mk_retain :: bool
  mk_max_inflight :: "u16 option"
  mk_tls :: "tls_config option"
  mk_auth :: "auth_config option"

text \<open>\<open>u16::try_from(i64)\<close>, then \<open>NonZeroU16::new\<close>; the message prints the value.\<close>

definition deserialize_max_inflight :: "int \<Rightarrow> (string, u16 option) result" where
  "deserialize_max_inflight v =
     (if 0 < v \<and> v \<le> 65535 then Inr (Some (of_int v))
      else Inl (''max_inflight must be between 1 and 65535, got '' @
                (if v < 0 then ''-'' @ show_nat (nat (- v)) else show_nat (nat v))))"

record file_source_config =
  fs_path :: string

record file_sink_config =
  fk_path :: string
  fk_append :: bool

record http_source_config =
  hs_bind :: string
  hs_path :: string

record http_sink_config =
  hk_url :: string
  hk_method :: string

record bench_burst_config =
  bb_rate :: f64_bits
  bb_start_secs :: u64
  bb_end_secs :: u64

record bench_source_config =
  bsc_rate :: f64_bits
  bsc_total_messages :: u64
  bsc_warmup_messages :: u64
  bsc_payload_size :: usize
  bsc_burst :: "bench_burst_config option"

record bench_sink_config =
  bkc_warmup_secs :: u64
  bkc_track_sequences :: bool
  bkc_track_hotswap :: bool
  bkc_output_dir :: "string option"

datatype source_def =
    SourceMqtt mqtt_source_config
  | SourceFile file_source_config
  | SourceStdin
  | SourceHttp http_source_config
  | SourceBench bench_source_config

datatype sink_def =
    SinkMqtt mqtt_sink_config
  | SinkFile file_sink_config
  | SinkStdout
  | SinkHttp http_sink_config
  | SinkBench bench_sink_config

section \<open>Nodes, edges and the pipeline\<close>

datatype plugin_spec_structured = PluginWasm string | PluginNative string

datatype plugin_spec = WasmPath string | Structured plugin_spec_structured

definition wasm_path :: "plugin_spec \<Rightarrow> string option" where
  "wasm_path p =
     (case p of
        WasmPath s \<Rightarrow> Some s
      | Structured (PluginWasm s) \<Rightarrow> Some s
      | Structured (PluginNative _) \<Rightarrow> None)"

definition native_function :: "plugin_spec \<Rightarrow> string option" where
  "native_function p = (case p of Structured (PluginNative f) \<Rightarrow> Some f | _ \<Rightarrow> None)"

definition is_native :: "plugin_spec \<Rightarrow> bool" where
  "is_native p = (native_function p \<noteq> None)"

definition plugin_spec_default :: plugin_spec where
  "plugin_spec_default = WasmPath []"

definition plugin_spec_to_string :: "plugin_spec \<Rightarrow> string" where
  "plugin_spec_to_string p = (case wasm_path p of None \<Rightarrow> [] | Some s \<Rightarrow> s)"

record wasm_node_def =
  wd_plugin :: plugin_spec
  wd_fuel :: "u64 option"
  wd_capabilities :: capabilities
  wd_config :: "toml_value option"
  wd_memory_limit :: "usize option"
  wd_error_policy :: "error_policy_config option"
  wd_plugin_version :: "string option"

definition wasm_node_def_default :: wasm_node_def where
  "wasm_node_def_default =
     \<lparr>wd_plugin = plugin_spec_default, wd_fuel = None, wd_capabilities = capabilities_default,
      wd_config = None, wd_memory_limit = None, wd_error_policy = None, wd_plugin_version = None\<rparr>"

datatype node_def =
    NSource source_def
  | NSink sink_def
  | NTransform wasm_node_def
  | NFilter wasm_node_def
  | NRouter wasm_node_def

datatype node_category = CSource | CSink | CTransform | CFilter | CRouter

definition category :: "node_def \<Rightarrow> node_category" where
  "category n =
     (case n of NSource _ \<Rightarrow> CSource | NSink _ \<Rightarrow> CSink | NTransform _ \<Rightarrow> CTransform
      | NFilter _ \<Rightarrow> CFilter | NRouter _ \<Rightarrow> CRouter)"

definition node_category_display :: "node_category \<Rightarrow> string" where
  "node_category_display c =
     (case c of CSource \<Rightarrow> ''source'' | CSink \<Rightarrow> ''sink'' | CTransform \<Rightarrow> ''transform''
      | CFilter \<Rightarrow> ''filter'' | CRouter \<Rightarrow> ''router'')"

record edge_def =
  ed_from :: string
  ed_to :: string
  ed_port :: "string option"
  ed_capacity :: "usize option"
  ed_overflow :: "overflow_policy option"

record pipeline_config =
  pl_name :: "string option"
  pl_description :: "string option"

record api_config =
  api_enabled :: bool
  api_bind :: string

definition api_config_default :: api_config where
  "api_config_default = \<lparr>api_enabled = True, api_bind = ''127.0.0.1:9090''\<rparr>"

record metrics_config =
  mc_enabled :: bool
  mc_path :: string

definition metrics_config_default :: metrics_config where
  "metrics_config_default = \<lparr>mc_enabled = True, mc_path = ''/metrics''\<rparr>"

record registry_config =
  rg_cache_dir :: "string option"

record config =
  cf_pipeline :: "pipeline_config option"
  cf_engine :: engine_config
  cf_error_policy :: error_policy_config
  cf_dead_letter :: "dead_letter_config option"
  cf_registry :: "registry_config option"
  cf_api :: "api_config option"
  cf_metrics :: "metrics_config option"
  cf_nodes :: "(string \<times> node_def) list"
  cf_edges :: "edge_def list"

definition config_default :: config where
  "config_default =
     \<lparr>cf_pipeline = None, cf_engine = engine_config_default,
      cf_error_policy = error_policy_config_default, cf_dead_letter = None, cf_registry = None,
      cf_api = None, cf_metrics = None, cf_nodes = [], cf_edges = []\<rparr>"

definition effective_error_policy :: "config \<Rightarrow> string \<Rightarrow> error_policy_config option" where
  "effective_error_policy c n =
     (case map_of (cf_nodes c) n of
        None \<Rightarrow> None
      | Some d \<Rightarrow>
          (case d of
             NTransform w \<Rightarrow> Some (case wd_error_policy w of None \<Rightarrow> cf_error_policy c | Some p \<Rightarrow> p)
           | NFilter w \<Rightarrow> Some (case wd_error_policy w of None \<Rightarrow> cf_error_policy c | Some p \<Rightarrow> p)
           | NRouter w \<Rightarrow> Some (case wd_error_policy w of None \<Rightarrow> cf_error_policy c | Some p \<Rightarrow> p)
           | NSource _ \<Rightarrow> None
           | NSink _ \<Rightarrow> None))"

section \<open>Lemmas\<close>

lemma metering_roundtrip:
  "v \<noteq> Some 0 \<Longrightarrow> deserialize_metering_limit (serialize_metering_limit v) = Inr v"
  by (cases v) (simp_all add: deserialize_metering_limit_def serialize_metering_limit_def)

lemma metering_ok_nonzero: "deserialize_metering_limit v = Inr r \<Longrightarrow> r \<noteq> Some 0"
  by (auto simp: deserialize_metering_limit_def split: option.splits if_splits)

lemma plugin_wasm_xor_native: "(wasm_path p \<noteq> None) = (\<not> is_native p)"
  by (auto simp: wasm_path_def is_native_def native_function_def
      split: plugin_spec.splits plugin_spec_structured.splits)

end
