(* ===== verification/HttpDest.thy ===== *)
theory HttpDest
  imports Config
begin

text \<open>
  Outbound HTTP destinations: the canonicalisation and address rules of
  \<open>wafer-types/src/config/engine.rs\<close> and the grants of \<open>wafer-core/src/engine/capabilities.rs\<close>.
  \<open>str::parse::<IpAddr>\<close> is the parser of the Rust standard library, written out here.
\<close>

section \<open>Addresses\<close>

datatype ip_addr = V4 u8 u8 u8 u8 | V6 u16 u16 u16 u16 u16 u16 u16 u16

definition global_ipv4 :: "u8 \<Rightarrow> u8 \<Rightarrow> u8 \<Rightarrow> u8 \<Rightarrow> bool" where
  "global_ipv4 a b c d =
     (\<not> (a = 0 \<or> a = 10 \<or> a = 127 \<or> (a = 169 \<and> b = 254) \<or>
         (a = 172 \<and> b \<ge> 16 \<and> b \<le> 31) \<or> (a = 192 \<and> b = 168) \<or>
         (a = 100 \<and> b \<ge> 64 \<and> b \<le> 127) \<or> (a = 192 \<and> b = 0 \<and> c = 0) \<or>
         (a = 192 \<and> b = 0 \<and> c = 2) \<or> (a = 198 \<and> (b = 18 \<or> b = 19)) \<or>
         (a = 198 \<and> b = 51 \<and> c = 100) \<or> (a = 203 \<and> b = 0 \<and> c = 113) \<or> a \<ge> 224 \<or>
         (a = 255 \<and> b = 255 \<and> c = 255 \<and> d = 255)))"

text \<open>\<open>Ipv4Addr::is_loopback\<close> is 127/8, \<open>is_private\<close> is 10/8, 172.16/12 and 192.168/16.\<close>

definition permitted_literal_ipv4 :: "u8 \<Rightarrow> u8 \<Rightarrow> u8 \<Rightarrow> u8 \<Rightarrow> bool" where
  "permitted_literal_ipv4 a b c d =
     (a = 127 \<or> (a = 10 \<or> (a = 172 \<and> b \<ge> 16 \<and> b \<le> 31) \<or> (a = 192 \<and> b = 168)) \<or>
      global_ipv4 a b c d)"

text \<open>\<open>to_ipv4_mapped\<close> succeeds on ::ffff:0:0/96.\<close>

definition ipv4_mapped :: "ip_addr \<Rightarrow> bool" where
  "ipv4_mapped ip =
     (case ip of
        V6 s0 s1 s2 s3 s4 s5 _ _ \<Rightarrow>
          s0 = 0 \<and> s1 = 0 \<and> s2 = 0 \<and> s3 = 0 \<and> s4 = 0 \<and> s5 = 0xffff
      | V4 _ _ _ _ \<Rightarrow> False)"

unbundle bit_operations_syntax

definition global_ipv6 :: "u16 \<Rightarrow> u16 \<Rightarrow> u16 \<Rightarrow> u16 \<Rightarrow> u16 \<Rightarrow> u16 \<Rightarrow> u16 \<Rightarrow> u16 \<Rightarrow> bool" where
  "global_ipv6 s0 s1 s2 s3 s4 s5 s6 s7 =
     (s0 AND 0xe000 = 0x2000 \<and> \<not> (s0 = 0x2001 \<and> s1 = 0x0db8) \<and>
      \<not> ipv4_mapped (V6 s0 s1 s2 s3 s4 s5 s6 s7))"

definition permitted_literal_ipv6 ::
    "u16 \<Rightarrow> u16 \<Rightarrow> u16 \<Rightarrow> u16 \<Rightarrow> u16 \<Rightarrow> u16 \<Rightarrow> u16 \<Rightarrow> u16 \<Rightarrow> bool" where
  "permitted_literal_ipv6 s0 s1 s2 s3 s4 s5 s6 s7 =
     ((s0 = 0 \<and> s1 = 0 \<and> s2 = 0 \<and> s3 = 0 \<and> s4 = 0 \<and> s5 = 0 \<and> s6 = 0 \<and> s7 = 1) \<or>
      s0 AND 0xfe00 = 0xfc00 \<or> global_ipv6 s0 s1 s2 s3 s4 s5 s6 s7)"

definition permitted_literal_ip :: "ip_addr \<Rightarrow> bool" where
  "permitted_literal_ip ip =
     (case ip of
        V4 a b c d \<Rightarrow> permitted_literal_ipv4 a b c d
      | V6 s0 s1 s2 s3 s4 s5 s6 s7 \<Rightarrow> permitted_literal_ipv6 s0 s1 s2 s3 s4 s5 s6 s7)"

definition permitted_dns_ip :: "ip_addr \<Rightarrow> bool" where
  "permitted_dns_ip ip =
     (case ip of
        V4 a b c d \<Rightarrow> global_ipv4 a b c d
      | V6 s0 s1 s2 s3 s4 s5 s6 s7 \<Rightarrow> global_ipv6 s0 s1 s2 s3 s4 s5 s6 s7)"

section \<open>Parsing an address literal\<close>

text \<open>
  The standard library's recursive-descent parser: each reader returns the value and the rest of
  the input, or nothing and leaves the input as it was.
\<close>

definition digit_value :: "nat \<Rightarrow> char \<Rightarrow> nat option" where
  "digit_value radix c =
     (let n = of_char c :: nat;
          d = (if 48 \<le> n \<and> n \<le> 57 then Some (n - 48)
               else if 97 \<le> n \<and> n \<le> 102 then Some (n - 87)
               else if 65 \<le> n \<and> n \<le> 70 then Some (n - 55) else None)
      in case d of None \<Rightarrow> None | Some v \<Rightarrow> if v < radix then Some v else None)"

fun read_digits_upto :: "nat \<Rightarrow> nat \<Rightarrow> nat \<Rightarrow> nat \<Rightarrow> nat \<Rightarrow> string \<Rightarrow> (nat \<times> nat \<times> string) option" where
  "read_digits_upto radix bound maxd acc cnt [] = Some (acc, cnt, [])"
| "read_digits_upto radix bound maxd acc cnt (c # cs) =
     (case digit_value radix c of
        None \<Rightarrow> Some (acc, cnt, c # cs)
      | Some d \<Rightarrow>
          let acc' = acc * radix + d in
          if acc' \<ge> bound \<or> cnt + 1 > maxd then None
          else read_digits_upto radix bound maxd acc' (cnt + 1) cs)"

definition read_number ::
    "nat \<Rightarrow> nat \<Rightarrow> nat \<Rightarrow> bool \<Rightarrow> string \<Rightarrow> (nat \<times> string) option" where
  "read_number radix bound maxd allow_zero_prefix s =
     (case read_digits_upto radix bound maxd 0 0 s of
        None \<Rightarrow> None
      | Some (v, cnt, rest) \<Rightarrow>
          if cnt = 0 then None
          else if \<not> allow_zero_prefix \<and> take 1 s = ''0'' \<and> cnt > 1 then None
          else Some (v, rest))"

definition read_given_char :: "char \<Rightarrow> string \<Rightarrow> string option" where
  "read_given_char c s = (case s of [] \<Rightarrow> None | x # xs \<Rightarrow> if x = c then Some xs else None)"

definition read_separator ::
    "char \<Rightarrow> nat \<Rightarrow> (string \<Rightarrow> ('a \<times> string) option) \<Rightarrow> string \<Rightarrow> ('a \<times> string) option" where
  "read_separator sep index inner s =
     (if index > 0 then case read_given_char sep s of None \<Rightarrow> None | Some s' \<Rightarrow> inner s' else inner s)"

definition read_octet :: "nat \<Rightarrow> string \<Rightarrow> (nat \<times> string) option" where
  "read_octet i s = read_separator CHR ''.'' i (read_number 10 256 3 False) s"

definition read_ipv4_addr :: "string \<Rightarrow> ((u8 \<times> u8 \<times> u8 \<times> u8) \<times> string) option" where
  "read_ipv4_addr s =
     (case read_octet 0 s of None \<Rightarrow> None | Some (a, s) \<Rightarrow>
      case read_octet 1 s of None \<Rightarrow> None | Some (b, s) \<Rightarrow>
      case read_octet 2 s of None \<Rightarrow> None | Some (c, s) \<Rightarrow>
      case read_octet 3 s of None \<Rightarrow> None | Some (d, s) \<Rightarrow>
        Some ((of_nat a, of_nat b, of_nat c, of_nat d), s))"

text \<open>
  \<open>read_groups\<close> on a slice of \<open>limit\<close> groups, from group \<open>i\<close>: the groups read, whether the last
  two came from an embedded IPv4 address, and the rest. \<open>k\<close> counts the groups left.
\<close>

fun read_groups :: "nat \<Rightarrow> nat \<Rightarrow> string \<Rightarrow> u16 list \<times> bool \<times> string" where
  "read_groups 0 i s = ([], False, s)"
| "read_groups (Suc k) i s =
     (case (if k > 0 then read_separator CHR '':'' i read_ipv4_addr s else None) of
        Some ((a, b, c, d), s') \<Rightarrow>
          ([push_bit 8 (ucast a) OR ucast b, push_bit 8 (ucast c) OR ucast d], True, s')
      | None \<Rightarrow>
          (case read_separator CHR '':'' i (read_number 16 65536 4 True) s of
             None \<Rightarrow> ([], False, s)
           | Some (g, s') \<Rightarrow>
               let (gs, v4, s'') = read_groups k (i + 1) s' in (of_nat g # gs, v4, s'')))"

definition ip_of_groups :: "u16 list \<Rightarrow> ip_addr" where
  "ip_of_groups gs =
     V6 (gs ! 0) (gs ! 1) (gs ! 2) (gs ! 3) (gs ! 4) (gs ! 5) (gs ! 6) (gs ! 7)"

definition read_ipv6_addr :: "string \<Rightarrow> (ip_addr \<times> string) option" where
  "read_ipv6_addr s =
     (let (head, v4, rest) = read_groups 8 0 s in
      if length head = 8 then Some (ip_of_groups head, rest)
      else if v4 then None
      else
        case read_given_char CHR '':'' rest of None \<Rightarrow> None | Some s1 \<Rightarrow>
        case read_given_char CHR '':'' s1 of None \<Rightarrow> None | Some s2 \<Rightarrow>
          let (tail, _, rest') = read_groups (8 - (length head + 1)) 0 s2
          in Some (ip_of_groups (head @ replicate (8 - length head - length tail) 0 @ tail), rest'))"

definition parse_ip :: "string \<Rightarrow> ip_addr option" where
  "parse_ip s =
     (case (case read_ipv4_addr s of
              Some ((a, b, c, d), rest) \<Rightarrow> Some (V4 a b c d, rest)
            | None \<Rightarrow> read_ipv6_addr s) of
        Some (ip, []) \<Rightarrow> Some ip
      | _ \<Rightarrow> None)"

section \<open>Canonical destinations\<close>

datatype http_host = Dns string | Ip ip_addr

record canonical_http_destination =
  cd_scheme :: http_scheme
  cd_host :: http_host
  cd_port :: u16

datatype outbound_http_destination_error =
  EmptyHost | WildcardHost | InvalidHost | ProhibitedIp | ZeroPort | DuplicateDestination

fun split_on :: "char \<Rightarrow> string \<Rightarrow> string list" where
  "split_on c [] = [[]]"
| "split_on c (x # xs) =
     (if x = c then [] # split_on c xs
      else case split_on c xs of [] \<Rightarrow> [[x]] | y # ys \<Rightarrow> (x # y) # ys)"

definition is_ascii_alphanumeric :: "char \<Rightarrow> bool" where
  "is_ascii_alphanumeric c =
     (let n = of_char c :: nat in
      (48 \<le> n \<and> n \<le> 57) \<or> (65 \<le> n \<and> n \<le> 90) \<or> (97 \<le> n \<and> n \<le> 122))"

definition to_ascii_lower :: "char \<Rightarrow> char" where
  "to_ascii_lower c =
     (let n = of_char c :: nat in if 65 \<le> n \<and> n \<le> 90 then char_of (n + 32) else c)"

definition dns_label_ok :: "string \<Rightarrow> bool" where
  "dns_label_ok l =
     (l \<noteq> [] \<and> length l \<le> 63 \<and> hd l \<noteq> CHR ''-'' \<and> last l \<noteq> CHR ''-'' \<and>
      list_all (\<lambda>c. is_ascii_alphanumeric c \<or> c = CHR ''-'') l)"

definition canonical_dns_name :: "string \<Rightarrow> (outbound_http_destination_error, string) result" where
  "canonical_dns_name host =
     (if \<not> list_all (\<lambda>c. (of_char c :: nat) < 128) host \<or> length host > 253 \<or>
         (host \<noteq> [] \<and> last host = CHR ''.'') then Inl InvalidHost
      else if \<not> list_all dns_label_ok (split_on CHR ''.'' host) then Inl InvalidHost
      else Inr (map to_ascii_lower host))"

definition canonicalize ::
    "outbound_http_destination
       \<Rightarrow> (outbound_http_destination_error, canonical_http_destination) result" where
  "canonicalize d =
     (if od_host d = [] then Inl EmptyHost
      else if CHR ''*'' \<in> set (od_host d) then Inl WildcardHost
      else
        case (case parse_ip (od_host d) of
                Some ip \<Rightarrow> if permitted_literal_ip ip then Inr (Ip ip) else Inl ProhibitedIp
              | None \<Rightarrow>
                  (case canonical_dns_name (od_host d) of Inl e \<Rightarrow> Inl e | Inr n \<Rightarrow> Inr (Dns n))) of
          Inl e \<Rightarrow> Inl e
        | Inr host \<Rightarrow>
            let port = (case od_port d of None \<Rightarrow> default_port (od_scheme d) | Some p \<Rightarrow> p) in
            if port = 0 then Inl ZeroPort
            else Inr \<lparr>cd_scheme = od_scheme d, cd_host = host, cd_port = port\<rparr>)"

section \<open>Runtime capabilities\<close>

record runtime_capabilities =
  rcap_inherit_stdio :: bool
  rcap_inherit_env :: bool
  rcap_allow_inference :: bool
  rcap_outbound_http :: "canonical_http_destination list"

definition sandbox :: runtime_capabilities where
  "sandbox =
     \<lparr>rcap_inherit_stdio = False, rcap_inherit_env = False, rcap_allow_inference = False,
      rcap_outbound_http = []\<rparr>"

fun collect_destinations ::
    "outbound_http_destination list \<Rightarrow> canonical_http_destination list
       \<Rightarrow> (outbound_http_destination_error, canonical_http_destination list) result" where
  "collect_destinations [] acc = Inr acc"
| "collect_destinations (d # ds) acc =
     (case canonicalize d of
        Inl e \<Rightarrow> Inl e
      | Inr c \<Rightarrow>
          if c \<in> set acc then Inl DuplicateDestination else collect_destinations ds (acc @ [c]))"

definition capabilities_try_from ::
    "capabilities \<Rightarrow> (outbound_http_destination_error, runtime_capabilities) result" where
  "capabilities_try_from c =
     (case collect_destinations (cap_outbound_http c) [] of
        Inl e \<Rightarrow> Inl e
      | Inr ds \<Rightarrow>
          Inr \<lparr>rcap_inherit_stdio = cap_inherit_stdio c, rcap_inherit_env = cap_inherit_env c,
               rcap_allow_inference = cap_allow_inference c, rcap_outbound_http = ds\<rparr>)"

section \<open>Lemmas\<close>

lemma lower_is_lower: "is_ascii_alphanumeric c \<or> c = CHR ''-'' \<or> c = CHR ''.'' \<Longrightarrow>
    to_ascii_lower c \<notin> {c. 65 \<le> (of_char c :: nat) \<and> (of_char c :: nat) \<le> 90}"
  by (auto simp: to_ascii_lower_def Let_def split: if_splits)

lemma canonicalize_Inr:
  assumes "canonicalize d = Inr c"
  shows "cd_port c \<noteq> 0 \<and> cd_scheme c = od_scheme d \<and>
     (case cd_host c of
        Ip ip \<Rightarrow> parse_ip (od_host d) = Some ip \<and> permitted_literal_ip ip
      | Dns n \<Rightarrow> parse_ip (od_host d) = None \<and> n = map to_ascii_lower (od_host d) \<and>
          length n \<le> 253 \<and> list_all dns_label_ok (split_on CHR ''.'' (od_host d)))"
  using assms
  by (auto simp: canonicalize_def canonical_dns_name_def Let_def
      split: if_splits option.splits sum.splits)

lemma collect_destinations_Inr:
  "collect_destinations ds acc = Inr out \<Longrightarrow> distinct acc \<Longrightarrow>
   distinct out \<and> (\<exists>cs. out = acc @ cs \<and> map canonicalize ds = map Inr cs)"
proof (induction ds arbitrary: acc)
  case (Cons d ds)
  then obtain c where c: "canonicalize d = Inr c" "c \<notin> set acc"
    "collect_destinations ds (acc @ [c]) = Inr out" by (auto split: sum.splits if_splits)
  with Cons.IH [OF c(3)] Cons.prems obtain cs where
    "distinct out" "out = acc @ [c] @ cs" "map canonicalize ds = map Inr cs" by auto
  with c(1) show ?case by (intro conjI exI [of _ "c # cs"]) simp_all
qed simp

lemma dns_permitted_literal: "permitted_dns_ip ip \<Longrightarrow> permitted_literal_ip ip"
  by (auto simp: permitted_dns_ip_def permitted_literal_ip_def permitted_literal_ipv4_def
      permitted_literal_ipv6_def split: ip_addr.splits)

section \<open>Properties\<close>

text \<open>
  An address a host name may resolve to is never a loopback, private, link-local, shared,
  documentation, benchmarking, multicast, reserved or IPv4-mapped address; it is always also
  acceptable as a literal, and the only literals accepted beyond these are loopback, private and
  unique-local addresses.
\<close>

theorem permitted_addresses:
  "(permitted_dns_ip (V4 a b c d) \<longrightarrow>
     a \<notin> {0, 10, 127} \<and> a < 224 \<and> (a, b) \<noteq> (169, 254) \<and> (a, b) \<noteq> (192, 168) \<and>
     \<not> (a = 172 \<and> 16 \<le> b \<and> b \<le> 31) \<and> \<not> (a = 100 \<and> 64 \<le> b \<and> b \<le> 127) \<and>
     (a, b, c) \<notin> {(192, 0, 0), (192, 0, 2), (198, 51, 100), (203, 0, 113)} \<and>
     (a, b) \<notin> {(198, 18), (198, 19)}) \<and>
   (permitted_dns_ip ip \<longrightarrow> permitted_literal_ip ip \<and> \<not> ipv4_mapped ip) \<and>
   (permitted_literal_ip ip \<and> \<not> permitted_dns_ip ip \<longrightarrow>
     (case ip of
        V4 a b _ _ \<Rightarrow> a = 127 \<or> a = 10 \<or> (a = 172 \<and> 16 \<le> b \<and> b \<le> 31) \<or> (a = 192 \<and> b = 168)
      | V6 s0 _ _ _ _ _ _ s7 \<Rightarrow> (s0 = 0 \<and> s7 = 1) \<or> s0 AND 0xfe00 = 0xfc00))"
proof (intro conjI)
  show "permitted_dns_ip (V4 a b c d) \<longrightarrow>
     a \<notin> {0, 10, 127} \<and> a < 224 \<and> (a, b) \<noteq> (169, 254) \<and> (a, b) \<noteq> (192, 168) \<and>
     \<not> (a = 172 \<and> 16 \<le> b \<and> b \<le> 31) \<and> \<not> (a = 100 \<and> 64 \<le> b \<and> b \<le> 127) \<and>
     (a, b, c) \<notin> {(192, 0, 0), (192, 0, 2), (198, 51, 100), (203, 0, 113)} \<and>
     (a, b) \<notin> {(198, 18), (198, 19)}"
    by (simp add: permitted_dns_ip_def global_ipv4_def not_le)
  show "permitted_dns_ip ip \<longrightarrow> permitted_literal_ip ip \<and> \<not> ipv4_mapped ip"
    using dns_permitted_literal [of ip]
    by (cases ip) (simp_all add: permitted_dns_ip_def global_ipv6_def ipv4_mapped_def)
  show "permitted_literal_ip ip \<and> \<not> permitted_dns_ip ip \<longrightarrow>
     (case ip of
        V4 a b _ _ \<Rightarrow> a = 127 \<or> a = 10 \<or> (a = 172 \<and> 16 \<le> b \<and> b \<le> 31) \<or> (a = 192 \<and> b = 168)
      | V6 s0 _ _ _ _ _ _ s7 \<Rightarrow> (s0 = 0 \<and> s7 = 1) \<or> s0 AND 0xfe00 = 0xfc00)"
    by (cases ip)
       (auto simp: permitted_literal_ip_def permitted_dns_ip_def permitted_literal_ipv4_def
          permitted_literal_ipv6_def)
qed

theorem permitted_addresses_witness:
  "permitted_dns_ip (V4 8 8 4 4) \<and> permitted_literal_ip (V4 8 8 4 4) \<and>
   permitted_literal_ip (V4 10 1 2 3) \<and> \<not> permitted_dns_ip (V4 10 1 2 3)"
  using permitted_addresses [of 8 8 4 4 "V4 8 8 4 4"] permitted_addresses [of 10 1 2 3 "V4 10 1 2 3"]
  by (simp add: permitted_dns_ip_def permitted_literal_ip_def permitted_literal_ipv4_def global_ipv4_def)

text \<open>
  C29: the outbound grant of a node holds the canonical forms of its configured destinations in
  order, without duplicates: every entry has a non-zero port and a host that is a permitted
  address literal or a lower-cased valid DNS name that is not an address literal.
\<close>

theorem outbound_grant_canonical:
  assumes "capabilities_try_from c = Inr r"
  shows "distinct (rcap_outbound_http r) \<and>
    map canonicalize (cap_outbound_http c) = map Inr (rcap_outbound_http r) \<and>
    list_all (\<lambda>g. cd_port g \<noteq> 0 \<and>
      (case cd_host g of
         Ip ip \<Rightarrow> permitted_literal_ip ip
       | Dns n \<Rightarrow> length n \<le> 253 \<and>
           (\<exists>d \<in> set (cap_outbound_http c). n = map to_ascii_lower (od_host d) \<and>
              parse_ip (od_host d) = None \<and> list_all dns_label_ok (split_on CHR ''.'' (od_host d)))))
      (rcap_outbound_http r)"
proof -
  from assms have col: "collect_destinations (cap_outbound_http c) [] = Inr (rcap_outbound_http r)"
    by (auto simp: capabilities_try_from_def split: sum.splits)
  from collect_destinations_Inr [OF col] have m: "distinct (rcap_outbound_http r)"
    "map canonicalize (cap_outbound_http c) = map Inr (rcap_outbound_http r)" by auto
  have "\<exists>d \<in> set (cap_outbound_http c). canonicalize d = Inr g" if "g \<in> set (rcap_outbound_http r)" for g
    using that m(2) by (metis (no_types, lifting) image_eqI imageE list.set_map)
  then have "cd_port g \<noteq> 0 \<and>
      (case cd_host g of
         Ip ip \<Rightarrow> permitted_literal_ip ip
       | Dns n \<Rightarrow> length n \<le> 253 \<and>
           (\<exists>d \<in> set (cap_outbound_http c). n = map to_ascii_lower (od_host d) \<and>
              parse_ip (od_host d) = None \<and> list_all dns_label_ok (split_on CHR ''.'' (od_host d))))"
    if "g \<in> set (rcap_outbound_http r)" for g
    using that canonicalize_Inr [of _ g] by (cases "cd_host g") fastforce+
  with m show ?thesis unfolding list_all_iff by blast
qed

theorem outbound_grant_canonical_witness:
  "\<exists>r. capabilities_try_from (capabilities_default\<lparr>cap_outbound_http :=
      [\<lparr>od_scheme = Https, od_host = ''X.y'', od_port = None\<rparr>]\<rparr>) = Inr r \<and>
    distinct (rcap_outbound_http r)"
proof -
  let ?c = "capabilities_default\<lparr>cap_outbound_http :=
      [\<lparr>od_scheme = Https, od_host = ''X.y'', od_port = None\<rparr>]\<rparr>"
  have x: "char_of (120 :: nat) = CHR ''x''" by (subst char_of_eq_iff) simp
  have v4: "read_ipv4_addr ''X.y'' = None"
    by (simp add: read_ipv4_addr_def read_octet_def read_separator_def read_number_def digit_value_def)
  moreover have "read_groups (Suc 7) 0 ''X.y'' = ([], False, ''X.y'')"
    unfolding read_groups.simps
    by (simp add: v4 read_separator_def read_number_def digit_value_def)
  ultimately have "parse_ip ''X.y'' = None"
    by (simp add: parse_ip_def read_ipv6_addr_def read_given_char_def)
  then have "canonicalize \<lparr>od_scheme = Https, od_host = ''X.y'', od_port = None\<rparr> =
      Inr \<lparr>cd_scheme = Https, cd_host = Dns ''x.y'', cd_port = 443\<rparr>"
    by (simp add: canonicalize_def canonical_dns_name_def dns_label_ok_def is_ascii_alphanumeric_def
        to_ascii_lower_def default_port_def x)
  then have "capabilities_try_from ?c = Inr (sandbox\<lparr>rcap_outbound_http :=
      [\<lparr>cd_scheme = Https, cd_host = Dns ''x.y'', cd_port = 443\<rparr>]\<rparr>)"
    by (simp add: capabilities_try_from_def capabilities_default_def sandbox_def)
  with outbound_grant_canonical [OF this] show ?thesis by blast
qed

end
