(* ===== verification/Envelope.thy ===== *)
theory Envelope
  imports Prelude
begin

text \<open>
  The message envelope (\<open>wafer-core/src/queue/envelope.rs\<close>), the shared utilities on durations
  (\<open>wafer-core/src/util.rs\<close>) and the record written to the dead-letter queue
  (\<open>wafer-core/src/dlq/mod.rs\<close>). \<open>Arc\<close> and \<open>Bytes\<close> share immutable data, so a clone is the value
  itself; \<open>Uuid::new_v4\<close>, the wall clock and the iteration order of a \<open>HashMap\<close> are arguments.
\<close>

section \<open>Data\<close>

datatype burst_phase = Before | Burst | After

definition burst_index :: "burst_phase \<Rightarrow> usize" where
  "burst_index p = (case p of Before \<Rightarrow> 0 | Burst \<Rightarrow> 1 | After \<Rightarrow> 2)"

record burst_stamps =
  bu_phase :: burst_phase
  bu_measurement_start_unix_ns :: "u64 option"

record bench_stamps =
  bs_sequence :: u64
  bs_intended_ns :: u64
  bs_emit_ns :: u64
  bs_warmup :: bool
  bs_measurement_start_seq :: u64
  bs_sequence_end :: "u64 option"
  bs_burst :: "burst_stamps option"

record envelope_header =
  eh_id :: string
  eh_timestamp :: u64
  eh_source :: string
  eh_content_type :: string
  eh_metadata :: "(string \<times> string) list"
  eh_bench :: "bench_stamps option"

record lineage =
  li_parent_id :: "string option"
  li_trace_id :: "string option"

record runtime_envelope =
  re_header :: envelope_header
  re_payload :: bytes
  re_lineage :: lineage
  re_retry_count :: u32

definition lineage_default :: lineage where
  "lineage_default = \<lparr>li_parent_id = None, li_trace_id = None\<rparr>"

section \<open>Durations\<close>

text \<open>A \<open>Duration\<close> counts nanoseconds; \<open>as_millis\<close> truncates.\<close>

definition duration_ns_saturating :: "duration \<Rightarrow> u64" where
  "duration_ns_saturating d = u64_saturating d"

definition duration_ms_saturating :: "duration \<Rightarrow> u64" where
  "duration_ms_saturating d = u64_saturating (d div 1000000)"

definition duration_from_millis :: "u64 \<Rightarrow> duration" where
  "duration_from_millis ms = unat ms * 1000000"

text \<open>\<open>SystemTime\<close> as nanoseconds relative to the Unix epoch; it may be before it.\<close>

type_synonym systime = int

definition duration_to_unix_epoch_nanos :: "duration \<Rightarrow> u64" where
  "duration_to_unix_epoch_nanos d = u64_saturating d"

definition unix_epoch_nanos :: "systime \<Rightarrow> u64" where
  "unix_epoch_nanos now = (if now < 0 then 0 else duration_to_unix_epoch_nanos (nat now))"

definition unix_epoch_millis :: "systime \<Rightarrow> u64" where
  "unix_epoch_millis now = (if now < 0 then 0 else duration_ms_saturating (nat now))"

section \<open>Operations\<close>

definition envelope_new :: "string \<Rightarrow> systime \<Rightarrow> string \<Rightarrow> bytes \<Rightarrow> runtime_envelope" where
  "envelope_new uuid now src payload =
     \<lparr>re_header =
        \<lparr>eh_id = uuid, eh_timestamp = unix_epoch_nanos now, eh_source = src,
         eh_content_type = ''application/octet-stream'', eh_metadata = [], eh_bench = None\<rparr>,
      re_payload = payload, re_lineage = lineage_default, re_retry_count = 0\<rparr>"

definition envelope_default :: "string \<Rightarrow> systime \<Rightarrow> runtime_envelope" where
  "envelope_default uuid now = envelope_new uuid now ''unknown'' []"

definition from_string :: "string \<Rightarrow> systime \<Rightarrow> string \<Rightarrow> string \<Rightarrow> runtime_envelope" where
  "from_string uuid now src data = envelope_new uuid now src (map of_char data)"

definition from_guest_output ::
    "runtime_envelope \<Rightarrow> string \<Rightarrow> u64 \<Rightarrow> string \<Rightarrow> string \<Rightarrow> (string \<times> string) list \<Rightarrow> bytes
       \<Rightarrow> runtime_envelope" where
  "from_guest_output input i ts src ct md payload =
     \<lparr>re_header =
        \<lparr>eh_id = i, eh_timestamp = ts, eh_source = src, eh_content_type = ct, eh_metadata = md,
         eh_bench = eh_bench (re_header input)\<rparr>,
      re_payload = payload, re_lineage = re_lineage input, re_retry_count = 0\<rparr>"

definition with_metadata :: "string \<Rightarrow> string \<Rightarrow> runtime_envelope \<Rightarrow> runtime_envelope" where
  "with_metadata k v e =
     e\<lparr>re_header := (re_header e)\<lparr>eh_metadata := eh_metadata (re_header e) @ [(k, v)]\<rparr>\<rparr>"

definition with_bench_stamps :: "bench_stamps \<Rightarrow> runtime_envelope \<Rightarrow> runtime_envelope" where
  "with_bench_stamps b e = e\<lparr>re_header := (re_header e)\<lparr>eh_bench := Some b\<rparr>\<rparr>"

definition ensure_trace_id :: "string \<Rightarrow> runtime_envelope \<Rightarrow> runtime_envelope" where
  "ensure_trace_id uuid e =
     (if li_trace_id (re_lineage e) = None
      then e\<lparr>re_lineage := (re_lineage e)\<lparr>li_trace_id := Some uuid\<rparr>\<rparr>
      else e)"

definition set_parent_id :: "string \<Rightarrow> runtime_envelope \<Rightarrow> runtime_envelope" where
  "set_parent_id p e = e\<lparr>re_lineage := (re_lineage e)\<lparr>li_parent_id := Some p\<rparr>\<rparr>"

definition trace_id :: "runtime_envelope \<Rightarrow> string option" where
  "trace_id e = li_trace_id (re_lineage e)"

definition parent_id :: "runtime_envelope \<Rightarrow> string option" where
  "parent_id e = li_parent_id (re_lineage e)"

section \<open>The dead-letter record\<close>

record serializable_envelope =
  se_id :: string
  se_timestamp :: u64
  se_source :: string
  se_metadata :: "string \<rightharpoonup> string"
  se_payload :: bytes
  se_retry_count :: u32
  se_bench :: "bench_stamps option"

text \<open>Collecting pairs into a \<open>HashMap\<close>: a later pair replaces an earlier one of the same key.\<close>

definition collect_map :: "('k \<times> 'v) list \<Rightarrow> 'k \<rightharpoonup> 'v" where
  "collect_map kvs = map_of (rev kvs)"

definition serializable_from :: "runtime_envelope \<Rightarrow> serializable_envelope" where
  "serializable_from e =
     \<lparr>se_id = eh_id (re_header e), se_timestamp = eh_timestamp (re_header e),
      se_source = eh_source (re_header e),
      se_metadata = collect_map (eh_metadata (re_header e)),
      se_payload = re_payload e, se_retry_count = re_retry_count e,
      se_bench = eh_bench (re_header e)\<rparr>"

text \<open>\<open>iter\<close> is the order in which the hash map yields its entries.\<close>

definition runtime_from ::
    "((string \<rightharpoonup> string) \<Rightarrow> (string \<times> string) list) \<Rightarrow> serializable_envelope \<Rightarrow> runtime_envelope"
    where
  "runtime_from iter s =
     \<lparr>re_header =
        \<lparr>eh_id = se_id s, eh_timestamp = se_timestamp s, eh_source = se_source s,
         eh_content_type = ''application/octet-stream'', eh_metadata = iter (se_metadata s),
         eh_bench = se_bench s\<rparr>,
      re_payload = se_payload s, re_lineage = lineage_default,
      re_retry_count = se_retry_count s\<rparr>"

text \<open>What a \<open>HashMap\<close> promises of its iteration: every entry once, and no other.\<close>

definition hash_iteration :: "(('k \<rightharpoonup> 'v) \<Rightarrow> ('k \<times> 'v) list) \<Rightarrow> ('k \<rightharpoonup> 'v) \<Rightarrow> bool" where
  "hash_iteration iter m \<longleftrightarrow> distinct (map fst (iter m)) \<and> map_of (iter m) = m"

section \<open>Lemmas\<close>

lemma unat_duration_ns [sat_arith]: "unat (duration_ns_saturating d) = min d (2 ^ 64 - 1)"
  by (simp add: duration_ns_saturating_def sat_arith)

lemma unat_duration_ms [sat_arith]: "unat (duration_ms_saturating d) = min (d div 1000000) (2 ^ 64 - 1)"
  by (simp add: duration_ms_saturating_def sat_arith)

lemma collect_map_distinct: "distinct (map fst kvs) \<Longrightarrow> collect_map kvs = map_of kvs"
  by (simp add: collect_map_def map_of_inject_set distinct_map)

lemma collect_map_lookup:
  "collect_map (kvs @ [(k, v)]) = (collect_map kvs)(k \<mapsto> v)"
  by (simp add: collect_map_def)

lemma hash_iteration_collect: "hash_iteration iter m \<Longrightarrow> collect_map (iter m) = m"
  by (simp add: hash_iteration_def collect_map_distinct)

lemma from_guest_output_carries:
  "eh_bench (re_header (from_guest_output e i ts s ct md p)) = eh_bench (re_header e)"
  "trace_id (from_guest_output e i ts s ct md p) = trace_id e"
  "parent_id (from_guest_output e i ts s ct md p) = parent_id e"
  "re_retry_count (from_guest_output e i ts s ct md p) = 0"
  by (simp_all add: from_guest_output_def trace_id_def parent_id_def)

lemma trace_id_ensure: "trace_id (ensure_trace_id u e) = Some (case trace_id e of None \<Rightarrow> u | Some t \<Rightarrow> t)"
  by (auto simp: trace_id_def ensure_trace_id_def split: option.splits)

lemma ensure_trace_id_frame [simp]:
  "re_header (ensure_trace_id u e) = re_header e" "re_payload (ensure_trace_id u e) = re_payload e"
  "re_retry_count (ensure_trace_id u e) = re_retry_count e"
  by (simp_all add: ensure_trace_id_def)

lemma set_parent_id_frame [simp]:
  "re_header (set_parent_id p e) = re_header e" "re_payload (set_parent_id p e) = re_payload e"
  "re_retry_count (set_parent_id p e) = re_retry_count e" "trace_id (set_parent_id p e) = trace_id e"
  "parent_id (set_parent_id p e) = Some p"
  by (simp_all add: set_parent_id_def trace_id_def parent_id_def)

section \<open>Properties\<close>

text \<open>
  C39: a message read back from its dead-letter record keeps its identity, payload, benchmark
  stamps, metadata entries and the retries it has burned, whatever order the metadata map iterates
  in, and a second trip through the record changes nothing.
\<close>

theorem dlq_record_roundtrip:
  assumes "hash_iteration iter (collect_map (eh_metadata (re_header e)))"
  shows "let e' = runtime_from iter (serializable_from e) in
    eh_id (re_header e') = eh_id (re_header e) \<and>
    eh_timestamp (re_header e') = eh_timestamp (re_header e) \<and>
    eh_source (re_header e') = eh_source (re_header e) \<and>
    eh_bench (re_header e') = eh_bench (re_header e) \<and>
    re_payload e' = re_payload e \<and> re_retry_count e' = re_retry_count e \<and>
    collect_map (eh_metadata (re_header e')) = collect_map (eh_metadata (re_header e)) \<and>
    serializable_from e' = serializable_from e"
  using hash_iteration_collect [OF assms]
  by (simp add: Let_def runtime_from_def serializable_from_def)

theorem dlq_record_roundtrip_witness:
  "re_retry_count (runtime_from (\<lambda>m. if m ''k'' = None then [] else [(''k'', ''v'')])
     (serializable_from ((with_metadata ''k'' ''v'' (envelope_new ''u'' 5 ''s'' [1, 2]))
        \<lparr>re_retry_count := 3\<rparr>))) = 3"
  using dlq_record_roundtrip [of "\<lambda>m. if m ''k'' = None then [] else [(''k'', ''v'')]"
      "(with_metadata ''k'' ''v'' (envelope_new ''u'' 5 ''s'' [1, 2]))\<lparr>re_retry_count := 3\<rparr>"]
  by (simp add: Let_def hash_iteration_def collect_map_def with_metadata_def envelope_new_def)

end
