(* ===== verification/ErrorTypes.thy ===== *)
theory ErrorTypes
  imports Envelope
begin

text \<open>
  The error vocabulary: the errors of a guest call, their classification and the dead-letter
  envelope of \<open>wafer-core/src/runner/error_policy.rs\<close>, and the runtime errors of
  \<open>wafer-core/src/error.rs\<close>. \<open>wasmtime::Trap\<close> is the engine's enumeration; only the codes the
  sources distinguish have a name here.
\<close>

section \<open>Guest errors\<close>

datatype wasm_trap =
  MemoryOutOfBounds | UnreachableCodeReached | Interrupt | OutOfFuel | OtherTrap nat

datatype trap_kind =
  TkMemoryOutOfBounds | TkUnreachable | TkInterrupt | TkOutOfFuel | TkMemoryLimit | TkOther

definition trap_kind_all :: "trap_kind list" where
  "trap_kind_all =
     [TkMemoryOutOfBounds, TkUnreachable, TkInterrupt, TkOutOfFuel, TkMemoryLimit, TkOther]"

definition trap_kind_as_str :: "trap_kind \<Rightarrow> string" where
  "trap_kind_as_str k =
     (case k of
        TkMemoryOutOfBounds \<Rightarrow> ''memory_out_of_bounds''
      | TkUnreachable \<Rightarrow> ''unreachable''
      | TkInterrupt \<Rightarrow> ''interrupt''
      | TkOutOfFuel \<Rightarrow> ''out_of_fuel''
      | TkMemoryLimit \<Rightarrow> ''memory_limit''
      | TkOther \<Rightarrow> ''other'')"

datatype error_category =
  CatBadInput | CatDependencyFailed | CatProcessingFailed | CatTimedOut | CatUnrecoverable

definition error_category_all :: "error_category list" where
  "error_category_all =
     [CatBadInput, CatDependencyFailed, CatProcessingFailed, CatTimedOut, CatUnrecoverable]"

definition error_category_display :: "error_category \<Rightarrow> string" where
  "error_category_display c =
     (case c of
        CatBadInput \<Rightarrow> ''bad_input''
      | CatDependencyFailed \<Rightarrow> ''dependency_failed''
      | CatProcessingFailed \<Rightarrow> ''processing_failed''
      | CatTimedOut \<Rightarrow> ''timed_out''
      | CatUnrecoverable \<Rightarrow> ''unrecoverable'')"

datatype wasm_process_error =
    BadInput string
  | DependencyFailed string
  | ProcessingFailed string
  | TimedOut
  | Unrecoverable string
  | Trapped "wasm_trap option" string

definition wasm_process_error_display :: "wasm_process_error \<Rightarrow> string" where
  "wasm_process_error_display e =
     (case e of
        BadInput m \<Rightarrow> ''bad input: '' @ m
      | DependencyFailed m \<Rightarrow> ''dependency failed: '' @ m
      | ProcessingFailed m \<Rightarrow> ''processing failed: '' @ m
      | TimedOut \<Rightarrow> ''timed out''
      | Unrecoverable m \<Rightarrow> ''unrecoverable: '' @ m
      | Trapped _ m \<Rightarrow> ''trapped: '' @ m)"

definition is_budget_exhausted :: "wasm_process_error \<Rightarrow> bool" where
  "is_budget_exhausted e =
     (case e of
        Trapped (Some Interrupt) _ \<Rightarrow> True
      | Trapped (Some OutOfFuel) _ \<Rightarrow> True
      | _ \<Rightarrow> False)"

text \<open>\<open>str::contains\<close>.\<close>

fun str_contains :: "string \<Rightarrow> string \<Rightarrow> bool" where
  "str_contains [] needle = (needle = [])"
| "str_contains (c # cs) needle =
     (take (length needle) (c # cs) = needle \<or> str_contains cs needle)"

definition MEMORY_LIMIT_MARKER :: string where
  "MEMORY_LIMIT_MARKER = ''forcing trap when growing memory''"

definition trap_kind_of :: "wasm_process_error \<Rightarrow> trap_kind option" where
  "trap_kind_of e =
     (case e of
        Trapped code msg \<Rightarrow>
          Some (case code of
                  Some MemoryOutOfBounds \<Rightarrow> TkMemoryOutOfBounds
                | Some UnreachableCodeReached \<Rightarrow> TkUnreachable
                | Some Interrupt \<Rightarrow> TkInterrupt
                | Some OutOfFuel \<Rightarrow> TkOutOfFuel
                | None \<Rightarrow> if str_contains msg MEMORY_LIMIT_MARKER then TkMemoryLimit else TkOther
                | _ \<Rightarrow> TkOther)
      | _ \<Rightarrow> None)"

definition guest_category :: "wasm_process_error \<Rightarrow> error_category option" where
  "guest_category e =
     (case e of
        BadInput _ \<Rightarrow> Some CatBadInput
      | DependencyFailed _ \<Rightarrow> Some CatDependencyFailed
      | ProcessingFailed _ \<Rightarrow> Some CatProcessingFailed
      | TimedOut \<Rightarrow> Some CatTimedOut
      | Unrecoverable _ \<Rightarrow> Some CatUnrecoverable
      | Trapped _ _ \<Rightarrow> None)"

section \<open>Dead letters\<close>

datatype dlq_reason =
    RBadInput
  | RTimedOut
  | RRetriesExhausted u32
  | RRetryBufferFull
  | RHotSwapDrain
  | RShutdown
  | RQueueFull string
  | RTrapped trap_kind
  | RUnrecoverable
  | RRecoveryFailed

definition dlq_reason_display :: "dlq_reason \<Rightarrow> string" where
  "dlq_reason_display r =
     (case r of
        RBadInput \<Rightarrow> ''bad_input''
      | RTimedOut \<Rightarrow> ''timed_out''
      | RRetriesExhausted n \<Rightarrow> ''retries_exhausted(max='' @ show_nat (unat n) @ '')''
      | RRetryBufferFull \<Rightarrow> ''retry_buffer_full''
      | RHotSwapDrain \<Rightarrow> ''hot_swap_drain''
      | RShutdown \<Rightarrow> ''shutdown''
      | RQueueFull edge \<Rightarrow> ''queue_full(edge='' @ edge @ '')''
      | RTrapped k \<Rightarrow> ''trapped(kind='' @ trap_kind_as_str k @ '')''
      | RUnrecoverable \<Rightarrow> ''unrecoverable''
      | RRecoveryFailed \<Rightarrow> ''recovery_failed'')"

record dlq_envelope =
  de_timestamp :: u64
  de_source_node :: string
  de_error_category :: "error_category option"
  de_error_message :: string
  de_retry_count :: u32
  de_reason :: dlq_reason
  de_original :: runtime_envelope
  de_trace_id :: "string option"
  de_parent_id :: "string option"

section \<open>Runtime errors\<close>

datatype registry_error =
    FetchFailed string string
  | VersionNotFound string string
  | Cache string
  | InvalidPackageRef string
  | Network string

definition registry_error_display :: "registry_error \<Rightarrow> string" where
  "registry_error_display e =
     (case e of
        FetchFailed p m \<Rightarrow> ''failed to fetch package '' @ p @ '': '' @ m
      | VersionNotFound p r \<Rightarrow> ''no version matching '' @ r @ '' found for '' @ p
      | Cache m \<Rightarrow> ''cache error: '' @ m
      | InvalidPackageRef m \<Rightarrow> ''invalid package reference: '' @ m
      | Network m \<Rightarrow> ''network error: '' @ m)"

text \<open>
  The errors of \<open>std::io\<close>, the TOML parser and the engine that a variant carries are kept as their
  printed form.
\<close>

datatype config_error =
    CfgRead string
  | CfgParse string
  | CfgPluginNotFound string
  | CfgMessage string

definition config_error_display :: "config_error \<Rightarrow> string" where
  "config_error_display e =
     (case e of
        CfgRead m \<Rightarrow> ''failed to read config file: '' @ m
      | CfgParse m \<Rightarrow> ''failed to parse TOML: '' @ m
      | CfgPluginNotFound p \<Rightarrow> ''plugin path does not exist: '' @ p
      | CfgMessage m \<Rightarrow> m)"

datatype wafer_error =
    ComponentLoad string string
  | PluginInit string
  | ProcessError string string
  | ConfigErr config_error
  | QueueFull
  | Io string
  | Registry registry_error
  | Runtime string
  | NodeNotSwappable string
  | SwapInProgress string
  | PluginHashMismatch string string string

definition wafer_error_display :: "wafer_error \<Rightarrow> string" where
  "wafer_error_display e =
     (case e of
        ComponentLoad p _ \<Rightarrow> ''failed to load component from '' @ p
      | PluginInit m \<Rightarrow> ''plugin initialization failed: '' @ m
      | ProcessError c m \<Rightarrow> ''process() returned error: code='' @ c @ '', message='' @ m
      | ConfigErr c \<Rightarrow> ''configuration error: '' @ config_error_display c
      | QueueFull \<Rightarrow> ''queue full after timeout''
      | Io m \<Rightarrow> m
      | Registry r \<Rightarrow> ''registry error: '' @ registry_error_display r
      | Runtime m \<Rightarrow> ''runtime error: '' @ m
      | NodeNotSwappable m \<Rightarrow> ''node-not-swappable: '' @ m
      | SwapInProgress m \<Rightarrow> ''swap-in-progress: '' @ m
      | PluginHashMismatch n c x \<Rightarrow>
          ''plugin-hash-mismatch: node '' @ quoted n @ '' has hash '' @ c @ '' but caller supplied ''
          @ x)"

section \<open>Lemmas\<close>

lemma trap_xor_guest: "(trap_kind_of e = None) = (guest_category e \<noteq> None)"
  by (cases e) (simp_all add: trap_kind_of_def guest_category_def)

lemma budget_exhausted_trapped:
  "is_budget_exhausted e \<Longrightarrow> \<exists>t m. e = Trapped (Some t) m \<and> t \<in> {Interrupt, OutOfFuel}"
  by (auto simp: is_budget_exhausted_def split: wasm_process_error.splits option.splits wasm_trap.splits)

lemma budget_exhausted_kind:
  "is_budget_exhausted e \<longleftrightarrow> trap_kind_of e \<in> {Some TkInterrupt, Some TkOutOfFuel}"
  by (auto simp: is_budget_exhausted_def trap_kind_of_def
      split: wasm_process_error.splits option.splits wasm_trap.splits)

lemma trap_kind_all_complete: "set trap_kind_all = UNIV" "distinct trap_kind_all"
  using trap_kind.exhaust by (auto simp: trap_kind_all_def)

lemma error_category_all_complete: "set error_category_all = UNIV" "distinct error_category_all"
  using error_category.exhaust by (auto simp: error_category_all_def)

lemma trap_kind_as_str_inject [simp]: "trap_kind_as_str k = trap_kind_as_str k' \<longleftrightarrow> k = k'"
  by (cases k; cases k') (simp_all add: trap_kind_as_str_def)

lemma error_category_display_inject [simp]:
  "error_category_display c = error_category_display c' \<longleftrightarrow> c = c'"
  by (cases c; cases c') (simp_all add: error_category_display_def)

lemma str_contains_iff: "str_contains s n \<longleftrightarrow> (\<exists>a b. s = a @ n @ b)"
proof (induction s)
  case (Cons c cs)
  have "take (length n) (c # cs) = n \<longleftrightarrow> (\<exists>b. c # cs = n @ b)"
    by (metis append_eq_conv_conj append_take_drop_id)
  moreover have "(\<exists>a b. c # cs = a @ n @ b) \<longleftrightarrow>
      (\<exists>b. c # cs = n @ b) \<or> (\<exists>a b. cs = a @ n @ b)"
    by (auto simp: Cons_eq_append_conv)
  ultimately show ?case using Cons by simp
qed auto

end
