(* ===== verification/Dag.thy ===== *)
theory Dag
  imports Config ErrorTypes
begin

text \<open>
  The pipeline graph, \<open>wafer-core/src/dag/graph.rs\<close>. Topological sorting and the neighbour iterator
  are those of the \<open>petgraph\<close> crate, so they are arguments: \<open>topo n es\<close> sorts the graph with nodes
  \<open>0 .. n - 1\<close> and edges \<open>es\<close>, and returns the order or a node of a cycle.
\<close>

section \<open>Definitions\<close>

type_synonym toposort = "nat \<Rightarrow> (nat \<times> nat) list \<Rightarrow> (nat, nat list) result"

record dag_graph =
  dg_nodes :: "string list"
  dg_edges :: "(nat \<times> nat) list"
  dg_node_indices :: "string \<rightharpoonup> nat"
  dg_topo_order :: "string list"

definition node_indices_of :: "string list \<Rightarrow> string \<rightharpoonup> nat" where
  "node_indices_of ids = map_of (zip ids [0..<length ids])"

fun add_edges ::
    "(string \<rightharpoonup> nat) \<Rightarrow> edge_def list \<Rightarrow> (nat \<times> nat) list \<Rightarrow> (wafer_error, (nat \<times> nat) list) result" where
  "add_edges ix [] es = Inr es"
| "add_edges ix (e # rest) es =
     (case ix (ed_from e) of
        None \<Rightarrow> Inl (ConfigErr (CfgMessage (''edge references unknown source node '' @ quoted (ed_from e))))
      | Some a \<Rightarrow>
          (case ix (ed_to e) of
             None \<Rightarrow>
               Inl (ConfigErr (CfgMessage (''edge references unknown destination node '' @ quoted (ed_to e))))
           | Some b \<Rightarrow> add_edges ix rest (es @ [(a, b)])))"

definition dag_from_config :: "toposort \<Rightarrow> config \<Rightarrow> (wafer_error, dag_graph) result" where
  "dag_from_config topo c =
     (if cf_nodes c = [] then Inl (ConfigErr (CfgMessage ''pipeline must contain at least one node''))
      else
        let ids = map fst (cf_nodes c); ix = node_indices_of ids in
        case add_edges ix (cf_edges c) [] of
          Inl e \<Rightarrow> Inl e
        | Inr es \<Rightarrow>
            (case topo (length ids) es of
               Inl v \<Rightarrow>
                 Inl (ConfigErr (CfgMessage (''pipeline DAG contains a cycle involving node '' @ quoted (ids ! v))))
             | Inr order \<Rightarrow>
                 Inr \<lparr>dg_nodes = ids, dg_edges = es, dg_node_indices = ix,
                      dg_topo_order = map (\<lambda>i. ids ! i) order\<rparr>))"

definition contains_node :: "string \<Rightarrow> dag_graph \<Rightarrow> bool" where
  "contains_node v g = (dg_node_indices g v \<noteq> None)"

definition node_count :: "dag_graph \<Rightarrow> usize" where
  "node_count g = card (dom (dg_node_indices g))"

definition edge_count :: "dag_graph \<Rightarrow> usize" where
  "edge_count g = length (dg_edges g)"

definition successors :: "(nat \<Rightarrow> (nat \<times> nat) list \<Rightarrow> nat list) \<Rightarrow> string \<Rightarrow> dag_graph \<Rightarrow> string list" where
  "successors neighbors v g =
     (case dg_node_indices g v of
        None \<Rightarrow> []
      | Some i \<Rightarrow> map (\<lambda>j. dg_nodes g ! j) (neighbors i (dg_edges g)))"

section \<open>What the crate documents\<close>

definition precedes :: "'a list \<Rightarrow> 'a \<Rightarrow> 'a \<Rightarrow> bool" where
  "precedes xs a b \<longleftrightarrow> (\<exists>us vs ws. xs = us @ a # vs @ b # ws)"

text \<open>
  \<open>toposort\<close>: an acyclic graph gives a vector of its nodes, each before its successors; otherwise a
  node is returned.
\<close>

definition toposort_spec :: "toposort \<Rightarrow> bool" where
  "toposort_spec topo \<longleftrightarrow>
     (\<forall>n es. set es \<subseteq> {..<n} \<times> {..<n} \<longrightarrow>
        (case topo n es of
           Inr order \<Rightarrow> distinct order \<and> set order = {..<n} \<and> (\<forall>(a, b) \<in> set es. precedes order a b)
         | Inl v \<Rightarrow> v < n \<and> \<not> acyclic (set es)))"

lemma toposort_Inr:
  assumes "toposort_spec topo" "set es \<subseteq> {..<n} \<times> {..<n}" "topo n es = Inr order"
  shows "distinct order" "set order = {..<n}" "\<And>a b. (a, b) \<in> set es \<Longrightarrow> precedes order a b"
  using assms(1) [unfolded toposort_spec_def, rule_format, OF assms(2)] assms(3) by auto

lemma toposort_acyclic:
  assumes "toposort_spec topo" "set es \<subseteq> {..<n} \<times> {..<n}" "acyclic (set es)"
  shows "\<exists>order. topo n es = Inr order"
  using assms(1) [unfolded toposort_spec_def, rule_format, OF assms(2)] assms(3)
  by (cases "topo n es") auto

text \<open>A sorter with this behaviour: repeatedly take a node without a predecessor left.\<close>

function kahn :: "nat list \<Rightarrow> (nat \<times> nat) list \<Rightarrow> nat list option" where
  "kahn rem es =
     (if rem = [] then Some []
      else case find (\<lambda>v. \<forall>(a, b) \<in> set es. b = v \<longrightarrow> a \<notin> set rem) rem of
          None \<Rightarrow> None
        | Some v \<Rightarrow> map_option ((#) v) (kahn (remove1 v rem) es))"
  by pat_completeness auto
termination
proof (relation "measure (\<lambda>(rem, es). length rem)", goal_cases)
  case (2 rem es v)
  then have "v \<in> set rem" by (auto simp: find_Some_iff)
  then have "0 < length rem" by (rule length_pos_if_in_set)
  with \<open>v \<in> set rem\<close> show ?case by (simp add: length_remove1)
qed simp

declare kahn.simps [simp del]

definition kahn_sort :: toposort where
  "kahn_sort n es = (case kahn [0..<n] es of None \<Rightarrow> Inl 0 | Some order \<Rightarrow> Inr order)"

section \<open>The sorter is correct\<close>

lemma precedes_Cons: "precedes (x # xs) a b \<longleftrightarrow> (x = a \<and> b \<in> set xs) \<or> precedes xs a b"
proof
  assume "precedes (x # xs) a b"
  then obtain us vs ws where e: "x # xs = us @ a # vs @ b # ws" by (auto simp: precedes_def)
  show "(x = a \<and> b \<in> set xs) \<or> precedes xs a b"
    using e by (cases us) (auto simp: precedes_def)
next
  assume "(x = a \<and> b \<in> set xs) \<or> precedes xs a b"
  then show "precedes (x # xs) a b"
  proof
    assume "x = a \<and> b \<in> set xs"
    then obtain vs ws where "x # xs = [] @ a # vs @ b # ws" by (auto dest: split_list)
    then show ?thesis unfolding precedes_def by blast
  next
    assume "precedes xs a b"
    then obtain us vs ws where "x # xs = (x # us) @ a # vs @ b # ws" by (auto simp: precedes_def)
    then show ?thesis unfolding precedes_def by blast
  qed
qed

lemma precedes_map: "precedes xs a b \<Longrightarrow> precedes (map f xs) (f a) (f b)"
  unfolding precedes_def by (metis (no_types, lifting) list.simps(9) map_append)

lemma kahn_sound:
  "distinct rem \<Longrightarrow> kahn rem es = Some order \<Longrightarrow>
     distinct order \<and> set order = set rem \<and>
     (\<forall>(a, b) \<in> set es. a \<in> set rem \<longrightarrow> b \<in> set rem \<longrightarrow> precedes order a b)"
proof (induction rem es arbitrary: order rule: kahn.induct)
  case (1 rem es)
  show ?case
  proof (cases "rem = []")
    case True
    with 1 show ?thesis by (simp add: kahn.simps)
  next
    case False
    with 1(3) obtain v rest where f: "find (\<lambda>v. \<forall>(a, b) \<in> set es. b = v \<longrightarrow> a \<notin> set rem) rem = Some v"
      and k: "kahn (remove1 v rem) es = Some rest" and order: "order = v # rest"
      by (auto simp: kahn.simps [of rem es] split: option.splits)
    from f have v: "v \<in> set rem" and free: "\<forall>(a, b) \<in> set es. b = v \<longrightarrow> a \<notin> set rem"
      by (auto simp: find_Some_iff)
    from 1(1) [OF False f _ k] 1(2) have
      ih: "distinct rest" "set rest = set rem - {v}"
      "\<forall>(a, b) \<in> set es. a \<in> set rem - {v} \<longrightarrow> b \<in> set rem - {v} \<longrightarrow> precedes rest a b"
      by (simp_all add: set_remove1_eq)
    have "precedes order a b" if "(a, b) \<in> set es" "a \<in> set rem" "b \<in> set rem" for a b
    proof -
      have "b \<noteq> v" using free that by auto
      with ih that show ?thesis by (auto simp: order precedes_Cons)
    qed
    with ih v order show ?thesis by auto
  qed
qed

lemma kahn_complete:
  "acyclic (set es) \<Longrightarrow> kahn rem es \<noteq> None"
proof (induction rem es rule: kahn.induct)
  case (1 rem es)
  show ?case
  proof (cases "rem = []")
    case False
    have "finite (set es)" "acyclic (set es)" using 1(2) by simp_all
    then have "wf (set es)" by (rule finite_acyclic_wf)
    then obtain v where v: "v \<in> set rem" "\<And>a. (a, v) \<in> set es \<Longrightarrow> a \<notin> set rem"
      using False by (metis wf_eq_minimal set_empty ex_in_conv)
    then have "find (\<lambda>v. \<forall>(a, b) \<in> set es. b = v \<longrightarrow> a \<notin> set rem) rem \<noteq> None"
      by (auto simp: find_None_iff)
    then obtain u where u: "find (\<lambda>v. \<forall>(a, b) \<in> set es. b = v \<longrightarrow> a \<notin> set rem) rem = Some u" by auto
    from 1(1) [OF False u 1(2)] u show ?thesis by (auto simp: kahn.simps [of rem es])
  qed (simp add: kahn.simps)
qed

lemma order_acyclic:
  assumes "distinct order" "\<forall>(a, b) \<in> R. precedes order a b"
  shows "acyclic R"
proof -
  have pos: "i < j" if "precedes order a b" "order ! i = a" "order ! j = b" "i < length order" "j < length order"
    for a b i j
  proof -
    from that(1) obtain us vs ws where o: "order = us @ a # vs @ b # ws" by (auto simp: precedes_def)
    then have "order ! length us = a" "order ! (length us + length vs + 1) = b" "length us < length order"
      "length us + length vs + 1 < length order" by (simp_all add: nth_append)
    with assms(1) that(2-5) show ?thesis by (metis less_add_one nth_eq_iff_index_eq add_lessD1 trans_less_add1)
  qed
  define idx where "idx a = (THE i. i < length order \<and> order ! i = a)" for a
  have idx: "idx a < length order \<and> order ! idx a = a" if "a \<in> set order" for a
  proof -
    from that obtain i where i: "i < length order \<and> order ! i = a" by (auto simp: in_set_conv_nth)
    then have "j = i" if "j < length order \<and> order ! j = a" for j
      using that assms(1) by (metis nth_eq_iff_index_eq)
    with i show ?thesis unfolding idx_def by (rule theI)
  qed
  have "R \<subseteq> measure idx"
  proof
    fix p assume "p \<in> R"
    obtain a b where p: "p = (a, b)" by fastforce
    with \<open>p \<in> R\<close> assms(2) have pr: "precedes order a b" by auto
    then have "a \<in> set order" "b \<in> set order" by (auto simp: precedes_def)
    with pos [OF pr] idx show "p \<in> measure idx" by (auto simp: p)
  qed
  then have "wf R" by (rule wf_subset [OF wf_measure])
  then show ?thesis by (rule wf_acyclic)
qed

lemma kahn_sort_spec: "toposort_spec kahn_sort"
  unfolding toposort_spec_def
proof (intro allI impI)
  fix n :: nat and es assume sub: "set es \<subseteq> {..<n} \<times> {..<n}"
  show "case kahn_sort n es of
      Inr order \<Rightarrow> distinct order \<and> set order = {..<n} \<and> (\<forall>(a, b) \<in> set es. precedes order a b)
    | Inl v \<Rightarrow> v < n \<and> \<not> acyclic (set es)"
  proof (cases "kahn [0..<n] es")
    case None
    with kahn_complete [of es "[0..<n]"] have "\<not> acyclic (set es)" by auto
    moreover have "n \<noteq> 0"
    proof
      assume "n = 0"
      with None show False by (simp add: kahn.simps)
    qed
    ultimately show ?thesis using None by (simp add: kahn_sort_def)
  next
    case (Some order)
    from kahn_sound [OF _ Some] have "distinct order" "set order = {..<n}"
      and pre: "\<And>a b. (a, b) \<in> set es \<Longrightarrow> a < n \<Longrightarrow> b < n \<Longrightarrow> precedes order a b"
      by (auto simp: lessThan_atLeast0)
    moreover have "\<forall>(a, b) \<in> set es. precedes order a b" using pre sub by auto
    ultimately show ?thesis using Some by (simp add: kahn_sort_def)
  qed
qed

section \<open>Building the graph\<close>

definition edge_rel :: "config \<Rightarrow> (string \<times> string) set" where
  "edge_rel c = (\<lambda>e. (ed_from e, ed_to e)) ` set (cf_edges c)"

definition edges_known :: "config \<Rightarrow> bool" where
  "edges_known c \<longleftrightarrow> (\<forall>e \<in> set (cf_edges c). ed_from e \<in> fst ` set (cf_nodes c) \<and> ed_to e \<in> fst ` set (cf_nodes c))"

lemma node_indices_Some:
  "distinct ids \<Longrightarrow> node_indices_of ids v = Some i \<longleftrightarrow> i < length ids \<and> ids ! i = v"
  unfolding node_indices_of_def
  by (subst map_of_eq_Some_iff) (auto simp: in_set_zip)

lemma node_indices_None: "node_indices_of ids v = None \<longleftrightarrow> v \<notin> set ids"
  using dom_map_of_zip [of ids "[0..<length ids]"] by (auto simp: node_indices_of_def dom_def)

lemma add_edges_Inr:
  "add_edges ix es acc = Inr r \<longleftrightarrow>
     (\<forall>e \<in> set es. ix (ed_from e) \<noteq> None \<and> ix (ed_to e) \<noteq> None) \<and>
     r = acc @ map (\<lambda>e. (the (ix (ed_from e)), the (ix (ed_to e)))) es"
  by (induction es arbitrary: acc) (auto split: option.splits)

lemma acyclic_image: "acyclic (map_prod f f ` R) \<Longrightarrow> acyclic R"
proof -
  have "(f x, f y) \<in> (map_prod f f ` R)\<^sup>+" if "(x, y) \<in> R\<^sup>+" for x y
    using that by (induction rule: trancl_induct) (auto intro: trancl_into_trancl)
  then show "acyclic (map_prod f f ` R) \<Longrightarrow> acyclic R" unfolding acyclic_def by blast
qed

text \<open>The index graph and the graph on node names have the same cycles.\<close>

lemma index_graph:
  assumes "distinct (map fst (cf_nodes c))" "edges_known c"
  defines "ids \<equiv> map fst (cf_nodes c)"
  defines "es \<equiv> map (\<lambda>e. (the (node_indices_of ids (ed_from e)), the (node_indices_of ids (ed_to e)))) (cf_edges c)"
  shows "set es \<subseteq> {..<length ids} \<times> {..<length ids}"
    and "map_prod (\<lambda>i. ids ! i) (\<lambda>i. ids ! i) ` set es = edge_rel c"
    and "acyclic (set es) \<longleftrightarrow> acyclic (edge_rel c)"
proof -
  let ?ix = "node_indices_of ids" and ?n = "\<lambda>i. ids ! i"
  have d: "distinct ids" using assms(1) by (simp add: ids_def)
  have known: "\<exists>i. ?ix v = Some i \<and> i < length ids \<and> ids ! i = v" if "v \<in> set ids" for v
    using that node_indices_None [of ids v] node_indices_Some [OF d, of v] by (cases "?ix v") auto
  have ends: "ed_from e \<in> set ids \<and> ed_to e \<in> set ids" if "e \<in> set (cf_edges c)" for e
    using assms(2) that by (auto simp: edges_known_def ids_def)
  have at: "the (?ix v) < length ids \<and> ids ! the (?ix v) = v" if "v \<in> set ids" for v
    using known [OF that] by auto
  show sub: "set es \<subseteq> {..<length ids} \<times> {..<length ids}"
    using ends at by (auto simp: es_def)
  show img: "map_prod ?n ?n ` set es = edge_rel c"
  proof -
    have "map_prod ?n ?n ` set es =
        (\<lambda>e. (ids ! the (?ix (ed_from e)), ids ! the (?ix (ed_to e)))) ` set (cf_edges c)"
      by (simp add: es_def image_image)
    also have "\<dots> = edge_rel c"
      unfolding edge_rel_def by (rule image_cong) (use ends at in auto)
    finally show ?thesis .
  qed
  have inv: "map_prod (\<lambda>v. the (?ix v)) (\<lambda>v. the (?ix v)) ` edge_rel c = set es"
    by (simp add: edge_rel_def es_def image_image)
  show "acyclic (set es) \<longleftrightarrow> acyclic (edge_rel c)"
    using acyclic_image [of ?n "set es"] acyclic_image [of "\<lambda>v. the (?ix v)" "edge_rel c"] img inv by auto
qed

lemma dag_from_config_ok:
  assumes "toposort_spec topo" "distinct (map fst (cf_nodes c))" "cf_nodes c \<noteq> []" "edges_known c"
    "acyclic (edge_rel c)"
  shows "\<exists>g. dag_from_config topo c = Inr g"
proof -
  let ?ids = "map fst (cf_nodes c)"
  let ?es = "map (\<lambda>e. (the (node_indices_of ?ids (ed_from e)), the (node_indices_of ?ids (ed_to e)))) (cf_edges c)"
  have "add_edges (node_indices_of ?ids) (cf_edges c) [] = Inr ?es"
    using assms(4) by (auto simp: add_edges_Inr node_indices_None edges_known_def)
  moreover obtain order where "topo (length ?ids) ?es = Inr order"
    using toposort_acyclic [OF assms(1) index_graph(1) [OF assms(2,4)]] index_graph(3) [OF assms(2,4)] assms(5)
    by blast
  ultimately show ?thesis using assms(3) by (simp add: dag_from_config_def Let_def)
qed

lemma dag_from_config_Inr:
  assumes "toposort_spec topo" "distinct (map fst (cf_nodes c))" "dag_from_config topo c = Inr g"
  shows "cf_nodes c \<noteq> [] \<and> edges_known c \<and> acyclic (edge_rel c) \<and> dg_nodes g = map fst (cf_nodes c) \<and>
    distinct (dg_topo_order g) \<and> set (dg_topo_order g) = fst ` set (cf_nodes c) \<and>
    (\<forall>(a, b) \<in> edge_rel c. precedes (dg_topo_order g) a b) \<and> edge_count g = length (cf_edges c)"
proof -
  let ?ids = "map fst (cf_nodes c)"
  from assms(3) have ne: "cf_nodes c \<noteq> []" by (auto simp: dag_from_config_def)
  from assms(3) ne obtain es order where add: "add_edges (node_indices_of ?ids) (cf_edges c) [] = Inr es"
    and t: "topo (length ?ids) es = Inr order"
    and g: "g = \<lparr>dg_nodes = ?ids, dg_edges = es, dg_node_indices = node_indices_of ?ids,
      dg_topo_order = map (\<lambda>i. ?ids ! i) order\<rparr>"
    by (auto simp: dag_from_config_def Let_def split: sum.splits)
  from add have known: "edges_known c"
    by (auto simp: add_edges_Inr node_indices_None edges_known_def)
  have es: "es = map (\<lambda>e. (the (node_indices_of ?ids (ed_from e)), the (node_indices_of ?ids (ed_to e)))) (cf_edges c)"
    using add by (simp add: add_edges_Inr)
  note ig = index_graph [OF assms(2) known, folded es]
  note o = toposort_Inr [OF assms(1) ig(1) t]
  have topo: "distinct (dg_topo_order g)" "set (dg_topo_order g) = set ?ids"
  proof -
    show "distinct (dg_topo_order g)"
    proof -
      have "inj_on (\<lambda>i. ?ids ! i) (set order)"
        using nth_eq_iff_index_eq [OF assms(2)] by (intro inj_onI) (simp add: o(2))
      then show ?thesis using o(1) by (simp only: g dag_graph.simps distinct_map simp_thms)
    qed
    show "set (dg_topo_order g) = set ?ids"
    proof -
      have "set (dg_topo_order g) = (\<lambda>i. ?ids ! i) ` {..<length ?ids}"
        using o(2) by (simp only: g dag_graph.simps set_map)
      also have "\<dots> = set ?ids" by (metis atLeast0LessThan atLeast_upt set_map map_nth)
      finally show ?thesis .
    qed
  qed
  have "\<forall>(a, b) \<in> edge_rel c. precedes (dg_topo_order g) a b"
    unfolding ig(2) [symmetric] g using o(3) by (auto simp: precedes_map)
  moreover from this have "acyclic (edge_rel c)" by (rule order_acyclic [OF topo(1)])
  ultimately show ?thesis using ne known topo es by (simp add: g edge_count_def)
qed

section \<open>Properties\<close>

text \<open>
  The graph is built exactly for a non-empty acyclic configuration whose edges join existing
  nodes. The order it keeps lists every node once, each before all its successors.
\<close>

theorem dag_topological:
  assumes "toposort_spec topo" "distinct (map fst (cf_nodes c))"
  shows "(is_ok (dag_from_config topo c) \<longleftrightarrow> cf_nodes c \<noteq> [] \<and> edges_known c \<and> acyclic (edge_rel c)) \<and>
    (\<forall>g. dag_from_config topo c = Inr g \<longrightarrow>
       distinct (dg_topo_order g) \<and> set (dg_topo_order g) = fst ` set (cf_nodes c) \<and>
       (\<forall>(a, b) \<in> edge_rel c. precedes (dg_topo_order g) a b))"
  using dag_from_config_ok [OF assms] dag_from_config_Inr [OF assms]
  by (cases "dag_from_config topo c") auto

definition sample_dag :: config where
  "sample_dag = config_default\<lparr>
     cf_nodes := [(''out'', NSink SinkStdout), (''in'', NSource SourceStdin)],
     cf_edges := [\<lparr>ed_from = ''in'', ed_to = ''out'', ed_port = None, ed_capacity = None, ed_overflow = None\<rparr>]\<rparr>"

theorem dag_topological_witness:
  "\<exists>g. dag_from_config kahn_sort sample_dag = Inr g \<and> precedes (dg_topo_order g) ''in'' ''out''"
proof -
  have d: "distinct (map fst (cf_nodes sample_dag))" by (simp add: sample_dag_def)
  have rel: "edge_rel sample_dag = {(''in'', ''out'')}" by (simp add: edge_rel_def sample_dag_def)
  have "acyclic {(''in'', ''out'')}"
    by (rule order_acyclic [of "[''in'', ''out'']"]) (simp_all add: precedes_Cons)
  then have "is_ok (dag_from_config kahn_sort sample_dag)"
    using dag_topological [OF kahn_sort_spec d] rel by (simp add: edges_known_def sample_dag_def)
  then obtain g where "dag_from_config kahn_sort sample_dag = Inr g"
    by (cases "dag_from_config kahn_sort sample_dag") auto
  then show ?thesis using dag_topological [OF kahn_sort_spec d] rel by auto
qed

end
