(* ===== verification/Validation.thy ===== *)
theory Validation
  imports Dag HttpDest "HOL-Library.List_Lexorder" "HOL-Library.Char_ord"
begin

text \<open>
  Semantic validation of a configuration, \<open>wafer-config/src/validation.rs\<close>: the twenty checks in the
  order they run, each returning the messages it pushes, and the specification they implement. The
  nodes are a list of pairs in the iteration order of the map they are kept in. The cycle check
  uses the topological sort of \<open>Dag\<close>.
\<close>

section \<open>The checks\<close>

definition lookup_node :: "config \<Rightarrow> string \<Rightarrow> node_def option" where
  "lookup_node c v = map_of (cf_nodes c) v"

definition edge_at :: "nat \<Rightarrow> string" where
  "edge_at i = ''edge['' @ show_nat i @ '']''"

definition check_edge_node_references :: "config \<Rightarrow> string list" where
  "check_edge_node_references c =
     concat (map (\<lambda>(i, e).
       (if lookup_node c (ed_from e) = None
        then [edge_at i @ '': unknown source node '' @ quoted (ed_from e)] else []) @
       (if lookup_node c (ed_to e) = None
        then [edge_at i @ '': unknown destination node '' @ quoted (ed_to e)] else []))
       (enumerate 0 (cf_edges c)))"

definition check_source_no_inbound :: "config \<Rightarrow> string list" where
  "check_source_no_inbound c =
     (let inbound_nodes = set (map ed_to (cf_edges c)) in
      map (\<lambda>(v, _). ''source node '' @ quoted v @ '' must not have inbound edges'')
        (filter (\<lambda>(v, n). category n = CSource \<and> v \<in> inbound_nodes) (cf_nodes c)))"

definition check_sink_no_outbound :: "config \<Rightarrow> string list" where
  "check_sink_no_outbound c =
     (let outbound_nodes = set (map ed_from (cf_edges c)) in
      map (\<lambda>(v, _). ''sink node '' @ quoted v @ '' must not have outbound edges'')
        (filter (\<lambda>(v, n). category n = CSink \<and> v \<in> outbound_nodes) (cf_nodes c)))"

definition inbound_count :: "config \<Rightarrow> string \<Rightarrow> usize" where
  "inbound_count c v = length (filter (\<lambda>e. ed_to e = v) (cf_edges c))"

definition check_single_inbound :: "node_category \<Rightarrow> config \<Rightarrow> string list" where
  "check_single_inbound cat c =
     map (\<lambda>(v, _). node_category_display cat @ '' node '' @ quoted v
            @ '' must have exactly one inbound edge, found '' @ show_nat (inbound_count c v))
       (filter (\<lambda>(v, n). category n = cat \<and> inbound_count c v > 1) (cf_nodes c))"

definition check_filter_single_inbound :: "config \<Rightarrow> string list" where
  "check_filter_single_inbound c = check_single_inbound CFilter c"

definition check_router_single_inbound :: "config \<Rightarrow> string list" where
  "check_router_single_inbound c = check_single_inbound CRouter c"

definition check_router_edges_have_port :: "config \<Rightarrow> string list" where
  "check_router_edges_have_port c =
     concat (map (\<lambda>(i, e).
       case lookup_node c (ed_from e) of
         None \<Rightarrow> []
       | Some n \<Rightarrow>
           if category n = CRouter \<and> ed_port e = None
           then [edge_at i @ '' from router '' @ quoted (ed_from e) @ '' must specify a '' @ quoted ''port'' @ '' field'']
           else [])
       (enumerate 0 (cf_edges c)))"

definition check_port_only_on_router_edges :: "config \<Rightarrow> string list" where
  "check_port_only_on_router_edges c =
     concat (map (\<lambda>(i, e).
       case lookup_node c (ed_from e) of
         None \<Rightarrow> []
       | Some n \<Rightarrow>
           if ed_port e \<noteq> None \<and> category n \<noteq> CRouter
           then [edge_at i @ '': '' @ quoted ''port'' @ '' is only allowed on edges from a router, but ''
                 @ quoted (ed_from e) @ '' is a '' @ node_category_display (category n)]
           else [])
       (enumerate 0 (cf_edges c)))"

fun duplicate_edges :: "nat \<Rightarrow> edge_def list \<Rightarrow> (string \<times> string \<times> string option) set \<Rightarrow> string list" where
  "duplicate_edges i [] seen = []"
| "duplicate_edges i (e # es) seen =
     (let key = (ed_from e, ed_to e, ed_port e) in
      if key \<in> seen
      then (edge_at i @ '': duplicate edge '' @ quoted (ed_from e) @ '' -> '' @ quoted (ed_to e))
             # duplicate_edges (Suc i) es seen
      else duplicate_edges (Suc i) es (insert key seen))"

definition check_duplicate_edges :: "config \<Rightarrow> string list" where
  "check_duplicate_edges c = duplicate_edges 0 (cf_edges c) {}"

definition check_processing_nodes_have_input_and_output :: "config \<Rightarrow> string list" where
  "check_processing_nodes_have_input_and_output c =
     (let inbound = set (map ed_to (cf_edges c)); outbound = set (map ed_from (cf_edges c)) in
      concat (map (\<lambda>(v, n).
        if category n = CSource \<or> category n = CSink then []
        else
          (if v \<in> inbound \<and> v \<notin> outbound
           then [node_category_display (category n) @ '' node '' @ quoted v
                 @ '' has no outbound edge, so its output would be discarded''] else []) @
          (if v \<in> outbound \<and> v \<notin> inbound
           then [node_category_display (category n) @ '' node '' @ quoted v
                 @ '' has no inbound edge, so it would never receive a message''] else []))
        (cf_nodes c)))"

definition check_stdin_singleton :: "config \<Rightarrow> string list" where
  "check_stdin_singleton c =
     (let stdin_count = length (filter (\<lambda>(_, n). n = NSource SourceStdin) (cf_nodes c)) in
      if stdin_count > 1
      then [''at most one stdin source is allowed, found '' @ show_nat stdin_count] else [])"

definition check_stdout_singleton :: "config \<Rightarrow> string list" where
  "check_stdout_singleton c =
     (let stdout_count = length (filter (\<lambda>(_, n). n = NSink SinkStdout) (cf_nodes c)) in
      if stdout_count > 1
      then [''at most one stdout sink is allowed, found '' @ show_nat stdout_count] else [])"

definition check_dead_letter_required_for_error_policy :: "config \<Rightarrow> string list" where
  "check_dead_letter_required_for_error_policy c =
     (if cf_dead_letter c \<noteq> None then []
      else concat (map (\<lambda>v.
        case effective_error_policy c v of
          None \<Rightarrow> []
        | Some p \<Rightarrow>
            if dlq_actions p \<noteq> []
            then [''node '' @ quoted v @ '' sends '' @ join '', '' (dlq_actions p)
                  @ '' to the dead-letter queue but no [dead_letter] sink is configured; add one or set the action to ''
                  @ [CHR 0x22] @ ''skip'' @ [CHR 0x22] @ '' or '' @ [CHR 0x22] @ ''teardown'' @ [CHR 0x22]]
            else [])
        (sort (map fst (cf_nodes c)))))"

definition check_dead_letter_required_for_overflow :: "config \<Rightarrow> string list" where
  "check_dead_letter_required_for_overflow c =
     (let has_dead_letter_edge = list_ex (\<lambda>e. ed_overflow e = Some DeadLetter) (cf_edges c) in
      if has_dead_letter_edge \<and> cf_dead_letter c = None
      then [''one or more edges use '' @ quoted (''overflow = '' @ [CHR 0x22] @ ''dead-letter'' @ [CHR 0x22])
            @ '' but no [dead_letter] sink is configured''] else [])"

definition node_wasm :: "node_def \<Rightarrow> wasm_node_def option" where
  "node_wasm n =
     (case n of
        NTransform w \<Rightarrow> Some w | NFilter w \<Rightarrow> Some w | NRouter w \<Rightarrow> Some w
      | NSource _ \<Rightarrow> None | NSink _ \<Rightarrow> None)"

definition check_queue_capacities :: "config \<Rightarrow> string list" where
  "check_queue_capacities c =
     (if ec_default_queue_capacity (cf_engine c) = 0
      then [''engine.default_queue_capacity must be greater than zero''] else []) @
     (if pc_retry_buffer_capacity (cf_error_policy c) = 0
      then [''error_policy.retry_buffer_capacity must be greater than zero''] else []) @
     concat (map (\<lambda>(i, e).
       if ed_capacity e = Some 0
       then [''edges['' @ show_nat i @ ''].capacity must be greater than zero''] else [])
       (enumerate 0 (cf_edges c))) @
     concat (map (\<lambda>(v, n).
       case Option.bind (node_wasm n) wd_error_policy of
         None \<Rightarrow> []
       | Some p \<Rightarrow>
           if pc_retry_buffer_capacity p = 0
           then [''nodes.'' @ v @ ''.error_policy.retry_buffer_capacity must be greater than zero''] else [])
       (cf_nodes c)) @
     (if map_option dead_letter_queue_capacity (cf_dead_letter c) = Some 0
      then [''dead_letter.queue_capacity must be greater than zero''] else [])"

definition check_epoch_tick :: "config \<Rightarrow> string list" where
  "check_epoch_tick c =
     (if ec_epoch_tick_ms (cf_engine c) = 0 then [''engine.epoch_tick_ms must be greater than zero''] else [])"

definition destination_error_display :: "outbound_http_destination_error \<Rightarrow> string" where
  "destination_error_display e =
     (case e of
        EmptyHost \<Rightarrow> ''host must not be empty''
      | WildcardHost \<Rightarrow> ''wildcard hosts are not supported''
      | InvalidHost \<Rightarrow> ''host must be a canonical IP literal or ASCII DNS name''
      | ProhibitedIp \<Rightarrow> ''IP literal is prohibited''
      | ZeroPort \<Rightarrow> ''port must be greater than zero''
      | DuplicateDestination \<Rightarrow> ''duplicate normalized destination'')"

fun check_destinations ::
    "string \<Rightarrow> nat \<Rightarrow> outbound_http_destination list \<Rightarrow> canonical_http_destination set \<Rightarrow> string list" where
  "check_destinations v i [] seen = []"
| "check_destinations v i (d # ds) seen =
     (case canonicalize d of
        Inr cd \<Rightarrow>
          if cd \<in> seen
          then (''nodes.'' @ v @ ''.capabilities.outbound_http['' @ show_nat i @ '']: duplicate normalized destination'')
                 # check_destinations v (Suc i) ds seen
          else check_destinations v (Suc i) ds (insert cd seen)
      | Inl e \<Rightarrow>
          (''nodes.'' @ v @ ''.capabilities.outbound_http['' @ show_nat i @ '']: '' @ destination_error_display e)
            # check_destinations v (Suc i) ds seen)"

definition check_outbound_http :: "config \<Rightarrow> string list" where
  "check_outbound_http c =
     concat (map (\<lambda>(v, n).
       case node_wasm n of
         None \<Rightarrow> []
       | Some w \<Rightarrow>
           if is_native (wd_plugin w) \<and> cap_outbound_http (wd_capabilities w) \<noteq> []
           then [''nodes.'' @ v @ ''.capabilities.outbound_http is supported only for Wasm nodes'']
           else check_destinations v 0 (cap_outbound_http (wd_capabilities w)) {})
       (cf_nodes c))"

definition check_router_is_wasm :: "config \<Rightarrow> string list" where
  "check_router_is_wasm c =
     concat (map (\<lambda>(v, n).
       case n of
         NRouter w \<Rightarrow>
           if is_native (wd_plugin w)
           then [''nodes.'' @ v @ '': routers must use a Wasm plugin; native routers are not supported''] else []
       | _ \<Rightarrow> [])
       (cf_nodes c))"

definition UNSUPPORTED_ALLOW_INFERENCE_MESSAGE :: string where
  "UNSUPPORTED_ALLOW_INFERENCE_MESSAGE = ''allow_inference=true is supported only for Wasm Transform nodes''"

definition unsupported_inference :: "node_def \<Rightarrow> bool" where
  "unsupported_inference n =
     (case n of
        NTransform w \<Rightarrow> cap_allow_inference (wd_capabilities w) \<and> is_native (wd_plugin w)
      | NFilter w \<Rightarrow> cap_allow_inference (wd_capabilities w)
      | NRouter w \<Rightarrow> cap_allow_inference (wd_capabilities w)
      | NSource _ \<Rightarrow> False
      | NSink _ \<Rightarrow> False)"

definition check_unsupported_allow_inference :: "config \<Rightarrow> string list" where
  "check_unsupported_allow_inference c =
     (if list_ex (\<lambda>(_, n). unsupported_inference n) (cf_nodes c)
      then [UNSUPPORTED_ALLOW_INFERENCE_MESSAGE] else [])"

definition check_orphan_nodes :: "config \<Rightarrow> string list" where
  "check_orphan_nodes c =
     (if length (cf_nodes c) \<le> 1 then []
      else
        let referenced = set (concat (map (\<lambda>e. [ed_from e, ed_to e]) (cf_edges c))) in
        map (\<lambda>v. ''node '' @ quoted v @ '' is not connected to any edge (orphan)'')
          (filter (\<lambda>v. v \<notin> referenced) (map fst (cf_nodes c))))"

definition known_index_edges :: "config \<Rightarrow> (nat \<times> nat) list" where
  "known_index_edges c =
     (let ix = node_indices_of (map fst (cf_nodes c)) in
      concat (map (\<lambda>e.
        case ix (ed_from e) of
          None \<Rightarrow> []
        | Some a \<Rightarrow> (case ix (ed_to e) of None \<Rightarrow> [] | Some b \<Rightarrow> [(a, b)]))
        (cf_edges c)))"

definition check_no_cycles :: "toposort \<Rightarrow> config \<Rightarrow> string list" where
  "check_no_cycles topo c =
     (case topo (length (cf_nodes c)) (known_index_edges c) of
        Inl _ \<Rightarrow> [''pipeline DAG contains a cycle'']
      | Inr _ \<Rightarrow> [])"

definition validation_errors :: "toposort \<Rightarrow> config \<Rightarrow> string list" where
  "validation_errors topo c =
     check_edge_node_references c @ check_source_no_inbound c @ check_sink_no_outbound c @
     check_filter_single_inbound c @ check_router_single_inbound c @ check_router_edges_have_port c @
     check_router_is_wasm c @ check_port_only_on_router_edges c @ check_duplicate_edges c @
     check_processing_nodes_have_input_and_output c @ check_stdin_singleton c @ check_stdout_singleton c @
     check_dead_letter_required_for_overflow c @ check_dead_letter_required_for_error_policy c @
     check_queue_capacities c @ check_epoch_tick c @ check_outbound_http c @
     check_unsupported_allow_inference c @ check_orphan_nodes c @ check_no_cycles topo c"

definition validate :: "toposort \<Rightarrow> config \<Rightarrow> (string list, unit) result" where
  "validate topo c =
     (let errors = validation_errors topo c in if errors = [] then Inr () else Inl errors)"

section \<open>What a valid configuration is\<close>

definition has_in :: "config \<Rightarrow> string \<Rightarrow> bool" where
  "has_in c v \<longleftrightarrow> (\<exists>e \<in> set (cf_edges c). ed_to e = v)"

definition has_out :: "config \<Rightarrow> string \<Rightarrow> bool" where
  "has_out c v \<longleftrightarrow> (\<exists>e \<in> set (cf_edges c). ed_from e = v)"

text \<open>The place of a node in the graph.\<close>

definition node_placed :: "config \<Rightarrow> string \<Rightarrow> node_category \<Rightarrow> bool" where
  "node_placed c v cat \<longleftrightarrow>
     (cat = CSource \<longrightarrow> \<not> has_in c v) \<and> (cat = CSink \<longrightarrow> \<not> has_out c v) \<and>
     (cat \<in> {CTransform, CFilter, CRouter} \<longrightarrow> has_in c v = has_out c v) \<and>
     (cat \<in> {CFilter, CRouter} \<longrightarrow> inbound_count c v \<le> 1) \<and>
     (1 < length (cf_nodes c) \<longrightarrow> has_in c v \<or> has_out c v)"

definition wiring_ok :: "config \<Rightarrow> bool" where
  "wiring_ok c \<longleftrightarrow>
     edges_known c \<and> acyclic (edge_rel c) \<and>
     distinct (map (\<lambda>e. (ed_from e, ed_to e, ed_port e)) (cf_edges c)) \<and>
     (\<forall>e \<in> set (cf_edges c). (ed_port e \<noteq> None) =
        (\<exists>n. lookup_node c (ed_from e) = Some n \<and> category n = CRouter)) \<and>
     (\<forall>(v, n) \<in> set (cf_nodes c). node_placed c v (category n))"

text \<open>What a node may ask for, on its own.\<close>

definition grants_ok :: "wasm_node_def \<Rightarrow> bool" where
  "grants_ok w \<longleftrightarrow>
     (let ds = cap_outbound_http (wd_capabilities w) in
      (is_native (wd_plugin w) \<longrightarrow> ds = []) \<and> (\<forall>d \<in> set ds. is_ok (canonicalize d)) \<and>
      distinct (map canonicalize ds)) \<and>
     (\<forall>p. wd_error_policy w = Some p \<longrightarrow> pc_retry_buffer_capacity p \<noteq> 0)"

definition node_ok :: "node_def \<Rightarrow> bool" where
  "node_ok n \<longleftrightarrow>
     (\<forall>w. node_wasm n = Some w \<longrightarrow> grants_ok w) \<and> \<not> unsupported_inference n \<and>
     (\<forall>w. n = NRouter w \<longrightarrow> \<not> is_native (wd_plugin w))"

definition resources_ok :: "config \<Rightarrow> bool" where
  "resources_ok c \<longleftrightarrow>
     length (filter (\<lambda>(_, n). n = NSource SourceStdin) (cf_nodes c)) \<le> 1 \<and>
     length (filter (\<lambda>(_, n). n = NSink SinkStdout) (cf_nodes c)) \<le> 1 \<and>
     (cf_dead_letter c = None \<longrightarrow>
        (\<forall>e \<in> set (cf_edges c). ed_overflow e \<noteq> Some DeadLetter) \<and>
        (\<forall>v \<in> fst ` set (cf_nodes c). \<forall>p. effective_error_policy c v = Some p \<longrightarrow> dlq_actions p = [])) \<and>
     ec_default_queue_capacity (cf_engine c) \<noteq> 0 \<and> pc_retry_buffer_capacity (cf_error_policy c) \<noteq> 0 \<and>
     (\<forall>e \<in> set (cf_edges c). ed_capacity e \<noteq> Some 0) \<and>
     map_option dead_letter_queue_capacity (cf_dead_letter c) \<noteq> Some 0 \<and>
     ec_epoch_tick_ms (cf_engine c) \<noteq> 0"

definition pipeline_ok :: "config \<Rightarrow> bool" where
  "pipeline_ok c \<longleftrightarrow>
     wiring_ok c \<and> (\<forall>(_, n) \<in> set (cf_nodes c). node_ok n) \<and> resources_ok c"

section \<open>Each check decides its rule\<close>

lemma concat_enumerate:
  assumes "\<And>i e. f i e = [] \<longleftrightarrow> P e"
  shows "concat (map (\<lambda>(i, e). f i e) (enumerate n xs)) = [] \<longleftrightarrow> (\<forall>e \<in> set xs. P e)"
  by (induction xs arbitrary: n) (simp_all add: assms)

lemma lookup_None: "lookup_node c v = None \<longleftrightarrow> v \<notin> fst ` set (cf_nodes c)"
  by (simp add: lookup_node_def map_of_eq_None_iff)

lemma references_iff: "check_edge_node_references c = [] \<longleftrightarrow> edges_known c"
  unfolding check_edge_node_references_def edges_known_def
  by (subst concat_enumerate) (auto simp: lookup_None)

lemma source_iff:
  "check_source_no_inbound c = [] \<longleftrightarrow> (\<forall>(v, n) \<in> set (cf_nodes c). category n = CSource \<longrightarrow> \<not> has_in c v)"
  by (auto simp: check_source_no_inbound_def Let_def has_in_def filter_empty_conv)

lemma sink_iff:
  "check_sink_no_outbound c = [] \<longleftrightarrow> (\<forall>(v, n) \<in> set (cf_nodes c). category n = CSink \<longrightarrow> \<not> has_out c v)"
  by (auto simp: check_sink_no_outbound_def Let_def has_out_def filter_empty_conv)

lemma single_inbound_iff:
  "check_filter_single_inbound c = [] \<and> check_router_single_inbound c = [] \<longleftrightarrow>
     (\<forall>(v, n) \<in> set (cf_nodes c). category n \<in> {CFilter, CRouter} \<longrightarrow> inbound_count c v \<le> 1)"
  by (force simp: check_filter_single_inbound_def check_router_single_inbound_def check_single_inbound_def
      filter_empty_conv not_less)

lemma ports_iff:
  assumes "edges_known c"
  shows "check_router_edges_have_port c = [] \<and> check_port_only_on_router_edges c = [] \<longleftrightarrow>
     (\<forall>e \<in> set (cf_edges c). (ed_port e \<noteq> None) =
        (\<exists>n. lookup_node c (ed_from e) = Some n \<and> category n = CRouter))"
proof -
  have a: "check_router_edges_have_port c = [] \<longleftrightarrow>
      (\<forall>e \<in> set (cf_edges c). \<forall>n. lookup_node c (ed_from e) = Some n \<longrightarrow> \<not> (category n = CRouter \<and> ed_port e = None))"
    unfolding check_router_edges_have_port_def by (subst concat_enumerate) (auto split: option.splits)
  have b: "check_port_only_on_router_edges c = [] \<longleftrightarrow>
      (\<forall>e \<in> set (cf_edges c). \<forall>n. lookup_node c (ed_from e) = Some n \<longrightarrow> \<not> (ed_port e \<noteq> None \<and> category n \<noteq> CRouter))"
    unfolding check_port_only_on_router_edges_def by (subst concat_enumerate) (auto split: option.splits)
  have "(\<forall>n. lookup_node c (ed_from e) = Some n \<longrightarrow> \<not> (category n = CRouter \<and> ed_port e = None)) \<and>
      (\<forall>n. lookup_node c (ed_from e) = Some n \<longrightarrow> \<not> (ed_port e \<noteq> None \<and> category n \<noteq> CRouter)) \<longleftrightarrow>
      (ed_port e \<noteq> None) = (\<exists>n. lookup_node c (ed_from e) = Some n \<and> category n = CRouter)"
    if "e \<in> set (cf_edges c)" for e
  proof -
    have "lookup_node c (ed_from e) \<noteq> None"
      using assms that lookup_None [of c "ed_from e"] unfolding edges_known_def by blast
    then obtain n where "lookup_node c (ed_from e) = Some n" by auto
    then show ?thesis by auto
  qed
  then show ?thesis unfolding a b ball_conj_distrib [symmetric] by (rule ball_cong [OF refl])
qed

lemma duplicate_edges_iff:
  "duplicate_edges i es seen = [] \<longleftrightarrow>
     distinct (map (\<lambda>e. (ed_from e, ed_to e, ed_port e)) es) \<and>
     (\<lambda>e. (ed_from e, ed_to e, ed_port e)) ` set es \<inter> seen = {}"
  by (induction es arbitrary: i seen) (auto simp: Let_def)

lemma processing_iff:
  "check_processing_nodes_have_input_and_output c = [] \<longleftrightarrow>
     (\<forall>(v, n) \<in> set (cf_nodes c). category n \<in> {CTransform, CFilter, CRouter} \<longrightarrow> has_in c v = has_out c v)"
proof -
  have cat: "category n \<in> {CTransform, CFilter, CRouter} \<longleftrightarrow> \<not> (category n = CSource \<or> category n = CSink)" for n
    by (cases "category n") simp_all
  have sets: "v \<in> set (map ed_to (cf_edges c)) \<longleftrightarrow> has_in c v" "v \<in> set (map ed_from (cf_edges c)) \<longleftrightarrow> has_out c v" for v
    by (auto simp: has_in_def has_out_def)
  show ?thesis
    unfolding check_processing_nodes_have_input_and_output_def Let_def sets cat
    by (auto simp: concat_eq_Nil_conv split: if_splits)
qed

lemma orphan_iff:
  "check_orphan_nodes c = [] \<longleftrightarrow>
     (1 < length (cf_nodes c) \<longrightarrow> (\<forall>(v, n) \<in> set (cf_nodes c). has_in c v \<or> has_out c v))"
  by (auto simp: check_orphan_nodes_def Let_def filter_empty_conv has_in_def has_out_def; force)

lemma router_wasm_iff:
  "check_router_is_wasm c = [] \<longleftrightarrow>
     (\<forall>(v, n) \<in> set (cf_nodes c). \<forall>w. n = NRouter w \<longrightarrow> \<not> is_native (wd_plugin w))"
  by (fastforce simp: check_router_is_wasm_def split: node_def.splits)

lemma inference_iff:
  "check_unsupported_allow_inference c = [] \<longleftrightarrow> (\<forall>(v, n) \<in> set (cf_nodes c). \<not> unsupported_inference n)"
  by (auto simp: check_unsupported_allow_inference_def list_ex_iff)

lemma destinations_iff:
  "check_destinations v i ds seen = [] \<longleftrightarrow>
     (\<forall>d \<in> set ds. is_ok (canonicalize d)) \<and> distinct (map canonicalize ds) \<and>
     canonicalize ` set ds \<inter> Inr ` seen = {}"
proof (induction ds arbitrary: i seen)
  case (Cons d ds)
  show ?case
  proof (cases "canonicalize d")
    case (Inr cd)
    with Cons show ?thesis by auto
  qed simp
qed simp

lemma outbound_iff:
  "check_outbound_http c = [] \<longleftrightarrow>
     (\<forall>(v, n) \<in> set (cf_nodes c). \<forall>w. node_wasm n = Some w \<longrightarrow>
        (let ds = cap_outbound_http (wd_capabilities w) in
         (is_native (wd_plugin w) \<longrightarrow> ds = []) \<and> (\<forall>d \<in> set ds. is_ok (canonicalize d)) \<and>
         distinct (map canonicalize ds)))"
proof -
  have one: "(case node_wasm n of None \<Rightarrow> [] | Some w \<Rightarrow>
        if is_native (wd_plugin w) \<and> cap_outbound_http (wd_capabilities w) \<noteq> [] then [m]
        else check_destinations v 0 (cap_outbound_http (wd_capabilities w)) {}) = [] \<longleftrightarrow>
      (\<forall>w. node_wasm n = Some w \<longrightarrow>
        (let ds = cap_outbound_http (wd_capabilities w) in
         (is_native (wd_plugin w) \<longrightarrow> ds = []) \<and> (\<forall>d \<in> set ds. is_ok (canonicalize d)) \<and>
         distinct (map canonicalize ds)))" for n v and m :: string
    by (cases "node_wasm n") (auto simp: destinations_iff Let_def)
  show ?thesis unfolding check_outbound_http_def by (simp add: one case_prod_beta)
qed

lemma capacities_iff:
  "check_queue_capacities c = [] \<longleftrightarrow>
     ec_default_queue_capacity (cf_engine c) \<noteq> 0 \<and> pc_retry_buffer_capacity (cf_error_policy c) \<noteq> 0 \<and>
     (\<forall>e \<in> set (cf_edges c). ed_capacity e \<noteq> Some 0) \<and>
     (\<forall>(v, n) \<in> set (cf_nodes c). \<forall>w. node_wasm n = Some w \<longrightarrow>
        (\<forall>p. wd_error_policy w = Some p \<longrightarrow> pc_retry_buffer_capacity p \<noteq> 0)) \<and>
     map_option dead_letter_queue_capacity (cf_dead_letter c) \<noteq> Some 0"
proof -
  have edges: "concat (map (\<lambda>(i, e). if ed_capacity e = Some 0
        then [''edges['' @ show_nat i @ ''].capacity must be greater than zero''] else []) (enumerate 0 (cf_edges c))) = []
      \<longleftrightarrow> (\<forall>e \<in> set (cf_edges c). ed_capacity e \<noteq> Some 0)"
    by (rule concat_enumerate) simp
  have node: "(case Option.bind (node_wasm n) wd_error_policy of None \<Rightarrow> [] | Some p \<Rightarrow>
        if pc_retry_buffer_capacity p = 0 then [m] else []) = [] \<longleftrightarrow>
      (\<forall>w. node_wasm n = Some w \<longrightarrow> (\<forall>p. wd_error_policy w = Some p \<longrightarrow> pc_retry_buffer_capacity p \<noteq> 0))"
    for n and m :: string
    by (cases "node_wasm n") (auto split: option.splits)
  show ?thesis
    unfolding check_queue_capacities_def append_is_Nil_conv edges
    by (simp add: node case_prod_beta)
qed

lemma dead_letter_iff:
  "check_dead_letter_required_for_overflow c = [] \<and> check_dead_letter_required_for_error_policy c = [] \<longleftrightarrow>
     (cf_dead_letter c = None \<longrightarrow>
        (\<forall>e \<in> set (cf_edges c). ed_overflow e \<noteq> Some DeadLetter) \<and>
        (\<forall>v \<in> fst ` set (cf_nodes c). \<forall>p. effective_error_policy c v = Some p \<longrightarrow> dlq_actions p = []))"
proof -
  have one: "(case effective_error_policy c v of None \<Rightarrow> [] | Some p \<Rightarrow> if dlq_actions p \<noteq> [] then [m p] else []) = []
      \<longleftrightarrow> (\<forall>p. effective_error_policy c v = Some p \<longrightarrow> dlq_actions p = [])" for v and m :: "error_policy_config \<Rightarrow> string"
    by (auto split: option.splits)
  show ?thesis
    by (auto simp: check_dead_letter_required_for_overflow_def check_dead_letter_required_for_error_policy_def
        Let_def list_ex_iff one)
qed

lemma cycles_iff:
  assumes "toposort_spec topo" "distinct (map fst (cf_nodes c))" "edges_known c"
  shows "check_no_cycles topo c = [] \<longleftrightarrow> acyclic (edge_rel c)"
proof -
  let ?ids = "map fst (cf_nodes c)"
  let ?es = "map (\<lambda>e. (the (node_indices_of ?ids (ed_from e)), the (node_indices_of ?ids (ed_to e)))) (cf_edges c)"
  have known: "known_index_edges c = ?es"
  proof -
    have "concat (map (\<lambda>e. case node_indices_of ?ids (ed_from e) of None \<Rightarrow> []
          | Some a \<Rightarrow> (case node_indices_of ?ids (ed_to e) of None \<Rightarrow> [] | Some b \<Rightarrow> [(a, b)])) es) =
        map (\<lambda>e. (the (node_indices_of ?ids (ed_from e)), the (node_indices_of ?ids (ed_to e)))) es"
      if "set es \<subseteq> set (cf_edges c)" for es
      using that
    proof (induction es)
      case (Cons e es)
      then have "node_indices_of ?ids (ed_from e) \<noteq> None" "node_indices_of ?ids (ed_to e) \<noteq> None"
        using assms(3) by (auto simp: node_indices_None edges_known_def)
      with Cons show ?case by auto
    qed simp
    then show ?thesis by (simp add: known_index_edges_def Let_def)
  qed
  note ig = index_graph [OF assms(2,3)]
  show ?thesis
  proof (cases "topo (length ?ids) ?es")
    case (Inl v)
    then have "\<not> acyclic (set ?es)" using toposort_acyclic [OF assms(1) ig(1)] by auto
    with Inl ig(3) show ?thesis by (simp add: check_no_cycles_def known)
  next
    case (Inr order)
    from toposort_Inr [OF assms(1) ig(1) Inr] have "acyclic (set ?es)"
      by (intro order_acyclic [of order]) auto
    with Inr ig(3) show ?thesis by (simp add: check_no_cycles_def known)
  qed
qed

lemma singletons_iff:
  "check_stdin_singleton c = [] \<longleftrightarrow> length (filter (\<lambda>(_, n). n = NSource SourceStdin) (cf_nodes c)) \<le> 1"
  "check_stdout_singleton c = [] \<longleftrightarrow> length (filter (\<lambda>(_, n). n = NSink SinkStdout) (cf_nodes c)) \<le> 1"
  "check_epoch_tick c = [] \<longleftrightarrow> ec_epoch_tick_ms (cf_engine c) \<noteq> 0"
  by (auto simp: check_stdin_singleton_def check_stdout_singleton_def check_epoch_tick_def Let_def)

text \<open>The three groups of checks and the three parts of the specification.\<close>

lemma wiring_checks_iff:
  assumes "toposort_spec topo" "distinct (map fst (cf_nodes c))"
  shows "check_edge_node_references c = [] \<and> check_source_no_inbound c = [] \<and> check_sink_no_outbound c = [] \<and>
     (check_filter_single_inbound c = [] \<and> check_router_single_inbound c = []) \<and>
     (check_router_edges_have_port c = [] \<and> check_port_only_on_router_edges c = []) \<and>
     check_duplicate_edges c = [] \<and> check_processing_nodes_have_input_and_output c = [] \<and>
     check_orphan_nodes c = [] \<and> check_no_cycles topo c = [] \<longleftrightarrow> wiring_ok c"
proof (cases "edges_known c")
  case True
  show ?thesis
    unfolding references_iff source_iff sink_iff single_inbound_iff ports_iff [OF True] check_duplicate_edges_def
      duplicate_edges_iff processing_iff orphan_iff cycles_iff [OF assms True] wiring_ok_def node_placed_def
    using True by auto
next
  case False
  then show ?thesis by (simp add: references_iff wiring_ok_def)
qed

lemma node_checks_iff:
  "check_router_is_wasm c = [] \<and> check_outbound_http c = [] \<and> check_unsupported_allow_inference c = [] \<and>
     (\<forall>(v, n) \<in> set (cf_nodes c). \<forall>w. node_wasm n = Some w \<longrightarrow>
        (\<forall>p. wd_error_policy w = Some p \<longrightarrow> pc_retry_buffer_capacity p \<noteq> 0)) \<longleftrightarrow>
   (\<forall>(_, n) \<in> set (cf_nodes c). node_ok n)"
  unfolding router_wasm_iff outbound_iff inference_iff node_ok_def grants_ok_def by auto

lemma validation_errors_iff:
  assumes "toposort_spec topo" "distinct (map fst (cf_nodes c))"
  shows "validation_errors topo c = [] \<longleftrightarrow> pipeline_ok c"
proof -
  have "validation_errors topo c = [] \<longleftrightarrow>
     (check_edge_node_references c = [] \<and> check_source_no_inbound c = [] \<and> check_sink_no_outbound c = [] \<and>
      (check_filter_single_inbound c = [] \<and> check_router_single_inbound c = []) \<and>
      (check_router_edges_have_port c = [] \<and> check_port_only_on_router_edges c = []) \<and>
      check_duplicate_edges c = [] \<and> check_processing_nodes_have_input_and_output c = [] \<and>
      check_orphan_nodes c = [] \<and> check_no_cycles topo c = []) \<and>
     (check_router_is_wasm c = [] \<and> check_outbound_http c = [] \<and> check_unsupported_allow_inference c = []) \<and>
     (check_dead_letter_required_for_overflow c = [] \<and> check_dead_letter_required_for_error_policy c = []) \<and>
     check_stdin_singleton c = [] \<and> check_stdout_singleton c = [] \<and> check_queue_capacities c = [] \<and>
     check_epoch_tick c = []"
    unfolding validation_errors_def append_is_Nil_conv by blast
  also have "\<dots> \<longleftrightarrow> pipeline_ok c"
    unfolding wiring_checks_iff [OF assms] dead_letter_iff singletons_iff capacities_iff pipeline_ok_def
      node_checks_iff [symmetric] resources_ok_def by blast
  finally show ?thesis .
qed

section \<open>Properties\<close>

text \<open>
  C7: validation is sound and complete. A configuration passes exactly when its graph is well wired
  (edges join existing nodes, no cycle and no repeated edge, ports exactly on router edges, sources
  without input, sinks without output, processing nodes with both or neither, filters and routers
  with one input, no orphan), every node's grants are allowed, and the resources it shares are
  there (one stdin and stdout, a dead-letter sink where one is used, no zero capacity or tick).
\<close>

theorem validate_exact:
  assumes "toposort_spec topo" "distinct (map fst (cf_nodes c))"
  shows "validate topo c = Inr () \<longleftrightarrow> pipeline_ok c"
  using validation_errors_iff [OF assms] by (simp add: validate_def Let_def)

lemma sample_dag_ok: "pipeline_ok sample_dag"
proof -
  have "acyclic {(''in'', ''out'')}"
    by (rule order_acyclic [of "[''in'', ''out'']"]) (simp_all add: precedes_Cons)
  then have "wiring_ok sample_dag"
    by (simp add: wiring_ok_def sample_dag_def edges_known_def edge_rel_def lookup_node_def node_placed_def
        has_in_def has_out_def category_def)
  moreover have "resources_ok sample_dag"
    by (simp add: resources_ok_def sample_dag_def config_default_def effective_error_policy_def
        engine_config_default_def error_policy_config_default_def)
  moreover have "\<forall>(_, n) \<in> set (cf_nodes sample_dag). node_ok n"
    by (simp add: sample_dag_def node_ok_def node_wasm_def unsupported_inference_def)
  ultimately show ?thesis by (simp add: pipeline_ok_def)
qed

theorem validate_exact_witness: "validate kahn_sort sample_dag = Inr ()"
  using validate_exact [OF kahn_sort_spec, of sample_dag] sample_dag_ok
  by (simp add: sample_dag_def)

end
