(* ===== verification/Host.thy ===== *)
theory Host
  imports Envelope
begin

text \<open>
  The part of the host every runner relies on and the sources only call: the two clocks.
  Every effectful definition threads a world \<open>'w\<close>; an operation of the host may change any part of
  it, because other tasks run while a runner calls out. The later theories extend this record with
  the channels, the watch slot, the timers and the Wasm engine.
\<close>

record 'w host =
  h_now :: "'w \<Rightarrow> instant \<times> 'w"
  h_system_now :: "'w \<Rightarrow> systime \<times> 'w"

text \<open>\<open>Instant::elapsed\<close>: saturating, as the standard library documents.\<close>

definition elapsed :: "('w, 'h) host_scheme \<Rightarrow> instant \<Rightarrow> 'w \<Rightarrow> duration \<times> 'w" where
  "elapsed H since w = (let (now, w') = h_now H w in (now - since, w'))"

text \<open>
  A host whose world is its clock: every reading of it takes one tick. It is the instance on which
  properties with hypotheses about the clock are exhibited.
\<close>

definition tick_host :: "nat host" where
  "tick_host = \<lparr>h_now = (\<lambda>w. (w, Suc w)), h_system_now = (\<lambda>w. (int w, Suc w))\<rparr>"

lemma elapsed_eq: "elapsed H since w = (fst (h_now H w) - since, snd (h_now H w))"
  by (simp add: elapsed_def split: prod.splits)

end
