(* ===== verification/Metrics.thy ===== *)
theory Metrics
  imports Host ErrorTypes
begin

text \<open>
  \<open>wafer-core/src/node/metrics.rs\<close>: the atomic counters of a queue and of a node. Each
  \<open>fetch_add\<close> wraps at 64 bits, so a counter is a word. A node's counters are written by its own
  runner only; a queue's by every upstream sender and by the receiver.
\<close>

section \<open>Queue metrics\<close>

record queue_metrics =
  qm_enqueued :: u64
  qm_dequeued :: u64
  qm_dropped :: u64
  qm_dead_lettered :: u64
  qm_downstream_closed :: u64
  qm_dlq_full :: u64
  qm_dlq_closed :: u64

definition queue_metrics_default :: queue_metrics where
  "queue_metrics_default =
     \<lparr>qm_enqueued = 0, qm_dequeued = 0, qm_dropped = 0, qm_dead_lettered = 0,
      qm_downstream_closed = 0, qm_dlq_full = 0, qm_dlq_closed = 0\<rparr>"

definition record_enqueued :: "queue_metrics \<Rightarrow> queue_metrics" where
  "record_enqueued m = m\<lparr>qm_enqueued := qm_enqueued m + 1\<rparr>"

definition record_dequeued :: "queue_metrics \<Rightarrow> queue_metrics" where
  "record_dequeued m = m\<lparr>qm_dequeued := qm_dequeued m + 1\<rparr>"

definition record_dropped :: "queue_metrics \<Rightarrow> queue_metrics" where
  "record_dropped m = m\<lparr>qm_dropped := qm_dropped m + 1\<rparr>"

definition record_dead_lettered :: "queue_metrics \<Rightarrow> queue_metrics" where
  "record_dead_lettered m = m\<lparr>qm_dead_lettered := qm_dead_lettered m + 1\<rparr>"

definition record_downstream_closed :: "queue_metrics \<Rightarrow> queue_metrics" where
  "record_downstream_closed m = m\<lparr>qm_downstream_closed := qm_downstream_closed m + 1\<rparr>"

definition record_dlq_full :: "queue_metrics \<Rightarrow> queue_metrics" where
  "record_dlq_full m = m\<lparr>qm_dlq_full := qm_dlq_full m + 1\<rparr>"

definition record_dlq_closed :: "queue_metrics \<Rightarrow> queue_metrics" where
  "record_dlq_closed m = m\<lparr>qm_dlq_closed := qm_dlq_closed m + 1\<rparr>"

definition depth :: "queue_metrics \<Rightarrow> u64" where
  "depth m = sat_sub (qm_enqueued m) (qm_dequeued m)"

section \<open>Node metrics\<close>

definition MAX_RECOVERY_SAMPLES :: usize where
  "MAX_RECOVERY_SAMPLES = 262144"

record trap_counters =
  tc_memory_out_of_bounds :: u64
  tc_unreachable :: u64
  tc_interrupt :: u64
  tc_out_of_fuel :: u64
  tc_memory_limit :: u64
  tc_other :: u64

definition trap_counters_new :: trap_counters where
  "trap_counters_new =
     \<lparr>tc_memory_out_of_bounds = 0, tc_unreachable = 0, tc_interrupt = 0, tc_out_of_fuel = 0,
      tc_memory_limit = 0, tc_other = 0\<rparr>"

definition trap_get :: "trap_counters \<Rightarrow> trap_kind \<Rightarrow> u64" where
  "trap_get c k =
     (case k of
        TkMemoryOutOfBounds \<Rightarrow> tc_memory_out_of_bounds c
      | TkUnreachable \<Rightarrow> tc_unreachable c
      | TkInterrupt \<Rightarrow> tc_interrupt c
      | TkOutOfFuel \<Rightarrow> tc_out_of_fuel c
      | TkMemoryLimit \<Rightarrow> tc_memory_limit c
      | TkOther \<Rightarrow> tc_other c)"

text \<open>\<open>get(kind).fetch_add(1)\<close>\<close>

definition trap_incr :: "trap_kind \<Rightarrow> trap_counters \<Rightarrow> trap_counters" where
  "trap_incr k c =
     (case k of
        TkMemoryOutOfBounds \<Rightarrow> c\<lparr>tc_memory_out_of_bounds := tc_memory_out_of_bounds c + 1\<rparr>
      | TkUnreachable \<Rightarrow> c\<lparr>tc_unreachable := tc_unreachable c + 1\<rparr>
      | TkInterrupt \<Rightarrow> c\<lparr>tc_interrupt := tc_interrupt c + 1\<rparr>
      | TkOutOfFuel \<Rightarrow> c\<lparr>tc_out_of_fuel := tc_out_of_fuel c + 1\<rparr>
      | TkMemoryLimit \<Rightarrow> c\<lparr>tc_memory_limit := tc_memory_limit c + 1\<rparr>
      | TkOther \<Rightarrow> c\<lparr>tc_other := tc_other c + 1\<rparr>)"

record guest_error_counters =
  gc_bad_input :: u64
  gc_dependency_failed :: u64
  gc_processing_failed :: u64
  gc_timed_out :: u64
  gc_unrecoverable :: u64

definition guest_error_counters_new :: guest_error_counters where
  "guest_error_counters_new =
     \<lparr>gc_bad_input = 0, gc_dependency_failed = 0, gc_processing_failed = 0, gc_timed_out = 0,
      gc_unrecoverable = 0\<rparr>"

definition guest_get :: "guest_error_counters \<Rightarrow> error_category \<Rightarrow> u64" where
  "guest_get c k =
     (case k of
        CatBadInput \<Rightarrow> gc_bad_input c
      | CatDependencyFailed \<Rightarrow> gc_dependency_failed c
      | CatProcessingFailed \<Rightarrow> gc_processing_failed c
      | CatTimedOut \<Rightarrow> gc_timed_out c
      | CatUnrecoverable \<Rightarrow> gc_unrecoverable c)"

definition guest_incr :: "error_category \<Rightarrow> guest_error_counters \<Rightarrow> guest_error_counters" where
  "guest_incr k c =
     (case k of
        CatBadInput \<Rightarrow> c\<lparr>gc_bad_input := gc_bad_input c + 1\<rparr>
      | CatDependencyFailed \<Rightarrow> c\<lparr>gc_dependency_failed := gc_dependency_failed c + 1\<rparr>
      | CatProcessingFailed \<Rightarrow> c\<lparr>gc_processing_failed := gc_processing_failed c + 1\<rparr>
      | CatTimedOut \<Rightarrow> c\<lparr>gc_timed_out := gc_timed_out c + 1\<rparr>
      | CatUnrecoverable \<Rightarrow> c\<lparr>gc_unrecoverable := gc_unrecoverable c + 1\<rparr>)"

record node_metrics =
  nm_processed :: u64
  nm_first_processed_at :: "instant option"
  nm_filtered_out :: u64
  nm_attempts_failed :: u64
  nm_traps :: trap_counters
  nm_guest_errors :: guest_error_counters
  nm_retries :: u64
  nm_dlq_sent :: u64
  nm_dlq_lost :: u64
  nm_skipped :: u64
  nm_exhausted_skips :: u64
  nm_dropped_on_recovery :: u64
  nm_dropped_on_teardown :: u64
  nm_swaps :: u64
  nm_recovery_ns_total :: u64
  nm_recovery_count :: u64
  nm_recovery_max_ns :: u64
  nm_recovery_samples_ns :: "u64 list"
  nm_rollbacks :: u64

definition node_metrics_new :: node_metrics where
  "node_metrics_new =
     \<lparr>nm_processed = 0, nm_first_processed_at = None, nm_filtered_out = 0, nm_attempts_failed = 0,
      nm_traps = trap_counters_new, nm_guest_errors = guest_error_counters_new, nm_retries = 0,
      nm_dlq_sent = 0, nm_dlq_lost = 0, nm_skipped = 0, nm_exhausted_skips = 0,
      nm_dropped_on_recovery = 0, nm_dropped_on_teardown = 0, nm_swaps = 0,
      nm_recovery_ns_total = 0, nm_recovery_count = 0, nm_recovery_max_ns = 0,
      nm_recovery_samples_ns = [], nm_rollbacks = 0\<rparr>"

text \<open>
  The first successful message also stamps the clock; \<open>OnceLock::set\<close> keeps an earlier value.
\<close>

definition record_processed ::
    "('w, 'h) host_scheme \<Rightarrow> node_metrics \<Rightarrow> 'w \<Rightarrow> node_metrics \<times> 'w" where
  "record_processed H m w =
     (let previous = nm_processed m; m = m\<lparr>nm_processed := previous + 1\<rparr> in
      if previous = 0 then
        let (now, w) = h_now H w in
        (if nm_first_processed_at m = None then m\<lparr>nm_first_processed_at := Some now\<rparr> else m, w)
      else (m, w))"

definition record_filtered_out :: "node_metrics \<Rightarrow> node_metrics" where
  "record_filtered_out m = m\<lparr>nm_filtered_out := nm_filtered_out m + 1\<rparr>"

definition record_failed :: "node_metrics \<Rightarrow> node_metrics" where
  "record_failed m = m\<lparr>nm_attempts_failed := nm_attempts_failed m + 1\<rparr>"

definition record_error :: "wasm_process_error \<Rightarrow> node_metrics \<Rightarrow> node_metrics" where
  "record_error e m =
     (let m = record_failed m in
      case trap_kind_of e of
        Some k \<Rightarrow> m\<lparr>nm_traps := trap_incr k (nm_traps m)\<rparr>
      | None \<Rightarrow>
          (case guest_category e of
             Some c \<Rightarrow> m\<lparr>nm_guest_errors := guest_incr c (nm_guest_errors m)\<rparr>
           | None \<Rightarrow> m))"

definition record_retry :: "node_metrics \<Rightarrow> node_metrics" where
  "record_retry m = m\<lparr>nm_retries := nm_retries m + 1\<rparr>"

definition record_dlq_sent :: "node_metrics \<Rightarrow> node_metrics" where
  "record_dlq_sent m = m\<lparr>nm_dlq_sent := nm_dlq_sent m + 1\<rparr>"

definition record_dlq_lost :: "node_metrics \<Rightarrow> node_metrics" where
  "record_dlq_lost m = m\<lparr>nm_dlq_lost := nm_dlq_lost m + 1\<rparr>"

definition record_skipped :: "node_metrics \<Rightarrow> node_metrics" where
  "record_skipped m = m\<lparr>nm_skipped := nm_skipped m + 1\<rparr>"

definition record_dropped_on_recovery :: "node_metrics \<Rightarrow> node_metrics" where
  "record_dropped_on_recovery m = m\<lparr>nm_dropped_on_recovery := nm_dropped_on_recovery m + 1\<rparr>"

definition record_dropped_on_teardown :: "node_metrics \<Rightarrow> node_metrics" where
  "record_dropped_on_teardown m = m\<lparr>nm_dropped_on_teardown := nm_dropped_on_teardown m + 1\<rparr>"

definition record_exhausted_skip :: "node_metrics \<Rightarrow> node_metrics" where
  "record_exhausted_skip m = m\<lparr>nm_exhausted_skips := nm_exhausted_skips m + 1\<rparr>"

definition record_swap :: "node_metrics \<Rightarrow> node_metrics" where
  "record_swap m = m\<lparr>nm_swaps := nm_swaps m + 1\<rparr>"

definition record_rollback :: "node_metrics \<Rightarrow> node_metrics" where
  "record_rollback m = m\<lparr>nm_rollbacks := nm_rollbacks m + 1\<rparr>"

text \<open>
  The compare-and-swap loop on the maximum ends with the larger of the two values; the sample
  window forgets its oldest entry when full.
\<close>

definition record_recovery :: "u64 \<Rightarrow> node_metrics \<Rightarrow> node_metrics" where
  "record_recovery d m =
     m\<lparr>nm_recovery_ns_total := nm_recovery_ns_total m + d,
       nm_recovery_count := nm_recovery_count m + 1,
       nm_recovery_samples_ns :=
         (let samples = nm_recovery_samples_ns m;
              samples = (if length samples = MAX_RECOVERY_SAMPLES then tl samples else samples)
          in samples @ [d]),
       nm_recovery_max_ns := (if d > nm_recovery_max_ns m then d else nm_recovery_max_ns m)\<rparr>"

definition traps :: "node_metrics \<Rightarrow> trap_kind \<Rightarrow> u64" where
  "traps m k = trap_get (nm_traps m) k"

definition traps_total :: "node_metrics \<Rightarrow> u64" where
  "traps_total m = foldl (\<lambda>sum k. sat_add sum (traps m k)) 0 trap_kind_all"

definition guest_errors :: "node_metrics \<Rightarrow> error_category \<Rightarrow> u64" where
  "guest_errors m c = guest_get (nm_guest_errors m) c"

section \<open>Accounting views\<close>

text \<open>
  The messages whose fate at this node is final: each of them is counted by exactly one of these
  counters. The sum is taken in the counters' own 64-bit arithmetic.
\<close>

definition settled :: "node_metrics \<Rightarrow> u64" where
  "settled m =
     nm_processed m + nm_filtered_out m + nm_dlq_sent m + nm_dlq_lost m + nm_skipped m +
     nm_exhausted_skips m + nm_dropped_on_recovery m + nm_dropped_on_teardown m"

text \<open>Every failed attempt is classified once.\<close>

definition classified :: "node_metrics \<Rightarrow> u64" where
  "classified m =
     (\<Sum>k \<leftarrow> trap_kind_all. traps m k) + (\<Sum>c \<leftarrow> error_category_all. guest_errors m c)"

named_theorems metric_defs "unfolding the counter operations"

lemmas metric_op_defs [metric_defs] =
  record_filtered_out_def record_failed_def record_retry_def record_dlq_sent_def
  record_dlq_lost_def record_skipped_def record_dropped_on_recovery_def
  record_dropped_on_teardown_def record_exhausted_skip_def record_swap_def record_rollback_def
  record_recovery_def

lemma trap_get_incr: "trap_get (trap_incr k c) k' = trap_get c k' + (if k' = k then 1 else 0)"
  by (cases k; cases k') (simp_all add: trap_get_def trap_incr_def)

lemma guest_get_incr: "guest_get (guest_incr k c) k' = guest_get c k' + (if k' = k then 1 else 0)"
  by (cases k; cases k') (simp_all add: guest_get_def guest_incr_def)

text \<open>What each operation adds to the settled messages; the simplifier uses these.\<close>

lemma settled_simps [simp]:
  "settled (record_filtered_out m) = settled m + 1"
  "settled (record_dlq_sent m) = settled m + 1"
  "settled (record_dlq_lost m) = settled m + 1"
  "settled (record_skipped m) = settled m + 1"
  "settled (record_exhausted_skip m) = settled m + 1"
  "settled (record_dropped_on_recovery m) = settled m + 1"
  "settled (record_dropped_on_teardown m) = settled m + 1"
  "settled (record_failed m) = settled m"
  "settled (record_retry m) = settled m"
  "settled (record_swap m) = settled m"
  "settled (record_rollback m) = settled m"
  "settled (record_recovery d m) = settled m"
  by (simp_all add: settled_def metric_defs)

lemma settled_record_processed [simp]: "settled (fst (record_processed H m w)) = settled m + 1"
  by (simp add: settled_def record_processed_def Let_def split: prod.splits)

lemma settled_record_error [simp]: "settled (record_error e m) = settled m"
  by (simp add: settled_def record_error_def record_failed_def Let_def split: option.splits)

lemma record_processed_first:
  "nm_processed m = 0 \<Longrightarrow> nm_first_processed_at m = None \<Longrightarrow>
   nm_first_processed_at (fst (record_processed H m w)) = Some (fst (h_now H w))"
  by (simp add: record_processed_def Let_def split: prod.splits)

lemma record_processed_keeps_first:
  "nm_first_processed_at m = Some t \<Longrightarrow>
   nm_first_processed_at (fst (record_processed H m w)) = Some t"
  by (simp add: record_processed_def Let_def split: prod.splits)

text \<open>A run of recoveries.\<close>

definition record_recoveries :: "u64 list \<Rightarrow> node_metrics \<Rightarrow> node_metrics" where
  "record_recoveries ds m = foldl (\<lambda>m d. record_recovery d m) m ds"

lemma record_recoveries_snoc:
  "record_recoveries (ds @ [d]) m = record_recovery d (record_recoveries ds m)"
  by (simp add: record_recoveries_def)

lemma take_last_snoc:
  "(let s = drop (length ds - n) ds; s = (if length s = n then tl s else s) in s @ [d]) =
   drop (length (ds @ [d]) - n) (ds @ [d])" if "0 < n"
proof (cases "length ds < n")
  case True
  then show ?thesis by simp
next
  case False
  with that have "tl (drop (length ds - n) ds) = drop (Suc (length ds) - n) ds"
    by (simp add: tl_drop drop_Suc Suc_diff_le flip: drop_Suc)
  with False that show ?thesis by (simp add: Let_def)
qed

section \<open>Properties\<close>

text \<open>
  A failed guest call increments the failed-attempt counter and exactly one classification
  counter, chosen by the trap that stopped it or the error the guest returned; no other counter
  changes, and the classification always adds up to the failed attempts.
\<close>

theorem record_error_classifies:
  "nm_attempts_failed (record_error e m) = nm_attempts_failed m + 1 \<and>
   classified (record_error e m) = classified m + 1 \<and>
   (\<forall>k. traps (record_error e m) k = traps m k + (if trap_kind_of e = Some k then 1 else 0)) \<and>
   (\<forall>c. guest_errors (record_error e m) c =
      guest_errors m c + (if guest_category e = Some c then 1 else 0)) \<and>
   (record_error e m)\<lparr>nm_attempts_failed := 0, nm_traps := trap_counters_new,
      nm_guest_errors := guest_error_counters_new\<rparr> =
   m\<lparr>nm_attempts_failed := 0, nm_traps := trap_counters_new,
      nm_guest_errors := guest_error_counters_new\<rparr>"
proof -
  have k: "traps (record_error e m) k = traps m k + (if trap_kind_of e = Some k then 1 else 0)" for k
    by (auto simp: record_error_def record_failed_def traps_def trap_get_incr Let_def
        split: option.splits)
  have c: "guest_errors (record_error e m) c =
      guest_errors m c + (if guest_category e = Some c then 1 else 0)" for c
    using trap_xor_guest [of e]
    by (auto simp: record_error_def record_failed_def guest_errors_def guest_get_incr Let_def
        split: option.splits)
  have "classified (record_error e m) = classified m + 1"
    using trap_xor_guest [of e] unfolding classified_def
    by (cases "trap_kind_of e"; cases "guest_category e")
       (auto simp: k c trap_kind_all_def error_category_all_def intro: trap_kind.exhaust
          error_category.exhaust)
  moreover have "nm_attempts_failed (record_error e m) = nm_attempts_failed m + 1"
    by (simp add: record_error_def record_failed_def Let_def split: option.splits)
  moreover have "(record_error e m)\<lparr>nm_attempts_failed := 0, nm_traps := trap_counters_new,
      nm_guest_errors := guest_error_counters_new\<rparr> =
   m\<lparr>nm_attempts_failed := 0, nm_traps := trap_counters_new,
      nm_guest_errors := guest_error_counters_new\<rparr>"
    by (simp add: record_error_def record_failed_def Let_def split: option.splits)
  ultimately show ?thesis using k c by blast
qed

text \<open>
  Recovery statistics are exact: the count and the total add up in 64-bit arithmetic, the
  maximum is the largest duration recorded, and the samples kept are the most recent ones, at
  most 262144 of them.
\<close>

theorem recovery_statistics:
  "let m = record_recoveries ds node_metrics_new in
   nm_recovery_count m = of_nat (length ds) \<and> nm_recovery_ns_total m = sum_list ds \<and>
   nm_recovery_max_ns m = Max (insert 0 (set ds)) \<and>
   nm_recovery_samples_ns m = drop (length ds - 262144) ds"
proof (induction ds rule: rev_induct)
  case Nil
  then show ?case by (simp add: record_recoveries_def node_metrics_new_def Let_def)
next
  case (snoc d ds)
  let ?m = "record_recoveries ds node_metrics_new"
  from snoc have ih: "nm_recovery_count ?m = of_nat (length ds)" "nm_recovery_ns_total ?m = sum_list ds"
    "nm_recovery_max_ns ?m = Max (insert 0 (set ds))"
    "nm_recovery_samples_ns ?m = drop (length ds - 262144) ds" by (simp_all add: Let_def)
  have "Max (insert 0 (set (ds @ [d]))) = Max (insert d (insert 0 (set ds)))"
    by (simp add: insert_commute)
  also have "\<dots> = max d (Max (insert 0 (set ds)))" by (subst Max_insert) auto
  finally have mx: "Max (insert 0 (set (ds @ [d]))) = max d (Max (insert 0 (set ds)))" .
  have "nm_recovery_samples_ns (record_recovery d ?m) = drop (length (ds @ [d]) - 262144) (ds @ [d])"
    using take_last_snoc [of 262144 ds d] ih(4)
    by (simp add: record_recovery_def MAX_RECOVERY_SAMPLES_def Let_def)
  moreover have "nm_recovery_max_ns (record_recovery d ?m) = max d (Max (insert 0 (set ds)))"
    unfolding ih(3) [symmetric] by (auto simp: record_recovery_def max_def)
  ultimately show ?case
    using ih(1,2) mx by (simp add: Let_def record_recoveries_snoc record_recovery_def)
qed

end
