(* ===== verification/ErrorPolicy.thy ===== *)
theory ErrorPolicy
  imports Metrics Config "HOL-Library.Multiset"
begin

text \<open>
  \<open>wafer-core/src/runner/error_policy.rs\<close>: the per-node error policy. A failed message is skipped,
  dead-lettered, retried after an exponential backoff or tears the node down; the retry buffer is
  bounded and hands out the entry with the earliest deadline that has expired. The dead-letter
  channel is \<open>tokio\<close>'s bounded \<open>mpsc\<close>, an operation of the host.
\<close>

section \<open>The dead-letter channel\<close>

datatype try_send = SendOk | SendFull | SendClosed

record 'w dlq_host = "'w host" +
  h_dlq_try_send :: "nat \<Rightarrow> dlq_envelope \<Rightarrow> 'w \<Rightarrow> try_send \<times> 'w"

section \<open>Resolved policy\<close>

datatype resolved_simple_action = ActSkip | ActDlq | ActTeardown

definition resolved_simple_action_from :: "simple_action \<Rightarrow> resolved_simple_action" where
  "resolved_simple_action_from a = (case a of Skip \<Rightarrow> ActSkip | Dlq \<Rightarrow> ActDlq | Teardown \<Rightarrow> ActTeardown)"

record resolved_retry_config =
  rr_retries :: u32
  rr_backoff_ms :: u64
  rr_exhausted :: resolved_simple_action

definition resolved_retry_config_from :: "retry_config \<Rightarrow> resolved_retry_config" where
  "resolved_retry_config_from c =
     \<lparr>rr_retries = rc_retries c, rr_backoff_ms = rc_backoff_ms c,
      rr_exhausted = resolved_simple_action_from (rc_exhausted c)\<rparr>"

record resolved_error_policy =
  rp_bad_input :: resolved_simple_action
  rp_dependency_failed :: resolved_retry_config
  rp_processing_failed :: resolved_retry_config
  rp_timed_out :: resolved_simple_action
  rp_retry_buffer_capacity :: usize

definition resolved_error_policy_from :: "error_policy_config \<Rightarrow> resolved_error_policy" where
  "resolved_error_policy_from c =
     \<lparr>rp_bad_input = resolved_simple_action_from (pc_bad_input c),
      rp_dependency_failed = resolved_retry_config_from (pc_dependency_failed c),
      rp_processing_failed = resolved_retry_config_from (pc_processing_failed c),
      rp_timed_out = resolved_simple_action_from (pc_timed_out c),
      rp_retry_buffer_capacity = pc_retry_buffer_capacity c\<rparr>"

definition resolved_error_policy_default :: resolved_error_policy where
  "resolved_error_policy_default = resolved_error_policy_from error_policy_config_default"

section \<open>The retry buffer\<close>

record retry_entry =
  en_envelope :: runtime_envelope
  en_category :: error_category
  en_retry_count :: u32
  en_next_attempt_at :: instant

record retry_buffer =
  rb_entries :: "retry_entry list"
  rb_capacity :: usize

definition retry_buffer_new :: "usize \<Rightarrow> retry_buffer" where
  "retry_buffer_new cap = \<lparr>rb_entries = [], rb_capacity = cap\<rparr>"

definition is_full :: "retry_buffer \<Rightarrow> bool" where
  "is_full b = (length (rb_entries b) \<ge> rb_capacity b)"

definition buffer_push :: "retry_entry \<Rightarrow> retry_buffer \<Rightarrow> retry_buffer" where
  "buffer_push e b = b\<lparr>rb_entries := rb_entries b @ [e]\<rparr>"

text \<open>\<open>Iterator::min_by_key\<close>: the first of the minimal elements.\<close>

fun min_by_key :: "('a \<Rightarrow> 'k::linorder) \<Rightarrow> 'a list \<Rightarrow> 'a option" where
  "min_by_key f [] = None"
| "min_by_key f (x # xs) =
     (case min_by_key f xs of None \<Rightarrow> Some x | Some y \<Rightarrow> if f x \<le> f y then Some x else Some y)"

text \<open>The selection of \<open>next_ready\<close> at a given time, and the removal of the selected entry.\<close>

definition take_due :: "instant \<Rightarrow> retry_buffer \<Rightarrow> retry_entry option \<times> retry_buffer" where
  "take_due now b =
     (case map_option fst
             (min_by_key (\<lambda>(_, e). en_next_attempt_at e)
               (filter (\<lambda>(_, e). en_next_attempt_at e \<le> now) (enumerate 0 (rb_entries b)))) of
        None \<Rightarrow> (None, b)
      | Some i \<Rightarrow> (Some (rb_entries b ! i), b\<lparr>rb_entries := remove_at i (rb_entries b)\<rparr>))"

definition next_ready ::
    "('w, 'h) host_scheme \<Rightarrow> retry_buffer \<Rightarrow> 'w \<Rightarrow> runtime_envelope option \<times> retry_buffer \<times> 'w"
    where
  "next_ready H b w =
     (if rb_entries b = [] then (None, b, w)
      else
        let (now, w) = h_now H w; (entry, b) = take_due now b
        in (map_option en_envelope entry, b, w))"

definition next_deadline :: "retry_buffer \<Rightarrow> instant option" where
  "next_deadline b = min_by_key id (map en_next_attempt_at (rb_entries b))"

definition buffer_len :: "retry_buffer \<Rightarrow> usize" where
  "buffer_len b = length (rb_entries b)"

definition drain_all :: "retry_buffer \<Rightarrow> retry_entry list \<times> retry_buffer" where
  "drain_all b = (rb_entries b, b\<lparr>rb_entries := []\<rparr>)"

section \<open>The executor\<close>

definition MAX_BACKOFF_MS :: u64 where
  "MAX_BACKOFF_MS = 30000"

datatype error_policy_action =
  Retried | DlqSent | Skipped | ExhaustedSkip | TeardownNode | DlqFull | DlqClosed

record error_policy_executor =
  ep_config :: resolved_error_policy
  ep_retry_buffer :: retry_buffer
  ep_dlq_sender :: "nat option"
  ep_source_node :: string

definition executor_new ::
    "resolved_error_policy \<Rightarrow> nat option \<Rightarrow> string \<Rightarrow> error_policy_executor" where
  "executor_new cfg dlq node =
     \<lparr>ep_config = cfg, ep_retry_buffer = retry_buffer_new (rp_retry_buffer_capacity cfg),
      ep_dlq_sender = dlq, ep_source_node = node\<rparr>"

definition retry_config_of :: "error_category \<Rightarrow> error_policy_executor \<Rightarrow> resolved_retry_config" where
  "retry_config_of c x =
     (case c of
        CatDependencyFailed \<Rightarrow> rp_dependency_failed (ep_config x)
      | _ \<Rightarrow> rp_processing_failed (ep_config x))"

definition compute_backoff :: "error_category \<Rightarrow> u32 \<Rightarrow> error_policy_executor \<Rightarrow> duration" where
  "compute_backoff c n x =
     (let retry = retry_config_of c x;
          exponent = min (sat_sub n 1) 20;
          ms = sat_mul (rr_backoff_ms retry) (push_bit (unat exponent) 1)
      in duration_from_millis (min ms MAX_BACKOFF_MS))"

definition send_to_dlq ::
    "('w, 'h) dlq_host_scheme \<Rightarrow> error_policy_executor \<Rightarrow> runtime_envelope
       \<Rightarrow> error_category option \<Rightarrow> string \<Rightarrow> u32 \<Rightarrow> dlq_reason \<Rightarrow> 'w
       \<Rightarrow> error_policy_action \<times> 'w" where
  "send_to_dlq H x env cat msg n reason w =
     (case ep_dlq_sender x of
        None \<Rightarrow> (DlqClosed, w)
      | Some sender \<Rightarrow>
          let (now, w) = h_system_now H w;
              d = \<lparr>de_timestamp = unix_epoch_millis now, de_source_node = ep_source_node x,
                   de_error_category = cat, de_error_message = msg, de_retry_count = n,
                   de_reason = reason, de_original = env, de_trace_id = trace_id env,
                   de_parent_id = parent_id env\<rparr>;
              (r, w) = h_dlq_try_send H sender d w
          in ((case r of SendOk \<Rightarrow> DlqSent | SendFull \<Rightarrow> DlqFull | SendClosed \<Rightarrow> DlqClosed), w))"

definition try_retry ::
    "('w, 'h) dlq_host_scheme \<Rightarrow> runtime_envelope \<Rightarrow> error_category \<Rightarrow> string
       \<Rightarrow> error_policy_executor \<Rightarrow> 'w \<Rightarrow> error_policy_action \<times> error_policy_executor \<times> 'w" where
  "try_retry H env cat msg x w =
     (let retry_config = retry_config_of cat x;
          max_retries = rr_retries retry_config;
          current = re_retry_count env
      in
      if current \<ge> max_retries then
        (case rr_exhausted retry_config of
           ActSkip \<Rightarrow> (ExhaustedSkip, x, w)
         | ActDlq \<Rightarrow>
             let (a, w) = send_to_dlq H x env (Some cat) msg current (RRetriesExhausted max_retries) w
             in (a, x, w)
         | ActTeardown \<Rightarrow> (TeardownNode, x, w))
      else if is_full (ep_retry_buffer x) then
        let (a, w) = send_to_dlq H x env (Some cat) msg current RRetryBufferFull w in (a, x, w)
      else
        let next_retry_count = sat_add current 1;
            env = env\<lparr>re_retry_count := next_retry_count\<rparr>;
            backoff = compute_backoff cat next_retry_count x;
            (now, w) = h_now H w;
            entry = \<lparr>en_envelope = env, en_category = cat, en_retry_count = next_retry_count,
                     en_next_attempt_at = now + backoff\<rparr>
        in (Retried, x\<lparr>ep_retry_buffer := buffer_push entry (ep_retry_buffer x)\<rparr>, w))"

definition timed_out_action ::
    "('w, 'h) dlq_host_scheme \<Rightarrow> runtime_envelope \<Rightarrow> string \<Rightarrow> error_policy_executor \<Rightarrow> 'w
       \<Rightarrow> error_policy_action \<times> 'w" where
  "timed_out_action H env msg x w =
     (case rp_timed_out (ep_config x) of
        ActSkip \<Rightarrow> (Skipped, w)
      | ActDlq \<Rightarrow> send_to_dlq H x env (Some CatTimedOut) msg 0 RTimedOut w
      | ActTeardown \<Rightarrow> (TeardownNode, w))"

definition handle ::
    "('w, 'h) dlq_host_scheme \<Rightarrow> wasm_process_error \<Rightarrow> runtime_envelope
       \<Rightarrow> error_policy_executor \<Rightarrow> 'w \<Rightarrow> error_policy_action \<times> error_policy_executor \<times> 'w" where
  "handle H err env x w =
     (case err of
        BadInput msg \<Rightarrow>
          (case rp_bad_input (ep_config x) of
             ActSkip \<Rightarrow> (Skipped, x, w)
           | ActDlq \<Rightarrow>
               let (a, w) = send_to_dlq H x env (Some CatBadInput) msg 0 RBadInput w in (a, x, w)
           | ActTeardown \<Rightarrow> (TeardownNode, x, w))
      | DependencyFailed msg \<Rightarrow> try_retry H env CatDependencyFailed msg x w
      | ProcessingFailed msg \<Rightarrow> try_retry H env CatProcessingFailed msg x w
      | TimedOut \<Rightarrow>
          let (a, w) = timed_out_action H env (wasm_process_error_display err) x w in (a, x, w)
      | Unrecoverable _ \<Rightarrow> (TeardownNode, x, w)
      | Trapped _ _ \<Rightarrow>
          if is_budget_exhausted err then
            let (a, w) = timed_out_action H env (wasm_process_error_display err) x w in (a, x, w)
          else (TeardownNode, x, w))"

definition next_ready_retry ::
    "('w, 'h) host_scheme \<Rightarrow> error_policy_executor \<Rightarrow> 'w
       \<Rightarrow> runtime_envelope option \<times> error_policy_executor \<times> 'w" where
  "next_ready_retry H x w =
     (let (e, b, w) = next_ready H (ep_retry_buffer x) w in (e, x\<lparr>ep_retry_buffer := b\<rparr>, w))"

definition next_retry_deadline :: "error_policy_executor \<Rightarrow> instant option" where
  "next_retry_deadline x = next_deadline (ep_retry_buffer x)"

definition pending_retries :: "error_policy_executor \<Rightarrow> usize" where
  "pending_retries x = buffer_len (ep_retry_buffer x)"

fun flush_entries ::
    "('w, 'h) dlq_host_scheme \<Rightarrow> error_policy_executor \<Rightarrow> dlq_reason \<Rightarrow> retry_entry list
       \<Rightarrow> node_metrics \<Rightarrow> 'w \<Rightarrow> node_metrics \<times> 'w" where
  "flush_entries H x reason [] m w = (m, w)"
| "flush_entries H x reason (e # es) m w =
     (let (a, w) = send_to_dlq H x (en_envelope e) (Some (en_category e)) [] (en_retry_count e)
                     reason w;
          m = (case a of DlqSent \<Rightarrow> record_dlq_sent m | _ \<Rightarrow> record_dlq_lost m)
      in flush_entries H x reason es m w)"

definition flush_to_dlq ::
    "('w, 'h) dlq_host_scheme \<Rightarrow> dlq_reason \<Rightarrow> error_policy_executor \<Rightarrow> node_metrics \<Rightarrow> 'w
       \<Rightarrow> error_policy_executor \<times> node_metrics \<times> 'w" where
  "flush_to_dlq H reason x m w =
     (let (entries, b) = drain_all (ep_retry_buffer x);
          x = x\<lparr>ep_retry_buffer := b\<rparr>;
          (m, w) = flush_entries H x reason entries m w
      in (x, m, w))"

definition record_condemned ::
    "('w, 'h) dlq_host_scheme \<Rightarrow> error_policy_executor \<Rightarrow> runtime_envelope \<Rightarrow> wasm_process_error
       \<Rightarrow> node_metrics \<Rightarrow> 'w \<Rightarrow> node_metrics \<times> 'w" where
  "record_condemned H x env err m w =
     (if ep_dlq_sender x = None then (record_dropped_on_recovery m, w)
      else
        let reason = (case trap_kind_of err of None \<Rightarrow> RUnrecoverable | Some k \<Rightarrow> RTrapped k);
            (a, w) = send_to_dlq H x env (guest_category err) (wasm_process_error_display err) 0
                       reason w
        in ((case a of DlqSent \<Rightarrow> record_dlq_sent m | _ \<Rightarrow> record_dlq_lost m), w))"

section \<open>A buffer of delayed entries, as its client sees it\<close>

text \<open>
  The contract the runner relies on: nothing is lost or invented, and the entry handed out is due
  and has the earliest deadline.
\<close>

fun drain_due :: "('q \<Rightarrow> 'e option \<times> 'q) \<Rightarrow> nat \<Rightarrow> 'q \<Rightarrow> 'e list \<times> 'q" where
  "drain_due nxt 0 q = ([], q)"
| "drain_due nxt (Suc k) q =
     (case nxt q of
        (None, q') \<Rightarrow> ([], q')
      | (Some e, q') \<Rightarrow> (let (es, q'') = drain_due nxt k q' in (e # es, q'')))"

locale delay_queue =
  fixes elems :: "'q \<Rightarrow> 'e multiset"
    and due :: "'e \<Rightarrow> instant"
    and put :: "'e \<Rightarrow> 'q \<Rightarrow> 'q"
    and take_next :: "instant \<Rightarrow> 'q \<Rightarrow> 'e option \<times> 'q"
  assumes elems_put: "elems (put e q) = add_mset e (elems q)"
    and take_Some: "take_next now q = (Some e, q') \<Longrightarrow>
      e \<in># elems q \<and> due e \<le> now \<and> (\<forall>x \<in># elems q. due e \<le> due x) \<and>
      elems q' = elems q - {#e#}"
    and take_None: "take_next now q = (None, q') \<Longrightarrow> q' = q \<and> (\<forall>x \<in># elems q. now < due x)"
begin

lemma take_size: "take_next now q = (Some e, q') \<Longrightarrow> size (elems q) = Suc (size (elems q'))"
  using take_Some [of now q e q'] by (metis insert_DiffM size_add_mset)

text \<open>Everything due at one moment comes out, in the order of the deadlines.\<close>

lemma drain_due_sorted:
  assumes "size (elems q) \<le> k"
  shows "let (es, q') = drain_due (take_next now) k q in
    mset es + elems q' = elems q \<and> sorted (map due es) \<and>
    (\<forall>x \<in># elems q'. now < due x) \<and> (\<forall>x \<in> set es. due x \<le> now)"
  using assms
proof (induction k arbitrary: q)
  case 0
  then show ?case by simp
next
  case (Suc k)
  obtain r q1 where t: "take_next now q = (r, q1)" by fastforce
  show ?case
  proof (cases r)
    case None
    with t take_None [of now q q1] show ?thesis by simp
  next
    case (Some e)
    with t have t: "take_next now q = (Some e, q1)" by simp
    note e = take_Some [OF t]
    obtain es q' where r: "drain_due (take_next now) k q1 = (es, q')" by fastforce
    have "size (elems q1) \<le> k" using take_size [OF t] Suc.prems by simp
    from Suc.IH [OF this] r have ih: "mset es + elems q' = elems q1" "sorted (map due es)"
      "\<forall>x \<in># elems q'. now < due x" "\<forall>x \<in> set es. due x \<le> now" by simp_all
    have "add_mset e (mset es) + elems q' = elems q" using ih(1) e by simp
    moreover from ih(1) have "set es \<subseteq> set_mset (elems q1)"
      by (metis set_mset_mset mset_subset_eq_add_left set_mset_mono)
    then have "\<forall>x \<in> set es. due e \<le> due x" using e by (metis in_diffD subsetD)
    ultimately show ?thesis using t r ih e by simp
  qed
qed

end

section \<open>The retry buffer implements the contract\<close>

lemma min_by_key_None [simp]: "min_by_key f xs = None \<longleftrightarrow> xs = []"
  by (cases xs) (auto split: option.splits)

lemma min_by_key_Some: "min_by_key f xs = Some y \<Longrightarrow> y \<in> set xs \<and> (\<forall>x \<in> set xs. f y \<le> f x)"
proof (induction xs arbitrary: y)
  case (Cons x xs)
  then show ?case by (fastforce split: option.splits if_splits)
qed simp

lemma in_enumerate: "(i, e) \<in> set (enumerate 0 xs) \<longleftrightarrow> i < length xs \<and> xs ! i = e"
  by (auto simp: in_set_enumerate_eq)

lemma take_due_Some:
  assumes "take_due now b = (Some e, b')"
  shows "\<exists>i < length (rb_entries b). e = rb_entries b ! i \<and> en_next_attempt_at e \<le> now \<and>
     (\<forall>x \<in> set (rb_entries b). en_next_attempt_at e \<le> en_next_attempt_at x) \<and>
     b' = b\<lparr>rb_entries := remove_at i (rb_entries b)\<rparr>"
proof -
  let ?c = "filter (\<lambda>(_, e). en_next_attempt_at e \<le> now) (enumerate 0 (rb_entries b))"
  let ?k = "\<lambda>(_ :: nat, e). en_next_attempt_at e"
  from assms obtain p where m: "min_by_key ?k ?c = Some p"
    and e: "e = rb_entries b ! fst p" "b' = b\<lparr>rb_entries := remove_at (fst p) (rb_entries b)\<rparr>"
    unfolding take_due_def by (auto split: option.splits)
  obtain i x where p: "p = (i, x)" by fastforce
  from min_by_key_Some [OF m] p have i: "i < length (rb_entries b)" "rb_entries b ! i = x"
    "en_next_attempt_at x \<le> now" and low: "\<forall>q \<in> set ?c. en_next_attempt_at x \<le> ?k q"
    by (auto simp: in_enumerate)
  have "en_next_attempt_at x \<le> en_next_attempt_at y" if "y \<in> set (rb_entries b)" for y
  proof (cases "en_next_attempt_at y \<le> now")
    case True
    from that obtain j where "j < length (rb_entries b)" "rb_entries b ! j = y"
      by (auto simp: in_set_conv_nth)
    with True have "(j, y) \<in> set ?c" by (simp add: in_enumerate)
    with low show ?thesis by fastforce
  next
    case False
    with i(3) show ?thesis by simp
  qed
  with i e p show ?thesis by (intro exI [of _ i]) simp
qed

lemma take_due_None:
  assumes "take_due now b = (None, b')"
  shows "b' = b \<and> (\<forall>x \<in> set (rb_entries b). now < en_next_attempt_at x)"
proof -
  let ?c = "filter (\<lambda>(_, e). en_next_attempt_at e \<le> now) (enumerate 0 (rb_entries b))"
  from assms have "?c = []" "b' = b" unfolding take_due_def by (auto split: option.splits)
  moreover have "now < en_next_attempt_at x" if "x \<in> set (rb_entries b)" for x
  proof (rule ccontr)
    assume "\<not> now < en_next_attempt_at x"
    moreover from that obtain j where "(j, x) \<in> set (enumerate 0 (rb_entries b))"
      by (metis in_enumerate in_set_conv_nth)
    ultimately have "(j, x) \<in> set ?c" by simp
    with \<open>?c = []\<close> show False by simp
  qed
  ultimately show ?thesis by simp
qed

lemma mset_remove_at: "i < length xs \<Longrightarrow> mset (remove_at i xs) = mset xs - {#xs ! i#}"
proof -
  assume i: "i < length xs"
  then have "mset xs = mset (take i xs @ xs ! i # drop (Suc i) xs)" by (simp add: id_take_nth_drop [symmetric])
  then show ?thesis by (simp add: remove_at_def)
qed

interpretation rb: delay_queue "\<lambda>b. mset (rb_entries b)" en_next_attempt_at buffer_push take_due
proof
  fix e b
  show "mset (rb_entries (buffer_push e b)) = add_mset e (mset (rb_entries b))"
    by (simp add: buffer_push_def)
next
  fix now b e b'
  assume "take_due now b = (Some e, b')"
  from take_due_Some [OF this] show "e \<in># mset (rb_entries b) \<and> en_next_attempt_at e \<le> now \<and>
      (\<forall>x \<in># mset (rb_entries b). en_next_attempt_at e \<le> en_next_attempt_at x) \<and>
      mset (rb_entries b') = mset (rb_entries b) - {#e#}"
    by (auto simp: mset_remove_at)
next
  fix now b b'
  assume "take_due now b = (None, b')"
  from take_due_None [OF this]
  show "b' = b \<and> (\<forall>x \<in># mset (rb_entries b). now < en_next_attempt_at x)" by simp
qed

section \<open>Dispatch\<close>

text \<open>
  The policy as a table: what becomes of a message, from the resolved configuration, the state of
  the buffer and the retries the message has burned.
\<close>

datatype policy_decision =
    Retry error_category
  | DeadLetterAs error_category string u32 dlq_reason
  | Settle error_policy_action

definition decide_simple ::
    "resolved_simple_action \<Rightarrow> error_policy_action \<Rightarrow> policy_decision \<Rightarrow> policy_decision" where
  "decide_simple a skip dlq =
     (case a of ActSkip \<Rightarrow> Settle skip | ActDlq \<Rightarrow> dlq | ActTeardown \<Rightarrow> Settle TeardownNode)"

definition decide_retry ::
    "resolved_retry_config \<Rightarrow> bool \<Rightarrow> error_category \<Rightarrow> string \<Rightarrow> u32 \<Rightarrow> policy_decision" where
  "decide_retry c full cat msg n =
     (if rr_retries c \<le> n
      then decide_simple (rr_exhausted c) ExhaustedSkip
             (DeadLetterAs cat msg n (RRetriesExhausted (rr_retries c)))
      else if full then DeadLetterAs cat msg n RRetryBufferFull
      else Retry cat)"

definition decide :: "resolved_error_policy \<Rightarrow> bool \<Rightarrow> wasm_process_error \<Rightarrow> u32 \<Rightarrow> policy_decision"
    where
  "decide p full err n =
     (let timeout = decide_simple (rp_timed_out p) Skipped
            (DeadLetterAs CatTimedOut (wasm_process_error_display err) 0 RTimedOut)
      in
      case err of
        BadInput msg \<Rightarrow> decide_simple (rp_bad_input p) Skipped (DeadLetterAs CatBadInput msg 0 RBadInput)
      | DependencyFailed msg \<Rightarrow> decide_retry (rp_dependency_failed p) full CatDependencyFailed msg n
      | ProcessingFailed msg \<Rightarrow> decide_retry (rp_processing_failed p) full CatProcessingFailed msg n
      | TimedOut \<Rightarrow> timeout
      | Unrecoverable _ \<Rightarrow> Settle TeardownNode
      | Trapped _ _ \<Rightarrow> if is_budget_exhausted err then timeout else Settle TeardownNode)"

text \<open>The entry a retry leaves in the buffer.\<close>

definition retry_entry_for ::
    "error_policy_executor \<Rightarrow> error_category \<Rightarrow> runtime_envelope \<Rightarrow> instant \<Rightarrow> retry_entry" where
  "retry_entry_for x cat env now =
     (let n = sat_add (re_retry_count env) 1 in
      \<lparr>en_envelope = env\<lparr>re_retry_count := n\<rparr>, en_category = cat, en_retry_count = n,
       en_next_attempt_at = now + compute_backoff cat n x\<rparr>)"

lemma handle_decide:
  "handle H err env x w =
     (case decide (ep_config x) (is_full (ep_retry_buffer x)) err (re_retry_count env) of
        Retry cat \<Rightarrow>
          (Retried,
           x\<lparr>ep_retry_buffer :=
               buffer_push (retry_entry_for x cat env (fst (h_now H w))) (ep_retry_buffer x)\<rparr>,
           snd (h_now H w))
      | DeadLetterAs cat msg n reason \<Rightarrow>
          (let (a, w) = send_to_dlq H x env (Some cat) msg n reason w in (a, x, w))
      | Settle a \<Rightarrow> (a, x, w))"
proof -
  have retry: "try_retry H env cat msg x w =
     (case decide_retry (retry_config_of cat x) (is_full (ep_retry_buffer x)) cat msg
             (re_retry_count env) of
        Retry cat \<Rightarrow>
          (Retried,
           x\<lparr>ep_retry_buffer :=
               buffer_push (retry_entry_for x cat env (fst (h_now H w))) (ep_retry_buffer x)\<rparr>,
           snd (h_now H w))
      | DeadLetterAs cat msg n reason \<Rightarrow>
          (let (a, w) = send_to_dlq H x env (Some cat) msg n reason w in (a, x, w))
      | Settle a \<Rightarrow> (a, x, w))" for cat msg
    by (cases "h_now H w"; cases "rr_exhausted (retry_config_of cat x)")
       (simp_all add: try_retry_def decide_retry_def decide_simple_def retry_entry_for_def Let_def)
  have timeout: "(let (a, w) = timed_out_action H env msg x w in (a, x, w)) =
     (case decide_simple (rp_timed_out (ep_config x)) Skipped (DeadLetterAs CatTimedOut msg 0 RTimedOut) of
        Retry cat \<Rightarrow> undefined
      | DeadLetterAs cat msg n reason \<Rightarrow>
          (let (a, w) = send_to_dlq H x env (Some cat) msg n reason w in (a, x, w))
      | Settle a \<Rightarrow> (a, x, w))" for msg
    by (cases "rp_timed_out (ep_config x)") (simp_all add: timed_out_action_def decide_simple_def)
  show ?thesis
  proof (cases err)
    case (BadInput msg)
    then show ?thesis
      by (cases "rp_bad_input (ep_config x)") (simp_all add: handle_def decide_def decide_simple_def)
  next
    case (Trapped c m)
    then show ?thesis using timeout [of "wasm_process_error_display err"]
      by (cases "rp_timed_out (ep_config x)") (simp_all add: handle_def decide_def decide_simple_def)
  next
    case TimedOut
    then show ?thesis using timeout [of "wasm_process_error_display err"]
      by (cases "rp_timed_out (ep_config x)") (simp_all add: handle_def decide_def decide_simple_def)
  qed (simp_all add: handle_def decide_def retry retry_config_of_def)
qed

lemma send_to_dlq_action: "fst (send_to_dlq H x env cat msg n reason w) \<in> {DlqSent, DlqFull, DlqClosed}"
  by (auto simp: send_to_dlq_def Let_def split: option.splits prod.splits try_send.splits)

lemma send_to_dlq_closed: "ep_dlq_sender x = None \<Longrightarrow> send_to_dlq H x env cat msg n reason w = (DlqClosed, w)"
  by (simp add: send_to_dlq_def)

text \<open>Whether a decision of the table keeps the message.\<close>

lemma decide_Retry:
  assumes "decide p full err n = Retry cat"
  shows "\<not> full \<and> guest_category err = Some cat \<and>
     (cat = CatDependencyFailed \<and> n < rr_retries (rp_dependency_failed p) \<or>
      cat = CatProcessingFailed \<and> n < rr_retries (rp_processing_failed p))"
  using assms
  by (cases err)
     (auto simp: decide_def decide_retry_def decide_simple_def guest_category_def Let_def not_le
       split: if_splits resolved_simple_action.splits)

lemma decide_Settle: "decide p full err n = Settle a \<Longrightarrow> a \<in> {Skipped, ExhaustedSkip, TeardownNode}"
  by (cases err)
     (auto simp: decide_def decide_retry_def decide_simple_def Let_def
       split: if_splits resolved_simple_action.splits)

lemma handle_Retried:
  assumes "handle H err env x w = (Retried, x', w')"
  shows "\<exists>cat. decide (ep_config x) (is_full (ep_retry_buffer x)) err (re_retry_count env) = Retry cat \<and>
     x' = x\<lparr>ep_retry_buffer :=
        buffer_push (retry_entry_for x cat env (fst (h_now H w))) (ep_retry_buffer x)\<rparr> \<and>
     w' = snd (h_now H w)"
proof (cases "decide (ep_config x) (is_full (ep_retry_buffer x)) err (re_retry_count env)")
  case (Retry cat)
  with assms show ?thesis by (simp add: handle_decide)
next
  case (DeadLetterAs cat msg n reason)
  with assms send_to_dlq_action [of H x env "Some cat" msg n reason w] show ?thesis
    by (cases "send_to_dlq H x env (Some cat) msg n reason w") (simp add: handle_decide)
next
  case (Settle a)
  with assms decide_Settle [OF Settle] show ?thesis by (simp add: handle_decide)
qed

lemma handle_not_Retried:
  "handle H err env x w = (a, x', w') \<Longrightarrow> a \<noteq> Retried \<Longrightarrow> x' = x"
  by (auto simp: handle_decide split: policy_decision.splits prod.splits)

section \<open>Backoff\<close>

lemma unat_one_shift: "k \<le> 20 \<Longrightarrow> unat (push_bit k 1 :: u64) = 2 ^ k"
proof -
  assume "k \<le> 20"
  then have "(2 :: nat) ^ k \<le> 2 ^ 20" by (intro power_increasing) simp_all
  then have "unat (of_nat (2 ^ k) :: u64) = 2 ^ k" by (subst unat_of_nat) simp
  then show ?thesis by (simp add: push_bit_eq_mult)
qed

lemma unat_min: "unat (min a b) = min (unat a) (unat b)"
  by (simp add: min_def word_le_nat_alt)

lemma compute_backoff_eq:
  "compute_backoff cat n x =
     min (unat (rr_backoff_ms (retry_config_of cat x)) * 2 ^ min (unat n - 1) 20) 30000 * 1000000"
proof -
  have e: "unat (min (sat_sub n 1) 20) = min (unat n - 1) 20"
    by (simp add: unat_min unat_sat_sub)
  have p: "unat (push_bit (min (unat n - 1) 20) 1 :: u64) = 2 ^ min (unat n - 1) 20"
    by (rule unat_one_shift) simp
  have "unat (min (sat_mul (rr_backoff_ms (retry_config_of cat x))
      (push_bit (unat (min (sat_sub n 1) 20)) 1)) MAX_BACKOFF_MS) =
    min (min (unat (rr_backoff_ms (retry_config_of cat x)) * 2 ^ min (unat n - 1) 20) (2 ^ 64 - 1)) 30000"
    unfolding e by (simp only: unat_min unat_sat_mul p) (simp add: MAX_BACKOFF_MS_def)
  also have "\<dots> = min (unat (rr_backoff_ms (retry_config_of cat x)) * 2 ^ min (unat n - 1) 20) 30000"
    by (simp add: min.assoc)
  finally show ?thesis by (simp add: compute_backoff_def duration_from_millis_def Let_def)
qed

section \<open>The buffer invariant\<close>

definition entry_ok :: "error_policy_executor \<Rightarrow> retry_entry \<Rightarrow> bool" where
  "entry_ok x e \<longleftrightarrow>
     en_retry_count e = re_retry_count (en_envelope e) \<and> 0 < en_retry_count e \<and>
     en_category e \<in> {CatDependencyFailed, CatProcessingFailed} \<and>
     en_retry_count e \<le> rr_retries (retry_config_of (en_category e) x)"

definition executor_inv :: "error_policy_executor \<Rightarrow> bool" where
  "executor_inv x \<longleftrightarrow>
     rb_capacity (ep_retry_buffer x) = rp_retry_buffer_capacity (ep_config x) \<and>
     length (rb_entries (ep_retry_buffer x)) \<le> rb_capacity (ep_retry_buffer x) \<and>
     (\<forall>e \<in> set (rb_entries (ep_retry_buffer x)). entry_ok x e)"

text \<open>The operations a runner performs on its executor, in any order.\<close>

datatype executor_call =
    CallHandle wasm_process_error runtime_envelope
  | CallNextReady
  | CallFlush dlq_reason

definition executor_step ::
    "('w, 'h) dlq_host_scheme \<Rightarrow> executor_call \<Rightarrow> error_policy_executor \<times> node_metrics \<times> 'w
       \<Rightarrow> error_policy_executor \<times> node_metrics \<times> 'w" where
  "executor_step H c s =
     (case s of (x, m, w) \<Rightarrow>
       case c of
         CallHandle err env \<Rightarrow> (case handle H err env x w of (_, x', w') \<Rightarrow> (x', m, w'))
       | CallNextReady \<Rightarrow> (case next_ready_retry H x w of (_, x', w') \<Rightarrow> (x', m, w'))
       | CallFlush reason \<Rightarrow> flush_to_dlq H reason x m w)"

definition executor_run ::
    "('w, 'h) dlq_host_scheme \<Rightarrow> executor_call list \<Rightarrow> error_policy_executor \<times> node_metrics \<times> 'w
       \<Rightarrow> error_policy_executor \<times> node_metrics \<times> 'w" where
  "executor_run H cs s = foldl (\<lambda>s c. executor_step H c s) s cs"

lemma executor_inv_new: "executor_inv (executor_new cfg dlq node)"
  by (simp add: executor_inv_def executor_new_def retry_buffer_new_def)

lemma entry_ok_cong: "ep_config x' = ep_config x \<Longrightarrow> entry_ok x' e = entry_ok x e"
  by (simp add: entry_ok_def retry_config_of_def cong: error_category.case_cong)

lemma handle_keeps_config:
  "handle H err env x w = (a, x', w') \<Longrightarrow> ep_config x' = ep_config x \<and> ep_dlq_sender x' = ep_dlq_sender x"
  by (cases "a = Retried") (auto dest: handle_Retried handle_not_Retried)

lemma entry_ok_retry:
  assumes "decide (ep_config x) (is_full (ep_retry_buffer x)) err (re_retry_count env) = Retry cat"
  shows "entry_ok x (retry_entry_for x cat env now)"
proof -
  let ?n = "re_retry_count env"
  from decide_Retry [OF assms] have cat: "cat \<in> {CatDependencyFailed, CatProcessingFailed}"
    and lt: "?n < rr_retries (retry_config_of cat x)" by (auto simp: retry_config_of_def)
  then have "unat ?n + 1 \<le> unat (rr_retries (retry_config_of cat x))" by (simp add: word_less_nat_alt)
  moreover have "unat (rr_retries (retry_config_of cat x)) < 2 ^ 32"
    using unsigned_less [of "rr_retries (retry_config_of cat x)"] by simp
  ultimately have "unat (sat_add ?n 1) = unat ?n + 1" by (intro sat_add_one_less) simp
  with cat lt show ?thesis
    by (auto simp: entry_ok_def retry_entry_for_def Let_def word_less_nat_alt word_le_nat_alt)
qed

lemma executor_inv_handle:
  assumes "executor_inv x" "handle H err env x w = (a, x', w')"
  shows "executor_inv x'"
proof (cases "a = Retried")
  case True
  with handle_Retried [of H err env x w x' w'] assms(2) obtain cat where
    d: "decide (ep_config x) (is_full (ep_retry_buffer x)) err (re_retry_count env) = Retry cat"
    and x': "x' = x\<lparr>ep_retry_buffer :=
        buffer_push (retry_entry_for x cat env (fst (h_now H w))) (ep_retry_buffer x)\<rparr>" by auto
  have c: "ep_config x' = ep_config x" by (simp add: x')
  from decide_Retry [OF d] have "length (rb_entries (ep_retry_buffer x)) < rb_capacity (ep_retry_buffer x)"
    by (simp add: is_full_def)
  with assms(1) entry_ok_retry [OF d] show ?thesis
    by (auto simp: executor_inv_def entry_ok_cong [OF c]) (auto simp: x' buffer_push_def)
next
  case False
  with handle_not_Retried [OF assms(2)] assms(1) show ?thesis by simp
qed

lemma next_ready_retry_cases:
  assumes "next_ready_retry H x w = (r, x', w')"
  shows "(r = None \<and> x' = x \<and>
      (\<forall>e \<in> set (rb_entries (ep_retry_buffer x)). fst (h_now H w) < en_next_attempt_at e)) \<or>
    (\<exists>i < length (rb_entries (ep_retry_buffer x)). let e = rb_entries (ep_retry_buffer x) ! i in
      r = Some (en_envelope e) \<and> en_next_attempt_at e \<le> fst (h_now H w) \<and>
      (\<forall>y \<in> set (rb_entries (ep_retry_buffer x)). en_next_attempt_at e \<le> en_next_attempt_at y) \<and>
      x' = x\<lparr>ep_retry_buffer := (ep_retry_buffer x)
             \<lparr>rb_entries := remove_at i (rb_entries (ep_retry_buffer x))\<rparr>\<rparr>)"
proof (cases "rb_entries (ep_retry_buffer x) = []")
  case True
  with assms show ?thesis by (simp add: next_ready_retry_def next_ready_def)
next
  case False
  obtain now w1 where n: "h_now H w = (now, w1)" by fastforce
  obtain q b where t: "take_due now (ep_retry_buffer x) = (q, b)" by fastforce
  from assms False n t have r: "r = map_option en_envelope q" "x' = x\<lparr>ep_retry_buffer := b\<rparr>"
    by (auto simp: next_ready_retry_def next_ready_def)
  show ?thesis
  proof (cases q)
    case None
    with take_due_None [of now "ep_retry_buffer x" b] t r n show ?thesis by simp
  next
    case (Some e)
    with take_due_Some [of now "ep_retry_buffer x" e b] t r n show ?thesis
      by (fastforce simp: Let_def)
  qed
qed

lemma executor_inv_next:
  assumes "executor_inv x" "next_ready_retry H x w = (r, x', w')"
  shows "executor_inv x'"
  using next_ready_retry_cases [OF assms(2)]
proof (elim disjE exE conjE)
  fix i assume i: "i < length (rb_entries (ep_retry_buffer x))"
    and "let e = rb_entries (ep_retry_buffer x) ! i in
      r = Some (en_envelope e) \<and> en_next_attempt_at e \<le> fst (h_now H w) \<and>
      (\<forall>y \<in> set (rb_entries (ep_retry_buffer x)). en_next_attempt_at e \<le> en_next_attempt_at y) \<and>
      x' = x\<lparr>ep_retry_buffer := (ep_retry_buffer x)
             \<lparr>rb_entries := remove_at i (rb_entries (ep_retry_buffer x))\<rparr>\<rparr>"
  then have x': "x' = x\<lparr>ep_retry_buffer := (ep_retry_buffer x)
             \<lparr>rb_entries := remove_at i (rb_entries (ep_retry_buffer x))\<rparr>\<rparr>" by (simp add: Let_def)
  have c: "ep_config x' = ep_config x" by (simp add: x')
  show ?thesis
    using assms(1) i set_remove_at [of i "rb_entries (ep_retry_buffer x)"]
    by (auto simp: executor_inv_def entry_ok_cong [OF c]) (auto simp: x')
qed (use assms in simp)

lemma flush_to_dlq_executor:
  "fst (flush_to_dlq H reason x m w) =
     x\<lparr>ep_retry_buffer := (ep_retry_buffer x)\<lparr>rb_entries := []\<rparr>\<rparr>"
  by (simp add: flush_to_dlq_def drain_all_def Let_def split: prod.splits)

lemma executor_inv_flush: "executor_inv x \<Longrightarrow> executor_inv (fst (flush_to_dlq H reason x m w))"
  by (simp add: executor_inv_def flush_to_dlq_executor)

lemma executor_inv_step: "executor_inv (fst s) \<Longrightarrow> executor_inv (fst (executor_step H c s))"
  by (cases s; cases c)
     (auto simp: executor_step_def executor_inv_flush split: prod.splits
        dest: executor_inv_handle executor_inv_next)

lemma executor_inv_run: "executor_inv (fst s) \<Longrightarrow> executor_inv (fst (executor_run H cs s))"
  by (induction cs arbitrary: s) (simp_all add: executor_run_def executor_inv_step)

lemma flush_entries_settled: "settled (fst (flush_entries H x reason es m w)) = settled m + of_nat (length es)"
proof (induction es arbitrary: m w)
  case (Cons e es)
  then show ?case
    by (cases "send_to_dlq H x (en_envelope e) (Some (en_category e)) [] (en_retry_count e) reason w")
       (auto simp: Let_def split: error_policy_action.splits)
qed simp

lemma record_condemned_settled: "settled (fst (record_condemned H x env err m w)) = settled m + 1"
  by (auto simp: record_condemned_def Let_def split: prod.splits error_policy_action.splits)

lemma flush_to_dlq_settled:
  "settled (fst (snd (flush_to_dlq H reason x m w))) = settled m + of_nat (pending_retries x)"
  using flush_entries_settled [of H "x\<lparr>ep_retry_buffer := (ep_retry_buffer x)\<lparr>rb_entries := []\<rparr>\<rparr>" reason
      "rb_entries (ep_retry_buffer x)" m w]
  by (simp add: flush_to_dlq_def drain_all_def pending_retries_def buffer_len_def Let_def split: prod.splits)

section \<open>Properties\<close>

text \<open>A message that fails again and again at one node: each retry leaves the buffer before the
  next attempt, so the other entries of the buffer are the same at every attempt.\<close>

fun retry_run ::
    "('w, 'h) dlq_host_scheme \<Rightarrow> error_policy_executor \<Rightarrow> wasm_process_error list
       \<Rightarrow> runtime_envelope \<Rightarrow> 'w \<Rightarrow> error_policy_action list" where
  "retry_run H x [] env w = []"
| "retry_run H x (err # errs) env w =
     (case handle H err env x w of
        (a, x', w') \<Rightarrow>
          a # (if a = Retried
               then retry_run H x errs (en_envelope (last (rb_entries (ep_retry_buffer x')))) w'
               else []))"

lemma retry_run_Cons_Retry:
  assumes "decide (ep_config x) (is_full (ep_retry_buffer x)) err (re_retry_count env) = Retry cat"
  shows "retry_run H x (err # errs) env w =
    Retried # retry_run H x errs (env\<lparr>re_retry_count := sat_add (re_retry_count env) 1\<rparr>) (snd (h_now H w))"
  using assms by (simp add: handle_decide buffer_push_def retry_entry_for_def Let_def)

text \<open>
  The letter a failed message leaves in the dead-letter queue, and what the sender's answer makes of it.
\<close>

definition letter_for ::
    "error_policy_executor \<Rightarrow> runtime_envelope \<Rightarrow> error_category \<Rightarrow> string \<Rightarrow> u32 \<Rightarrow> dlq_reason \<Rightarrow> systime
       \<Rightarrow> dlq_envelope" where
  "letter_for x env cat msg n reason now =
     \<lparr>de_timestamp = unix_epoch_millis now, de_source_node = ep_source_node x, de_error_category = Some cat,
      de_error_message = msg, de_retry_count = n, de_reason = reason, de_original = env,
      de_trace_id = trace_id env, de_parent_id = parent_id env\<rparr>"

definition fate_of_send :: "try_send \<Rightarrow> error_policy_action" where
  "fate_of_send r = (case r of SendOk \<Rightarrow> DlqSent | SendFull \<Rightarrow> DlqFull | SendClosed \<Rightarrow> DlqClosed)"

text \<open>
  C4: the error policy gives a failed message exactly one fate, the one its table \<open>decide\<close> names. It is
  retried only for a dependency or processing failure with budget left and room in the buffer, and then
  the buffer gains exactly this message with its retry count incremented and a deadline at most thirty
  seconds away, and the executor is otherwise as before. A dead letter is offered to the queue once, with
  the category, message, retry count and reason of the table and the original message, and its fate is
  the queue's answer, or that of a closed queue when there is none. In every other case the policy names
  the fate. Unless the message is retried the executor is unchanged, so no message is both kept and
  disposed of, and without a dead letter or a retry nothing else happens.
\<close>

theorem policy_single_fate:
  assumes "handle H err env x w = (a, x', w')"
  shows "(case decide (ep_config x) (is_full (ep_retry_buffer x)) err (re_retry_count env) of
        Retry _ \<Rightarrow> a = Retried
      | DeadLetterAs cat msg n reason \<Rightarrow>
          (case ep_dlq_sender x of
             None \<Rightarrow> a = DlqClosed \<and> w' = w
           | Some q \<Rightarrow>
               (let (now, w1) = h_system_now H w; (r, w2) = h_dlq_try_send H q (letter_for x env cat msg n reason now) w1
                in a = fate_of_send r \<and> w' = w2))
      | Settle b \<Rightarrow> a = b \<and> w' = w) \<and>
    (a = Retried \<longrightarrow>
      (\<exists>e cat. guest_category err = Some cat \<and> cat \<in> {CatDependencyFailed, CatProcessingFailed} \<and>
        re_retry_count env < rr_retries (retry_config_of cat x) \<and>
        length (rb_entries (ep_retry_buffer x)) < rb_capacity (ep_retry_buffer x) \<and>
        rb_entries (ep_retry_buffer x') = rb_entries (ep_retry_buffer x) @ [e] \<and>
        x' = x\<lparr>ep_retry_buffer := (ep_retry_buffer x)\<lparr>rb_entries := rb_entries (ep_retry_buffer x')\<rparr>\<rparr> \<and>
        en_envelope e = env\<lparr>re_retry_count := re_retry_count env + 1\<rparr> \<and>
        fst (h_now H w) \<le> en_next_attempt_at e \<and>
        en_next_attempt_at e \<le> fst (h_now H w) + 30000 * 1000000)) \<and>
    (a \<noteq> Retried \<longrightarrow> x' = x)"
proof (intro conjI impI)
  show "case decide (ep_config x) (is_full (ep_retry_buffer x)) err (re_retry_count env) of
        Retry _ \<Rightarrow> a = Retried
      | DeadLetterAs cat msg n reason \<Rightarrow>
          (case ep_dlq_sender x of
             None \<Rightarrow> a = DlqClosed \<and> w' = w
           | Some q \<Rightarrow>
               (let (now, w1) = h_system_now H w; (r, w2) = h_dlq_try_send H q (letter_for x env cat msg n reason now) w1
                in a = fate_of_send r \<and> w' = w2))
      | Settle b \<Rightarrow> a = b \<and> w' = w"
    using assms
    by (auto simp: handle_decide send_to_dlq_def letter_for_def fate_of_send_def Let_def
        split: policy_decision.split option.split prod.splits)
next
  assume "a = Retried"
  with handle_Retried [of H err env x w x' w'] assms obtain cat where
    d: "decide (ep_config x) (is_full (ep_retry_buffer x)) err (re_retry_count env) = Retry cat"
    and x': "x' = x\<lparr>ep_retry_buffer :=
        buffer_push (retry_entry_for x cat env (fst (h_now H w))) (ep_retry_buffer x)\<rparr>" by auto
  let ?e = "retry_entry_for x cat env (fst (h_now H w))"
  have c: "guest_category err = Some cat" "cat \<in> {CatDependencyFailed, CatProcessingFailed}"
    "re_retry_count env < rr_retries (retry_config_of cat x)"
    "length (rb_entries (ep_retry_buffer x)) < rb_capacity (ep_retry_buffer x)"
    using decide_Retry [OF d] by (auto simp: retry_config_of_def is_full_def)
  then have "sat_add (re_retry_count env) 1 = re_retry_count env + 1"
    by (intro sat_add_one_of_less)
  then have "en_envelope ?e = env\<lparr>re_retry_count := re_retry_count env + 1\<rparr>"
    by (simp add: retry_entry_for_def Let_def)
  moreover have "en_next_attempt_at ?e \<le> fst (h_now H w) + 30000 * 1000000"
    "fst (h_now H w) \<le> en_next_attempt_at ?e"
    by (simp_all add: retry_entry_for_def compute_backoff_eq Let_def)
  moreover have "rb_entries (ep_retry_buffer x') = rb_entries (ep_retry_buffer x) @ [?e]"
    "x' = x\<lparr>ep_retry_buffer := (ep_retry_buffer x)\<lparr>rb_entries := rb_entries (ep_retry_buffer x')\<rparr>\<rparr>"
    by (simp_all add: x' buffer_push_def)
  ultimately show "\<exists>e cat. guest_category err = Some cat \<and> cat \<in> {CatDependencyFailed, CatProcessingFailed} \<and>
        re_retry_count env < rr_retries (retry_config_of cat x) \<and>
        length (rb_entries (ep_retry_buffer x)) < rb_capacity (ep_retry_buffer x) \<and>
        rb_entries (ep_retry_buffer x') = rb_entries (ep_retry_buffer x) @ [e] \<and>
        x' = x\<lparr>ep_retry_buffer := (ep_retry_buffer x)\<lparr>rb_entries := rb_entries (ep_retry_buffer x')\<rparr>\<rparr> \<and>
        en_envelope e = env\<lparr>re_retry_count := re_retry_count env + 1\<rparr> \<and>
        fst (h_now H w) \<le> en_next_attempt_at e \<and>
        en_next_attempt_at e \<le> fst (h_now H w) + 30000 * 1000000"
    using c by blast
next
  assume "a \<noteq> Retried"
  with handle_not_Retried [OF assms] show "x' = x" .
qed

text \<open>A host for the witnesses: the world is the clock, the dead-letter channel always accepts.\<close>

definition tick_dlq_host :: "nat dlq_host" where
  "tick_dlq_host =
     \<lparr>h_now = (\<lambda>w. (w, Suc w)), h_system_now = (\<lambda>w. (int w, Suc w)),
      h_dlq_try_send = (\<lambda>_ _ w. (SendOk, w))\<rparr>"

definition sample_executor :: error_policy_executor where
  "sample_executor = executor_new resolved_error_policy_default (Some 0) ''node''"

definition sample_envelope :: runtime_envelope where
  "sample_envelope = envelope_new ''id'' 0 ''src'' [1, 2, 3]"

lemmas sample_defs =
  sample_executor_def sample_envelope_def executor_new_def retry_buffer_new_def envelope_new_def
  resolved_error_policy_default_def resolved_error_policy_from_def resolved_retry_config_from_def
  error_policy_config_default_def default_dependency_failed_retry_def
  default_processing_failed_retry_def resolved_simple_action_from_def is_full_def

lemma sample_handle:
  "fst (handle tick_dlq_host (DependencyFailed ''m'') sample_envelope sample_executor 5) = Retried"
  by (simp add: handle_decide decide_def decide_retry_def sample_defs)

theorem policy_single_fate_witness:
  "\<exists>e. rb_entries (ep_retry_buffer (fst (snd (handle tick_dlq_host (DependencyFailed ''m'')
      sample_envelope sample_executor 5)))) = [e] \<and> re_retry_count (en_envelope e) = 1"
  using policy_single_fate [of tick_dlq_host "DependencyFailed ''m''" sample_envelope sample_executor 5
      Retried "fst (snd (handle tick_dlq_host (DependencyFailed ''m'') sample_envelope sample_executor 5))"
      "snd (snd (handle tick_dlq_host (DependencyFailed ''m'') sample_envelope sample_executor 5))"]
    sample_handle
  by (auto simp: prod_eq_iff sample_defs)

text \<open>
  C26: retries are bounded. A message that keeps failing with the same retryable error, while the
  buffer has room, is retried exactly as often as its remaining budget allows and then meets the
  configured end: skipped, handed to the dead-letter queue, or a teardown.
\<close>

theorem retry_budget_exact:
  assumes "guest_category err = Some cat" "cat \<in> {CatDependencyFailed, CatProcessingFailed}"
    and "\<not> is_full (ep_retry_buffer x)"
    and "unat (rr_retries (retry_config_of cat x)) - unat (re_retry_count env) = n"
  shows "\<exists>a. retry_run H x (replicate (n + 1 + k) err) env w = replicate n Retried @ [a] \<and>
    (case rr_exhausted (retry_config_of cat x) of
       ActSkip \<Rightarrow> a = ExhaustedSkip
     | ActDlq \<Rightarrow> a \<in> {DlqSent, DlqFull, DlqClosed}
     | ActTeardown \<Rightarrow> a = TeardownNode)"
  using assms(4)
proof (induction n arbitrary: env w)
  case 0
  let ?c = "retry_config_of cat x"
  from 0 have le: "rr_retries ?c \<le> re_retry_count env" by (simp add: word_le_nat_alt)
  have err: "err = DependencyFailed m \<and> cat = CatDependencyFailed \<or>
      err = ProcessingFailed m \<and> cat = CatProcessingFailed"
    if "m = (case err of DependencyFailed m \<Rightarrow> m | ProcessingFailed m \<Rightarrow> m | _ \<Rightarrow> [])" for m
    using assms(1,2) that by (cases err) (auto simp: guest_category_def)
  then obtain m where m: "err = DependencyFailed m \<and> cat = CatDependencyFailed \<or>
      err = ProcessingFailed m \<and> cat = CatProcessingFailed" by blast
  have d: "decide (ep_config x) (is_full (ep_retry_buffer x)) err (re_retry_count env) =
      decide_simple (rr_exhausted ?c) ExhaustedSkip
        (DeadLetterAs cat m (re_retry_count env) (RRetriesExhausted (rr_retries ?c)))"
    using m le by (auto simp: decide_def decide_retry_def retry_config_of_def)
  obtain b w' where s: "send_to_dlq H x env (Some cat) m (re_retry_count env)
      (RRetriesExhausted (rr_retries ?c)) w = (b, w')" by fastforce
  have "b \<in> {DlqSent, DlqFull, DlqClosed}"
    using send_to_dlq_action [of H x env "Some cat" m "re_retry_count env" "RRetriesExhausted (rr_retries ?c)" w]
    by (simp add: s)
  then show ?case
    by (cases "rr_exhausted ?c") (auto simp: handle_decide d decide_simple_def s)
next
  case (Suc n)
  let ?c = "retry_config_of cat x"
  from Suc.prems have lt: "re_retry_count env < rr_retries ?c" by (simp add: word_less_nat_alt)
  then have u: "unat (sat_add (re_retry_count env) 1) = unat (re_retry_count env) + 1"
    using unat_le_max [of "rr_retries ?c"] by (intro sat_add_one_less) (simp add: word_less_nat_alt)
  have "decide (ep_config x) (is_full (ep_retry_buffer x)) err (re_retry_count env) = Retry cat"
    using assms(1-3) lt
    by (cases err) (auto simp: decide_def decide_retry_def retry_config_of_def guest_category_def)
  from retry_run_Cons_Retry [OF this, of H "replicate (n + 1 + k) err" w]
    Suc.IH [of "env\<lparr>re_retry_count := sat_add (re_retry_count env) 1\<rparr>" "snd (h_now H w)"]
    Suc.prems u
  show ?case by simp
qed

theorem retry_budget_exact_witness:
  "\<exists>a. retry_run tick_dlq_host sample_executor (replicate 6 (DependencyFailed ''m'')) sample_envelope 7 =
     replicate 3 Retried @ [a]"
  using retry_budget_exact [of "DependencyFailed ''m''" CatDependencyFailed sample_executor
      sample_envelope 3 tick_dlq_host 2 7]
  by (auto simp: guest_category_def sample_defs retry_config_of_def)

text \<open>
  The delay before a retry doubles with every attempt from the configured base, never exceeds
  thirty seconds, and never shrinks as attempts accumulate, whatever base is configured.
\<close>

theorem backoff_doubles_to_cap:
  "compute_backoff cat n x =
     min (unat (rr_backoff_ms (retry_config_of cat x)) * 2 ^ min (unat n - 1) 20) 30000 * 1000000 \<and>
   compute_backoff cat n x \<le> 30000 * 1000000 \<and>
   (\<forall>n'. n \<le> n' \<longrightarrow> compute_backoff cat n x \<le> compute_backoff cat n' x)"
proof -
  have "compute_backoff cat n x \<le> compute_backoff cat n' x" if "n \<le> n'" for n'
  proof -
    from that have "min (unat n - 1) 20 \<le> min (unat n' - 1) 20" by (auto simp: word_le_nat_alt)
    then have "(2 :: nat) ^ min (unat n - 1) 20 \<le> 2 ^ min (unat n' - 1) 20" by (intro power_increasing) simp_all
    then show ?thesis unfolding compute_backoff_eq by (intro mult_right_mono min.mono mult_left_mono) simp_all
  qed
  then show ?thesis by (simp add: compute_backoff_eq)
qed

theorem backoff_doubles_to_cap_witness:
  "compute_backoff CatDependencyFailed 4 sample_executor = 800 * 1000000 \<and>
   compute_backoff CatDependencyFailed 3 sample_executor \<le> compute_backoff CatDependencyFailed 4 sample_executor"
  using backoff_doubles_to_cap [of CatDependencyFailed 3 sample_executor]
    backoff_doubles_to_cap [of CatDependencyFailed 4 sample_executor]
  by (simp add: sample_defs retry_config_of_def)

text \<open>
  C27: whatever sequence of failures, hand-outs and flushes a runner performs on a fresh executor,
  the retry buffer never exceeds the configured capacity, and every entry in it carries a retryable
  category and a retry count between one and that category's budget.
\<close>

theorem retry_buffer_bounded:
  "let x = fst (executor_run H cs (executor_new cfg dlq node, m, w)) in
   length (rb_entries (ep_retry_buffer x)) \<le> rp_retry_buffer_capacity (ep_config x) \<and>
   list_all (entry_ok x) (rb_entries (ep_retry_buffer x))"
proof -
  have "executor_inv (fst (executor_run H cs (executor_new cfg dlq node, m, w)))"
    by (rule executor_inv_run) (simp add: executor_inv_new)
  then show ?thesis by (simp add: Let_def executor_inv_def list_all_iff)
qed

text \<open>
  A hand-out returns the buffered message with the earliest deadline among all entries, only
  once that deadline has passed, and removes exactly that entry; when nothing is returned nothing
  is due and the buffer is unchanged.
\<close>

theorem next_ready_earliest:
  assumes "next_ready_retry H x w = (r, x', w')"
  shows "case r of
      None \<Rightarrow> x' = x \<and> (\<forall>e \<in> set (rb_entries (ep_retry_buffer x)). fst (h_now H w) < en_next_attempt_at e)
    | Some env \<Rightarrow> \<exists>e. env = en_envelope e \<and> en_next_attempt_at e \<le> fst (h_now H w) \<and>
        (\<forall>y \<in> set (rb_entries (ep_retry_buffer x)). en_next_attempt_at e \<le> en_next_attempt_at y) \<and>
        mset (rb_entries (ep_retry_buffer x)) = add_mset e (mset (rb_entries (ep_retry_buffer x')))"
  using next_ready_retry_cases [OF assms]
  by (fastforce simp: Let_def mset_remove_at)

theorem next_ready_earliest_witness:
  "next_ready_retry tick_dlq_host sample_executor 3 = (None, sample_executor, 3) \<and>
   rb_entries (ep_retry_buffer sample_executor) = []"
  using next_ready_earliest [of tick_dlq_host sample_executor 3 None sample_executor 3]
  by (simp add: next_ready_retry_def next_ready_def sample_defs)

text \<open>
  No due retry is starved. Taking entries at a given time until none is left hands out exactly
  the entries whose deadline has passed, in the order of their deadlines, and keeps all others.
\<close>

theorem due_retries_drain_in_order:
  "let (es, b') = drain_due (take_due now) (buffer_len b) b in
   mset es + mset (rb_entries b') = mset (rb_entries b) \<and>
   sorted (map en_next_attempt_at es) \<and> list_all (\<lambda>e. en_next_attempt_at e \<le> now) es \<and>
   list_all (\<lambda>e. now < en_next_attempt_at e) (rb_entries b')"
  using rb.drain_due_sorted [of b "buffer_len b" now]
  by (auto simp: buffer_len_def list_all_iff split: prod.splits)

text \<open>
  Flushing accounts for every pending retry: the buffer is empty afterwards and the messages
  settled by the node grow by exactly the number of entries, each counted as sent to or lost by the
  dead-letter queue, and none otherwise.
\<close>

theorem flush_accounts_for_all:
  "let (x', m', w') = flush_to_dlq H reason x m w in
   pending_retries x' = 0 \<and> settled m' = settled m + of_nat (pending_retries x) \<and>
   nm_dlq_sent m' + nm_dlq_lost m' = nm_dlq_sent m + nm_dlq_lost m + of_nat (pending_retries x) \<and>
   (ep_dlq_sender x = None \<longrightarrow> nm_dlq_sent m' = nm_dlq_sent m)"
proof -
  have "nm_dlq_sent (fst (flush_entries H y reason es m w)) + nm_dlq_lost (fst (flush_entries H y reason es m w)) =
      nm_dlq_sent m + nm_dlq_lost m + of_nat (length es) \<and>
      (ep_dlq_sender y = None \<longrightarrow> nm_dlq_sent (fst (flush_entries H y reason es m w)) = nm_dlq_sent m)"
    for y es m w
  proof (induction es arbitrary: m w)
    case (Cons e es)
    obtain a w1 where s: "send_to_dlq H y (en_envelope e) (Some (en_category e)) [] (en_retry_count e) reason w = (a, w1)"
      by fastforce
    let ?m = "case a of DlqSent \<Rightarrow> record_dlq_sent m | _ \<Rightarrow> record_dlq_lost m"
    have "nm_dlq_sent ?m + nm_dlq_lost ?m = nm_dlq_sent m + nm_dlq_lost m + 1"
      by (cases a) (simp_all add: metric_defs)
    moreover have "nm_dlq_sent ?m = nm_dlq_sent m" if "ep_dlq_sender y = None"
      using that s by (simp add: send_to_dlq_closed metric_defs)
    ultimately show ?case using Cons [of ?m w1] s by (simp add: Let_def)
  qed simp
  from this [of "x\<lparr>ep_retry_buffer := (ep_retry_buffer x)\<lparr>rb_entries := []\<rparr>\<rparr>" "rb_entries (ep_retry_buffer x)" m w]
  show ?thesis using flush_to_dlq_settled [of H reason x m w] flush_to_dlq_executor [of H reason x m w]
    by (auto simp: flush_to_dlq_def drain_all_def pending_retries_def buffer_len_def Let_def split: prod.splits)
qed

theorem flush_accounts_for_all_witness:
  "nm_dlq_sent (fst (snd (flush_to_dlq tick_dlq_host RShutdown
     (sample_executor\<lparr>ep_dlq_sender := None\<rparr>) node_metrics_new 3))) = 0"
  using flush_accounts_for_all [of tick_dlq_host RShutdown "sample_executor\<lparr>ep_dlq_sender := None\<rparr>"
      node_metrics_new 3]
  by (auto simp: node_metrics_new_def split: prod.splits)

end
