(* ===== verification/WasmNode.thy ===== *)
theory WasmNode
  imports HttpDest ErrorPolicy
begin

text \<open>
  \<open>wafer-core/src/node/wasm.rs\<close>, \<open>node/mod.rs\<close>, \<open>node/native/mod.rs\<close>, and the host state of
  \<open>engine/state.rs\<close> and \<open>engine/buffer.rs\<close>. A \<open>Store<WaferState>\<close> is a value a node owns: the host
  data and the engine's part \<open>'s\<close> (guest memory, resource table, fuel, epoch deadline), which only
  the engine's operations, fields of the host record, can change. The three node structs of
  \<open>wasm.rs\<close> have the same fields; they share one record, and the bindings and \<open>InstancePre\<close>s of the
  engine are handles tagged with the world they were generated for.
\<close>

section \<open>Host state and buffers\<close>

definition buffer_read :: "bytes \<Rightarrow> u64 \<Rightarrow> u64 \<Rightarrow> bytes" where
  "buffer_read data offset len =
     (let total = of_nat (length data) :: u64 in
      if offset \<ge> total then []
      else
        let remaining = total - offset; clamped_len = unat (min len remaining);
            start = unat offset
        in take clamped_len (drop start data))"

datatype log_level = LTrace | LDebug | LInfo | LWarn | LError

record log_entry =
  le_level :: log_level
  le_message :: string

record wafer_state =
  ws_node_id :: string
  ws_capabilities :: runtime_capabilities
  ws_memory_limit :: usize
  ws_table_elements :: usize
  ws_inference :: bool
  ws_log_buffer :: "log_entry list"

definition new_with_memory_limit :: "string \<Rightarrow> runtime_capabilities \<Rightarrow> usize \<Rightarrow> wafer_state" where
  "new_with_memory_limit node_id caps limit =
     \<lparr>ws_node_id = node_id, ws_capabilities = caps, ws_memory_limit = limit,
      ws_table_elements = 20000, ws_inference = rcap_allow_inference caps, ws_log_buffer = []\<rparr>"

record 's store =
  so_data :: wafer_state
  so_guest :: 's

definition clear_log_buffer :: "'s store \<Rightarrow> 's store" where
  "clear_log_buffer s = s\<lparr>so_data := (so_data s)\<lparr>ws_log_buffer := []\<rparr>\<rparr>"

definition push_log :: "log_level \<Rightarrow> string \<Rightarrow> 's store \<Rightarrow> 's store" where
  "push_log l m s =
     s\<lparr>so_data := (so_data s)
         \<lparr>ws_log_buffer := ws_log_buffer (so_data s) @ [\<lparr>le_level = l, le_message = m\<rparr>]\<rparr>\<rparr>"

text \<open>Draining hands every entry to the tracing crate.\<close>

definition flush_logs :: "'s store \<Rightarrow> 's store" where
  "flush_logs s =
     (if ws_log_buffer (so_data s) = [] then s
      else s\<lparr>so_data := (so_data s)\<lparr>ws_log_buffer := []\<rparr>\<rparr>)"

section \<open>The engine\<close>

datatype instance_pre = PreTransform nat | PreInference nat | PreFilter nat | PreRouter nat

datatype bindings = BTransform nat | BInference nat | BFilter nat | BRouter nat

text \<open>An engine error: the trap code a downcast finds, its \<open>{}\<close> and its \<open>{:#}\<close> rendering.\<close>

record engine_error =
  ee_code :: "wasm_trap option"
  ee_display :: string
  ee_chain :: string

datatype wit_process_error =
    WitBadInput string
  | WitDependencyFailed string
  | WitProcessingFailed string
  | WitTimedOut
  | WitUnrecoverable string

record wit_message =
  wm_id :: string
  wm_timestamp :: u64
  wm_source :: string
  wm_content_type :: string
  wm_metadata :: "(string \<times> string) list"
  wm_payload :: nat

record output_message =
  om_id :: string
  om_timestamp :: u64
  om_source :: string
  om_content_type :: string
  om_metadata :: "(string \<times> string) list"
  om_payload :: bytes

record node_config =
  nc_id :: string
  nc_config :: string
  nc_plugin_version :: string

record ('w, 's) engine_host = "'w dlq_host" +
  h_new_store :: "'s store \<Rightarrow> wafer_state \<Rightarrow> 's store"
  h_epoch_deadline_trap :: "'s store \<Rightarrow> 's store"
  h_set_epoch_deadline :: "u64 \<Rightarrow> 's store \<Rightarrow> 's store"
  h_set_fuel :: "u64 \<Rightarrow> 's store \<Rightarrow> (string, 's store) result"
  h_push_buffer :: "bytes \<Rightarrow> 's store \<Rightarrow> (string, nat) result \<times> 's store"
  h_delete_buffer :: "nat \<Rightarrow> 's store \<Rightarrow> (string, unit) result \<times> 's store"
  h_debug_error :: "wit_process_error \<Rightarrow> string"
  h_instantiate :: "instance_pre \<Rightarrow> 's store \<Rightarrow> 'w
     \<Rightarrow> (engine_error, bindings) result \<times> 's store \<times> 'w"
  h_call_validate :: "bindings \<Rightarrow> node_config \<Rightarrow> 's store \<Rightarrow> 'w
     \<Rightarrow> (engine_error, string option) result \<times> 's store \<times> 'w"
  h_call_init :: "bindings \<Rightarrow> node_config \<Rightarrow> 's store \<Rightarrow> 'w
     \<Rightarrow> (engine_error, (wit_process_error, unit) result) result \<times> 's store \<times> 'w"
  h_call_process :: "bindings \<Rightarrow> wit_message \<Rightarrow> 's store \<Rightarrow> 'w
     \<Rightarrow> (engine_error, (wit_process_error, output_message) result) result \<times> 's store \<times> 'w"
  h_call_evaluate :: "bindings \<Rightarrow> wit_message \<Rightarrow> 's store \<Rightarrow> 'w
     \<Rightarrow> (engine_error, (wit_process_error, bool) result) result \<times> 's store \<times> 'w"
  h_call_route :: "bindings \<Rightarrow> wit_message \<Rightarrow> 's store \<Rightarrow> 'w
     \<Rightarrow> (engine_error, (wit_process_error, string list) result) result \<times> 's store \<times> 'w"
  h_call_output_ports :: "bindings \<Rightarrow> 's store \<Rightarrow> 'w
     \<Rightarrow> (engine_error, string list) result \<times> 's store \<times> 'w"

section \<open>Error mapping\<close>

definition map_process_error :: "wit_process_error \<Rightarrow> wasm_process_error" where
  "map_process_error e =
     (case e of
        WitBadInput m \<Rightarrow> BadInput m
      | WitDependencyFailed m \<Rightarrow> DependencyFailed m
      | WitProcessingFailed m \<Rightarrow> ProcessingFailed m
      | WitTimedOut \<Rightarrow> TimedOut
      | WitUnrecoverable m \<Rightarrow> Unrecoverable m)"

definition map_trap :: "engine_error \<Rightarrow> wasm_process_error" where
  "map_trap e = Trapped (ee_code e) (ee_chain e)"

definition host_failure :: "string \<Rightarrow> wasm_process_error" where
  "host_failure m = Trapped None m"

section \<open>The node wrappers\<close>

record 's wasm_node =
  wn_store :: "'s store"
  wn_bindings :: bindings
  wn_cached_pre :: instance_pre
  wn_fuel_limit :: "u64 option"
  wn_capabilities :: runtime_capabilities
  wn_memory_limit :: usize
  wn_epoch_deadline :: "u64 option"
  wn_config_json :: string
  wn_plugin_version :: string

definition wasm_node_new ::
    "'s store \<Rightarrow> bindings \<Rightarrow> instance_pre \<Rightarrow> u64 option \<Rightarrow> 's wasm_node" where
  "wasm_node_new st b pre fuel =
     \<lparr>wn_store = st, wn_bindings = b, wn_cached_pre = pre, wn_fuel_limit = fuel,
      wn_capabilities = sandbox, wn_memory_limit = 16 * 1024 * 1024, wn_epoch_deadline = None,
      wn_config_json = ''{}'', wn_plugin_version = []\<rparr>"

definition configure_runtime ::
    "runtime_capabilities \<Rightarrow> usize \<Rightarrow> u64 option \<Rightarrow> string \<Rightarrow> 's wasm_node \<Rightarrow> 's wasm_node" where
  "configure_runtime caps limit epoch cfg n =
     n\<lparr>wn_capabilities := caps, wn_memory_limit := limit, wn_epoch_deadline := epoch,
       wn_config_json := cfg\<rparr>"

definition set_plugin_version :: "string \<Rightarrow> 's wasm_node \<Rightarrow> 's wasm_node" where
  "set_plugin_version v n = n\<lparr>wn_plugin_version := v\<rparr>"

definition wasm_node_id :: "'s wasm_node \<Rightarrow> string" where
  "wasm_node_id n = ws_node_id (so_data (wn_store n))"

definition LIFECYCLE_EPOCH_TICKS :: u64 where
  "LIFECYCLE_EPOCH_TICKS = 1000"

definition lifecycle_epoch_deadline :: "u64 \<Rightarrow> u64" where
  "lifecycle_epoch_deadline per_call = max per_call LIFECYCLE_EPOCH_TICKS"

definition recovery_store ::
    "('w, 's, 'h) engine_host_scheme \<Rightarrow> 's store \<Rightarrow> string \<Rightarrow> runtime_capabilities \<Rightarrow> usize
       \<Rightarrow> u64 option \<Rightarrow> u64 option \<Rightarrow> (wafer_error, 's store) result" where
  "recovery_store H old node_id caps limit epoch fuel =
     (let st = h_new_store H old (new_with_memory_limit node_id caps limit);
          st = (case epoch of
                  None \<Rightarrow> st
                | Some n \<Rightarrow> h_set_epoch_deadline H (lifecycle_epoch_deadline n)
                              (h_epoch_deadline_trap H st))
      in
      case fuel of
        None \<Rightarrow> Inr st
      | Some n \<Rightarrow>
          (case h_set_fuel H n st of
             Inl e \<Rightarrow> Inl (PluginInit (''recovery fuel reset for '' @ quoted node_id @ '' failed: '' @ e))
           | Inr st \<Rightarrow> Inr st))"

text \<open>\<open>validate_and_init\<close>; \<open>role\<close> is the word its messages start with.\<close>

definition validate_and_init ::
    "('w, 's, 'h) engine_host_scheme \<Rightarrow> string \<Rightarrow> string \<Rightarrow> 's wasm_node \<Rightarrow> 'w
       \<Rightarrow> (wafer_error, unit) result \<times> 's wasm_node \<times> 'w" where
  "validate_and_init H role config n w =
     (let who = role @ '' '' @ quoted (wasm_node_id n);
          nc = \<lparr>nc_id = wasm_node_id n, nc_config = config, nc_plugin_version = wn_plugin_version n\<rparr>
      in
      case (case wn_fuel_limit n of None \<Rightarrow> Inr (wn_store n) | Some f \<Rightarrow> h_set_fuel H f (wn_store n)) of
        Inl e \<Rightarrow> (Inl (PluginInit (who @ '' lifecycle fuel reset failed: '' @ e)), n, w)
      | Inr st \<Rightarrow>
          let st = (case wn_epoch_deadline n of
                      None \<Rightarrow> st
                    | Some d \<Rightarrow> h_set_epoch_deadline H (lifecycle_epoch_deadline d) st);
              (v, st, w) = h_call_validate H (wn_bindings n) nc st w;
              n = n\<lparr>wn_store := st\<rparr>
          in
          case v of
            Inl e \<Rightarrow> (Inl (PluginInit (who @ '' validate() trapped: '' @ ee_display e)), n, w)
          | Inr (Some msg) \<Rightarrow>
              (Inl (PluginInit (who @ '' validate() rejected config: '' @ msg)), n, w)
          | Inr None \<Rightarrow>
              let (i, st, w) = h_call_init H (wn_bindings n) nc (wn_store n) w in
              (case i of
                 Inl e \<Rightarrow>
                   (Inl (PluginInit (who @ '' init() trapped: '' @ ee_display e)), n\<lparr>wn_store := st\<rparr>, w)
               | Inr (Inl e) \<Rightarrow>
                   (Inl (PluginInit (who @ '' init() failed: '' @ h_debug_error H e)),
                    n\<lparr>wn_store := st\<rparr>, w)
               | Inr (Inr _) \<Rightarrow> (Inr (), n\<lparr>wn_store := flush_logs st\<rparr>, w)))"

definition recover_from_cached_pre ::
    "('w, 's, 'h) engine_host_scheme \<Rightarrow> string \<Rightarrow> 's wasm_node \<Rightarrow> 'w
       \<Rightarrow> (wafer_error, unit) result \<times> 's wasm_node \<times> 'w" where
  "recover_from_cached_pre H role n w =
     (let node_id = wasm_node_id n in
      case recovery_store H (wn_store n) node_id (wn_capabilities n) (wn_memory_limit n)
             (wn_epoch_deadline n) (wn_fuel_limit n) of
        Inl e \<Rightarrow> (Inl e, n, w)
      | Inr st \<Rightarrow>
          let (b, st, w) = h_instantiate H (wn_cached_pre n) st w in
          (case b of
             Inl e \<Rightarrow>
               (Inl (PluginInit (role @ '' '' @ quoted node_id @ '' recovery instantiation failed: ''
                                 @ ee_display e)), n, w)
           | Inr b \<Rightarrow>
               validate_and_init H role (wn_config_json n) (n\<lparr>wn_store := st, wn_bindings := b\<rparr>) w))"

definition try_reconfigure ::
    "('w, 's, 'h) engine_host_scheme \<Rightarrow> string \<Rightarrow> string \<Rightarrow> 's wasm_node \<Rightarrow> 'w
       \<Rightarrow> (wafer_error, unit) result \<times> 's wasm_node \<times> 'w" where
  "try_reconfigure H role new_config n w =
     (let node_id = wasm_node_id n in
      case recovery_store H (wn_store n) node_id (wn_capabilities n) (wn_memory_limit n)
             (wn_epoch_deadline n) (wn_fuel_limit n) of
        Inl e \<Rightarrow> (Inl e, n, w)
      | Inr st \<Rightarrow>
          let (b, st, w) = h_instantiate H (wn_cached_pre n) st w in
          (case b of
             Inl e \<Rightarrow>
               (Inl (PluginInit (role @ '' '' @ quoted node_id @ '' reconfigure instantiation failed: ''
                                 @ ee_display e)), n, w)
           | Inr b \<Rightarrow>
               let old_store = wn_store n; old_bindings = wn_bindings n; old_config = wn_config_json n;
                   n = n\<lparr>wn_store := st, wn_bindings := b, wn_config_json := new_config\<rparr>;
                   (r, n, w) = validate_and_init H role new_config n w
               in
               (case r of
                  Inr _ \<Rightarrow> (Inr (), n, w)
                | Inl e \<Rightarrow>
                    (Inl e,
                     n\<lparr>wn_store := old_store, wn_bindings := old_bindings, wn_config_json := old_config\<rparr>,
                     w))))"

definition hot_swap_tail ::
    "('w, 's, 'h) engine_host_scheme \<Rightarrow> string \<Rightarrow> 's store \<Rightarrow> bindings \<Rightarrow> instance_pre
       \<Rightarrow> 's wasm_node \<Rightarrow> 'w \<Rightarrow> (wafer_error, unit) result \<times> 's wasm_node \<times> 'w" where
  "hot_swap_tail H role st b pre n w =
     (if ws_capabilities (so_data st) \<noteq> wn_capabilities n
      then (Inl (Runtime (''hot-swap cannot change the node'' @ [CHR 0x27] @ ''s capabilities'')), n, w)
      else
        let config = wn_config_json n;
            old_store = wn_store n; old_bindings = wn_bindings n; old_pre = wn_cached_pre n;
            n = n\<lparr>wn_store := st, wn_bindings := b, wn_cached_pre := pre\<rparr>;
            (r, n, w) = validate_and_init H role config n w
        in
        (case r of
           Inr _ \<Rightarrow> (Inr (), n, w)
         | Inl e \<Rightarrow>
             (Inl e, n\<lparr>wn_store := old_store, wn_bindings := old_bindings, wn_cached_pre := old_pre\<rparr>, w)))"

section \<open>Calling the guest\<close>

definition build_wit_message ::
    "('w, 's, 'h) engine_host_scheme \<Rightarrow> runtime_envelope \<Rightarrow> 's store
       \<Rightarrow> (wasm_process_error, wit_message) result \<times> 's store" where
  "build_wit_message H env st =
     (let (r, st) = h_push_buffer H (re_payload env) st in
      case r of
        Inl e \<Rightarrow> (Inl (host_failure (''failed to push buffer: '' @ e)), st)
      | Inr rep \<Rightarrow>
          (Inr \<lparr>wm_id = eh_id (re_header env), wm_timestamp = eh_timestamp (re_header env),
                wm_source = eh_source (re_header env),
                wm_content_type = eh_content_type (re_header env),
                wm_metadata = eh_metadata (re_header env), wm_payload = rep\<rparr>, st))"

text \<open>
  The body \<open>process\<close>, \<open>evaluate\<close> and \<open>route\<close> share: arm the per-call limits, lower the message, call
  the guest, flush its logs and release the buffer on every path after the call.
\<close>

definition call_guest ::
    "('w, 's, 'h) engine_host_scheme
       \<Rightarrow> (bindings \<Rightarrow> wit_message \<Rightarrow> 's store \<Rightarrow> 'w
           \<Rightarrow> (engine_error, (wit_process_error, 'a) result) result \<times> 's store \<times> 'w)
       \<Rightarrow> runtime_envelope \<Rightarrow> 's wasm_node \<Rightarrow> 'w
       \<Rightarrow> (wasm_process_error, 'a) result \<times> 's wasm_node \<times> 'w" where
  "call_guest H call env n w =
     (let st = clear_log_buffer (wn_store n) in
      case (case wn_fuel_limit n of None \<Rightarrow> Inr st | Some f \<Rightarrow> h_set_fuel H f st) of
        Inl e \<Rightarrow> (Inl (host_failure (''fuel reset failed: '' @ e)), n\<lparr>wn_store := st\<rparr>, w)
      | Inr st \<Rightarrow>
          let st = (case wn_epoch_deadline n of None \<Rightarrow> st | Some d \<Rightarrow> h_set_epoch_deadline H d st);
              (m, st) = build_wit_message H env st
          in
          case m of
            Inl e \<Rightarrow> (Inl e, n\<lparr>wn_store := st\<rparr>, w)
          | Inr msg \<Rightarrow>
              let (r, st, w) = call (wn_bindings n) msg st w;
                  st = flush_logs st;
                  (del, st) = h_delete_buffer H (wm_payload msg) st;
                  n = n\<lparr>wn_store := st\<rparr>
              in
              if \<not> is_ok del \<and> is_ok r then
                (Inl (host_failure (''failed to release buffer resource: '' @
                        (case del of Inl e \<Rightarrow> e | Inr _ \<Rightarrow> []))), n, w)
              else
                case r of
                  Inr (Inr out) \<Rightarrow> (Inr out, n, w)
                | Inr (Inl e) \<Rightarrow> (Inl (map_process_error e), n, w)
                | Inl trap \<Rightarrow> (Inl (map_trap trap), n, w))"

section \<open>Transform\<close>

record 's prepared_transform_swap =
  pt_store :: "'s store"
  pt_bindings :: bindings
  pt_pre :: instance_pre

definition prepared_allows_inference :: "'s prepared_transform_swap \<Rightarrow> bool" where
  "prepared_allows_inference p = (case pt_pre p of PreInference _ \<Rightarrow> True | _ \<Rightarrow> False)"

definition transform_process ::
    "('w, 's, 'h) engine_host_scheme \<Rightarrow> runtime_envelope \<Rightarrow> 's wasm_node \<Rightarrow> 'w
       \<Rightarrow> (wasm_process_error, runtime_envelope) result \<times> 's wasm_node \<times> 'w" where
  "transform_process H env n w =
     (case call_guest H (h_call_process H) env n w of
        (Inr out, n, w) \<Rightarrow>
          (Inr (from_guest_output env (om_id out) (om_timestamp out) (om_source out)
                  (om_content_type out) (om_metadata out) (om_payload out)), n, w)
      | (Inl e, n, w) \<Rightarrow> (Inl e, n, w))"

definition transform_recover ::
    "('w, 's, 'h) engine_host_scheme \<Rightarrow> 's wasm_node \<Rightarrow> 'w
       \<Rightarrow> (wafer_error, unit) result \<times> 's wasm_node \<times> 'w" where
  "transform_recover H n w = recover_from_cached_pre H ''transform'' n w"

definition transform_reconfigure ::
    "('w, 's, 'h) engine_host_scheme \<Rightarrow> string \<Rightarrow> 's wasm_node \<Rightarrow> 'w
       \<Rightarrow> (wafer_error, unit) result \<times> 's wasm_node \<times> 'w" where
  "transform_reconfigure H cfg n w = try_reconfigure H ''transform'' cfg n w"

definition transform_hot_swap ::
    "('w, 's, 'h) engine_host_scheme \<Rightarrow> 's prepared_transform_swap \<Rightarrow> 's wasm_node \<Rightarrow> 'w
       \<Rightarrow> (wafer_error, unit) result \<times> 's wasm_node \<times> 'w" where
  "transform_hot_swap H p n w =
     (if prepared_allows_inference p \<noteq> rcap_allow_inference (wn_capabilities n)
      then (Inl (Runtime (''hot-swap cannot change the node'' @ [CHR 0x27] @ ''s inference capability'')),
            n, w)
      else hot_swap_tail H ''transform'' (pt_store p) (pt_bindings p) (pt_pre p) n w)"

section \<open>Filter\<close>

datatype filter_outcome = Forward | DropMessage

definition filter_evaluate ::
    "('w, 's, 'h) engine_host_scheme \<Rightarrow> runtime_envelope \<Rightarrow> 's wasm_node \<Rightarrow> 'w
       \<Rightarrow> (wasm_process_error, filter_outcome) result \<times> 's wasm_node \<times> 'w" where
  "filter_evaluate H env n w =
     (case call_guest H (h_call_evaluate H) env n w of
        (Inr b, n, w) \<Rightarrow> (Inr (if b then Forward else DropMessage), n, w)
      | (Inl e, n, w) \<Rightarrow> (Inl e, n, w))"

definition filter_recover ::
    "('w, 's, 'h) engine_host_scheme \<Rightarrow> 's wasm_node \<Rightarrow> 'w
       \<Rightarrow> (wafer_error, unit) result \<times> 's wasm_node \<times> 'w" where
  "filter_recover H n w = recover_from_cached_pre H ''filter'' n w"

definition filter_reconfigure ::
    "('w, 's, 'h) engine_host_scheme \<Rightarrow> string \<Rightarrow> 's wasm_node \<Rightarrow> 'w
       \<Rightarrow> (wafer_error, unit) result \<times> 's wasm_node \<times> 'w" where
  "filter_reconfigure H cfg n w = try_reconfigure H ''filter'' cfg n w"

definition filter_hot_swap ::
    "('w, 's, 'h) engine_host_scheme \<Rightarrow> 's store \<Rightarrow> bindings \<Rightarrow> instance_pre \<Rightarrow> 's wasm_node \<Rightarrow> 'w
       \<Rightarrow> (wafer_error, unit) result \<times> 's wasm_node \<times> 'w" where
  "filter_hot_swap H st b pre n w = hot_swap_tail H ''filter'' st b pre n w"

section \<open>Router\<close>

record process_error =
  pe_code :: string
  pe_message :: string
  pe_retriable :: bool

datatype route_outcome = Ports "string list" | RouteError process_error

definition router_route ::
    "('w, 's, 'h) engine_host_scheme \<Rightarrow> runtime_envelope \<Rightarrow> 's wasm_node \<Rightarrow> 'w
       \<Rightarrow> (wasm_process_error, route_outcome) result \<times> 's wasm_node \<times> 'w" where
  "router_route H env n w =
     (case call_guest H (h_call_route H) env n w of
        (Inr ports, n, w) \<Rightarrow> (Inr (Ports ports), n, w)
      | (Inl e, n, w) \<Rightarrow> (Inl e, n, w))"

definition router_recover ::
    "('w, 's, 'h) engine_host_scheme \<Rightarrow> 's wasm_node \<Rightarrow> 'w
       \<Rightarrow> (wafer_error, unit) result \<times> 's wasm_node \<times> 'w" where
  "router_recover H n w = recover_from_cached_pre H ''router'' n w"

definition router_reconfigure ::
    "('w, 's, 'h) engine_host_scheme \<Rightarrow> string \<Rightarrow> 's wasm_node \<Rightarrow> 'w
       \<Rightarrow> (wafer_error, unit) result \<times> 's wasm_node \<times> 'w" where
  "router_reconfigure H cfg n w = try_reconfigure H ''router'' cfg n w"

definition router_hot_swap ::
    "('w, 's, 'h) engine_host_scheme \<Rightarrow> 's store \<Rightarrow> bindings \<Rightarrow> instance_pre \<Rightarrow> 's wasm_node \<Rightarrow> 'w
       \<Rightarrow> (wafer_error, unit) result \<times> 's wasm_node \<times> 'w" where
  "router_hot_swap H st b pre n w = hot_swap_tail H ''router'' st b pre n w"

definition router_output_ports ::
    "('w, 's, 'h) engine_host_scheme \<Rightarrow> 's wasm_node \<Rightarrow> 'w
       \<Rightarrow> (wafer_error, string list) result \<times> 's wasm_node \<times> 'w" where
  "router_output_ports H n w =
     (let who = ''router '' @ quoted (wasm_node_id n) in
      case (case wn_fuel_limit n of None \<Rightarrow> Inr (wn_store n) | Some f \<Rightarrow> h_set_fuel H f (wn_store n)) of
        Inl e \<Rightarrow> (Inl (PluginInit (who @ '' lifecycle fuel reset failed: '' @ e)), n, w)
      | Inr st \<Rightarrow>
          let st = (case wn_epoch_deadline n of
                      None \<Rightarrow> st
                    | Some d \<Rightarrow> h_set_epoch_deadline H (lifecycle_epoch_deadline d) st);
              (r, st, w) = h_call_output_ports H (wn_bindings n) st w;
              n = n\<lparr>wn_store := flush_logs st\<rparr>
          in
          case r of
            Inl e \<Rightarrow> (Inl (PluginInit (who @ '' output-ports() trapped: '' @ ee_display e)), n, w)
          | Inr ports \<Rightarrow> (Inr ports, n, w))"

section \<open>Native nodes and the unified node types\<close>

record native_transform =
  nt_id :: string
  nt_process_fn :: "bytes \<Rightarrow> (process_error, bytes) result"

record native_filter =
  nf_id :: string
  nf_predicate_fn :: "runtime_envelope \<Rightarrow> bool"

definition native_process ::
    "native_transform \<Rightarrow> runtime_envelope \<Rightarrow> (wasm_process_error, runtime_envelope) result" where
  "native_process t env =
     (case nt_process_fn t (re_payload env) of
        Inr out \<Rightarrow> Inr (env\<lparr>re_payload := out\<rparr>)
      | Inl e \<Rightarrow>
          if pe_retriable e then Inl (ProcessingFailed (pe_message e)) else Inl (BadInput (pe_message e)))"

text \<open>The async \<open>Transform\<close> implementation of the same struct, used outside the runner loops.\<close>

definition native_transform_async ::
    "native_transform \<Rightarrow> runtime_envelope \<Rightarrow> (process_error, runtime_envelope) result" where
  "native_transform_async t env =
     (case nt_process_fn t (re_payload env) of
        Inr out \<Rightarrow>
          Inr \<lparr>re_header = re_header env, re_payload = out, re_lineage = re_lineage env,
               re_retry_count = 0\<rparr>
      | Inl e \<Rightarrow> Inl e)"

definition uppercase_fn :: "bytes \<Rightarrow> (process_error, bytes) result" where
  "uppercase_fn p = Inr (map (\<lambda>b. if 97 \<le> b \<and> b \<le> 122 then b - 32 else b) p)"

definition passthrough_fn :: "bytes \<Rightarrow> (process_error, bytes) result" where
  "passthrough_fn p = Inr p"

definition evaluate_sync ::
    "native_filter \<Rightarrow> runtime_envelope \<Rightarrow> (wasm_process_error, filter_outcome) result" where
  "evaluate_sync f env = Inr (if nf_predicate_fn f env then Forward else DropMessage)"

datatype 's transform_node = TWasm "'s wasm_node" | TNative native_transform

datatype 's filter_node = FWasm "'s wasm_node" | FNative native_filter

definition tn_process ::
    "('w, 's, 'h) engine_host_scheme \<Rightarrow> runtime_envelope \<Rightarrow> 's transform_node \<Rightarrow> 'w
       \<Rightarrow> (wasm_process_error, runtime_envelope) result \<times> 's transform_node \<times> 'w" where
  "tn_process H env t w =
     (case t of
        TWasm n \<Rightarrow> (case transform_process H env n w of (r, n, w) \<Rightarrow> (r, TWasm n, w))
      | TNative n \<Rightarrow> (native_process n env, t, w))"

definition tn_reconfigure ::
    "('w, 's, 'h) engine_host_scheme \<Rightarrow> string \<Rightarrow> 's transform_node \<Rightarrow> 'w
       \<Rightarrow> (wafer_error, unit) result \<times> 's transform_node \<times> 'w" where
  "tn_reconfigure H cfg t w =
     (case t of
        TWasm n \<Rightarrow> (case transform_reconfigure H cfg n w of (r, n, w) \<Rightarrow> (r, TWasm n, w))
      | TNative _ \<Rightarrow>
          (Inl (Runtime ''native baseline transforms do not support reconfigure''), t, w))"

definition tn_recover ::
    "('w, 's, 'h) engine_host_scheme \<Rightarrow> 's transform_node \<Rightarrow> 'w
       \<Rightarrow> (wafer_error, unit) result \<times> 's transform_node \<times> 'w" where
  "tn_recover H t w =
     (case t of
        TWasm n \<Rightarrow> (case transform_recover H n w of (r, n, w) \<Rightarrow> (r, TWasm n, w))
      | TNative _ \<Rightarrow> (Inr (), t, w))"

definition tn_as_wasm :: "'s transform_node \<Rightarrow> 's wasm_node option" where
  "tn_as_wasm t = (case t of TWasm n \<Rightarrow> Some n | TNative _ \<Rightarrow> None)"

definition fn_evaluate ::
    "('w, 's, 'h) engine_host_scheme \<Rightarrow> runtime_envelope \<Rightarrow> 's filter_node \<Rightarrow> 'w
       \<Rightarrow> (wasm_process_error, filter_outcome) result \<times> 's filter_node \<times> 'w" where
  "fn_evaluate H env t w =
     (case t of
        FWasm n \<Rightarrow> (case filter_evaluate H env n w of (r, n, w) \<Rightarrow> (r, FWasm n, w))
      | FNative n \<Rightarrow> (evaluate_sync n env, t, w))"

definition fn_reconfigure ::
    "('w, 's, 'h) engine_host_scheme \<Rightarrow> string \<Rightarrow> 's filter_node \<Rightarrow> 'w
       \<Rightarrow> (wafer_error, unit) result \<times> 's filter_node \<times> 'w" where
  "fn_reconfigure H cfg t w =
     (case t of
        FWasm n \<Rightarrow> (case filter_reconfigure H cfg n w of (r, n, w) \<Rightarrow> (r, FWasm n, w))
      | FNative _ \<Rightarrow>
          (Inl (Runtime ''native baseline filters do not support reconfigure''), t, w))"

definition fn_recover ::
    "('w, 's, 'h) engine_host_scheme \<Rightarrow> 's filter_node \<Rightarrow> 'w
       \<Rightarrow> (wafer_error, unit) result \<times> 's filter_node \<times> 'w" where
  "fn_recover H t w =
     (case t of
        FWasm n \<Rightarrow> (case filter_recover H n w of (r, n, w) \<Rightarrow> (r, FWasm n, w))
      | FNative _ \<Rightarrow> (Inr (), t, w))"

definition fn_as_wasm :: "'s filter_node \<Rightarrow> 's wasm_node option" where
  "fn_as_wasm t = (case t of FWasm n \<Rightarrow> Some n | FNative _ \<Rightarrow> None)"

section \<open>Lemmas\<close>

text \<open>Initialisation touches nothing of a node but its store.\<close>

lemma validate_and_init_frame:
  fixes st :: "'s store"
  shows "(fst (snd (validate_and_init H role cfg n w)))\<lparr>wn_store := st\<rparr> = n\<lparr>wn_store := st\<rparr>"
proof -
  define nc where "nc = \<lparr>nc_id = wasm_node_id n, nc_config = cfg, nc_plugin_version = wn_plugin_version n\<rparr>"
  define fuelled where "fuelled =
    (case wn_fuel_limit n of None \<Rightarrow> Inr (wn_store n) | Some f \<Rightarrow> h_set_fuel H f (wn_store n))"
  show ?thesis
  proof (cases fuelled)
    case (Inl e)
    then show ?thesis by (simp add: validate_and_init_def fuelled_def [symmetric])
  next
    case (Inr st1)
    define st2 where "st2 = (case wn_epoch_deadline n of None \<Rightarrow> st1
        | Some d \<Rightarrow> h_set_epoch_deadline H (lifecycle_epoch_deadline d) st1)"
    obtain v st3 w1 where v: "h_call_validate H (wn_bindings n) nc st2 w = (v, st3, w1)"
      by (metis prod_cases3)
    obtain i st4 w2 where i: "h_call_init H (wn_bindings n) nc st3 w1 = (i, st4, w2)"
      by (metis prod_cases3)
    note step = validate_and_init_def fuelled_def [symmetric] nc_def [symmetric] Let_def Inr
      st2_def [symmetric] v i
    show ?thesis
      by (cases v; cases "projr v"; cases i; cases "projr i") (simp_all add: step)
  qed
qed

lemma validate_and_init_restore:
  assumes "validate_and_init H role cfg n w = (r, n', w')"
  shows "wn_bindings n' = wn_bindings n" "wn_cached_pre n' = wn_cached_pre n"
    "wn_config_json n' = wn_config_json n" "wn_capabilities n' = wn_capabilities n"
    "wn_fuel_limit n' = wn_fuel_limit n" "wn_memory_limit n' = wn_memory_limit n"
    "wn_epoch_deadline n' = wn_epoch_deadline n" "wn_plugin_version n' = wn_plugin_version n"
    "n'\<lparr>wn_store := st\<rparr> = n\<lparr>wn_store := st\<rparr>"
proof -
  show st: "n'\<lparr>wn_store := st\<rparr> = n\<lparr>wn_store := st\<rparr>" for st
    using validate_and_init_frame [where st = st] assms by (metis fst_conv snd_conv)
  have "n' = n\<lparr>wn_store := wn_store n'\<rparr>" using st [of "wn_store n'"] by simp
  then obtain s where s: "n' = n\<lparr>wn_store := s\<rparr>" by blast
  show "wn_bindings n' = wn_bindings n" "wn_cached_pre n' = wn_cached_pre n"
    "wn_config_json n' = wn_config_json n" "wn_capabilities n' = wn_capabilities n"
    "wn_fuel_limit n' = wn_fuel_limit n" "wn_memory_limit n' = wn_memory_limit n"
    "wn_epoch_deadline n' = wn_epoch_deadline n" "wn_plugin_version n' = wn_plugin_version n"
    unfolding s by simp_all
qed

text \<open>The limits and grants a node runs under.\<close>

definition node_limits :: "'s wasm_node \<Rightarrow> u64 option \<times> runtime_capabilities \<times> usize \<times> u64 option \<times> string" where
  "node_limits n =
     (wn_fuel_limit n, wn_capabilities n, wn_memory_limit n, wn_epoch_deadline n, wn_plugin_version n)"

lemma try_reconfigure_cases:
  assumes "try_reconfigure H role cfg n w = (r, n', w')"
  shows "case r of
      Inl _ \<Rightarrow> n' = n
    | Inr _ \<Rightarrow> wn_config_json n' = cfg \<and> wn_cached_pre n' = wn_cached_pre n \<and> node_limits n' = node_limits n"
proof (cases "recovery_store H (wn_store n) (wasm_node_id n) (wn_capabilities n) (wn_memory_limit n)
    (wn_epoch_deadline n) (wn_fuel_limit n)")
  case (Inl e)
  with assms show ?thesis by (auto simp: try_reconfigure_def Let_def)
next
  case (Inr st)
  obtain b st1 w1 where i: "h_instantiate H (wn_cached_pre n) st w = (b, st1, w1)"
    by (metis prod_cases3)
  show ?thesis
  proof (cases b)
    case (Inl e)
    with assms Inr i show ?thesis by (auto simp: try_reconfigure_def Let_def)
  next
    case (Inr b')
    let ?n = "n\<lparr>wn_store := st1, wn_bindings := b', wn_config_json := cfg\<rparr>"
    obtain r1 n1 w2 where v: "validate_and_init H role cfg ?n w1 = (r1, n1, w2)"
      by (metis prod_cases3)
    note f = validate_and_init_restore [OF v]
    show ?thesis
    proof (cases r1)
      case (Inl e)
      with assms \<open>recovery_store _ _ _ _ _ _ _ = _\<close> i Inr v
      have "r = Inl e" "n' = n1\<lparr>wn_store := wn_store n, wn_bindings := wn_bindings n, wn_config_json := wn_config_json n\<rparr>"
        by (auto simp: try_reconfigure_def Let_def)
      with f(9) [of "wn_store n"] show ?thesis by simp
    next
      case (Inr u)
      with assms \<open>recovery_store _ _ _ _ _ _ _ = _\<close> i \<open>b = Inr b'\<close> v
      have "r = Inr ()" "n' = n1" by (auto simp: try_reconfigure_def Let_def)
      with f show ?thesis by (simp add: node_limits_def)
    qed
  qed
qed

lemma hot_swap_tail_cases:
  assumes "hot_swap_tail H role st b pre n w = (r, n', w')"
  shows "case r of
      Inl _ \<Rightarrow> n' = n
    | Inr _ \<Rightarrow> wn_cached_pre n' = pre \<and> wn_bindings n' = b \<and> wn_config_json n' = wn_config_json n \<and>
        node_limits n' = node_limits n \<and> ws_capabilities (so_data st) = wn_capabilities n"
proof (cases "ws_capabilities (so_data st) = wn_capabilities n")
  case False
  with assms show ?thesis by (auto simp: hot_swap_tail_def)
next
  case True
  let ?n = "n\<lparr>wn_store := st, wn_bindings := b, wn_cached_pre := pre\<rparr>"
  obtain r1 n1 w2 where v: "validate_and_init H role (wn_config_json n) ?n w = (r1, n1, w2)"
    by (metis prod_cases3)
  note f = validate_and_init_restore [OF v]
  show ?thesis
  proof (cases r1)
    case (Inl e)
    with assms True v have "r = Inl e"
      "n' = n1\<lparr>wn_store := wn_store n, wn_bindings := wn_bindings n, wn_cached_pre := wn_cached_pre n\<rparr>"
      by (auto simp: hot_swap_tail_def Let_def)
    with f(9) [of "wn_store n"] show ?thesis by simp
  next
    case (Inr u)
    with assms True v have "r = Inr ()" "n' = n1" by (auto simp: hot_swap_tail_def Let_def)
    with f True show ?thesis by (simp add: node_limits_def)
  qed
qed

section \<open>Replacing an instance, as the runner sees it\<close>

text \<open>
  What a runner relies on when it replaces a node's instance: a failure leaves the node as it was,
  and a success keeps the limits and grants it runs under.
\<close>

locale replaceable =
  fixes replace_op :: "'n \<Rightarrow> 'w \<Rightarrow> (wafer_error, unit) result \<times> 'n \<times> 'w"
    and grants :: "'n \<Rightarrow> 'g"
  assumes fails_unchanged: "replace_op n w = (Inl e, n', w') \<Longrightarrow> n' = n"
    and keeps_grants: "replace_op n w = (Inr u, n', w') \<Longrightarrow> grants n' = grants n"
begin

lemma grants_stable: "replace_op n w = (r, n', w') \<Longrightarrow> grants n' = grants n"
  using fails_unchanged keeps_grants by (cases r) fastforce+

text \<open>However often a replacement is tried, the grants are those of the start.\<close>

fun replace_many :: "nat \<Rightarrow> 'n \<Rightarrow> 'w \<Rightarrow> 'n \<times> 'w" where
  "replace_many 0 n w = (n, w)"
| "replace_many (Suc k) n w = (case replace_op n w of (_, n', w') \<Rightarrow> replace_many k n' w')"

lemma replace_many_grants: "grants (fst (replace_many k n w)) = grants n"
  by (induction k arbitrary: n w) (auto split: prod.splits dest: grants_stable)

end

interpretation reconf: replaceable "try_reconfigure H role cfg" node_limits
proof
  fix n w e n' w'
  assume "try_reconfigure H role cfg n w = (Inl e, n', w')"
  from try_reconfigure_cases [OF this] show "n' = n" by simp
next
  fix n w u n' w'
  assume "try_reconfigure H role cfg n w = (Inr u, n', w')"
  from try_reconfigure_cases [OF this] show "node_limits n' = node_limits n" by simp
qed

interpretation swap: replaceable "hot_swap_tail H role st b pre" node_limits
proof
  fix n w e n' w'
  assume "hot_swap_tail H role st b pre n w = (Inl e, n', w')"
  from hot_swap_tail_cases [OF this] show "n' = n" by simp
next
  fix n w u n' w'
  assume "hot_swap_tail H role st b pre n w = (Inr u, n', w')"
  from hot_swap_tail_cases [OF this] show "node_limits n' = node_limits n" by simp
qed

section \<open>The buffer table\<close>

text \<open>
  What the engine documents of its resource table: pushing allocates a handle that was not live,
  deleting a live handle frees exactly it, arming the limits does not touch the table, and a guest
  that is handed a borrowed buffer cannot free it.
\<close>

definition buffer_table_laws :: "('w, 's, 'h) engine_host_scheme \<Rightarrow> ('s \<Rightarrow> nat set) \<Rightarrow> bool" where
  "buffer_table_laws H live \<longleftrightarrow>
     (\<forall>d st r st'. h_push_buffer H d st = (Inr r, st') \<longrightarrow>
        r \<notin> live (so_guest st) \<and> live (so_guest st') = insert r (live (so_guest st))) \<and>
     (\<forall>d st e st'. h_push_buffer H d st = (Inl e, st') \<longrightarrow> live (so_guest st') = live (so_guest st)) \<and>
     (\<forall>r st. r \<in> live (so_guest st) \<longrightarrow>
        (\<exists>st'. h_delete_buffer H r st = (Inr (), st') \<and> live (so_guest st') = live (so_guest st) - {r})) \<and>
     (\<forall>f st st'. h_set_fuel H f st = Inr st' \<longrightarrow> live (so_guest st') = live (so_guest st)) \<and>
     (\<forall>d st. live (so_guest (h_set_epoch_deadline H d st)) = live (so_guest st))"

text \<open>A guest call that does not free the buffers of the host.\<close>

definition borrows_only :: "('s \<Rightarrow> nat set) \<Rightarrow> ('b \<Rightarrow> 'm \<Rightarrow> 's store \<Rightarrow> 'w \<Rightarrow> 'r \<times> 's store \<times> 'w) \<Rightarrow> bool" where
  "borrows_only live call \<longleftrightarrow>
     (\<forall>b m st w. live (so_guest (fst (snd (call b m st w)))) = live (so_guest st))"

lemma log_guest [simp]: "so_guest (flush_logs st) = so_guest st" "so_guest (clear_log_buffer st) = so_guest st"
  by (simp_all add: flush_logs_def clear_log_buffer_def)

lemma buffer_laws:
  assumes "buffer_table_laws H live"
  shows "h_push_buffer H d st = (Inr r, st') \<Longrightarrow>
      r \<notin> live (so_guest st) \<and> live (so_guest st') = insert r (live (so_guest st))"
    and "h_push_buffer H d st = (Inl e, st') \<Longrightarrow> live (so_guest st') = live (so_guest st)"
    and "r \<in> live (so_guest st) \<Longrightarrow>
      \<exists>st'. h_delete_buffer H r st = (Inr (), st') \<and> live (so_guest st') = live (so_guest st) - {r}"
    and "h_set_fuel H f st = Inr st' \<Longrightarrow> live (so_guest st') = live (so_guest st)"
    and "live (so_guest (h_set_epoch_deadline H t st)) = live (so_guest st)"
proof -
  note L = assms [unfolded buffer_table_laws_def]
  show "h_push_buffer H d st = (Inr r, st') \<Longrightarrow>
      r \<notin> live (so_guest st) \<and> live (so_guest st') = insert r (live (so_guest st))"
    by (rule L [THEN conjunct1, rule_format])
  show "h_push_buffer H d st = (Inl e, st') \<Longrightarrow> live (so_guest st') = live (so_guest st)"
    by (rule L [THEN conjunct2, THEN conjunct1, rule_format])
  show "r \<in> live (so_guest st) \<Longrightarrow>
      \<exists>st'. h_delete_buffer H r st = (Inr (), st') \<and> live (so_guest st') = live (so_guest st) - {r}"
    by (rule L [THEN conjunct2, THEN conjunct2, THEN conjunct1, rule_format])
  show "h_set_fuel H f st = Inr st' \<Longrightarrow> live (so_guest st') = live (so_guest st)"
    by (rule L [THEN conjunct2, THEN conjunct2, THEN conjunct2, THEN conjunct1, rule_format])
  show "live (so_guest (h_set_epoch_deadline H t st)) = live (so_guest st)"
    by (rule L [THEN conjunct2, THEN conjunct2, THEN conjunct2, THEN conjunct2, rule_format])
qed

lemma call_guest_balanced:
  fixes live :: "'s \<Rightarrow> nat set"
  assumes laws: "buffer_table_laws H live"
    and guest: "borrows_only live call"
    and run: "call_guest H call env n w = (r, n', w')"
  shows "live (so_guest (wn_store n')) = live (so_guest (wn_store n))"
proof -
  note law = buffer_laws [OF laws]
  let ?L = "live (so_guest (wn_store n))"
  let ?st = "clear_log_buffer (wn_store n)"
  define fuelled where "fuelled = (case wn_fuel_limit n of None \<Rightarrow> Inr ?st | Some f \<Rightarrow> h_set_fuel H f ?st)"
  show ?thesis
  proof (cases fuelled)
    case (Inl e)
    with run have "n' = n\<lparr>wn_store := ?st\<rparr>" by (simp add: call_guest_def fuelled_def [symmetric])
    then show ?thesis by simp
  next
    case (Inr st1)
    then have l1: "live (so_guest st1) = ?L"
      by (cases "wn_fuel_limit n") (auto simp: fuelled_def dest: law(4))
    define st2 where "st2 = (case wn_epoch_deadline n of None \<Rightarrow> st1 | Some d \<Rightarrow> h_set_epoch_deadline H d st1)"
    have l2: "live (so_guest st2) = ?L"
      using l1 by (cases "wn_epoch_deadline n") (simp_all add: st2_def law(5))
    obtain p st3 where p: "h_push_buffer H (re_payload env) st2 = (p, st3)" by fastforce
    note step = call_guest_def fuelled_def [symmetric] Let_def \<open>fuelled = Inr st1\<close> st2_def [symmetric]
      build_wit_message_def p
    show ?thesis
    proof (cases p)
      case (Inl e)
      with run have "n' = n\<lparr>wn_store := st3\<rparr>" by (simp add: step)
      with law(2) p Inl l2 show ?thesis by simp
    next
      case (Inr rep)
      have l3: "rep \<notin> ?L" "live (so_guest st3) = insert rep ?L"
        using law(1) [OF p [unfolded Inr]] l2 by simp_all
      define msg where "msg = \<lparr>wm_id = eh_id (re_header env), wm_timestamp = eh_timestamp (re_header env),
         wm_source = eh_source (re_header env), wm_content_type = eh_content_type (re_header env),
         wm_metadata = eh_metadata (re_header env), wm_payload = rep\<rparr>"
      obtain c st4 w1 where c: "call (wn_bindings n) msg st3 w = (c, st4, w1)" by (metis prod_cases3)
      have l4: "live (so_guest (flush_logs st4)) = insert rep ?L"
        using guest c l3 unfolding borrows_only_def by (metis fst_conv snd_conv log_guest(1))
      then have "rep \<in> live (so_guest (flush_logs st4))" by simp
      from law(3) [OF this] obtain st5 where d: "h_delete_buffer H rep (flush_logs st4) = (Inr (), st5)"
        "live (so_guest st5) = live (so_guest (flush_logs st4)) - {rep}" by blast
      have "wm_payload msg = rep" by (simp add: msg_def)
      then have "wn_store n' = st5"
        using run by (cases c; cases "projr c") (auto simp: step Inr msg_def [symmetric] c d(1))
      with d(2) l3 l4 show ?thesis by simp
    qed
  qed
qed

section \<open>A concrete engine\<close>

text \<open>
  The engine on which properties with hypotheses are exhibited: its part of a store is the list of
  live buffer handles, its guests echo a message without its payload, forward every message that
  has an identity, and reject the configuration \<open>bad\<close>.
\<close>

definition fresh_handle :: "nat list \<Rightarrow> nat" where
  "fresh_handle hs = Suc (sum_list hs)"

definition sample_engine :: "(nat, nat list) engine_host" where
  "sample_engine =
     \<lparr>h_now = (\<lambda>w. (w, Suc w)), h_system_now = (\<lambda>w. (int w, Suc w)),
      h_dlq_try_send = (\<lambda>_ _ w. (SendOk, w)),
      h_new_store = (\<lambda>_ dt. \<lparr>so_data = dt, so_guest = []\<rparr>),
      h_epoch_deadline_trap = (\<lambda>st. st), h_set_epoch_deadline = (\<lambda>_ st. st),
      h_set_fuel = (\<lambda>_ st. Inr st),
      h_push_buffer = (\<lambda>_ st. (Inr (fresh_handle (so_guest st)),
         st\<lparr>so_guest := fresh_handle (so_guest st) # so_guest st\<rparr>)),
      h_delete_buffer = (\<lambda>r st. (if r \<in> set (so_guest st) then Inr () else Inl ''gone'',
         st\<lparr>so_guest := removeAll r (so_guest st)\<rparr>)),
      h_debug_error = (\<lambda>_. ''error''),
      h_instantiate = (\<lambda>pre st w. (Inr (BTransform 0), st, w)),
      h_call_validate = (\<lambda>_ nc st w. (Inr (if nc_config nc = ''bad'' then Some ''no'' else None), st, w)),
      h_call_init = (\<lambda>_ _ st w. (Inr (Inr ()), st, w)),
      h_call_process = (\<lambda>_ m st w. (Inr (Inr \<lparr>om_id = wm_id m, om_timestamp = wm_timestamp m,
         om_source = wm_source m, om_content_type = wm_content_type m, om_metadata = wm_metadata m,
         om_payload = []\<rparr>), st, w)),
      h_call_evaluate = (\<lambda>_ m st w. (Inr (Inr (wm_id m \<noteq> [])), st, w)),
      h_call_route = (\<lambda>_ m st w. (Inr (Inr [''default'']), st, w)),
      h_call_output_ports = (\<lambda>_ st w. (Inr [''default''], st, w))\<rparr>"

definition sample_node :: "nat list wasm_node" where
  "sample_node =
     wasm_node_new \<lparr>so_data = new_with_memory_limit ''n'' sandbox 1000, so_guest = []\<rparr>
       (BTransform 0) (PreTransform 0) None"

lemma fresh_handle_fresh: "fresh_handle hs \<notin> set hs"
proof
  assume "fresh_handle hs \<in> set hs"
  then have "fresh_handle hs \<le> sum_list hs" by (rule member_le_sum_list) simp
  then show False by (simp add: fresh_handle_def)
qed

lemma sample_engine_laws: "buffer_table_laws sample_engine set"
  by (simp add: buffer_table_laws_def sample_engine_def fresh_handle_fresh)

lemma sample_engine_borrows:
  "borrows_only set (h_call_process sample_engine)" "borrows_only set (h_call_evaluate sample_engine)"
  "borrows_only set (h_call_route sample_engine)"
  by (simp_all add: borrows_only_def sample_engine_def)

section \<open>Properties\<close>

text \<open>
  C18: replacing a node's instance is atomic. For every node kind, a reconfigure or hot swap that
  fails at any step (refused capabilities, fuel, instantiation, validate, init) leaves the node
  exactly as it was, instance, configuration and cached pre included.
\<close>

theorem failed_swap_keeps_node:
  "(\<forall>e n'. (\<exists>w'. transform_hot_swap H p n w = (Inl e, n', w')) \<longrightarrow> n' = n) \<and>
   (\<forall>e n'. (\<exists>w'. filter_hot_swap H st b pre n w = (Inl e, n', w')) \<longrightarrow> n' = n) \<and>
   (\<forall>e n'. (\<exists>w'. router_hot_swap H st b pre n w = (Inl e, n', w')) \<longrightarrow> n' = n) \<and>
   (\<forall>e n'. (\<exists>w'. transform_reconfigure H cfg n w = (Inl e, n', w')) \<longrightarrow> n' = n) \<and>
   (\<forall>e n'. (\<exists>w'. filter_reconfigure H cfg n w = (Inl e, n', w')) \<longrightarrow> n' = n) \<and>
   (\<forall>e n'. (\<exists>w'. router_reconfigure H cfg n w = (Inl e, n', w')) \<longrightarrow> n' = n)"
proof (intro conjI allI impI; elim exE)
  fix e n' w'
  show "transform_hot_swap H p n w = (Inl e, n', w') \<Longrightarrow> n' = n"
    by (auto simp: transform_hot_swap_def split: if_splits dest: swap.fails_unchanged)
qed (auto simp: filter_hot_swap_def router_hot_swap_def transform_reconfigure_def
      filter_reconfigure_def router_reconfigure_def
      dest: swap.fails_unchanged reconf.fails_unchanged)

theorem failed_swap_keeps_node_witness:
  "transform_reconfigure sample_engine ''bad'' sample_node 0 =
     (Inl (PluginInit (''transform '' @ quoted ''n'' @ '' validate() rejected config: no'')), sample_node, 0)"
proof -
  let ?e = "PluginInit (''transform '' @ quoted ''n'' @ '' validate() rejected config: no'')"
  have "\<exists>n'. transform_reconfigure sample_engine ''bad'' sample_node 0 = (Inl ?e, n', 0)"
    by (simp add: transform_reconfigure_def try_reconfigure_def recovery_store_def sample_engine_def
        sample_node_def wasm_node_new_def validate_and_init_def wasm_node_id_def new_with_memory_limit_def)
  moreover from this have "fst (snd (transform_reconfigure sample_engine ''bad'' sample_node 0)) = sample_node"
    using failed_swap_keeps_node [where H = sample_engine and cfg = "''bad''" and n = sample_node and w = 0]
    by auto
  ultimately show ?thesis by auto
qed







text \<open>
  No call leaks a payload buffer. Whatever the outcome (a result, a guest error, a trap, a
  failed fuel reset or a full table), the buffers live in the store's resource table after
  processing, evaluating or routing a message are those live before it.
\<close>

theorem guest_call_releases_buffer:
  assumes "buffer_table_laws H live" "borrows_only live (h_call_process H)"
    "borrows_only live (h_call_evaluate H)" "borrows_only live (h_call_route H)"
  shows "live (so_guest (wn_store (fst (snd (transform_process H env n w))))) = live (so_guest (wn_store n)) \<and>
    live (so_guest (wn_store (fst (snd (filter_evaluate H env n w))))) = live (so_guest (wn_store n)) \<and>
    live (so_guest (wn_store (fst (snd (router_route H env n w))))) = live (so_guest (wn_store n))"
proof (intro conjI)
  obtain r n' w' where c: "call_guest H (h_call_process H) env n w = (r, n', w')" by (metis prod_cases3)
  from call_guest_balanced [OF assms(1,2) c]
  show "live (so_guest (wn_store (fst (snd (transform_process H env n w))))) = live (so_guest (wn_store n))"
    by (cases r) (simp_all add: transform_process_def c)
next
  obtain r n' w' where c: "call_guest H (h_call_evaluate H) env n w = (r, n', w')" by (metis prod_cases3)
  from call_guest_balanced [OF assms(1,3) c]
  show "live (so_guest (wn_store (fst (snd (filter_evaluate H env n w))))) = live (so_guest (wn_store n))"
    by (cases r) (simp_all add: filter_evaluate_def c)
next
  obtain r n' w' where c: "call_guest H (h_call_route H) env n w = (r, n', w')" by (metis prod_cases3)
  from call_guest_balanced [OF assms(1,4) c]
  show "live (so_guest (wn_store (fst (snd (router_route H env n w))))) = live (so_guest (wn_store n))"
    by (cases r) (simp_all add: router_route_def c)
qed

theorem guest_call_releases_buffer_witness:
  "set (so_guest (wn_store (fst (snd (transform_process sample_engine sample_envelope sample_node 0))))) = {}"
  using guest_call_releases_buffer [OF sample_engine_laws sample_engine_borrows, of sample_envelope sample_node 0]
  by (simp add: sample_node_def wasm_node_new_def)

text \<open>
  C40: the output of a Wasm transform carries its input's lineage and benchmark stamps and starts
  with a fresh retry budget, whereas the output of a native transform keeps the retries its input
  burned at this node.
\<close>

theorem transform_output_retry_count:
  assumes "tn_process H env t w = (Inr out, t', w')"
  shows "eh_bench (re_header out) = eh_bench (re_header env) \<and> re_lineage out = re_lineage env \<and>
    re_retry_count out = (case t of TWasm _ \<Rightarrow> 0 | TNative _ \<Rightarrow> re_retry_count env)"
  using assms
  by (auto simp: tn_process_def transform_process_def native_process_def from_guest_output_def
      split: transform_node.splits prod.splits sum.splits if_splits)

theorem transform_output_retry_count_witness:
  "\<exists>out. tn_process sample_engine (sample_envelope\<lparr>re_retry_count := 2\<rparr>)
      (TNative \<lparr>nt_id = ''n'', nt_process_fn = passthrough_fn\<rparr>) 0 =
      (Inr out, TNative \<lparr>nt_id = ''n'', nt_process_fn = passthrough_fn\<rparr>, 0) \<and> re_retry_count out = 2"
proof -
  have "tn_process sample_engine (sample_envelope\<lparr>re_retry_count := 2\<rparr>)
      (TNative \<lparr>nt_id = ''n'', nt_process_fn = passthrough_fn\<rparr>) 0 =
      (Inr (sample_envelope\<lparr>re_retry_count := 2\<rparr>), TNative \<lparr>nt_id = ''n'', nt_process_fn = passthrough_fn\<rparr>, 0)"
    by (simp add: tn_process_def native_process_def passthrough_fn_def)
  from transform_output_retry_count [OF this] this show ?thesis by simp
qed

text \<open>
  A guest reads exactly the part of the payload it asks for, cut at the end, for every offset
  and length, without overflow.
\<close>

theorem buffer_read_exact:
  assumes "length data < 2 ^ 64"
  shows "buffer_read data offset len = take (unat len) (drop (unat offset) data)"
proof (cases "offset \<ge> of_nat (length data)")
  case True
  with assms have "length data \<le> unat offset" by (simp add: word_le_nat_alt unat_of_nat)
  with True show ?thesis by (simp add: buffer_read_def)
next
  case False
  then have "unat offset < length data"
    using assms by (simp add: word_le_nat_alt unat_of_nat)
  then have "unat (of_nat (length data) - offset) = length data - unat offset"
    using assms by (simp add: unat_sub_if' unat_of_nat)
  then have "unat (min len (of_nat (length data) - offset)) = min (unat len) (length data - unat offset)"
    by (simp add: unat_min)
  with False show ?thesis by (simp add: buffer_read_def Let_def min_def)
qed

theorem buffer_read_exact_witness:
  "buffer_read [1, 2, 3, 4] 2 9 = [3, 4]"
  using buffer_read_exact [of "[1, 2, 3, 4]" 2 9] by simp

end
