(* ===== verification/HotSwap.thy ===== *)
theory HotSwap
  imports WasmNode
begin

text \<open>
  Replacement progress and the canary window of \<open>wafer-core/src/runner/mod.rs\<close>. A
  \<open>HotSwapProgress\<close> is shared between the API caller that asks for a replacement and the runner
  that applies it, so progress handles, the node plugin hashes, the queue metrics and the slots a
  swap payload points to live in the world, under the identity of their \<open>Arc\<close>. Each method is a
  function on the shared value; the clock readings and the world are threaded around it. Mutexes are
  held for one assignment and never poisoned (nothing panics under them); the one-shot channel keeps
  what was sent through it.
\<close>

section \<open>Progress\<close>

datatype hot_swap_error = InitFailed string | RolledBack u64 string

definition hot_swap_error_display :: "hot_swap_error \<Rightarrow> string" where
  "hot_swap_error_display e =
     (case e of
        InitFailed m \<Rightarrow> ''hot-swap init failed: '' @ m
      | RolledBack ns r \<Rightarrow>
          ''hot-swap rolled back after process-time trap in '' @ show_nat (unat ns) @ '' ns: '' @ r)"

datatype first_local_outcome = ForwardedEnqueued | FilterDropped | RouterDropped

definition first_local_outcome_as_str :: "first_local_outcome \<Rightarrow> string" where
  "first_local_outcome_as_str oc =
     (case oc of
        ForwardedEnqueued \<Rightarrow> ''forwarded/enqueued''
      | FilterDropped \<Rightarrow> ''filter-dropped''
      | RouterDropped \<Rightarrow> ''router-dropped'')"

record hot_swap_report =
  hr_replacement_adopted_at :: instant
  hr_first_local_outcome_at :: instant
  hr_first_local_outcome :: first_local_outcome

type_synonym hot_swap_outcome = "(hot_swap_error, hot_swap_report) result"

record plugin_hash_update =
  pu_node_id :: string
  pu_replacement :: string
  pu_replaced :: "string option"

record hot_swap_progress =
  pg_replacement_adopted :: "instant option"
  pg_adopted_notified :: bool
  pg_first_local_outcome :: "(instant \<times> first_local_outcome) option"
  pg_tx :: bool
  pg_sent :: "hot_swap_outcome list"
  pg_claim :: u8
  pg_plugin_hash :: "plugin_hash_update option"

definition CLAIM_PENDING :: u8 where "CLAIM_PENDING = 0"
definition CLAIM_RUNNER :: u8 where "CLAIM_RUNNER = 1"
definition CLAIM_WITHDRAWN :: u8 where "CLAIM_WITHDRAWN = 2"

definition progress_channel :: hot_swap_progress where
  "progress_channel =
     \<lparr>pg_replacement_adopted = None, pg_adopted_notified = False, pg_first_local_outcome = None,
      pg_tx = True, pg_sent = [], pg_claim = CLAIM_PENDING, pg_plugin_hash = None\<rparr>"

definition track_plugin_hash :: "string \<Rightarrow> string \<Rightarrow> hot_swap_progress \<Rightarrow> hot_swap_progress" where
  "track_plugin_hash node replacement p =
     (if pg_plugin_hash p = None
      then p\<lparr>pg_plugin_hash :=
               Some \<lparr>pu_node_id = node, pu_replacement = replacement, pu_replaced = None\<rparr>\<rparr>
      else p)"

definition try_claim :: "hot_swap_progress \<Rightarrow> bool \<times> hot_swap_progress" where
  "try_claim p =
     (if pg_claim p = CLAIM_PENDING then (True, p\<lparr>pg_claim := CLAIM_RUNNER\<rparr>) else (False, p))"

definition try_withdraw :: "hot_swap_progress \<Rightarrow> bool \<times> hot_swap_progress" where
  "try_withdraw p =
     (if pg_claim p = CLAIM_PENDING then (True, p\<lparr>pg_claim := CLAIM_WITHDRAWN\<rparr>) else (False, p))"

text \<open>\<open>take_sender\<close> followed by \<open>send\<close>: only the caller that finds the sender sends.\<close>

definition take_and_send :: "hot_swap_outcome \<Rightarrow> hot_swap_progress \<Rightarrow> hot_swap_progress" where
  "take_and_send oc p = (if pg_tx p then p\<lparr>pg_tx := False, pg_sent := pg_sent p @ [oc]\<rparr> else p)"

definition try_complete :: "hot_swap_progress \<Rightarrow> hot_swap_progress" where
  "try_complete p =
     (case (pg_replacement_adopted p, pg_first_local_outcome p) of
        (Some a, Some (t, oc)) \<Rightarrow>
          take_and_send (Inr \<lparr>hr_replacement_adopted_at = a, hr_first_local_outcome_at = t,
                              hr_first_local_outcome = oc\<rparr>) p
      | _ \<Rightarrow> p)"

text \<open>The hash bookkeeping at the start of \<open>mark_replacement_adopted\<close>.\<close>

definition adopt_hash ::
    "(string \<rightharpoonup> string) \<Rightarrow> hot_swap_progress \<Rightarrow> (string \<rightharpoonup> string) \<times> hot_swap_progress" where
  "adopt_hash hashes p =
     (case pg_plugin_hash p of
        None \<Rightarrow> (hashes, p)
      | Some u \<Rightarrow>
          (hashes(pu_node_id u \<mapsto> pu_replacement u),
           p\<lparr>pg_plugin_hash := Some (u\<lparr>pu_replaced := hashes (pu_node_id u)\<rparr>)\<rparr>))"

definition mark_adopted_at :: "instant \<Rightarrow> hot_swap_progress \<Rightarrow> hot_swap_progress" where
  "mark_adopted_at now p =
     try_complete
       (p\<lparr>pg_replacement_adopted := (case pg_replacement_adopted p of None \<Rightarrow> Some now | Some t \<Rightarrow> Some t),
          pg_adopted_notified := True\<rparr>)"

definition mark_outcome_at :: "instant \<Rightarrow> first_local_outcome \<Rightarrow> hot_swap_progress \<Rightarrow> hot_swap_progress"
    where
  "mark_outcome_at now oc p =
     try_complete
       (p\<lparr>pg_first_local_outcome :=
            (case pg_first_local_outcome p of None \<Rightarrow> Some (now, oc) | Some x \<Rightarrow> Some x)\<rparr>)"

definition report_init_failed :: "string \<Rightarrow> hot_swap_progress \<Rightarrow> hot_swap_progress" where
  "report_init_failed msg p = take_and_send (Inl (InitFailed msg)) p"

definition report_rolled_back :: "u64 \<Rightarrow> string \<Rightarrow> hot_swap_progress \<Rightarrow> hot_swap_progress" where
  "report_rolled_back ns reason p = take_and_send (Inl (RolledBack ns reason)) p"

definition restore_hash ::
    "(string \<rightharpoonup> string) \<Rightarrow> hot_swap_progress \<Rightarrow> (string \<rightharpoonup> string) \<times> hot_swap_progress" where
  "restore_hash hashes p =
     (case pg_plugin_hash p of
        None \<Rightarrow> (hashes, p)
      | Some u \<Rightarrow>
          (case pu_replaced u of
             None \<Rightarrow> (hashes, p)
           | Some old \<Rightarrow>
               (hashes(pu_node_id u \<mapsto> old),
                p\<lparr>pg_plugin_hash := Some (u\<lparr>pu_replaced := None\<rparr>)\<rparr>)))"

section \<open>The world\<close>

record ('x, 's) world =
  w_progress :: "nat \<Rightarrow> hot_swap_progress"
  w_hashes :: "string \<rightharpoonup> string"
  w_queues :: "nat \<Rightarrow> queue_metrics"
  w_transform_slots :: "nat \<Rightarrow> 's prepared_transform_swap option"
  w_store_slots :: "nat \<Rightarrow> 's store option"
  w_bindings_slots :: "nat \<Rightarrow> bindings option"
  w_ext :: 'x

definition update_progress ::
    "nat \<Rightarrow> (hot_swap_progress \<Rightarrow> hot_swap_progress) \<Rightarrow> ('x, 's) world \<Rightarrow> ('x, 's) world" where
  "update_progress p f w = w\<lparr>w_progress := (w_progress w)(p := f (w_progress w p))\<rparr>"

definition mark_replacement_adopted ::
    "(('x, 's) world, 'h) host_scheme \<Rightarrow> nat \<Rightarrow> ('x, 's) world \<Rightarrow> ('x, 's) world" where
  "mark_replacement_adopted H p w =
     (let (hashes, pg) = adopt_hash (w_hashes w) (w_progress w p);
          w = w\<lparr>w_hashes := hashes, w_progress := (w_progress w)(p := pg)\<rparr>;
          (now, w) = h_now H w
      in update_progress p (mark_adopted_at now) w)"

definition mark_first_local_outcome ::
    "(('x, 's) world, 'h) host_scheme \<Rightarrow> first_local_outcome \<Rightarrow> nat \<Rightarrow> ('x, 's) world \<Rightarrow> ('x, 's) world"
    where
  "mark_first_local_outcome H oc p w =
     (let (now, w) = h_now H w in update_progress p (mark_outcome_at now oc) w)"

definition restore_replaced_plugin_hash :: "nat \<Rightarrow> ('x, 's) world \<Rightarrow> ('x, 's) world" where
  "restore_replaced_plugin_hash p w =
     (let (hashes, pg) = restore_hash (w_hashes w) (w_progress w p)
      in w\<lparr>w_hashes := hashes, w_progress := (w_progress w)(p := pg)\<rparr>)"

section \<open>The canary window\<close>

record canary_counters =
  cc_success_count :: u32
  cc_window_start :: instant
  cc_config :: hot_swap_config

definition canary_counters_new ::
    "('w, 'h) host_scheme \<Rightarrow> hot_swap_config \<Rightarrow> 'w \<Rightarrow> canary_counters \<times> 'w" where
  "canary_counters_new H cfg w =
     (let (now, w) = h_now H w in
      (\<lparr>cc_success_count = 0, cc_window_start = now, cc_config = cfg\<rparr>, w))"

text \<open>The clock is read only when the success count does not close the window by itself.\<close>

definition window_expired ::
    "('w, 'h) host_scheme \<Rightarrow> canary_counters \<Rightarrow> 'w \<Rightarrow> bool \<times> 'w" where
  "window_expired H c w =
     (if cc_success_count c \<ge> hc_canary_success_count (cc_config c) then (True, w)
      else
        let (el, w) = elapsed H (cc_window_start c) w
        in (duration_ms_saturating el \<ge> hc_canary_window_ms (cc_config c), w))"

definition canary_record_success :: "canary_counters \<Rightarrow> canary_counters" where
  "canary_record_success c = c\<lparr>cc_success_count := sat_add (cc_success_count c) 1\<rparr>"

record transform_canary_state =
  ca_snapshot_pre :: instance_pre
  ca_counters :: canary_counters
  ca_swap :: nat

definition canary_state_new ::
    "('w, 'h) host_scheme \<Rightarrow> instance_pre \<Rightarrow> hot_swap_config \<Rightarrow> nat \<Rightarrow> 'w
       \<Rightarrow> transform_canary_state \<times> 'w" where
  "canary_state_new H pre cfg swap w =
     (let (c, w) = canary_counters_new H cfg w in
      (\<lparr>ca_snapshot_pre = pre, ca_counters = c, ca_swap = swap\<rparr>, w))"

definition canary_success :: "transform_canary_state \<Rightarrow> transform_canary_state" where
  "canary_success c = c\<lparr>ca_counters := canary_record_success (ca_counters c)\<rparr>"

section \<open>Sequences of calls on one progress handle\<close>

datatype claim_call = RunnerClaims | ApiWithdraws

fun claim_run :: "claim_call list \<Rightarrow> hot_swap_progress \<Rightarrow> bool list" where
  "claim_run [] p = []"
| "claim_run (c # cs) p =
     (case (case c of RunnerClaims \<Rightarrow> try_claim p | ApiWithdraws \<Rightarrow> try_withdraw p) of
        (ok, p') \<Rightarrow> ok # claim_run cs p')"

datatype report_call =
    MarkAdopted instant
  | MarkOutcome instant first_local_outcome
  | ReportInitFailed string
  | ReportRolledBack u64 string

definition report_step :: "report_call \<Rightarrow> hot_swap_progress \<Rightarrow> hot_swap_progress" where
  "report_step c p =
     (case c of
        MarkAdopted t \<Rightarrow> mark_adopted_at t p
      | MarkOutcome t oc \<Rightarrow> mark_outcome_at t oc p
      | ReportInitFailed m \<Rightarrow> report_init_failed m p
      | ReportRolledBack ns r \<Rightarrow> report_rolled_back ns r p)"

definition report_run :: "report_call list \<Rightarrow> hot_swap_progress \<Rightarrow> hot_swap_progress" where
  "report_run cs p = foldl (\<lambda>p c. report_step c p) p cs"

definition progress_inv :: "hot_swap_progress \<Rightarrow> bool" where
  "progress_inv p \<longleftrightarrow>
     length (pg_sent p) = (if pg_tx p then 0 else 1) \<and>
     (\<forall>r. Inr r \<in> set (pg_sent p) \<longrightarrow>
        pg_replacement_adopted p = Some (hr_replacement_adopted_at r) \<and>
        pg_first_local_outcome p = Some (hr_first_local_outcome_at r, hr_first_local_outcome r)) \<and>
     (pg_tx p \<longrightarrow> pg_replacement_adopted p = None \<or> pg_first_local_outcome p = None)"

lemma claim_consts [simp]: "CLAIM_RUNNER \<noteq> CLAIM_PENDING" "CLAIM_WITHDRAWN \<noteq> CLAIM_PENDING"
  by (simp_all add: CLAIM_PENDING_def CLAIM_RUNNER_def CLAIM_WITHDRAWN_def)

lemma claim_run_taken: "pg_claim p \<noteq> CLAIM_PENDING \<Longrightarrow> claim_run cs p = replicate (length cs) False"
  by (induction cs arbitrary: p) (auto simp: try_claim_def try_withdraw_def split: claim_call.splits)

lemma progress_inv_channel: "progress_inv progress_channel"
  by (simp add: progress_inv_def progress_channel_def)

lemma progress_inv_step: "progress_inv p \<Longrightarrow> progress_inv (report_step c p)"
  by (cases c)
     (auto simp: progress_inv_def report_step_def mark_adopted_at_def mark_outcome_at_def
        report_init_failed_def report_rolled_back_def take_and_send_def try_complete_def
        split: option.splits if_splits)

lemma progress_inv_run: "progress_inv p \<Longrightarrow> progress_inv (report_run cs p)"
  by (induction cs arbitrary: p) (simp_all add: report_run_def progress_inv_step)

lemma report_step_sent: "\<exists>xs. pg_sent (report_step c p) = pg_sent p @ xs"
  by (cases c)
     (auto simp: report_step_def mark_adopted_at_def mark_outcome_at_def report_init_failed_def
        report_rolled_back_def take_and_send_def try_complete_def split: option.splits prod.splits)

lemma report_run_sent: "\<exists>xs. pg_sent (report_run cs p) = pg_sent p @ xs"
proof (induction cs arbitrary: p)
  case (Cons c cs)
  from Cons [of "report_step c p"] report_step_sent [of c p] show ?case
    by (auto simp: report_run_def)
qed (simp add: report_run_def)

section \<open>Properties\<close>

text \<open>
  C8: a swap payload has exactly one owner. Whatever interleaving of claims by the runner and
  withdrawals by the API happens on a fresh handle, the first call wins and every other one fails,
  so a withdrawn payload is never applied and a claimed one is never withdrawn.
\<close>

theorem claim_exclusive:
  "claim_run (c # cs) progress_channel = True # replicate (length cs) False"
  by (cases c)
     (simp_all add: progress_channel_def try_claim_def try_withdraw_def claim_run_taken)

text \<open>
  C21: a replacement request is answered at most once. Whatever the runner reports in whatever
  order, at most one outcome is sent; a success is sent only after both the adoption and a first
  local outcome were recorded and carries exactly those instants, and an outcome already sent is
  never changed by a later report.
\<close>

theorem outcome_reported_once:
  "let p = report_run cs progress_channel; p' = report_run cs' p in
   length (pg_sent p') \<le> 1 \<and> (\<exists>xs. pg_sent p' = pg_sent p @ xs) \<and>
   list_all (\<lambda>oc. case oc of
       Inl _ \<Rightarrow> True
     | Inr r \<Rightarrow> pg_replacement_adopted p' = Some (hr_replacement_adopted_at r) \<and>
         pg_first_local_outcome p' = Some (hr_first_local_outcome_at r, hr_first_local_outcome r))
     (pg_sent p')"
proof -
  let ?p' = "report_run cs' (report_run cs progress_channel)"
  have "progress_inv ?p'" by (intro progress_inv_run progress_inv_channel)
  then have "length (pg_sent ?p') \<le> 1"
    and "\<forall>r. Inr r \<in> set (pg_sent ?p') \<longrightarrow>
        pg_replacement_adopted ?p' = Some (hr_replacement_adopted_at r) \<and>
        pg_first_local_outcome ?p' = Some (hr_first_local_outcome_at r, hr_first_local_outcome r)"
    by (simp_all add: progress_inv_def)
  with report_run_sent [of cs' "report_run cs progress_channel"] show ?thesis
    by (auto simp: Let_def list_all_iff split: sum.splits)
qed

text \<open>
  Rolling back puts the provenance record right. When a node's plugin hash was recorded before
  the replacement was adopted, adopting records the replacement's hash and rolling back restores
  exactly the hashes from before, once; a second roll back changes nothing.
\<close>

theorem rollback_restores_hash:
  assumes "pg_plugin_hash p = Some u" "hashes (pu_node_id u) = Some old"
  shows "let (h1, p1) = adopt_hash hashes p; (h2, p2) = restore_hash h1 p1; (h3, p3) = restore_hash h2 p2 in
    h1 (pu_node_id u) = Some (pu_replacement u) \<and> h2 = hashes \<and> h3 = h2 \<and> p3 = p2"
  using assms by (auto simp: adopt_hash_def restore_hash_def Let_def)

theorem rollback_restores_hash_witness:
  "fst (restore_hash (fst (adopt_hash [''n'' \<mapsto> ''v1''] (track_plugin_hash ''n'' ''v2'' progress_channel)))
     (snd (adopt_hash [''n'' \<mapsto> ''v1''] (track_plugin_hash ''n'' ''v2'' progress_channel)))) = [''n'' \<mapsto> ''v1'']"
  using rollback_restores_hash [of "track_plugin_hash ''n'' ''v2'' progress_channel"
      "\<lparr>pu_node_id = ''n'', pu_replacement = ''v2'', pu_replaced = None\<rparr>" "[''n'' \<mapsto> ''v1'']" "''v1''"]
  by (simp add: track_plugin_hash_def progress_channel_def Let_def split: prod.splits)

lemma canary_successes:
  "unat (cc_success_count ((canary_record_success ^^ k) c)) = min (unat (cc_success_count c) + k) (2 ^ 32 - 1) \<and>
   cc_window_start ((canary_record_success ^^ k) c) = cc_window_start c \<and>
   cc_config ((canary_record_success ^^ k) c) = cc_config c"
proof (induction k)
  case 0
  then show ?case using unat_le_max [of "cc_success_count c"] by simp
next
  case (Suc k)
  then show ?case by (auto simp: canary_record_success_def unat_sat_add)
qed

text \<open>
  After \<open>k\<close> successful messages the canary window is closed exactly when the successes so far,
  counted in total, reach the configured number or the configured time has passed since the
  replacement was adopted.
\<close>

theorem canary_window_closes:
  "fst (window_expired H ((canary_record_success ^^ k) c) w) \<longleftrightarrow>
     unat (hc_canary_success_count (cc_config c)) \<le> min (unat (cc_success_count c) + k) (2 ^ 32 - 1) \<or>
     unat (hc_canary_window_ms (cc_config c)) \<le>
       min ((fst (h_now H w) - cc_window_start c) div 1000000) (2 ^ 64 - 1)"
  using canary_successes [of k c]
  by (auto simp: window_expired_def elapsed_eq word_le_nat_alt unat_duration_ms)

end
