(* ===== verification/NodeLifecycle.thy ===== *)
theory NodeLifecycle
  imports Host
begin

text \<open>
  \<open>wafer-core/src/node/state.rs\<close> and the node states of \<open>wafer-types/src/control.rs\<close>: the
  lifecycle byte a runner writes and the status API reads, with the outage stopwatch. The theorems
  say which transitions exist, that the stopwatch runs exactly while the node is down, and that the
  reported recovery time covers the outage from its first error.
\<close>

section \<open>The tracker\<close>

datatype node_state = Starting | Running | Error | Recovering

definition node_state_display :: "node_state \<Rightarrow> string" where
  "node_state_display s =
     (case s of Starting \<Rightarrow> ''starting'' | Running \<Rightarrow> ''running'' | Error \<Rightarrow> ''error''
      | Recovering \<Rightarrow> ''recovering'')"

record node_state_tracker =
  ns_state :: u8
  ns_recovery_started_ns :: u64
  ns_epoch :: instant

definition state_to_u8 :: "node_state \<Rightarrow> u8" where
  "state_to_u8 s = (case s of Starting \<Rightarrow> 0 | Running \<Rightarrow> 1 | Error \<Rightarrow> 2 | Recovering \<Rightarrow> 3)"

definition u8_to_state :: "u8 \<Rightarrow> node_state" where
  "u8_to_state v =
     (if v = 0 then Starting else if v = 1 then Running else if v = 3 then Recovering else Error)"

definition with_state :: "node_state \<Rightarrow> instant \<Rightarrow> node_state_tracker" where
  "with_state s now =
     \<lparr>ns_state = state_to_u8 s, ns_recovery_started_ns = 0, ns_epoch = now\<rparr>"

definition state_new :: "instant \<Rightarrow> node_state_tracker" where
  "state_new now = with_state Starting now"

definition state_running :: "instant \<Rightarrow> node_state_tracker" where
  "state_running now = with_state Running now"

definition node_state_of :: "node_state_tracker \<Rightarrow> node_state" where
  "node_state_of t = u8_to_state (ns_state t)"

definition try_transition ::
    "node_state \<Rightarrow> node_state \<Rightarrow> node_state_tracker \<Rightarrow> bool \<times> node_state_tracker" where
  "try_transition frm to t =
     (if ns_state t = state_to_u8 frm then (True, t\<lparr>ns_state := state_to_u8 to\<rparr>) else (False, t))"

definition transition_to_running :: "node_state_tracker \<Rightarrow> bool \<times> node_state_tracker" where
  "transition_to_running t = try_transition Starting Running t"

definition transition_to_error ::
    "('w, 'h) host_scheme \<Rightarrow> node_state_tracker \<Rightarrow> 'w \<Rightarrow> bool \<times> node_state_tracker \<times> 'w" where
  "transition_to_error H t w =
     (let error_val = state_to_u8 Error; previous = ns_state t; t = t\<lparr>ns_state := error_val\<rparr> in
      if previous = error_val then (False, t, w)
      else
        let (el, w) = elapsed H (ns_epoch t) w;
            now_ns = duration_ns_saturating el
        in (True,
            if ns_recovery_started_ns t = 0
            then t\<lparr>ns_recovery_started_ns := max now_ns 1\<rparr> else t,
            w))"

definition transition_to_recovering :: "node_state_tracker \<Rightarrow> bool \<times> node_state_tracker" where
  "transition_to_recovering t = try_transition Error Recovering t"

definition transition_recovering_to_running_timed ::
    "('w, 'h) host_scheme \<Rightarrow> node_state_tracker \<Rightarrow> 'w
       \<Rightarrow> u64 option \<times> node_state_tracker \<times> 'w" where
  "transition_recovering_to_running_timed H t w =
     (let (ok, t) = try_transition Recovering Running t in
      if \<not> ok then (None, t, w)
      else
        let started = ns_recovery_started_ns t; t = t\<lparr>ns_recovery_started_ns := 0\<rparr> in
        if started = 0 then (Some 0, t, w)
        else
          let (el, w) = elapsed H (ns_epoch t) w
          in (Some (sat_sub (duration_ns_saturating el) started), t, w))"

section \<open>Sequences of calls\<close>

text \<open>One call on the tracker, and a sequence of them, with the durations they report.\<close>

datatype lifecycle_call = CallRunning | CallError | CallRecovering | CallRecovered

definition lifecycle_call_step ::
    "('w, 'h) host_scheme \<Rightarrow> lifecycle_call \<Rightarrow> node_state_tracker \<times> 'w
       \<Rightarrow> u64 option \<times> node_state_tracker \<times> 'w" where
  "lifecycle_call_step H c tw =
     (case tw of (t, w) \<Rightarrow>
       case c of
         CallRunning \<Rightarrow> (None, snd (transition_to_running t), w)
       | CallError \<Rightarrow> (case transition_to_error H t w of (_, t', w') \<Rightarrow> (None, t', w'))
       | CallRecovering \<Rightarrow> (None, snd (transition_to_recovering t), w)
       | CallRecovered \<Rightarrow> transition_recovering_to_running_timed H t w)"

fun lifecycle_run ::
    "('w, 'h) host_scheme \<Rightarrow> lifecycle_call list \<Rightarrow> node_state_tracker \<times> 'w
       \<Rightarrow> node_state_tracker \<times> 'w" where
  "lifecycle_run H [] tw = tw"
| "lifecycle_run H (c # cs) tw = lifecycle_run H cs (snd (lifecycle_call_step H c tw))"

text \<open>The transitions the module documents.\<close>

inductive lifecycle :: "node_state \<Rightarrow> node_state \<Rightarrow> bool" where
  start: "lifecycle Starting Running"
| fail: "s \<noteq> Error \<Longrightarrow> lifecycle s Error"
| recover: "lifecycle Error Recovering"
| recovered: "lifecycle Recovering Running"

inductive_simps lifecycle_simps [simp]:
  "lifecycle Starting s" "lifecycle Running s" "lifecycle Error s" "lifecycle Recovering s"

definition tracker_ok :: "node_state_tracker \<Rightarrow> bool" where
  "tracker_ok t \<longleftrightarrow>
     (\<exists>s. ns_state t = state_to_u8 s) \<and>
     (ns_recovery_started_ns t = 0 \<longleftrightarrow> node_state_of t \<in> {Starting, Running})"

section \<open>Lemmas\<close>

named_theorems lifecycle_defs "unfolding the tracker operations"

lemmas lifecycle_op_defs [lifecycle_defs] =
  lifecycle_call_step_def transition_to_running_def transition_to_error_def
  transition_to_recovering_def transition_recovering_to_running_timed_def try_transition_def
  elapsed_eq Let_def

lemma state_u8_roundtrip [simp]: "u8_to_state (state_to_u8 s) = s"
  by (cases s) (simp_all add: u8_to_state_def state_to_u8_def)

lemma state_to_u8_inject [simp]: "state_to_u8 s = state_to_u8 s' \<longleftrightarrow> s = s'"
  by (metis state_u8_roundtrip)

lemma node_state_of_eq: "ns_state t = state_to_u8 s \<Longrightarrow> node_state_of t = s"
  by (simp add: node_state_of_def)

lemma tracker_ok_new: "tracker_ok (state_new now)"
  by (auto simp: tracker_ok_def state_new_def with_state_def node_state_of_def)

lemma stamp_nonzero: "max (x :: u64) 1 \<noteq> 0"
  by (metis max.cobounded2 word_le_0_iff zero_neq_one)

lemma tracker_ok_call:
  assumes "tracker_ok t"
  shows "tracker_ok (fst (snd (lifecycle_call_step H c (t, w))))"
proof -
  from assms obtain s where s: "ns_state t = state_to_u8 s" by (auto simp: tracker_ok_def)
  with assms show ?thesis
    by (cases c; cases s)
       (auto simp: tracker_ok_def lifecycle_defs node_state_of_def stamp_nonzero split: if_splits)
qed

lemma lifecycle_call:
  assumes "tracker_ok t"
  shows "node_state_of (fst (snd (lifecycle_call_step H c (t, w)))) = node_state_of t \<or>
     lifecycle (node_state_of t) (node_state_of (fst (snd (lifecycle_call_step H c (t, w)))))"
proof -
  from assms obtain s where s: "ns_state t = state_to_u8 s" by (auto simp: tracker_ok_def)
  then show ?thesis
    by (cases c; cases s) (auto simp: lifecycle_defs node_state_of_def)
qed

lemma tracker_ok_run: "tracker_ok (fst tw) \<Longrightarrow> tracker_ok (fst (lifecycle_run H cs tw))"
proof (induction cs arbitrary: tw)
  case (Cons c cs)
  obtain t w where "tw = (t, w)" by fastforce
  with Cons tracker_ok_call [of t H c w] show ?case by simp
qed simp

text \<open>While only errors and recovery attempts happen, the stopwatch keeps its first value.\<close>

lemma outage_keeps_stamp:
  assumes "set cs \<subseteq> {CallError, CallRecovering}" "ns_recovery_started_ns t \<noteq> 0"
    "ns_state t \<in> {state_to_u8 Error, state_to_u8 Recovering}"
  shows "ns_recovery_started_ns (fst (lifecycle_run H cs (t, w))) = ns_recovery_started_ns t \<and>
     ns_epoch (fst (lifecycle_run H cs (t, w))) = ns_epoch t"
  using assms
proof (induction cs arbitrary: t w)
  case (Cons c cs)
  obtain t' w' where tw: "snd (lifecycle_call_step H c (t, w)) = (t', w')" by fastforce
  with Cons.prems have "ns_recovery_started_ns t' = ns_recovery_started_ns t"
    "ns_epoch t' = ns_epoch t" "ns_state t' \<in> {state_to_u8 Error, state_to_u8 Recovering}"
    by (auto simp: lifecycle_defs split: if_splits)
  with Cons tw show ?case by simp
qed simp

section \<open>Properties\<close>

text \<open>
  From a freshly created tracker, whatever calls a runner makes, every call leaves the state
  unchanged or takes a documented transition (starting to running, anything to error, error to
  recovering, recovering to running), and the outage stopwatch runs exactly while the node is in
  error or recovering.
\<close>

theorem lifecycle_transitions:
  "let t = fst (lifecycle_run H cs (state_new now, w));
       t' = fst (snd (lifecycle_call_step H c (t, w')))
   in (node_state_of t' = node_state_of t \<or> lifecycle (node_state_of t) (node_state_of t')) \<and>
      (ns_recovery_started_ns t' = 0 \<longleftrightarrow> node_state_of t' \<in> {Starting, Running})"
proof -
  have ok: "tracker_ok (fst (lifecycle_run H cs (state_new now, w)))"
    by (rule tracker_ok_run) (simp add: tracker_ok_new)
  from lifecycle_call [OF ok, of H c w'] tracker_ok_call [OF ok, of H c w'] show ?thesis
    by (simp add: Let_def tracker_ok_def)
qed

text \<open>
  The recovery time reported when a node is back covers the whole outage: however many recovery
  attempts failed in between, it is counted from the first error.
\<close>

theorem outage_duration_from_first_error:
  assumes "tracker_ok t" "node_state_of t \<in> {Starting, Running}"
    and "set cs \<subseteq> {CallError, CallRecovering}"
    and "lifecycle_run H (CallError # cs) (t, w) = (t', w')" "node_state_of t' = Recovering"
  shows "fst (transition_recovering_to_running_timed H t' w') =
     Some (sat_sub (duration_ns_saturating (fst (h_now H w') - ns_epoch t))
                   (max (duration_ns_saturating (fst (h_now H w) - ns_epoch t)) 1))"
proof -
  let ?d = "max (duration_ns_saturating (fst (h_now H w) - ns_epoch t)) 1"
  obtain t1 w1 where s: "snd (lifecycle_call_step H CallError (t, w)) = (t1, w1)" by fastforce
  from assms(1,2) have "ns_state t \<noteq> state_to_u8 Error" "ns_recovery_started_ns t = 0"
    by (auto simp: tracker_ok_def node_state_of_def)
  with s have t1: "ns_state t1 = state_to_u8 Error" "ns_recovery_started_ns t1 = ?d"
    "ns_epoch t1 = ns_epoch t" by (auto simp: lifecycle_defs)
  moreover have run: "lifecycle_run H cs (t1, w1) = (t', w')" using assms(4) s by simp
  ultimately have t': "ns_recovery_started_ns t' = ?d" "ns_epoch t' = ns_epoch t"
    using outage_keeps_stamp [OF assms(3), of t1 H w1] stamp_nonzero by auto
  moreover have "ns_state t' = state_to_u8 Recovering"
    using tracker_ok_run [of "(t, w)" H "CallError # cs"] assms(1,4,5)
    by (auto simp: tracker_ok_def node_state_of_def)
  ultimately show ?thesis by (auto simp: lifecycle_defs stamp_nonzero)
qed

theorem outage_duration_from_first_error_witness:
  "fst (transition_recovering_to_running_timed tick_host
      (fst (lifecycle_run tick_host [CallError, CallRecovering, CallError, CallRecovering]
        (state_running 0, 100))) 102) = Some 2"
  using outage_duration_from_first_error [of "state_running 0"
      "[CallRecovering, CallError, CallRecovering]" tick_host 100
      "fst (lifecycle_run tick_host [CallError, CallRecovering, CallError, CallRecovering]
        (state_running 0, 100))" 102]
  by (simp add: tracker_ok_def state_running_def with_state_def node_state_of_def lifecycle_defs
      tick_host_def duration_ns_saturating_def u64_saturating_def sat_sub_def)

end
