(* ===== verification/Runner.thy ===== *)
theory Runner
  imports HotSwap NodeLifecycle
begin

text \<open>
  The shared part of the runner loops, \<open>wafer-core/src/runner/mod.rs\<close>: downstream senders with
  their overflow policies, the tracked receiver, swap payloads, and the wait for the next input.
  The channels (\<open>tokio::sync::mpsc\<close>, \<open>watch\<close>), cancellation and the scheduler are operations of the
  host. A \<open>select!\<close> with \<open>biased\<close> polls its branches in the order they are written; when none is
  ready the task is parked and the branches are polled again after a wake-up. A wait takes fuel for
  the wake-ups it may need; no fuel left is \<open>None\<close>.
\<close>

section \<open>The runtime\<close>

datatype recv_poll = RecvPending | RecvMessage runtime_envelope | RecvClosed

datatype watch_poll = WatchPending | WatchChanged | WatchClosed

datatype swap_payload =
    SwapTransform nat nat
  | SwapFilter nat nat instance_pre nat
  | SwapRouter nat nat instance_pre nat
  | SwapReconfigure string nat

record ('x, 's) runner_host = "(('x, 's) world, 's) engine_host" +
  h_reserve :: "nat \<Rightarrow> ('x, 's) world \<Rightarrow> bool \<times> ('x, 's) world"
  h_permit_send :: "nat \<Rightarrow> runtime_envelope \<Rightarrow> ('x, 's) world \<Rightarrow> ('x, 's) world"
  h_try_send :: "nat \<Rightarrow> runtime_envelope \<Rightarrow> ('x, 's) world \<Rightarrow> try_send \<times> ('x, 's) world"
  h_recv_poll :: "nat \<Rightarrow> ('x, 's) world \<Rightarrow> recv_poll \<times> ('x, 's) world"
  h_try_recv :: "nat \<Rightarrow> ('x, 's) world \<Rightarrow> runtime_envelope option \<times> ('x, 's) world"
  h_cancelled :: "('x, 's) world \<Rightarrow> bool \<times> ('x, 's) world"
  h_park :: "('x, 's) world \<Rightarrow> ('x, 's) world"
  h_has_changed :: "nat \<Rightarrow> ('x, 's) world \<Rightarrow> bool option"
  h_borrow_has_changed :: "nat \<Rightarrow> ('x, 's) world \<Rightarrow> bool"
  h_borrow_and_update :: "nat \<Rightarrow> ('x, 's) world \<Rightarrow> swap_payload option \<times> ('x, 's) world"
  h_changed_poll :: "nat \<Rightarrow> ('x, 's) world \<Rightarrow> watch_poll \<times> ('x, 's) world"
  h_mark_changed :: "nat \<Rightarrow> ('x, 's) world \<Rightarrow> ('x, 's) world"

section \<open>Downstream senders\<close>

record downstream_sender =
  ds_sender :: nat
  ds_port :: string
  ds_edge :: string
  ds_source_node :: string
  ds_overflow :: overflow_policy
  ds_dlq_sender :: "nat option"
  ds_queue_metrics :: "nat option"

definition update_queue ::
    "nat option \<Rightarrow> (queue_metrics \<Rightarrow> queue_metrics) \<Rightarrow> ('x, 's) world \<Rightarrow> ('x, 's) world" where
  "update_queue q f w =
     (case q of None \<Rightarrow> w | Some q \<Rightarrow> w\<lparr>w_queues := (w_queues w)(q := f (w_queues w q))\<rparr>)"

definition send_one ::
    "('x, 's, 'h) runner_host_scheme \<Rightarrow> downstream_sender \<Rightarrow> runtime_envelope \<Rightarrow> ('x, 's) world
       \<Rightarrow> ('x, 's) world" where
  "send_one H s env w =
     (let q = ds_queue_metrics s in
      case ds_overflow s of
        Slow \<Rightarrow>
          let (permit, w) = h_reserve H (ds_sender s) w in
          if \<not> permit then update_queue q record_downstream_closed w
          else h_permit_send H (ds_sender s) env (update_queue q record_enqueued w)
      | Drop \<Rightarrow>
          let (r, w) = h_try_send H (ds_sender s) env w in
          (case r of
             SendOk \<Rightarrow> update_queue q record_enqueued w
           | SendFull \<Rightarrow> update_queue q record_dropped w
           | SendClosed \<Rightarrow> update_queue q record_downstream_closed w)
      | DeadLetter \<Rightarrow>
          let (r, w) = h_try_send H (ds_sender s) env w in
          (case r of
             SendOk \<Rightarrow> update_queue q record_enqueued w
           | SendClosed \<Rightarrow> update_queue q record_downstream_closed w
           | SendFull \<Rightarrow>
               (case ds_dlq_sender s of
                  None \<Rightarrow> update_queue q record_dlq_closed w
                | Some dlq \<Rightarrow>
                    let (now, w) = h_system_now H w;
                        d = \<lparr>de_timestamp = unix_epoch_millis now, de_source_node = ds_source_node s,
                             de_error_category = None, de_error_message = ''destination queue full'',
                             de_retry_count = re_retry_count env, de_reason = RQueueFull (ds_edge s),
                             de_original = env, de_trace_id = trace_id env,
                             de_parent_id = parent_id env\<rparr>;
                        (r, w) = h_dlq_try_send H dlq d w
                    in
                    (case r of
                       SendOk \<Rightarrow> update_queue q record_dead_lettered w
                     | SendFull \<Rightarrow> update_queue q record_dlq_full w
                     | SendClosed \<Rightarrow> update_queue q record_dlq_closed w))))"

text \<open>
  One of the two passes of \<open>send_matching\<close>: \<open>slow\<close> selects the senders of this pass. The envelope
  is moved into the last matching sender; \<open>env\<close> is \<open>None\<close> once that has happened.
\<close>

fun send_pass ::
    "('x, 's, 'h) runner_host_scheme \<Rightarrow> (downstream_sender \<Rightarrow> bool) \<Rightarrow> bool \<Rightarrow> downstream_sender list
       \<Rightarrow> usize \<times> runtime_envelope option \<times> ('x, 's) world
       \<Rightarrow> usize \<times> runtime_envelope option \<times> ('x, 's) world" where
  "send_pass H matches slow [] st = st"
| "send_pass H matches slow (s # ss) (remaining, env, w) =
     (if matches s \<and> (ds_overflow s = Slow) = slow then
        let message = env;
            env = (if remaining = 1 then None else env);
            remaining = remaining - 1;
            w = (case message of None \<Rightarrow> w | Some m \<Rightarrow> send_one H s m w)
        in send_pass H matches slow ss (remaining, env, w)
      else send_pass H matches slow ss (remaining, env, w))"

definition send_matching ::
    "('x, 's, 'h) runner_host_scheme \<Rightarrow> downstream_sender list \<Rightarrow> runtime_envelope
       \<Rightarrow> (downstream_sender \<Rightarrow> bool) \<Rightarrow> ('x, 's) world \<Rightarrow> ('x, 's) world" where
  "send_matching H senders env matches w =
     (let remaining = length (filter matches senders) in
      if remaining = 0 then w
      else snd (snd (send_pass H matches True senders
                      (send_pass H matches False senders (remaining, Some env, w)))))"

definition send_downstream ::
    "('x, 's, 'h) runner_host_scheme \<Rightarrow> downstream_sender list \<Rightarrow> runtime_envelope \<Rightarrow> ('x, 's) world
       \<Rightarrow> ('x, 's) world" where
  "send_downstream H senders env w = send_matching H senders env (\<lambda>_. True) w"

definition fan_out ::
    "('x, 's, 'h) runner_host_scheme \<Rightarrow> string list \<Rightarrow> runtime_envelope \<Rightarrow> downstream_sender list
       \<Rightarrow> ('x, 's) world \<Rightarrow> ('x, 's) world" where
  "fan_out H ports env senders w =
     (let child = set_parent_id (eh_id (re_header env)) env
      in send_matching H senders child (\<lambda>s. ds_port s \<in> set ports) w)"

section \<open>The tracked receiver\<close>

record tracked_receiver =
  tr_receiver :: nat
  tr_queue_metrics :: "nat option"
  tr_eof :: bool

definition tracked_receiver_new :: "nat \<Rightarrow> nat \<Rightarrow> tracked_receiver" where
  "tracked_receiver_new c q = \<lparr>tr_receiver = c, tr_queue_metrics = Some q, tr_eof = False\<rparr>"

definition tracked_receiver_from :: "nat \<Rightarrow> tracked_receiver" where
  "tracked_receiver_from c = \<lparr>tr_receiver = c, tr_queue_metrics = None, tr_eof = False\<rparr>"

text \<open>One poll of \<open>recv\<close>; the bookkeeping happens when the inner future is ready.\<close>

definition tracked_recv_poll ::
    "('x, 's, 'h) runner_host_scheme \<Rightarrow> tracked_receiver \<Rightarrow> ('x, 's) world
       \<Rightarrow> recv_poll \<times> tracked_receiver \<times> ('x, 's) world" where
  "tracked_recv_poll H r w =
     (let (p, w) = h_recv_poll H (tr_receiver r) w in
      case p of
        RecvPending \<Rightarrow> (RecvPending, r, w)
      | RecvMessage e \<Rightarrow> (RecvMessage e, r, update_queue (tr_queue_metrics r) record_dequeued w)
      | RecvClosed \<Rightarrow> (RecvClosed, r\<lparr>tr_eof := True\<rparr>, w))"

definition tracked_try_recv ::
    "('x, 's, 'h) runner_host_scheme \<Rightarrow> tracked_receiver \<Rightarrow> ('x, 's) world
       \<Rightarrow> runtime_envelope option \<times> ('x, 's) world" where
  "tracked_try_recv H r w =
     (let (m, w) = h_try_recv H (tr_receiver r) w in
      case m of
        None \<Rightarrow> (None, w)
      | Some e \<Rightarrow> (Some e, update_queue (tr_queue_metrics r) record_dequeued w))"

section \<open>Exits and policy actions\<close>

definition policy_teardown :: wafer_error where
  "policy_teardown = Runtime ''torn down by error policy''"

definition recovery_failed :: "wafer_error \<Rightarrow> wafer_error" where
  "recovery_failed e = Runtime (''recovery failed: '' @ wafer_error_display e)"

definition continue_after_policy_action ::
    "error_policy_action \<Rightarrow> node_metrics \<Rightarrow> bool \<times> node_metrics" where
  "continue_after_policy_action a m =
     (case a of
        Retried \<Rightarrow> (True, record_retry m)
      | DlqSent \<Rightarrow> (True, record_dlq_sent m)
      | Skipped \<Rightarrow> (True, record_skipped m)
      | ExhaustedSkip \<Rightarrow> (True, record_exhausted_skip m)
      | DlqFull \<Rightarrow> (True, record_dlq_lost m)
      | DlqClosed \<Rightarrow> (True, record_dlq_lost m)
      | TeardownNode \<Rightarrow> (False, record_dropped_on_teardown m))"

section \<open>Swap payloads\<close>

definition payload_progress :: "swap_payload \<Rightarrow> nat" where
  "payload_progress p =
     (case p of
        SwapTransform _ g \<Rightarrow> g
      | SwapFilter _ _ _ g \<Rightarrow> g
      | SwapRouter _ _ _ g \<Rightarrow> g
      | SwapReconfigure _ g \<Rightarrow> g)"

definition wrong_payload :: "string \<Rightarrow> wafer_error" where
  "wrong_payload kind = Runtime (kind @ '' node received a non-'' @ kind @ '' swap payload'')"

definition already_applied :: wafer_error where
  "already_applied = Runtime ''swap payload already applied''"

definition try_apply_transform ::
    "('x, 's, 'h) runner_host_scheme \<Rightarrow> swap_payload \<Rightarrow> 's transform_node \<Rightarrow> ('x, 's) world
       \<Rightarrow> (wafer_error, unit) result \<times> 's transform_node \<times> ('x, 's) world" where
  "try_apply_transform H p t w =
     (case p of
        SwapTransform slot _ \<Rightarrow>
          (case t of
             TNative _ \<Rightarrow> (Inl (Runtime ''native baseline transforms do not support hot-swap''), t, w)
           | TWasm n \<Rightarrow>
               (case w_transform_slots w slot of
                  None \<Rightarrow> (Inl already_applied, t, w)
                | Some replacement \<Rightarrow>
                    let w = w\<lparr>w_transform_slots := (w_transform_slots w)(slot := None)\<rparr>;
                        (r, n, w) = transform_hot_swap H replacement n w
                    in (r, TWasm n, w)))
      | _ \<Rightarrow> (Inl (wrong_payload ''transform''), t, w))"

text \<open>Taking the store and the bindings out of their slots, in this order.\<close>

definition take_store_and_bindings ::
    "nat \<Rightarrow> nat \<Rightarrow> ('x, 's) world \<Rightarrow> ('s store \<times> bindings) option \<times> ('x, 's) world" where
  "take_store_and_bindings ss bs w =
     (case w_store_slots w ss of
        None \<Rightarrow> (None, w)
      | Some st \<Rightarrow>
          let w = w\<lparr>w_store_slots := (w_store_slots w)(ss := None)\<rparr> in
          (case w_bindings_slots w bs of
             None \<Rightarrow> (None, w)
           | Some b \<Rightarrow> (Some (st, b), w\<lparr>w_bindings_slots := (w_bindings_slots w)(bs := None)\<rparr>)))"

definition try_apply_filter ::
    "('x, 's, 'h) runner_host_scheme \<Rightarrow> swap_payload \<Rightarrow> 's filter_node \<Rightarrow> ('x, 's) world
       \<Rightarrow> (wafer_error, unit) result \<times> 's filter_node \<times> ('x, 's) world" where
  "try_apply_filter H p t w =
     (case p of
        SwapFilter ss bs pre _ \<Rightarrow>
          (case t of
             FNative _ \<Rightarrow> (Inl (Runtime ''native baseline filters do not support hot-swap''), t, w)
           | FWasm n \<Rightarrow>
               (case take_store_and_bindings ss bs w of
                  (None, w) \<Rightarrow> (Inl already_applied, t, w)
                | (Some (st, b), w) \<Rightarrow>
                    let (r, n, w) = filter_hot_swap H st b pre n w in (r, FWasm n, w)))
      | _ \<Rightarrow> (Inl (wrong_payload ''filter''), t, w))"

definition try_apply_router ::
    "('x, 's, 'h) runner_host_scheme \<Rightarrow> swap_payload \<Rightarrow> 's wasm_node \<Rightarrow> ('x, 's) world
       \<Rightarrow> (wafer_error, unit) result \<times> 's wasm_node \<times> ('x, 's) world" where
  "try_apply_router H p n w =
     (case p of
        SwapRouter ss bs pre _ \<Rightarrow>
          (case take_store_and_bindings ss bs w of
             (None, w) \<Rightarrow> (Inl already_applied, n, w)
           | (Some (st, b), w) \<Rightarrow> router_hot_swap H st b pre n w)
      | _ \<Rightarrow> (Inl (wrong_payload ''router''), n, w))"

section \<open>Waiting for input\<close>

datatype next_input = InputEnvelope runtime_envelope | InputSwap | InputClosed

definition swap_pending :: "('x, 's, 'h) runner_host_scheme \<Rightarrow> nat \<Rightarrow> ('x, 's) world \<Rightarrow> bool" where
  "swap_pending H sw w =
     (case h_has_changed H sw w of Some b \<Rightarrow> b | None \<Rightarrow> h_borrow_has_changed H sw w)"

definition take_pending_swap ::
    "('x, 's, 'h) runner_host_scheme \<Rightarrow> nat \<Rightarrow> ('x, 's) world \<Rightarrow> swap_payload option \<times> ('x, 's) world"
    where
  "take_pending_swap H sw w =
     (if \<not> swap_pending H sw w then (None, w)
      else
        let (p, w) = h_borrow_and_update H sw w in
        case p of
          None \<Rightarrow> (None, w)
        | Some payload \<Rightarrow>
            let g = payload_progress payload; (ok, pg) = try_claim (w_progress w g);
                w = w\<lparr>w_progress := (w_progress w)(g := pg)\<rparr>
            in (if ok then Some payload else None, w))"

text \<open>
  What a \<open>select!\<close> of the wait produced. \<open>rx\<close> is the receiver branch (absent after EOF), \<open>deadline\<close>
  the timer branch; a closed swap channel only disables its branch.
\<close>

datatype woken =
  WokeCancelled | WokeMessage "runtime_envelope option" | WokeSwap | WokeTimer

text \<open>Polling the swap branch and then the timer branch.\<close>

definition poll_swap ::
    "('x, 's, 'h) runner_host_scheme \<Rightarrow> bool \<Rightarrow> nat \<Rightarrow> ('x, 's) world \<Rightarrow> watch_poll \<times> ('x, 's) world"
    where
  "poll_swap H swap_on sw w = (if swap_on then h_changed_poll H sw w else (WatchPending, w))"

definition poll_timer ::
    "('x, 's, 'h) runner_host_scheme \<Rightarrow> instant option \<Rightarrow> ('x, 's) world \<Rightarrow> bool \<times> ('x, 's) world" where
  "poll_timer H deadline w =
     (case deadline of
        None \<Rightarrow> (False, w)
      | Some d \<Rightarrow> (let (now, w) = h_now H w in (d \<le> now, w)))"

definition poll_input ::
    "('x, 's, 'h) runner_host_scheme \<Rightarrow> bool \<Rightarrow> tracked_receiver \<Rightarrow> ('x, 's) world
       \<Rightarrow> recv_poll \<times> tracked_receiver \<times> ('x, 's) world" where
  "poll_input H rx r w = (if rx then tracked_recv_poll H r w else (RecvPending, r, w))"

fun select_input ::
    "('x, 's, 'h) runner_host_scheme \<Rightarrow> nat \<Rightarrow> bool \<Rightarrow> bool \<Rightarrow> nat \<Rightarrow> instant option \<Rightarrow> tracked_receiver
       \<Rightarrow> ('x, 's) world \<Rightarrow> (woken \<times> tracked_receiver \<times> ('x, 's) world) option" where
  "select_input H 0 rx swap_on sw deadline r w = None"
| "select_input H (Suc k) rx swap_on sw deadline r w =
     (let (c, w) = h_cancelled H w in
      if c then Some (WokeCancelled, r, w)
      else
        let (p, r, w) = poll_input H rx r w in
        case p of
          RecvMessage e \<Rightarrow> Some (WokeMessage (Some e), r, w)
        | RecvClosed \<Rightarrow> Some (WokeMessage None, r, w)
        | RecvPending \<Rightarrow>
            let (s, w) = poll_swap H swap_on sw w in
            if s = WatchChanged then Some (WokeSwap, r, w)
            else
              let (t, w) = poll_timer H deadline w in
              if t then Some (WokeTimer, r, w)
              else select_input H k rx (swap_on \<and> s \<noteq> WatchClosed) sw deadline r (h_park H w))"

text \<open>
  The loop of \<open>recv_next_or_retry\<close>. The fuel bounds both the iterations and each wait.
\<close>

fun recv_next_or_retry ::
    "('x, 's, 'h) runner_host_scheme \<Rightarrow> nat \<Rightarrow> nat \<Rightarrow> tracked_receiver \<Rightarrow> error_policy_executor
       \<Rightarrow> ('x, 's) world
       \<Rightarrow> (next_input \<times> tracked_receiver \<times> error_policy_executor \<times> ('x, 's) world) option" where
  "recv_next_or_retry H 0 sw r x w = None"
| "recv_next_or_retry H (Suc k) sw r x w =
     (if swap_pending H sw w then Some (InputSwap, r, x, w)
      else
        let (retry, x, w) = next_ready_retry H x w in
        case retry of
          Some e \<Rightarrow> Some (InputEnvelope e, r, x, w)
        | None \<Rightarrow>
            let deadline = next_retry_deadline x in
            if tr_eof r \<and> deadline = None then Some (InputClosed, r, x, w)
            else
              (case select_input H (Suc k) (\<not> tr_eof r) True sw deadline r w of
                 None \<Rightarrow> None
               | Some (woke, r, w) \<Rightarrow>
                   (case woke of
                      WokeCancelled \<Rightarrow> Some (InputClosed, r, x, w)
                    | WokeSwap \<Rightarrow> Some (InputSwap, r, x, h_mark_changed H sw w)
                    | WokeMessage (Some e) \<Rightarrow> Some (InputEnvelope e, r, x, w)
                    | WokeMessage None \<Rightarrow> recv_next_or_retry H k sw r x w
                    | WokeTimer \<Rightarrow> recv_next_or_retry H k sw r x w)))"

definition next_input ::
    "('x, 's, 'h) runner_host_scheme \<Rightarrow> nat \<Rightarrow> nat \<Rightarrow> runtime_envelope option \<Rightarrow> tracked_receiver
       \<Rightarrow> error_policy_executor \<Rightarrow> ('x, 's) world
       \<Rightarrow> (next_input \<times> runtime_envelope option \<times> tracked_receiver \<times> error_policy_executor
           \<times> ('x, 's) world) option" where
  "next_input H k sw held r x w =
     (case held of
        Some e \<Rightarrow> Some (InputEnvelope e, None, r, x, w)
      | None \<Rightarrow>
          (case recv_next_or_retry H k sw r x w of
             None \<Rightarrow> None
           | Some (nxt, r, x, w) \<Rightarrow>
               (case nxt of
                  InputEnvelope e \<Rightarrow>
                    if swap_pending H sw w then Some (InputSwap, Some e, r, x, w)
                    else Some (InputEnvelope e, None, r, x, w)
                | _ \<Rightarrow> Some (nxt, None, r, x, w))))"

section \<open>What a host leaves alone\<close>

text \<open>
  \<open>quiet H g\<close> says that no operation of the host changes the part \<open>g\<close> of the queue metrics: the
  other tasks that run while this one waits do not write it. For instance only the receiver of a
  queue records dequeues, so while its runner is in the library or the engine nobody changes that
  counter.
\<close>

definition quiet :: "('x, 's, 'h) runner_host_scheme \<Rightarrow> ((nat \<Rightarrow> queue_metrics) \<Rightarrow> 'v) \<Rightarrow> bool" where
  "quiet H g \<longleftrightarrow>
     (\<forall>w. g (w_queues (snd (h_now H w))) = g (w_queues w)) \<and>
     (\<forall>w. g (w_queues (snd (h_system_now H w))) = g (w_queues w)) \<and>
     (\<forall>c d w. g (w_queues (snd (h_dlq_try_send H c d w))) = g (w_queues w)) \<and>
     (\<forall>pre st w. g (w_queues (snd (snd (h_instantiate H pre st w)))) = g (w_queues w)) \<and>
     (\<forall>b nc st w. g (w_queues (snd (snd (h_call_validate H b nc st w)))) = g (w_queues w)) \<and>
     (\<forall>b nc st w. g (w_queues (snd (snd (h_call_init H b nc st w)))) = g (w_queues w)) \<and>
     (\<forall>b m st w. g (w_queues (snd (snd (h_call_process H b m st w)))) = g (w_queues w)) \<and>
     (\<forall>b m st w. g (w_queues (snd (snd (h_call_evaluate H b m st w)))) = g (w_queues w)) \<and>
     (\<forall>b m st w. g (w_queues (snd (snd (h_call_route H b m st w)))) = g (w_queues w)) \<and>
     (\<forall>c w. g (w_queues (snd (h_reserve H c w))) = g (w_queues w)) \<and>
     (\<forall>c e w. g (w_queues (h_permit_send H c e w)) = g (w_queues w)) \<and>
     (\<forall>c e w. g (w_queues (snd (h_try_send H c e w))) = g (w_queues w)) \<and>
     (\<forall>c w. g (w_queues (snd (h_recv_poll H c w))) = g (w_queues w)) \<and>
     (\<forall>c w. g (w_queues (snd (h_try_recv H c w))) = g (w_queues w)) \<and>
     (\<forall>w. g (w_queues (snd (h_cancelled H w))) = g (w_queues w)) \<and>
     (\<forall>w. g (w_queues (h_park H w)) = g (w_queues w)) \<and>
     (\<forall>c w. g (w_queues (snd (h_borrow_and_update H c w))) = g (w_queues w)) \<and>
     (\<forall>c w. g (w_queues (snd (h_changed_poll H c w))) = g (w_queues w)) \<and>
     (\<forall>c w. g (w_queues (h_mark_changed H c w)) = g (w_queues w))"

lemma quietD:
  assumes "quiet H g"
  shows "g (w_queues (snd (h_now H w))) = g (w_queues w)"
    "g (w_queues (snd (h_system_now H w))) = g (w_queues w)"
    "g (w_queues (snd (h_dlq_try_send H c d w))) = g (w_queues w)"
    "g (w_queues (snd (snd (h_instantiate H pre st w)))) = g (w_queues w)"
    "g (w_queues (snd (snd (h_call_validate H b nc st w)))) = g (w_queues w)"
    "g (w_queues (snd (snd (h_call_init H b nc st w)))) = g (w_queues w)"
    "g (w_queues (snd (snd (h_call_process H b m st w)))) = g (w_queues w)"
    "g (w_queues (snd (snd (h_call_evaluate H b m st w)))) = g (w_queues w)"
    "g (w_queues (snd (snd (h_call_route H b m st w)))) = g (w_queues w)"
    "g (w_queues (snd (h_reserve H c w))) = g (w_queues w)"
    "g (w_queues (h_permit_send H c e w)) = g (w_queues w)"
    "g (w_queues (snd (h_try_send H c e w))) = g (w_queues w)"
    "g (w_queues (snd (h_recv_poll H c w))) = g (w_queues w)"
    "g (w_queues (snd (h_try_recv H c w))) = g (w_queues w)"
    "g (w_queues (snd (h_cancelled H w))) = g (w_queues w)"
    "g (w_queues (h_park H w)) = g (w_queues w)"
    "g (w_queues (snd (h_borrow_and_update H c w))) = g (w_queues w)"
    "g (w_queues (snd (h_changed_poll H c w))) = g (w_queues w)"
    "g (w_queues (h_mark_changed H c w)) = g (w_queues w)"
  using assms unfolding quiet_def by simp_all

lemma quiet_fst:
  assumes "quiet H g"
  shows "h_now H w = (a, w') \<Longrightarrow> g (w_queues w') = g (w_queues w)"
    "h_system_now H w = (s, w') \<Longrightarrow> g (w_queues w') = g (w_queues w)"
  using quietD(1,2) [OF assms, of w] by auto

named_theorems quiet_intros "the model's operations leave the quiet part alone"

lemma quiet_elapsed [quiet_intros]: "quiet H g \<Longrightarrow> g (w_queues (snd (elapsed H t w))) = g (w_queues w)"
  by (simp add: elapsed_eq quietD)

lemma quiet_send_to_dlq [quiet_intros]:
  "quiet H g \<Longrightarrow> g (w_queues (snd (send_to_dlq H x env cat msg n reason w))) = g (w_queues w)"
  by (simp add: send_to_dlq_def Let_def case_prod_beta quietD split: option.splits)

lemma quiet_try_retry [quiet_intros]:
  "quiet H g \<Longrightarrow> g (w_queues (snd (snd (try_retry H env cat msg x w)))) = g (w_queues w)"
  by (simp add: try_retry_def Let_def case_prod_beta quietD quiet_intros split: resolved_simple_action.splits)

lemma quiet_timed_out [quiet_intros]:
  "quiet H g \<Longrightarrow> g (w_queues (snd (timed_out_action H env msg x w))) = g (w_queues w)"
  by (simp add: timed_out_action_def quiet_intros split: resolved_simple_action.splits)

lemma quiet_handle [quiet_intros]:
  "quiet H g \<Longrightarrow> g (w_queues (snd (snd (handle H err env x w)))) = g (w_queues w)"
  by (simp add: handle_def Let_def case_prod_beta quiet_intros
      split: wasm_process_error.splits resolved_simple_action.splits)

lemma quiet_next_ready [quiet_intros]:
  "quiet H g \<Longrightarrow> g (w_queues (snd (snd (next_ready_retry H x w)))) = g (w_queues w)"
  by (simp add: next_ready_retry_def next_ready_def Let_def case_prod_beta quietD)

lemma quiet_flush_entries: 
  "quiet H g \<Longrightarrow> g (w_queues (snd (flush_entries H x reason es m w))) = g (w_queues w)"
  by (induction es arbitrary: m w) (simp_all add: Let_def case_prod_beta quiet_intros)

lemma quiet_flush [quiet_intros]:
  "quiet H g \<Longrightarrow> g (w_queues (snd (snd (flush_to_dlq H reason x m w)))) = g (w_queues w)"
  by (simp add: flush_to_dlq_def Let_def case_prod_beta quiet_flush_entries)

lemma quiet_condemned [quiet_intros]:
  "quiet H g \<Longrightarrow> g (w_queues (snd (record_condemned H x env err m w))) = g (w_queues w)"
  by (simp add: record_condemned_def Let_def case_prod_beta quiet_intros)

lemma quiet_record_processed [quiet_intros]:
  "quiet H g \<Longrightarrow> g (w_queues (snd (record_processed H m w))) = g (w_queues w)"
  by (simp add: record_processed_def Let_def case_prod_beta quietD)

lemma quiet_to_error [quiet_intros]:
  "quiet H g \<Longrightarrow> g (w_queues (snd (snd (transition_to_error H t w)))) = g (w_queues w)"
  by (simp add: transition_to_error_def Let_def case_prod_beta quiet_intros)

lemma quiet_timed [quiet_intros]:
  "quiet H g \<Longrightarrow> g (w_queues (snd (snd (transition_recovering_to_running_timed H t w)))) = g (w_queues w)"
  by (simp add: transition_recovering_to_running_timed_def Let_def case_prod_beta quiet_intros)

lemma quiet_update_progress [simp]: "w_queues (update_progress p f w) = w_queues w"
  by (simp add: update_progress_def)

lemma quiet_restore_hash [simp]: "w_queues (restore_replaced_plugin_hash p w) = w_queues w"
  by (simp add: restore_replaced_plugin_hash_def case_prod_beta)

lemma quiet_mark_adopted [quiet_intros]:
  "quiet H g \<Longrightarrow> g (w_queues (mark_replacement_adopted H p w)) = g (w_queues w)"
  by (simp add: mark_replacement_adopted_def Let_def case_prod_beta quietD)

lemma quiet_mark_outcome [quiet_intros]:
  "quiet H g \<Longrightarrow> g (w_queues (mark_first_local_outcome H oc p w)) = g (w_queues w)"
  by (simp add: mark_first_local_outcome_def case_prod_beta quietD)

lemma quiet_canary_new [quiet_intros]:
  "quiet H g \<Longrightarrow> g (w_queues (snd (canary_state_new H pre cfg p w))) = g (w_queues w)"
  by (simp add: canary_state_new_def canary_counters_new_def case_prod_beta quietD)

lemma quiet_window [quiet_intros]:
  "quiet H g \<Longrightarrow> g (w_queues (snd (window_expired H c w))) = g (w_queues w)"
  by (simp add: window_expired_def case_prod_beta quiet_intros)

section \<open>The engine calls of a node\<close>

lemma quiet_validate [quiet_intros]:
  assumes "quiet H g"
  shows "g (w_queues (snd (snd (validate_and_init H role cfg n w)))) = g (w_queues w)"
proof -
  have sum: "g (w_queues (snd (snd (case s of Inl e \<Rightarrow> (Inl (f e), a, w1) | Inr y \<Rightarrow> k y)))) =
      (case s of Inl e \<Rightarrow> g (w_queues w1) | Inr y \<Rightarrow> g (w_queues (snd (snd (k y)))))"
    for s :: "'p + 'q" and f and a :: 'r and w1 k by (cases s) simp_all
  show ?thesis
    unfolding validate_and_init_def Let_def case_prod_beta
    by (simp add: sum quietD [OF assms] split: sum.splits option.splits)
qed

lemma quiet_recover [quiet_intros]:
  "quiet H g \<Longrightarrow> g (w_queues (snd (snd (recover_from_cached_pre H role n w)))) = g (w_queues w)"
  by (simp add: recover_from_cached_pre_def Let_def case_prod_beta quietD quiet_intros split: sum.splits)

lemma quiet_reconfigure [quiet_intros]:
  "quiet H g \<Longrightarrow> g (w_queues (snd (snd (try_reconfigure H role cfg n w)))) = g (w_queues w)"
  by (simp add: try_reconfigure_def Let_def case_prod_beta quietD quiet_intros split: sum.splits)

lemma quiet_hot_swap [quiet_intros]:
  "quiet H g \<Longrightarrow> g (w_queues (snd (snd (hot_swap_tail H role st b pre n w)))) = g (w_queues w)"
  by (simp add: hot_swap_tail_def Let_def case_prod_beta quiet_intros split: sum.splits)

lemma quiet_call_guest:
  assumes "\<And>b m st w. g (w_queues (snd (snd (call b m st w)))) = g (w_queues w)"
  shows "g (w_queues (snd (snd (call_guest H call env n w)))) = g (w_queues w)"
  by (simp add: call_guest_def Let_def case_prod_beta assms split: sum.splits)

lemma quiet_process [quiet_intros]:
  "quiet H g \<Longrightarrow> g (w_queues (snd (snd (tn_process H env t w)))) = g (w_queues w)"
  using quiet_call_guest [of g "h_call_process H" H env _ w]
  by (cases t) (auto simp: tn_process_def transform_process_def case_prod_beta quietD split: sum.splits)

lemma quiet_evaluate [quiet_intros]:
  "quiet H g \<Longrightarrow> g (w_queues (snd (snd (fn_evaluate H env t w)))) = g (w_queues w)"
  using quiet_call_guest [of g "h_call_evaluate H" H env _ w]
  by (cases t) (auto simp: fn_evaluate_def filter_evaluate_def case_prod_beta quietD split: sum.splits)

lemma quiet_route [quiet_intros]:
  "quiet H g \<Longrightarrow> g (w_queues (snd (snd (router_route H env n w)))) = g (w_queues w)"
  using quiet_call_guest [of g "h_call_route H" H env n w]
  by (auto simp: router_route_def case_prod_beta quietD split: sum.splits)

lemma quiet_tn [quiet_intros]:
  assumes "quiet H g"
  shows "g (w_queues (snd (snd (tn_recover H t w)))) = g (w_queues w)"
    "g (w_queues (snd (snd (tn_reconfigure H cfg t w)))) = g (w_queues w)"
    "g (w_queues (snd (snd (fn_recover H f w)))) = g (w_queues w)"
    "g (w_queues (snd (snd (fn_reconfigure H cfg f w)))) = g (w_queues w)"
    "g (w_queues (snd (snd (router_recover H n w)))) = g (w_queues w)"
    "g (w_queues (snd (snd (router_reconfigure H cfg n w)))) = g (w_queues w)"
  by (cases t; cases f; simp add: tn_recover_def tn_reconfigure_def fn_recover_def fn_reconfigure_def
      transform_recover_def transform_reconfigure_def filter_recover_def filter_reconfigure_def
      router_recover_def router_reconfigure_def case_prod_beta quiet_intros assms)+

lemma take_store_queues [simp]: "w_queues (snd (take_store_and_bindings ss bs w)) = w_queues w"
  by (simp add: take_store_and_bindings_def Let_def split: option.splits)

lemma quiet_apply [quiet_intros]:
  assumes "quiet H g"
  shows "g (w_queues (snd (snd (try_apply_transform H p t w)))) = g (w_queues w)"
    "g (w_queues (snd (snd (try_apply_filter H p f w)))) = g (w_queues w)"
    "g (w_queues (snd (snd (try_apply_router H p n w)))) = g (w_queues w)"
proof -
  note defs = try_apply_transform_def try_apply_filter_def try_apply_router_def
    transform_hot_swap_def filter_hot_swap_def router_hot_swap_def Let_def case_prod_beta
  show "g (w_queues (snd (snd (try_apply_transform H p t w)))) = g (w_queues w)"
    by (cases p; cases t) (auto simp: defs quiet_intros assms split: option.splits)
  show "g (w_queues (snd (snd (try_apply_filter H p f w)))) = g (w_queues w)"
  proof (cases p)
    case (SwapFilter ss bs pre pid)
    obtain r w1 where t: "take_store_and_bindings ss bs w = (r, w1)" by fastforce
    with take_store_queues [of ss bs w] have "w_queues w1 = w_queues w" by simp
    with SwapFilter t show ?thesis
      by (cases f; cases r)
         (auto simp: try_apply_filter_def filter_hot_swap_def Let_def case_prod_beta quiet_hot_swap [OF assms])
  qed (simp_all add: try_apply_filter_def)
  show "g (w_queues (snd (snd (try_apply_router H p n w)))) = g (w_queues w)"
  proof (cases p)
    case (SwapRouter ss bs pre pid)
    obtain r w1 where t: "take_store_and_bindings ss bs w = (r, w1)" by fastforce
    with take_store_queues [of ss bs w] have "w_queues w1 = w_queues w" by simp
    with SwapRouter t show ?thesis
      by (cases r) (auto simp: try_apply_router_def router_hot_swap_def quiet_hot_swap [OF assms])
  qed (simp_all add: try_apply_router_def)
qed

lemma quiet_take_pending [quiet_intros]:
  "quiet H g \<Longrightarrow> g (w_queues (snd (take_pending_swap H sw w))) = g (w_queues w)"
  by (auto simp: take_pending_swap_def Let_def case_prod_beta quietD split: option.splits)

section \<open>Delivery\<close>

text \<open>The senders in the order they are served: those that cannot block first.\<close>

definition delivery_order ::
    "(downstream_sender \<Rightarrow> bool) \<Rightarrow> downstream_sender list \<Rightarrow> downstream_sender list" where
  "delivery_order matches ss =
     filter (\<lambda>s. matches s \<and> ds_overflow s \<noteq> Slow) ss @
     filter (\<lambda>s. matches s \<and> ds_overflow s = Slow) ss"

lemma length_delivery_order: "length (delivery_order matches ss) = length (filter matches ss)"
  by (induction ss) (auto simp: delivery_order_def)

lemma send_pass_none: "filter (\<lambda>s. matches s \<and> (ds_overflow s = Slow) = slow) ss = [] \<Longrightarrow>
   send_pass H matches slow ss st = st"
  by (induction ss arbitrary: st; case_tac st) (auto split: if_splits)

lemma send_pass_some:
  assumes "length (filter (\<lambda>s. matches s \<and> (ds_overflow s = Slow) = slow) ss) \<le> n" "0 < n"
  shows "send_pass H matches slow ss (n, Some e, w) =
    (n - length (filter (\<lambda>s. matches s \<and> (ds_overflow s = Slow) = slow) ss),
     if length (filter (\<lambda>s. matches s \<and> (ds_overflow s = Slow) = slow) ss) = n then None else Some e,
     foldl (\<lambda>w s. send_one H s e w) w (filter (\<lambda>s. matches s \<and> (ds_overflow s = Slow) = slow) ss))"
  using assms
proof (induction ss arbitrary: n w)
  case (Cons s ss)
  let ?sel = "filter (\<lambda>s. matches s \<and> (ds_overflow s = Slow) = slow) ss"
  show ?case
  proof (cases "matches s \<and> (ds_overflow s = Slow) = slow")
    case False
    then have "send_pass H matches slow (s # ss) (n, Some e, w) = send_pass H matches slow ss (n, Some e, w)"
      "filter (\<lambda>s. matches s \<and> (ds_overflow s = Slow) = slow) (s # ss) = ?sel"
      by (simp_all only: send_pass.simps if_False filter.simps)
    with Cons show ?thesis by simp
  next
    case True
    then have sel: "filter (\<lambda>s. matches s \<and> (ds_overflow s = Slow) = slow) (s # ss) = s # ?sel" by simp
    show ?thesis
    proof (cases "n = 1")
      case one: True
      with Cons.prems(1) sel have none: "?sel = []" by simp
      from send_pass_none [OF this] one True show ?thesis by (simp add: none)
    next
      case False
      with Cons.prems(2) have "0 < n - 1" by simp
      moreover have "length ?sel \<le> n - 1" using Cons.prems(1) sel by simp
      ultimately have ih: "send_pass H matches slow ss (n - 1, Some e, send_one H s e w) =
          (n - 1 - length ?sel, if length ?sel = n - 1 then None else Some e,
           foldl (\<lambda>w s. send_one H s e w) (send_one H s e w) ?sel)" by (rule Cons.IH [rotated])
      have "send_pass H matches slow (s # ss) (n, Some e, w) =
          send_pass H matches slow ss (n - 1, Some e, send_one H s e w)"
        using True False by simp
      with ih sel Cons.prems(2) show ?thesis by auto
    qed
  qed
qed simp

lemma send_matching_order:
  "send_matching H senders env matches w =
     foldl (\<lambda>w s. send_one H s env w) w (delivery_order matches senders)"
proof (cases "filter matches senders = []")
  case True
  then have "delivery_order matches senders = []" by (auto simp: delivery_order_def filter_empty_conv)
  with True show ?thesis by (simp add: send_matching_def)
next
  case False
  let ?fast = "filter (\<lambda>s. matches s \<and> (ds_overflow s = Slow) = False) senders"
  let ?slow = "filter (\<lambda>s. matches s \<and> (ds_overflow s = Slow) = True) senders"
  let ?n = "length (filter matches senders)"
  have n: "length ?fast + length ?slow = ?n"
    using length_delivery_order [of matches senders] by (simp add: delivery_order_def)
  with False have pos: "0 < ?n" by simp
  have fast: "send_pass H matches False senders (?n, Some env, w) =
      (?n - length ?fast, if length ?fast = ?n then None else Some env,
       foldl (\<lambda>w s. send_one H s env w) w ?fast)"
    by (rule send_pass_some) (use n pos in auto)
  show ?thesis
  proof (cases "?slow = []")
    case True
    with n have "length ?fast = ?n" by simp
    with fast send_pass_none [OF True, of H] pos True show ?thesis
      by (simp add: send_matching_def delivery_order_def)
  next
    case False
    then have "length ?fast \<noteq> ?n" using n by (metis add_cancel_left_right length_0_conv)
    moreover have "send_pass H matches True senders (?n - length ?fast, Some env, w') =
        (?n - length ?fast - length ?slow, if length ?slow = ?n - length ?fast then None else Some env,
         foldl (\<lambda>w s. send_one H s env w) w' ?slow)" for w'
      using n False by (intro send_pass_some) (simp_all flip: length_greater_0_conv)
    ultimately show ?thesis using fast pos by (simp add: send_matching_def delivery_order_def)
  qed
qed

section \<open>Counting dequeues\<close>

definition dequeued :: "nat \<Rightarrow> (nat \<Rightarrow> queue_metrics) \<Rightarrow> u64" where
  "dequeued q qs = qm_dequeued (qs q)"

lemma dequeued_update_queue [simp]:
  "dequeued q (w_queues (update_queue qo record_enqueued w)) = dequeued q (w_queues w)"
  "dequeued q (w_queues (update_queue qo record_dropped w)) = dequeued q (w_queues w)"
  "dequeued q (w_queues (update_queue qo record_dead_lettered w)) = dequeued q (w_queues w)"
  "dequeued q (w_queues (update_queue qo record_downstream_closed w)) = dequeued q (w_queues w)"
  "dequeued q (w_queues (update_queue qo record_dlq_full w)) = dequeued q (w_queues w)"
  "dequeued q (w_queues (update_queue qo record_dlq_closed w)) = dequeued q (w_queues w)"
  "dequeued q (w_queues (update_queue (Some q) record_dequeued w)) = dequeued q (w_queues w) + 1"
  by (simp_all add: dequeued_def update_queue_def record_enqueued_def record_dropped_def record_dead_lettered_def
      record_downstream_closed_def record_dlq_full_def record_dlq_closed_def record_dequeued_def
      split: option.splits)

lemma send_one_dequeued:
  "quiet H (dequeued q) \<Longrightarrow> dequeued q (w_queues (send_one H s env w)) = dequeued q (w_queues w)"
  by (auto simp: send_one_def Let_def case_prod_beta quietD
      split: overflow_policy.splits try_send.splits option.splits)

lemma send_matching_dequeued:
  assumes "quiet H (dequeued q)"
  shows "dequeued q (w_queues (send_matching H senders env matches w)) = dequeued q (w_queues w)"
proof -
  have "dequeued q (w_queues (foldl (\<lambda>w s. send_one H s env w) w ss)) = dequeued q (w_queues w)" for ss
    by (induction ss arbitrary: w) (simp_all add: send_one_dequeued [OF assms])
  then show ?thesis by (simp add: send_matching_order)
qed

lemma send_downstream_dequeued [quiet_intros]:
  "quiet H (dequeued q) \<Longrightarrow> dequeued q (w_queues (send_downstream H senders env w)) = dequeued q (w_queues w)"
  by (simp add: send_downstream_def send_matching_dequeued)

lemma fan_out_dequeued [quiet_intros]:
  "quiet H (dequeued q) \<Longrightarrow> dequeued q (w_queues (fan_out H ports env senders w)) = dequeued q (w_queues w)"
  by (simp add: fan_out_def Let_def send_matching_dequeued)

section \<open>Waiting conserves messages\<close>

definition opt_count :: "'a option \<Rightarrow> u64" where
  "opt_count m = (case m of None \<Rightarrow> 0 | Some _ \<Rightarrow> 1)"

lemma opt_count_simps [simp]: "opt_count None = 0" "opt_count (Some a) = 1"
  by (simp_all add: opt_count_def)

definition input_count :: "next_input \<Rightarrow> u64" where
  "input_count i = (case i of InputEnvelope _ \<Rightarrow> 1 | _ \<Rightarrow> 0)"

lemma input_count_simps [simp]:
  "input_count (InputEnvelope e) = 1" "input_count InputSwap = 0" "input_count InputClosed = 0"
  by (simp_all add: input_count_def)

definition woken_count :: "woken \<Rightarrow> u64" where
  "woken_count k = (case k of WokeMessage m \<Rightarrow> opt_count m | _ \<Rightarrow> 0)"

lemma woken_count_simps [simp]:
  "woken_count WokeCancelled = 0" "woken_count WokeSwap = 0" "woken_count WokeTimer = 0"
  "woken_count (WokeMessage m) = opt_count m"
  by (simp_all add: woken_count_def)

text \<open>The receiver keeps its identity; only the end-of-input flag is ever set.\<close>

definition same_channel :: "tracked_receiver \<Rightarrow> tracked_receiver \<Rightarrow> bool" where
  "same_channel r r' \<longleftrightarrow> tr_receiver r' = tr_receiver r \<and> tr_queue_metrics r' = tr_queue_metrics r \<and>
     (tr_eof r \<longrightarrow> tr_eof r')"

lemma same_channel_refl [simp]: "same_channel r r"
  by (simp add: same_channel_def)

lemma same_channel_trans: "same_channel r r' \<Longrightarrow> same_channel r' r'' \<Longrightarrow> same_channel r r''"
  by (simp add: same_channel_def)

definition recv_count :: "recv_poll \<Rightarrow> u64" where
  "recv_count p = (case p of RecvMessage _ \<Rightarrow> 1 | _ \<Rightarrow> 0)"

lemma poll_input_spec:
  assumes "quiet H (dequeued q)" "tr_queue_metrics r = Some q" "poll_input H rx r w = (p, r', w')"
  shows "same_channel r r' \<and> dequeued q (w_queues w') = dequeued q (w_queues w) + recv_count p \<and>
    (p = RecvClosed \<longrightarrow> tr_eof r') \<and> (p \<noteq> RecvPending \<longrightarrow> rx)"
  using assms(2,3)
  by (cases "h_recv_poll H (tr_receiver r) w"; cases "fst (h_recv_poll H (tr_receiver r) w)")
     (use quietD(13) [OF assms(1), of "tr_receiver r" w] in
       \<open>auto simp: poll_input_def tracked_recv_poll_def same_channel_def recv_count_def split: if_splits\<close>)

lemma select_input_spec:
  assumes "quiet H (dequeued q)" "tr_queue_metrics r = Some q"
    and "select_input H k rx son sw deadline r w = Some (woke, r', w')"
  shows "same_channel r r' \<and> dequeued q (w_queues w') = dequeued q (w_queues w) + woken_count woke \<and>
    (woke = WokeMessage None \<longrightarrow> tr_eof r') \<and> (woke \<noteq> WokeTimer \<or> deadline \<noteq> None)"
  using assms(2,3)
proof (induction k arbitrary: son r w)
  case (Suc k)
  obtain c w1 where c: "h_cancelled H w = (c, w1)" by fastforce
  obtain p r2 w2 where p: "poll_input H rx r w1 = (p, r2, w2)" by (metis prod_cases3)
  obtain s w3 where s: "poll_swap H son sw w2 = (s, w3)" by fastforce
  obtain t w4 where t: "poll_timer H deadline w3 = (t, w4)" by fastforce
  have w1: "dequeued q (w_queues w1) = dequeued q (w_queues w)"
    using quietD(15) [OF assms(1), of w] c by simp
  note p_spec = poll_input_spec [OF assms(1) Suc.prems(1) p]
  have w3: "dequeued q (w_queues w3) = dequeued q (w_queues w2)"
    using quietD(18) [OF assms(1), of sw w2] s by (auto simp: poll_swap_def split: if_splits)
  have w4: "dequeued q (w_queues w4) = dequeued q (w_queues w3)"
    using quietD(1) [OF assms(1), of w3] t
    by (auto simp: poll_timer_def case_prod_beta split: option.splits)
  have tm: "t \<Longrightarrow> deadline \<noteq> None" using t by (auto simp: poll_timer_def split: option.splits)
  have r2: "tr_queue_metrics r2 = Some q" using p_spec Suc.prems(1) by (simp add: same_channel_def)
  have park: "dequeued q (w_queues (h_park H w4)) = dequeued q (w_queues w4)"
    using quietD(16) [OF assms(1)] .
  note step = Suc.prems(2) [simplified c p s t Let_def select_input.simps prod.case]
  show ?case
  proof (cases c)
    case True
    with step w1 show ?thesis by auto
  next
    case False
    show ?thesis
    proof (cases p)
      case RecvPending
      show ?thesis
      proof (cases "s = WatchChanged \<or> t")
        case True
        with step False RecvPending w1 w3 w4 p_spec tm show ?thesis
          by (auto simp: recv_count_def s t split: if_splits)
      next
        case False2: False
        with step False RecvPending
        have "select_input H k rx (son \<and> s \<noteq> WatchClosed) sw deadline r2 (h_park H w4) = Some (woke, r', w')"
          by (simp add: s t)
        from Suc.IH [OF r2 this] p_spec w1 w3 w4 park RecvPending show ?thesis
          by (auto simp: recv_count_def intro: same_channel_trans)
      qed
    qed (use step False w1 p_spec in \<open>auto simp: recv_count_def\<close>)
  qed
qed simp

lemma next_ready_pending:
  assumes "next_ready_retry H x w = (e, x', w')"
  shows "pending_retries x = pending_retries x' + (case e of None \<Rightarrow> 0 | Some _ \<Rightarrow> 1) \<and>
    ep_config x' = ep_config x \<and> ep_dlq_sender x' = ep_dlq_sender x"
  using next_ready_retry_cases [OF assms]
  by (auto simp: pending_retries_def buffer_len_def Let_def)

lemma recv_next_or_retry_spec:
  assumes "quiet H (dequeued q)" "tr_queue_metrics r = Some q"
    and "recv_next_or_retry H k sw r x w = Some (nxt, r', x', w')"
  shows "same_channel r r' \<and>
    dequeued q (w_queues w') + of_nat (pending_retries x) =
      dequeued q (w_queues w) + of_nat (pending_retries x') + input_count nxt"
  using assms(2,3)
proof (induction k arbitrary: r x w)
  case (Suc k)
  show ?case
  proof (cases "swap_pending H sw w")
    case True
    with Suc.prems show ?thesis by auto
  next
    case False
    obtain e x1 w1 where e: "next_ready_retry H x w = (e, x1, w1)" by (metis prod_cases3)
    have w1: "dequeued q (w_queues w1) = dequeued q (w_queues w)"
      using quiet_next_ready [OF assms(1), of x w] e by simp
    note pend = next_ready_pending [OF e]
    show ?thesis
    proof (cases e)
      case (Some env)
      with Suc.prems False e w1 pend show ?thesis by auto
    next
      case None
      show ?thesis
      proof (cases "tr_eof r \<and> next_retry_deadline x1 = None")
        case True
        with Suc.prems False e None w1 pend show ?thesis by auto
      next
        case F2: False
        let ?sel = "select_input H (Suc k) (\<not> tr_eof r) True sw (next_retry_deadline x1) r w1"
        from Suc.prems(2) False e None F2 obtain woke r2 w2 where sel: "?sel = Some (woke, r2, w2)"
          by (cases ?sel) (auto simp del: select_input.simps)
        note spec = select_input_spec [OF assms(1) Suc.prems(1) sel]
        then have r2: "tr_queue_metrics r2 = Some q" using Suc.prems(1) by (simp add: same_channel_def)
        have mark: "dequeued q (w_queues (h_mark_changed H sw w2)) = dequeued q (w_queues w2)"
          using quietD(19) [OF assms(1)] .
        note step = Suc.prems(2) [simplified recv_next_or_retry.simps False e None F2 sel Let_def prod.case
            if_False option.case]
        have again: ?thesis if "recv_next_or_retry H k sw r2 x1 w2 = Some (nxt, r', x', w')" "woken_count woke = 0"
          using Suc.IH [OF r2 that(1)] that(2) spec w1 pend None by (auto intro: same_channel_trans)
        show ?thesis
        proof (cases woke)
          case WokeCancelled
          with step spec w1 pend None F2 show ?thesis by (auto simp: e sel simp del: select_input.simps)
        next
          case (WokeMessage m)
          then show ?thesis
          proof (cases m)
            case None
            with WokeMessage step F2 have "recv_next_or_retry H k sw r2 x1 w2 = Some (nxt, r', x', w')"
              by (simp add: e sel \<open>e = None\<close> del: select_input.simps split: if_splits)
            with again WokeMessage None show ?thesis by simp
          next
            case (Some env)
            with WokeMessage step spec w1 pend \<open>e = None\<close> F2 show ?thesis
              by (auto simp: e sel simp del: select_input.simps split: if_splits)
          qed
        next
          case WokeSwap
          with step spec w1 pend None mark F2 show ?thesis
            by (auto simp: e sel simp del: select_input.simps split: if_splits)
        next
          case WokeTimer
          with step F2 have "recv_next_or_retry H k sw r2 x1 w2 = Some (nxt, r', x', w')"
            by (simp add: e sel None del: select_input.simps split: if_splits)
          with again WokeTimer show ?thesis by simp
        qed
      qed
    qed
  qed
qed simp

lemma next_input_spec:
  assumes "quiet H (dequeued q)" "tr_queue_metrics r = Some q"
    and "next_input H k sw held r x w = Some (nxt, held', r', x', w')"
  shows "same_channel r r' \<and>
    dequeued q (w_queues w') + of_nat (pending_retries x) + opt_count held =
      dequeued q (w_queues w) + of_nat (pending_retries x') + opt_count held' + input_count nxt \<and>
    (nxt \<noteq> InputSwap \<longrightarrow> held' = None)"
proof (cases held)
  case (Some e)
  with assms(3) show ?thesis by (auto simp: next_input_def)
next
  case None
  with assms(3) obtain n1 r1 x1 w1 where r: "recv_next_or_retry H k sw r x w = Some (n1, r1, x1, w1)"
    by (cases "recv_next_or_retry H k sw r x w") (auto simp: next_input_def)
  from recv_next_or_retry_spec [OF assms(1,2) r] assms(3) None r show ?thesis
    by (cases n1) (auto simp: next_input_def split: if_splits)
qed

section \<open>Waiting ends\<close>

text \<open>
  \<open>winds_down H \<mu>\<close>: the number of wake-ups before the cancellation is visible is bounded by \<open>\<mu>\<close>; no
  operation a wait performs raises the bound. \<open>clock_steady\<close>: the next reading of the monotonic clock
  is not earlier.
\<close>

definition winds_down :: "('x, 's, 'h) runner_host_scheme \<Rightarrow> ('x \<Rightarrow> nat) \<Rightarrow> bool" where
  "winds_down H \<mu> \<longleftrightarrow>
     (\<forall>w. \<mu> (w_ext w) = 0 \<longrightarrow> fst (h_cancelled H w)) \<and>
     (\<forall>w. \<mu> (w_ext (snd (h_cancelled H w))) \<le> \<mu> (w_ext w)) \<and>
     (\<forall>c w. \<mu> (w_ext (snd (h_recv_poll H c w))) \<le> \<mu> (w_ext w)) \<and>
     (\<forall>c w. \<mu> (w_ext (snd (h_changed_poll H c w))) \<le> \<mu> (w_ext w)) \<and>
     (\<forall>w. \<mu> (w_ext (snd (h_now H w))) \<le> \<mu> (w_ext w)) \<and>
     (\<forall>w. \<mu> (w_ext (h_park H w)) \<le> \<mu> (w_ext w) - 1)"

definition clock_steady :: "('w, 'h) host_scheme \<Rightarrow> bool" where
  "clock_steady H \<longleftrightarrow> (\<forall>w. fst (h_now H w) \<le> fst (h_now H (snd (h_now H w))))"

lemma winds_downD:
  assumes "winds_down H \<mu>"
  shows "\<mu> (w_ext w) = 0 \<Longrightarrow> fst (h_cancelled H w)"
    "\<mu> (w_ext (snd (h_cancelled H w))) \<le> \<mu> (w_ext w)"
    "\<mu> (w_ext (snd (h_recv_poll H c w))) \<le> \<mu> (w_ext w)"
    "\<mu> (w_ext (snd (h_changed_poll H c w))) \<le> \<mu> (w_ext w)"
    "\<mu> (w_ext (snd (h_now H w))) \<le> \<mu> (w_ext w)"
    "\<mu> (w_ext (h_park H w)) \<le> \<mu> (w_ext w) - 1"
  using assms unfolding winds_down_def by simp_all

lemma update_queue_ext [simp]: "w_ext (update_queue qo f w) = w_ext w"
  by (simp add: update_queue_def split: option.splits)

lemma poll_input_ext:
  assumes "winds_down H \<mu>" "poll_input H rx r w = (p, r', w')"
  shows "\<mu> (w_ext w') \<le> \<mu> (w_ext w)"
  using assms(2) winds_downD(3) [OF assms(1), of "tr_receiver r" w]
  by (auto simp: poll_input_def tracked_recv_poll_def case_prod_beta Let_def split: if_splits recv_poll.splits)

lemma select_input_returns:
  assumes "winds_down H \<mu>" "\<mu> (w_ext w) < k"
  shows "\<exists>woke r' w'. select_input H k rx son sw deadline r w = Some (woke, r', w') \<and>
    \<mu> (w_ext w') \<le> \<mu> (w_ext w) \<and>
    (woke = WokeTimer \<longrightarrow> (\<exists>d w3. deadline = Some d \<and> w' = snd (h_now H w3) \<and> d \<le> fst (h_now H w3))) \<and>
    (woke = WokeMessage None \<longrightarrow> rx \<and> tr_eof r') \<and> (woke \<noteq> WokeMessage None \<longrightarrow> tr_eof r' = tr_eof r)"
  using assms(2)
proof (induction k arbitrary: son r w)
  case (Suc k)
  note wd = winds_downD [OF assms(1)]
  obtain c w1 where c: "h_cancelled H w = (c, w1)" by fastforce
  obtain p r2 w2 where p: "poll_input H rx r w1 = (p, r2, w2)" by (metis prod_cases3)
  obtain s w3 where s: "poll_swap H son sw w2 = (s, w3)" by fastforce
  obtain t w4 where t: "poll_timer H deadline w3 = (t, w4)" by fastforce
  have m1: "\<mu> (w_ext w1) \<le> \<mu> (w_ext w)" using wd(2) [of w] c by simp
  have m2: "\<mu> (w_ext w2) \<le> \<mu> (w_ext w1)" by (rule poll_input_ext [OF assms(1) p])
  have m3: "\<mu> (w_ext w3) \<le> \<mu> (w_ext w2)"
    using wd(4) [of sw w2] s by (auto simp: poll_swap_def split: if_splits)
  have m4: "\<mu> (w_ext w4) \<le> \<mu> (w_ext w3)"
    using wd(5) [of w3] t by (auto simp: poll_timer_def case_prod_beta split: option.splits)
  have tm: "\<exists>d w3. deadline = Some d \<and> w4 = snd (h_now H w3) \<and> d \<le> fst (h_now H w3)" if t
    using t that by (auto simp: poll_timer_def case_prod_beta split: option.splits)
  have eof: "p = RecvClosed \<longrightarrow> rx \<and> tr_eof r2" "p \<noteq> RecvClosed \<longrightarrow> tr_eof r2 = tr_eof r"
    using p by (auto simp: poll_input_def tracked_recv_poll_def case_prod_beta Let_def
        split: if_splits recv_poll.splits)
  have eq: "select_input H (Suc k) rx son sw deadline r w =
     (if c then Some (WokeCancelled, r, w1)
      else case p of
          RecvMessage e \<Rightarrow> Some (WokeMessage (Some e), r2, w2)
        | RecvClosed \<Rightarrow> Some (WokeMessage None, r2, w2)
        | RecvPending \<Rightarrow>
            if s = WatchChanged then Some (WokeSwap, r2, w3)
            else if t then Some (WokeTimer, r2, w4)
            else select_input H k rx (son \<and> s \<noteq> WatchClosed) sw deadline r2 (h_park H w4))"
    using p by (cases p) (simp_all add: c s t)
  show ?case
  proof (cases "\<not> c \<and> p = RecvPending \<and> s \<noteq> WatchChanged \<and> \<not> t")
    case False
    then show ?thesis unfolding eq using m1 m2 m3 m4 tm eof by (cases p) auto
  next
    case True
    then have "0 < \<mu> (w_ext w)" using wd(1) [of w] c by auto
    then have "\<mu> (w_ext (h_park H w4)) < k" "\<mu> (w_ext (h_park H w4)) \<le> \<mu> (w_ext w)"
      using wd(6) [of w4] m1 m2 m3 m4 Suc.prems by simp_all
    with Suc.IH [of "h_park H w4" "son \<and> s \<noteq> WatchClosed" r2] eof True show ?thesis
      unfolding eq by (auto intro: order_trans)
  qed
qed simp

lemma next_deadline_min:
  "next_retry_deadline x = Some d \<Longrightarrow> \<exists>e \<in> set (rb_entries (ep_retry_buffer x)). en_next_attempt_at e = d"
  using min_by_key_Some [of id "map en_next_attempt_at (rb_entries (ep_retry_buffer x))" d]
  by (auto simp: next_retry_deadline_def next_deadline_def)

lemma next_ready_due:
  assumes "e \<in> set (rb_entries (ep_retry_buffer x))" "en_next_attempt_at e \<le> fst (h_now H w)"
  shows "fst (next_ready_retry H x w) \<noteq> None"
proof
  assume none: "fst (next_ready_retry H x w) = None"
  obtain x' w' where "next_ready_retry H x w = (None, x', w')" using none by (metis prod.collapse)
  from next_ready_retry_cases [OF this] assms show False by (auto simp: Let_def)
qed

lemma recv_after_timer:
  assumes "clock_steady H" "next_retry_deadline x = Some d" "d \<le> fst (h_now H w3)"
  shows "\<exists>y. recv_next_or_retry H (Suc k) sw r x (snd (h_now H w3)) = Some y"
proof -
  from next_deadline_min [OF assms(2)] obtain e where
    e: "e \<in> set (rb_entries (ep_retry_buffer x))" "en_next_attempt_at e = d" by blast
  then have "en_next_attempt_at e \<le> fst (h_now H (snd (h_now H w3)))"
    using assms(1,3) by (auto simp: clock_steady_def intro: order_trans)
  from next_ready_due [OF e(1) this] show ?thesis
    by (cases "next_ready_retry H x (snd (h_now H w3))") (auto simp: Let_def)
qed

lemma recv_next_or_retry_step:
  assumes "\<not> swap_pending H sw w" "next_ready_retry H x w = (None, x1, w1)"
    and "\<not> (tr_eof r \<and> next_retry_deadline x1 = None)"
    and "select_input H (Suc k) (\<not> tr_eof r) True sw (next_retry_deadline x1) r w1 = Some (woke, r2, w2)"
  shows "recv_next_or_retry H (Suc k) sw r x w =
    (case woke of
       WokeCancelled \<Rightarrow> Some (InputClosed, r2, x1, w2)
     | WokeSwap \<Rightarrow> Some (InputSwap, r2, x1, h_mark_changed H sw w2)
     | WokeMessage (Some e) \<Rightarrow> Some (InputEnvelope e, r2, x1, w2)
     | WokeMessage None \<Rightarrow> recv_next_or_retry H k sw r2 x1 w2
     | WokeTimer \<Rightarrow> recv_next_or_retry H k sw r2 x1 w2)"
  by (simp add: assms(1,2,4) if_not_P [OF assms(3)] Let_def del: select_input.simps de_Morgan_conj)

lemma next_ready_ext:
  assumes "winds_down H \<mu>" "next_ready_retry H x w = (e, x', w')"
  shows "\<mu> (w_ext w') \<le> \<mu> (w_ext w)"
  using assms(2) winds_downD(5) [OF assms(1), of w]
  by (auto simp: next_ready_retry_def next_ready_def case_prod_beta Let_def split: if_splits)

text \<open>One more iteration is needed after the end of the input, and one after a timer.\<close>

lemma recv_next_or_retry_returns_aux:
  assumes "winds_down H \<mu>" "clock_steady H" "\<mu> (w_ext w) + (if tr_eof r then 2 else 3) \<le> k"
  shows "\<exists>y. recv_next_or_retry H k sw r x w = Some y"
  using assms(3)
proof (induction k arbitrary: r x w)
  case (Suc k)
  obtain e x1 w1 where e: "next_ready_retry H x w = (e, x1, w1)" by (metis prod_cases3)
  show ?case
  proof (cases "swap_pending H sw w \<or> e \<noteq> None \<or> (tr_eof r \<and> next_retry_deadline x1 = None)")
    case True
    with e show ?thesis by (cases "swap_pending H sw w"; cases e) (auto simp: Let_def)
  next
    case False
    have m1: "\<mu> (w_ext w1) \<le> \<mu> (w_ext w)" by (rule next_ready_ext [OF assms(1) e])
    with Suc.prems have "\<mu> (w_ext w1) < Suc k" by (simp split: if_splits)
    from select_input_returns [OF assms(1) this, of "\<not> tr_eof r" True sw "next_retry_deadline x1" r]
    obtain woke r2 w2 where
      sel: "select_input H (Suc k) (\<not> tr_eof r) True sw (next_retry_deadline x1) r w1 = Some (woke, r2, w2)"
      and m2: "\<mu> (w_ext w2) \<le> \<mu> (w_ext w1)"
      and tm: "woke = WokeTimer \<longrightarrow> (\<exists>d w3. next_retry_deadline x1 = Some d \<and> w2 = snd (h_now H w3) \<and>
          d \<le> fst (h_now H w3))"
      and eof: "woke = WokeMessage None \<longrightarrow> \<not> tr_eof r \<and> tr_eof r2" by blast
    from False e have e': "next_ready_retry H x w = (None, x1, w1)" by simp
    from False have nsw: "\<not> swap_pending H sw w" and ne: "\<not> (tr_eof r \<and> next_retry_deadline x1 = None)"
      by auto
    note step = recv_next_or_retry_step [OF nsw e' ne sel]
    obtain k' where k': "k = Suc k'" using Suc.prems by (cases k) (auto split: if_splits)
    show ?thesis
    proof (cases woke)
      case WokeTimer
      with tm obtain d w3 where d: "next_retry_deadline x1 = Some d" "w2 = snd (h_now H w3)"
        "d \<le> fst (h_now H w3)" by blast
      from recv_after_timer [OF assms(2) d(1,3), of k' sw r2] show ?thesis
        by (simp only: step woken.case WokeTimer d(2) k' [symmetric])
    next
      case (WokeMessage m)
      show ?thesis
      proof (cases m)
        case None
        with eof WokeMessage Suc.prems m1 m2 have "\<mu> (w_ext w2) + (if tr_eof r2 then 2 else 3) \<le> k" by simp
        from Suc.IH [OF this, of x1] show ?thesis
          by (simp add: step WokeMessage None del: recv_next_or_retry.simps)
      qed (simp add: step WokeMessage del: recv_next_or_retry.simps)
    qed (simp_all add: step del: recv_next_or_retry.simps)
  qed
qed (simp split: if_splits)

section \<open>A concrete runtime\<close>

text \<open>
  The runtime on which properties with hypotheses are exhibited: the messages still in the input
  queue, a clock that ticks at every reading, and the number of wake-ups left before the
  cancellation. Sends succeed, the queue closes when it is empty, and no swap arrives.
\<close>

type_synonym sample_world = "(runtime_envelope list \<times> nat \<times> nat, nat list) world"

definition sample_tick :: "sample_world \<Rightarrow> nat \<times> sample_world" where
  "sample_tick w =
     (case w_ext w of (q, t, k) \<Rightarrow> (t, w\<lparr>w_ext := (q, Suc t, k)\<rparr>))"

definition sample_runner :: "(runtime_envelope list \<times> nat \<times> nat, nat list) runner_host" where
  "sample_runner =
     \<lparr>h_now = sample_tick, h_system_now = (\<lambda>w. (int (fst (sample_tick w)), snd (sample_tick w))),
      h_dlq_try_send = (\<lambda>_ _ w. (SendOk, w)),
      h_new_store = (\<lambda>_ dt. \<lparr>so_data = dt, so_guest = []\<rparr>),
      h_epoch_deadline_trap = (\<lambda>st. st), h_set_epoch_deadline = (\<lambda>_ st. st),
      h_set_fuel = (\<lambda>_ st. Inr st),
      h_push_buffer = h_push_buffer sample_engine, h_delete_buffer = h_delete_buffer sample_engine,
      h_debug_error = h_debug_error sample_engine,
      h_instantiate = (\<lambda>_ st w. (Inr (BTransform 0), st, w)),
      h_call_validate = (\<lambda>_ nc st w. (Inr (if nc_config nc = ''bad'' then Some ''no'' else None), st, w)),
      h_call_init = (\<lambda>_ _ st w. (Inr (Inr ()), st, w)),
      h_call_process = (\<lambda>_ m st w. (Inr (Inr \<lparr>om_id = wm_id m, om_timestamp = wm_timestamp m,
         om_source = wm_source m, om_content_type = wm_content_type m, om_metadata = wm_metadata m,
         om_payload = []\<rparr>), st, w)),
      h_call_evaluate = (\<lambda>_ m st w. (Inr (Inr (wm_id m \<noteq> [])), st, w)),
      h_call_route = (\<lambda>_ m st w. (Inr (Inr [''default'']), st, w)),
      h_call_output_ports = (\<lambda>_ st w. (Inr [''default''], st, w)),
      h_reserve = (\<lambda>_ w. (True, w)), h_permit_send = (\<lambda>_ _ w. w),
      h_try_send = (\<lambda>_ _ w. (SendOk, w)),
      h_recv_poll = (\<lambda>_ w. case w_ext w of
           ([], _) \<Rightarrow> (RecvClosed, w)
         | (e # q, tk) \<Rightarrow> (RecvMessage e, w\<lparr>w_ext := (q, tk)\<rparr>)),
      h_try_recv = (\<lambda>_ w. case w_ext w of
           ([], _) \<Rightarrow> (None, w) | (e # q, tk) \<Rightarrow> (Some e, w\<lparr>w_ext := (q, tk)\<rparr>)),
      h_cancelled = (\<lambda>w. (snd (snd (w_ext w)) = 0, w)),
      h_park = (\<lambda>w. case w_ext w of (q, t, k) \<Rightarrow> w\<lparr>w_ext := (q, t, k - 1)\<rparr>),
      h_has_changed = (\<lambda>_ _. Some False), h_borrow_has_changed = (\<lambda>_ _. False),
      h_borrow_and_update = (\<lambda>_ w. (None, w)), h_changed_poll = (\<lambda>_ w. (WatchPending, w)),
      h_mark_changed = (\<lambda>_ w. w)\<rparr>"

definition sample_start :: "runtime_envelope list \<Rightarrow> nat \<Rightarrow> sample_world" where
  "sample_start q k =
     \<lparr>w_progress = (\<lambda>_. progress_channel), w_hashes = Map.empty, w_queues = (\<lambda>_. queue_metrics_default),
      w_transform_slots = (\<lambda>_. None), w_store_slots = (\<lambda>_. None), w_bindings_slots = (\<lambda>_. None),
      w_ext = (q, 0, k)\<rparr>"

lemma sample_runner_quiet: "quiet sample_runner g"
  by (simp add: quiet_def sample_runner_def sample_tick_def split: prod.split list.split)

lemma sample_runner_winds_down: "winds_down sample_runner (\<lambda>x. snd (snd x))"
  by (simp add: winds_down_def sample_runner_def sample_tick_def case_prod_beta split: list.split)

lemma sample_runner_clock_steady: "clock_steady sample_runner"
  by (simp add: clock_steady_def sample_runner_def sample_tick_def case_prod_beta)

section \<open>Properties\<close>

text \<open>
  A fan-out serves every selected sender exactly once with the same message, the senders that
  cannot block (drop and dead-letter) before those that wait for room, each group in its configured
  order; nothing is sent to any other sender. Routing tags the message with its own identity as
  the parent and selects by port.
\<close>

theorem fan_out_delivers_once:
  "send_matching H senders env matches w =
     foldl (\<lambda>w s. send_one H s env w) w
       (filter (\<lambda>s. matches s \<and> ds_overflow s \<noteq> Slow) senders @
        filter (\<lambda>s. matches s \<and> ds_overflow s = Slow) senders) \<and>
   fan_out H ports env senders w =
     foldl (\<lambda>w s. send_one H s (set_parent_id (eh_id (re_header env)) env) w) w
       (filter (\<lambda>s. ds_port s \<in> set ports \<and> ds_overflow s \<noteq> Slow) senders @
        filter (\<lambda>s. ds_port s \<in> set ports \<and> ds_overflow s = Slow) senders)"
  by (simp add: fan_out_def send_matching_order delivery_order_def Let_def)

text \<open>
  Every send is accounted for. While no other task writes the queue's counters, one send
  increments exactly one of them: a slow edge only enqueues or finds the consumer gone, a drop edge
  may also drop, and only a dead-letter edge counts dead-letter outcomes.
\<close>

theorem send_one_accounted:
  assumes "quiet H (\<lambda>qs. qs q)" "ds_queue_metrics s = Some q"
  shows "let m = w_queues w q; m' = w_queues (send_one H s env w) q in
    m' \<in> {record_enqueued m, record_downstream_closed m} \<or>
    (ds_overflow s = Drop \<and> m' = record_dropped m) \<or>
    (ds_overflow s = DeadLetter \<and>
       m' \<in> {record_dead_lettered m, record_dlq_full m, record_dlq_closed m})"
  using quietD(1-3,10-12) [OF assms(1), simplified]
  by (simp add: send_one_def Let_def case_prod_beta update_queue_def assms(2)
      split: overflow_policy.split try_send.split option.split)

definition sample_sender :: downstream_sender where
  "sample_sender =
     \<lparr>ds_sender = 0, ds_port = ''default'', ds_edge = ''a->b'', ds_source_node = ''a'', ds_overflow = Drop,
      ds_dlq_sender = None, ds_queue_metrics = Some 0\<rparr>"

theorem send_one_accounted_witness:
  "w_queues (send_one sample_runner sample_sender sample_envelope (sample_start [] 1)) 0 =
     record_enqueued queue_metrics_default"
proof -
  have "ds_queue_metrics sample_sender = Some 0" by (simp add: sample_sender_def)
  from send_one_accounted [OF sample_runner_quiet this, of "sample_start [] 1" sample_envelope]
  have "let m = queue_metrics_default;
      m' = w_queues (send_one sample_runner sample_sender sample_envelope (sample_start [] 1)) 0
    in m' \<in> {record_enqueued m, record_downstream_closed m} \<or> m' = record_dropped m"
    by (simp add: sample_sender_def sample_start_def Let_def)
  moreover have "qm_enqueued (w_queues (send_one sample_runner sample_sender sample_envelope (sample_start [] 1)) 0) = 1"
    by (simp add: send_one_def sample_sender_def sample_runner_def sample_start_def update_queue_def
        record_enqueued_def queue_metrics_default_def)
  ultimately show ?thesis
    by (auto simp: Let_def record_enqueued_def record_downstream_closed_def record_dropped_def
        queue_metrics_default_def)
qed

text \<open>
  C12: waiting for input loses and invents no message. Whatever wakes the runner, the messages it
  took from its queue plus the buffered retries and the held message before the wait equal the
  buffered retries, the held message and the message handed out after it; a message is held back
  only when a swap is reported, so the replacement gets it.
\<close>

theorem next_input_conserves:
  assumes "quiet H (dequeued q)" "tr_queue_metrics r = Some q"
    and "next_input H k sw held r x w = Some (nxt, held', r', x', w')"
  shows "dequeued q (w_queues w') + of_nat (pending_retries x) + opt_count held =
      dequeued q (w_queues w) + of_nat (pending_retries x') + opt_count held' + input_count nxt \<and>
    (held' \<noteq> None \<longrightarrow> nxt = InputSwap)"
  using next_input_spec [OF assms] by blast

theorem next_input_conserves_witness:
  "\<exists>nxt held r x w'.
     next_input sample_runner 3 0 None (tracked_receiver_new 0 0) sample_executor
       (sample_start [sample_envelope] 1) = Some (nxt, held, r, x, w') \<and>
     nxt = InputEnvelope sample_envelope \<and> dequeued 0 (w_queues w') = 1"
proof -
  let ?w = "sample_start [sample_envelope] 1"
  have q: "tr_queue_metrics (tracked_receiver_new 0 0) = Some 0" by (simp add: tracked_receiver_new_def)
  obtain held r x w' where run:
    "next_input sample_runner 3 0 None (tracked_receiver_new 0 0) sample_executor ?w =
       Some (InputEnvelope sample_envelope, held, r, x, w')" and x: "x = sample_executor"
    by (simp add: next_input_def eval_nat_numeral swap_pending_def sample_runner_def next_ready_retry_def
        next_ready_def take_due_def sample_executor_def executor_new_def retry_buffer_new_def
        sample_tick_def sample_start_def next_retry_deadline_def next_deadline_def
        tracked_receiver_new_def poll_input_def tracked_recv_poll_def Let_def)
  from next_input_conserves [OF sample_runner_quiet q run] run x show ?thesis
    by (auto simp: sample_start_def dequeued_def queue_metrics_default_def)
qed

text \<open>
  C36: a wait always ends once the runtime is winding down. If at most \<open>n\<close> more wake-ups happen
  before the cancellation is visible and the clock does not run backwards, the wait for the next
  input returns, with fuel for those wake-ups, the end of the input and one timer.
\<close>

theorem wait_returns:
  assumes "winds_down H \<mu>" "clock_steady H" "\<mu> (w_ext w) + 3 \<le> k"
  shows "\<exists>y. recv_next_or_retry H k sw r x w = Some y"
  using recv_next_or_retry_returns_aux [OF assms(1,2), of w r k sw x] assms(3) by simp

theorem wait_returns_witness:
  "\<exists>y. recv_next_or_retry sample_runner 5 0 (tracked_receiver_new 0 0) sample_executor
      (sample_start [] 2) = Some y"
  by (rule wait_returns [OF sample_runner_winds_down sample_runner_clock_steady])
    (simp add: sample_start_def)

end
