(* ===== verification/NodeLoop.thy ===== *)
theory NodeLoop
  imports Runner
begin

text \<open>
  What the transform, filter and router loops have in common: the state a runner keeps between
  iterations, the error paths (policy, budget exhaustion, condemned instances), the adoption of a
  swap, and the loop itself. The three loops follow in \<open>FilterLoop\<close>, \<open>RouterLoop\<close> and
  \<open>TransformLoop\<close>. Each loop spells these steps out in the source; here they are definitions that
  take the node's \<open>recover_from_cached_pre\<close> as an argument.
\<close>

section \<open>State and exits\<close>

record 'n runner =
  rn_node :: 'n
  rn_receiver :: tracked_receiver
  rn_policy :: error_policy_executor
  rn_state :: node_state_tracker
  rn_metrics :: node_metrics
  rn_pending_swap :: "nat option"
  rn_held :: "runtime_envelope option"

type_synonym exit_result = "(wafer_error, unit) result"

datatype 'r loop_step = LoopContinue 'r | LoopBreak exit_result 'r

section \<open>Errors\<close>

text \<open>A failed message goes through the policy; \<open>False\<close> means the node is torn down.\<close>

definition apply_policy ::
    "('x, 's, 'h) runner_host_scheme \<Rightarrow> wasm_process_error \<Rightarrow> runtime_envelope \<Rightarrow> ('n, 'z) runner_scheme
       \<Rightarrow> ('x, 's) world \<Rightarrow> bool \<times> ('n, 'z) runner_scheme \<times> ('x, 's) world" where
  "apply_policy H err env r w =
     (let (a, x, w) = handle H err env (rn_policy r) w;
          (go, m) = continue_after_policy_action a (rn_metrics r)
      in (go, r\<lparr>rn_policy := x, rn_metrics := m\<rparr>, w))"

text \<open>Replacing the instance: Error, Recovering, recover, and Running again or a failed exit.\<close>

definition replace_instance ::
    "('x, 's, 'h) runner_host_scheme
       \<Rightarrow> ('n \<Rightarrow> ('x, 's) world \<Rightarrow> (wafer_error, unit) result \<times> 'n \<times> ('x, 's) world)
       \<Rightarrow> ('n, 'z) runner_scheme \<Rightarrow> ('x, 's) world
       \<Rightarrow> exit_result \<times> ('n, 'z) runner_scheme \<times> ('x, 's) world" where
  "replace_instance H recover r w =
     (let (_, st, w) = transition_to_error H (rn_state r) w;
          (_, st) = transition_to_recovering st;
          (res, n, w) = recover (rn_node r) w
      in
      case res of
        Inr _ \<Rightarrow>
          let (d, st, w) = transition_recovering_to_running_timed H st w;
              m = (case d of None \<Rightarrow> rn_metrics r | Some ns \<Rightarrow> record_recovery ns (rn_metrics r))
          in (Inr (), r\<lparr>rn_node := n, rn_state := st, rn_metrics := m\<rparr>, w)
      | Inl e \<Rightarrow>
          let (_, st, w) = transition_to_error H st w;
              (x, m, w) = flush_to_dlq H RRecoveryFailed (rn_policy r) (rn_metrics r) w
          in (Inl (recovery_failed e),
              r\<lparr>rn_node := n, rn_state := st, rn_policy := x, rn_metrics := m\<rparr>, w))"

definition recover_after_timeout ::
    "('x, 's, 'h) runner_host_scheme
       \<Rightarrow> ('n \<Rightarrow> ('x, 's) world \<Rightarrow> (wafer_error, unit) result \<times> 'n \<times> ('x, 's) world)
       \<Rightarrow> wasm_process_error \<Rightarrow> runtime_envelope \<Rightarrow> ('n, 'z) runner_scheme \<Rightarrow> ('x, 's) world
       \<Rightarrow> exit_result \<times> ('n, 'z) runner_scheme \<times> ('x, 's) world" where
  "recover_after_timeout H recover err env r w =
     (let (go, r, w) = apply_policy H err env r w in
      if \<not> go then (Inl policy_teardown, r, w) else replace_instance H recover r w)"

definition recover_condemned ::
    "('x, 's, 'h) runner_host_scheme
       \<Rightarrow> ('n \<Rightarrow> ('x, 's) world \<Rightarrow> (wafer_error, unit) result \<times> 'n \<times> ('x, 's) world)
       \<Rightarrow> wasm_process_error \<Rightarrow> runtime_envelope \<Rightarrow> ('n, 'z) runner_scheme \<Rightarrow> ('x, 's) world
       \<Rightarrow> exit_result \<times> ('n, 'z) runner_scheme \<times> ('x, 's) world" where
  "recover_condemned H recover err env r w =
     (let (m, w) = record_condemned H (rn_policy r) env err (rn_metrics r) w
      in replace_instance H recover (r\<lparr>rn_metrics := m\<rparr>) w)"

definition is_condemning :: "wasm_process_error \<Rightarrow> bool" where
  "is_condemning e = (case e of Trapped _ _ \<Rightarrow> True | Unrecoverable _ \<Rightarrow> True | _ \<Rightarrow> False)"

text \<open>The result of one of the recoveries, and the teardown of the policy, as a step of the loop.\<close>

definition step_of_exit ::
    "exit_result \<times> ('n, 'z) runner_scheme \<times> 'w \<Rightarrow> ('n, 'z) runner_scheme loop_step \<times> 'w" where
  "step_of_exit ex =
     (case ex of (Inr _, r, w) \<Rightarrow> (LoopContinue r, w) | (Inl e, r, w) \<Rightarrow> (LoopBreak (Inl e) r, w))"

definition step_of_policy ::
    "bool \<times> ('n, 'z) runner_scheme \<times> 'w \<Rightarrow> ('n, 'z) runner_scheme loop_step \<times> 'w" where
  "step_of_policy p =
     (case p of (go, r, w) \<Rightarrow>
        (if go then LoopContinue r else LoopBreak (Inl policy_teardown) r, w))"

definition note_error ::
    "wasm_process_error \<Rightarrow> ('n, 'z) runner_scheme \<Rightarrow> ('n, 'z) runner_scheme" where
  "note_error err r = r\<lparr>rn_metrics := record_error err (rn_metrics r)\<rparr>"

text \<open>
  A failed call: it is counted, then a call out of budget replaces the instance after the policy
  has dealt with the message, a trap or an unrecoverable error condemns message and instance, and
  anything else is left to the policy.
\<close>

definition node_failure ::
    "('x, 's, 'h) runner_host_scheme
       \<Rightarrow> ('n \<Rightarrow> ('x, 's) world \<Rightarrow> (wafer_error, unit) result \<times> 'n \<times> ('x, 's) world)
       \<Rightarrow> wasm_process_error \<Rightarrow> runtime_envelope \<Rightarrow> ('n, 'z) runner_scheme \<Rightarrow> ('x, 's) world
       \<Rightarrow> ('n, 'z) runner_scheme loop_step \<times> ('x, 's) world" where
  "node_failure H recover err env r w =
     (let r = note_error err r in
      if is_budget_exhausted err then step_of_exit (recover_after_timeout H recover err env r w)
      else if is_condemning err then step_of_exit (recover_condemned H recover err env r w)
      else step_of_policy (apply_policy H err env r w))"

section \<open>Swaps and outcomes\<close>

definition adopt_swap ::
    "('x, 's, 'h) runner_host_scheme \<Rightarrow> nat \<Rightarrow> ('n, 'z) runner_scheme \<Rightarrow> ('x, 's) world
       \<Rightarrow> ('n, 'z) runner_scheme \<times> ('x, 's) world" where
  "adopt_swap H g r w =
     (let (x, m, w) = flush_to_dlq H RHotSwapDrain (rn_policy r) (rn_metrics r) w;
          w = mark_replacement_adopted H g w
      in (r\<lparr>rn_policy := x, rn_metrics := record_swap m, rn_pending_swap := Some g\<rparr>, w))"

definition reject_swap :: "nat \<Rightarrow> wafer_error \<Rightarrow> ('x, 's) world \<Rightarrow> ('x, 's) world" where
  "reject_swap g e w = update_progress g (report_init_failed (wafer_error_display e)) w"

definition report_first_outcome ::
    "('x, 's, 'h) runner_host_scheme \<Rightarrow> first_local_outcome \<Rightarrow> ('n, 'z) runner_scheme \<Rightarrow> ('x, 's) world
       \<Rightarrow> ('n, 'z) runner_scheme \<times> ('x, 's) world" where
  "report_first_outcome H oc r w =
     (case rn_pending_swap r of
        None \<Rightarrow> (r, w)
      | Some g \<Rightarrow> (r\<lparr>rn_pending_swap := None\<rparr>, mark_first_local_outcome H oc g w))"

section \<open>Input\<close>

definition runner_input ::
    "('x, 's, 'h) runner_host_scheme \<Rightarrow> nat \<Rightarrow> nat \<Rightarrow> ('n, 'z) runner_scheme \<Rightarrow> ('x, 's) world
       \<Rightarrow> (next_input \<times> ('n, 'z) runner_scheme \<times> ('x, 's) world) option" where
  "runner_input H k sw r w =
     (case next_input H k sw (rn_held r) (rn_receiver r) (rn_policy r) w of
        None \<Rightarrow> None
      | Some (nxt, held, rx, x, w) \<Rightarrow>
          Some (nxt, r\<lparr>rn_held := held, rn_receiver := rx, rn_policy := x\<rparr>, w))"

section \<open>The loop\<close>

fun run_loop :: "('r \<Rightarrow> 'w \<Rightarrow> ('r loop_step \<times> 'w) option) \<Rightarrow> nat \<Rightarrow> 'r \<Rightarrow> 'w \<Rightarrow> (exit_result \<times> 'r \<times> 'w) option"
where
  "run_loop step 0 r w = None"
| "run_loop step (Suc k) r w =
     (case step r w of
        None \<Rightarrow> None
      | Some (LoopContinue r, w) \<Rightarrow> run_loop step k r w
      | Some (LoopBreak e r, w) \<Rightarrow> Some (e, r, w))"

text \<open>
  An iteration of the filter and the router loop: a pending swap first, otherwise the next input.
\<close>

definition node_iteration ::
    "('x, 's, 'h) runner_host_scheme
       \<Rightarrow> (swap_payload \<Rightarrow> 'n runner \<Rightarrow> ('x, 's) world \<Rightarrow> 'n runner \<times> ('x, 's) world)
       \<Rightarrow> (runtime_envelope \<Rightarrow> 'n runner \<Rightarrow> ('x, 's) world \<Rightarrow> 'n runner loop_step \<times> ('x, 's) world)
       \<Rightarrow> nat \<Rightarrow> nat \<Rightarrow> 'n runner \<Rightarrow> ('x, 's) world \<Rightarrow> ('n runner loop_step \<times> ('x, 's) world) option" where
  "node_iteration H apply_swap message k sw r w =
     (let (payload, w) = take_pending_swap H sw w in
      case payload of
        Some p \<Rightarrow> let (r, w) = apply_swap p r w in Some (LoopContinue r, w)
      | None \<Rightarrow>
          (case runner_input H k sw r w of
             None \<Rightarrow> None
           | Some (InputEnvelope env, r, w) \<Rightarrow> Some (message env r w)
           | Some (InputSwap, r, w) \<Rightarrow> Some (LoopContinue r, w)
           | Some (InputClosed, r, w) \<Rightarrow> Some (LoopBreak (Inr ()) r, w)))"

text \<open>After the loop the retries that are left go to the dead-letter queue.\<close>

definition drain_and_exit ::
    "('x, 's, 'h) runner_host_scheme \<Rightarrow> exit_result \<times> ('n, 'z) runner_scheme \<times> ('x, 's) world
       \<Rightarrow> exit_result \<times> ('n, 'z) runner_scheme \<times> ('x, 's) world" where
  "drain_and_exit H ex =
     (case ex of (e, r, w) \<Rightarrow>
        let (x, m, w) = flush_to_dlq H RShutdown (rn_policy r) (rn_metrics r) w
        in (e, r\<lparr>rn_policy := x, rn_metrics := m\<rparr>, w))"

definition runner_start ::
    "'n \<Rightarrow> tracked_receiver \<Rightarrow> error_policy_executor \<Rightarrow> node_state_tracker \<Rightarrow> node_metrics \<Rightarrow> 'n runner" where
  "runner_start n rx x st m =
     \<lparr>rn_node = n, rn_receiver = rx, rn_policy = x, rn_state = snd (transition_to_running st),
      rn_metrics = m, rn_pending_swap = None, rn_held = None\<rparr>"

section \<open>Conservation\<close>

text \<open>
  The balance of a runner: messages settled, waiting for a retry or held back, less the messages
  taken from its queue. Every step keeps it, except that handling a message that was handed out
  raises it by one.
\<close>

definition balance :: "nat \<Rightarrow> ('n, 'z) runner_scheme \<Rightarrow> ('x, 's) world \<Rightarrow> u64" where
  "balance q r w =
     settled (rn_metrics r) + of_nat (pending_retries (rn_policy r)) + opt_count (rn_held r)
       - dequeued q (w_queues w)"

definition wired :: "nat \<Rightarrow> ('n, 'z) runner_scheme \<Rightarrow> bool" where
  "wired q r \<longleftrightarrow> tr_queue_metrics (rn_receiver r) = Some q"

text \<open>What the handling of a message may change: everything but the input side.\<close>

definition same_input :: "('n, 'z) runner_scheme \<Rightarrow> ('n, 'z) runner_scheme \<Rightarrow> bool" where
  "same_input r r' \<longleftrightarrow> rn_receiver r' = rn_receiver r \<and> rn_held r' = rn_held r \<and>
     runner.more r' = runner.more r"

lemma same_input_refl [simp]: "same_input r r"
  by (simp add: same_input_def)

lemma same_input_trans: "same_input r r' \<Longrightarrow> same_input r' r'' \<Longrightarrow> same_input r r''"
  by (simp add: same_input_def)

lemma same_input_update [simp]:
  "same_input r (r\<lparr>rn_node := n\<rparr>)" "same_input r (r\<lparr>rn_metrics := m\<rparr>)" "same_input r (note_error e r)"
  "same_input (r\<lparr>rn_node := n\<rparr>) r' \<longleftrightarrow> same_input r r'" "same_input (note_error e r) r' \<longleftrightarrow> same_input r r'"
  "same_input (r\<lparr>rn_metrics := m\<rparr>) r' \<longleftrightarrow> same_input r r'"
  by (simp_all add: same_input_def note_error_def)

lemma same_input_wired: "same_input r r' \<Longrightarrow> wired q r' \<longleftrightarrow> wired q r"
  by (simp add: same_input_def wired_def)

lemma balance_update [simp]:
  "balance q (r\<lparr>rn_node := n\<rparr>) w = balance q r w"
  "balance q (r\<lparr>rn_state := st\<rparr>) w = balance q r w"
  "balance q (r\<lparr>rn_pending_swap := g\<rparr>) w = balance q r w"
  "balance q (note_error e r) w = balance q r w"
  by (simp_all add: balance_def note_error_def)

lemma handle_counted:
  assumes "handle H err env x w = (a, x', w')"
  shows "settled (snd (continue_after_policy_action a m)) + of_nat (pending_retries x') =
    settled m + of_nat (pending_retries x) + 1"
proof (cases "a = Retried")
  case True
  from handle_Retried [OF assms [unfolded True]] have "pending_retries x' = Suc (pending_retries x)"
    by (auto simp: pending_retries_def buffer_len_def buffer_push_def)
  with True show ?thesis by (simp add: continue_after_policy_action_def)
next
  case False
  with handle_not_Retried [OF assms] have "x' = x" by simp
  with False show ?thesis by (cases a) (simp_all add: continue_after_policy_action_def)
qed

lemma apply_policy_balance:
  assumes "quiet H (dequeued q)" "apply_policy H err env r w = (go, r', w')"
  shows "same_input r r' \<and> balance q r' w' = balance q r w + 1 \<and> rn_pending_swap r' = rn_pending_swap r"
proof -
  obtain a x' w1 where h: "handle H err env (rn_policy r) w = (a, x', w1)" by (metis prod_cases3)
  have "dequeued q (w_queues w1) = dequeued q (w_queues w)"
    using quiet_handle [OF assms(1), of err env "rn_policy r" w] h by simp
  moreover have "r' = r\<lparr>rn_policy := x', rn_metrics := snd (continue_after_policy_action a (rn_metrics r))\<rparr>"
    "w' = w1"
    using assms(2) h by (auto simp: apply_policy_def Let_def case_prod_beta)
  ultimately show ?thesis using handle_counted [OF h, of "rn_metrics r"]
    by (simp add: balance_def same_input_def algebra_simps)
qed

lemma flush_balance:
  assumes "quiet H (dequeued q)" "flush_to_dlq H reason (rn_policy r) (rn_metrics r) w = (x, m, w')"
  shows "dequeued q (w_queues w') = dequeued q (w_queues w) \<and> pending_retries x = 0 \<and>
    settled m = settled (rn_metrics r) + of_nat (pending_retries (rn_policy r))"
  using quiet_flush [OF assms(1), of reason "rn_policy r" "rn_metrics r" w]
    flush_to_dlq_settled [of H reason "rn_policy r" "rn_metrics r" w]
    flush_to_dlq_executor [of H reason "rn_policy r" "rn_metrics r" w] assms(2)
  by (simp add: pending_retries_def buffer_len_def)

lemma to_error_quiet:
  assumes "quiet H (dequeued q)" "transition_to_error H st w = (b, st', w')"
  shows "dequeued q (w_queues w') = dequeued q (w_queues w)"
  using quiet_to_error [OF assms(1), of st w] assms(2) by simp

lemma timed_quiet:
  assumes "quiet H (dequeued q)" "transition_recovering_to_running_timed H st w = (d, st', w')"
  shows "dequeued q (w_queues w') = dequeued q (w_queues w)"
  using quiet_timed [OF assms(1), of st w] assms(2) by simp

lemma adopt_swap_balance:
  assumes "quiet H (dequeued q)" "adopt_swap H g r w = (r', w')"
  shows "same_input r r' \<and> balance q r' w' = balance q r w"
proof -
  obtain x m w1 where f: "flush_to_dlq H RHotSwapDrain (rn_policy r) (rn_metrics r) w = (x, m, w1)"
    by (metis prod_cases3)
  from flush_balance [OF assms(1) f] assms(2) f show ?thesis
    by (auto simp: adopt_swap_def same_input_def balance_def quiet_mark_adopted [OF assms(1)])
qed

lemma reject_swap_queues [simp]: "w_queues (reject_swap g e w) = w_queues w"
  by (simp add: reject_swap_def)

lemma report_first_balance:
  assumes "quiet H (dequeued q)" "report_first_outcome H oc r w = (r', w')"
  shows "same_input r r' \<and> balance q r' w' = balance q r w"
  using assms(2)
  by (auto simp: report_first_outcome_def same_input_def balance_def quiet_mark_outcome [OF assms(1)]
      split: option.splits)

lemma runner_input_balance:
  assumes "quiet H (dequeued q)" "wired q r" "runner_input H k sw r w = Some (nxt, r', w')"
  shows "wired q r' \<and> balance q r' w' + input_count nxt = balance q r w \<and> runner.more r' = runner.more r \<and>
    (nxt \<noteq> InputSwap \<longrightarrow> rn_held r' = None)"
proof -
  from assms(3) obtain held rx x where
    n: "next_input H k sw (rn_held r) (rn_receiver r) (rn_policy r) w = Some (nxt, held, rx, x, w')"
    and r': "r' = r\<lparr>rn_held := held, rn_receiver := rx, rn_policy := x\<rparr>"
    by (auto simp: runner_input_def split: option.splits)
  from next_input_spec [OF assms(1) assms(2) [unfolded wired_def] n] r' assms(2) show ?thesis
    by (auto simp: balance_def wired_def same_channel_def algebra_simps)
qed

lemma balance_world:
  "dequeued q (w_queues w') = dequeued q (w_queues w) \<Longrightarrow> balance q r w' = balance q r w"
  by (simp add: balance_def)

lemma step_of_exit_eq:
  "step_of_exit (res, r, w) = (st, w') \<longleftrightarrow>
     w' = w \<and> st = (case res of Inr _ \<Rightarrow> LoopContinue r | Inl e \<Rightarrow> LoopBreak (Inl e) r)"
  by (auto simp: step_of_exit_def split: sum.splits)

lemma step_of_policy_eq:
  "step_of_policy (go, r, w) = (st, w') \<longleftrightarrow>
     w' = w \<and> st = (if go then LoopContinue r else LoopBreak (Inl policy_teardown) r)"
  by (auto simp: step_of_policy_def)

fun loop_runner :: "'r loop_step \<Rightarrow> 'r" where
  "loop_runner (LoopContinue r) = r"
| "loop_runner (LoopBreak _ r) = r"

lemma loop_runner_step [simp]:
  "loop_runner (case res of Inr _ \<Rightarrow> LoopContinue r | Inl e \<Rightarrow> LoopBreak (Inl e) r) = r"
  by (cases res) simp_all

lemma replace_instance_fields:
  "replace_instance H recover r w = (res, r', w') \<Longrightarrow> same_input r r' \<and> rn_pending_swap r' = rn_pending_swap r"
  by (auto simp: replace_instance_def same_input_def Let_def case_prod_beta split: sum.splits)

lemma recover_condemned_fields:
  "recover_condemned H recover err env r w = (res, r', w') \<Longrightarrow>
     same_input r r' \<and> rn_pending_swap r' = rn_pending_swap r"
  by (auto simp: recover_condemned_def case_prod_beta dest: replace_instance_fields)

text \<open>
  The contract of a node's \<open>recover_from_cached_pre\<close>: while it runs, nobody takes messages from the
  runner's queue. Under it both recoveries account for the message they are called with.
\<close>

locale recoverable =
  fixes recover :: "('x, 's, 'h) runner_host_scheme \<Rightarrow> 'n \<Rightarrow> ('x, 's) world
      \<Rightarrow> (wafer_error, unit) result \<times> 'n \<times> ('x, 's) world"
  assumes recover_quiet: "quiet H (dequeued q) \<Longrightarrow>
      dequeued q (w_queues (snd (snd (recover H n w)))) = dequeued q (w_queues w)"
begin

lemma replace_instance_balance:
  assumes "quiet H (dequeued q)" "replace_instance H (recover H) r w = (res, r', w')"
  shows "same_input r r' \<and> balance q r' w' = balance q r w \<and> rn_pending_swap r' = rn_pending_swap r"
proof -
  obtain b st w1 where e: "transition_to_error H (rn_state r) w = (b, st, w1)" by (metis prod_cases3)
  obtain b' st' where rc: "transition_to_recovering st = (b', st')" by fastforce
  obtain rs n w2 where rec: "recover H (rn_node r) w1 = (rs, n, w2)" by (metis prod_cases3)
  have w2: "dequeued q (w_queues w2) = dequeued q (w_queues w)"
    using to_error_quiet [OF assms(1) e] recover_quiet [OF assms(1), of "rn_node r" w1] rec by simp
  show ?thesis
  proof (cases rs)
    case (Inl err)
    obtain b2 st2 w3 where e2: "transition_to_error H st' w2 = (b2, st2, w3)" by (metis prod_cases3)
    obtain x m w4 where f: "flush_to_dlq H RRecoveryFailed (rn_policy r) (rn_metrics r) w3 = (x, m, w4)"
      by (metis prod_cases3)
    from assms(2) e rc rec Inl e2 f to_error_quiet [OF assms(1) e2] flush_balance [OF assms(1) f] w2
    show ?thesis by (auto simp: replace_instance_def same_input_def balance_def)
  next
    case (Inr u)
    obtain d st2 w3 where t: "transition_recovering_to_running_timed H st' w2 = (d, st2, w3)"
      by (metis prod_cases3)
    from assms(2) e rc rec Inr t timed_quiet [OF assms(1) t] w2 show ?thesis
      by (cases d) (auto simp: replace_instance_def same_input_def balance_def)
  qed
qed

lemma recover_after_timeout_balance:
  assumes "quiet H (dequeued q)" "recover_after_timeout H (recover H) err env r w = (res, r', w')"
  shows "same_input r r' \<and> balance q r' w' = balance q r w + 1"
proof -
  obtain go r1 w1 where p: "apply_policy H err env r w = (go, r1, w1)" by (metis prod_cases3)
  note p_spec = apply_policy_balance [OF assms(1) p]
  show ?thesis
  proof (cases go)
    case True
    with assms(2) p have "replace_instance H (recover H) r1 w1 = (res, r', w')"
      by (simp add: recover_after_timeout_def)
    from replace_instance_balance [OF assms(1) this] p_spec show ?thesis
      by (auto intro: same_input_trans)
  qed (use assms(2) p p_spec in \<open>auto simp: recover_after_timeout_def\<close>)
qed

lemma recover_condemned_balance:
  assumes "quiet H (dequeued q)" "recover_condemned H (recover H) err env r w = (res, r', w')"
  shows "same_input r r' \<and> balance q r' w' = balance q r w + 1"
proof -
  obtain m w1 where c: "record_condemned H (rn_policy r) env err (rn_metrics r) w = (m, w1)" by fastforce
  with assms(2) have run: "replace_instance H (recover H) (r\<lparr>rn_metrics := m\<rparr>) w1 = (res, r', w')"
    by (simp add: recover_condemned_def)
  have "settled m = settled (rn_metrics r) + 1" "dequeued q (w_queues w1) = dequeued q (w_queues w)"
    using record_condemned_settled [of H "rn_policy r" env err "rn_metrics r" w]
      quiet_condemned [OF assms(1), of "rn_policy r" env err "rn_metrics r" w] c by simp_all
  with replace_instance_balance [OF assms(1) run] show ?thesis by (simp add: balance_def)
qed

lemma node_failure_balance:
  assumes "quiet H (dequeued q)" "node_failure H (recover H) err env r w = (st, w')"
  shows "same_input r (loop_runner st) \<and> balance q (loop_runner st) w' = balance q r w + 1"
proof -
  note step = assms(2) [unfolded node_failure_def Let_def]
  consider (budget) "is_budget_exhausted err" | (condemn) "\<not> is_budget_exhausted err" "is_condemning err"
    | (policy) "\<not> is_budget_exhausted err" "\<not> is_condemning err" by blast
  then show ?thesis
  proof cases
    case budget
    obtain ex r2 w2 where t: "recover_after_timeout H (recover H) err env (note_error err r) w = (ex, r2, w2)"
      by (metis prod_cases3)
    from recover_after_timeout_balance [OF assms(1) t] step budget t show ?thesis
      by (auto simp: step_of_exit_eq)
  next
    case condemn
    obtain ex r2 w2 where t: "recover_condemned H (recover H) err env (note_error err r) w = (ex, r2, w2)"
      by (metis prod_cases3)
    from recover_condemned_balance [OF assms(1) t] step condemn t show ?thesis
      by (auto simp: step_of_exit_eq)
  next
    case policy
    obtain go r2 w2 where t: "apply_policy H err env (note_error err r) w = (go, r2, w2)"
      by (metis prod_cases3)
    from apply_policy_balance [OF assms(1) t] step policy t show ?thesis
      by (auto simp: step_of_policy_eq)
  qed
qed

end

interpretation transform_rec: recoverable tn_recover
  by unfold_locales (simp add: quiet_intros)

interpretation filter_rec: recoverable fn_recover
  by unfold_locales (simp add: quiet_intros)

interpretation router_rec: recoverable router_recover
  by unfold_locales (simp add: quiet_intros)

text \<open>
  A loop body that keeps a balance, under a condition \<open>ok\<close> on the environment and the runner that it
  keeps too, and that leaves nothing in hand when it breaks: the whole loop does the same.
\<close>

locale conserving_loop =
  fixes body :: "'c \<Rightarrow> 'r \<Rightarrow> 'w \<Rightarrow> ('r loop_step \<times> 'w) option"
    and ok :: "'c \<Rightarrow> 'r \<Rightarrow> bool" and total :: "'c \<Rightarrow> 'r \<Rightarrow> 'w \<Rightarrow> u64" and empty_handed :: "'r \<Rightarrow> bool"
  assumes continue_keeps: "ok c r \<Longrightarrow> body c r w = Some (LoopContinue r', w') \<Longrightarrow>
      ok c r' \<and> total c r' w' = total c r w"
    and break_keeps: "ok c r \<Longrightarrow> body c r w = Some (LoopBreak e r', w') \<Longrightarrow>
      ok c r' \<and> total c r' w' = total c r w \<and> empty_handed r'"
begin

lemma run_keeps:
  "ok c r \<Longrightarrow> run_loop (body c) k r w = Some (e, r', w') \<Longrightarrow>
     ok c r' \<and> total c r' w' = total c r w \<and> empty_handed r'"
proof (induction k arbitrary: r w)
  case (Suc k)
  from Suc.prems(2) obtain st w1 where b: "body c r w = Some (st, w1)"
    by (cases "body c r w") auto
  show ?case
  proof (cases st)
    case (LoopContinue r1)
    with Suc.prems(2) b have "run_loop (body c) k r1 w1 = Some (e, r', w')" by simp
    with Suc.IH continue_keeps [OF Suc.prems(1)] b LoopContinue show ?thesis by metis
  next
    case (LoopBreak e1 r1)
    with Suc.prems(2) b break_keeps [OF Suc.prems(1)] show ?thesis by auto
  qed
qed simp

end

lemma drain_balance:
  assumes "quiet H (dequeued q)" "drain_and_exit H (e, r, w) = (e', r', w')"
  shows "e' = e \<and> balance q r' w' = balance q r w \<and> pending_retries (rn_policy r') = 0 \<and>
    rn_held r' = rn_held r \<and> runner.more r' = runner.more r \<and> rn_state r' = rn_state r \<and> rn_node r' = rn_node r"
proof -
  obtain x m w1 where f: "flush_to_dlq H RShutdown (rn_policy r) (rn_metrics r) w = (x, m, w1)"
    by (metis prod_cases3)
  from flush_balance [OF assms(1) f] assms(2) f show ?thesis
    by (auto simp: drain_and_exit_def balance_def)
qed

text \<open>
  The contract of a filter or router: applying a swap keeps the balance, handling a message counts
  it once, and neither touches the input side. It makes the body of its loop conserving, and the
  finished loop settles exactly the messages it took from its queue.
\<close>

locale relay_node =
  fixes apply_swap :: "('x, 's, 'h) runner_host_scheme \<Rightarrow> swap_payload \<Rightarrow> 'n runner \<Rightarrow> ('x, 's) world
      \<Rightarrow> 'n runner \<times> ('x, 's) world"
    and message :: "('x, 's, 'h) runner_host_scheme \<Rightarrow> downstream_sender list \<Rightarrow> runtime_envelope
      \<Rightarrow> 'n runner \<Rightarrow> ('x, 's) world \<Rightarrow> 'n runner loop_step \<times> ('x, 's) world"
  assumes swap_keeps: "quiet H (dequeued q) \<Longrightarrow> apply_swap H p r w = (r', w') \<Longrightarrow>
      same_input r r' \<and> balance q r' w' = balance q r w"
    and message_counts: "quiet H (dequeued q) \<Longrightarrow> message H senders env r w = (st, w') \<Longrightarrow>
      same_input r (loop_runner st) \<and> balance q (loop_runner st) w' = balance q r w + 1"
begin

lemma iteration_balance:
  assumes "quiet H (dequeued q)" "wired q r"
    and "node_iteration H (apply_swap H) (message H senders) k sw r w = Some (st, w')"
  shows "wired q (loop_runner st) \<and> balance q (loop_runner st) w' = balance q r w \<and>
    (\<forall>e r'. st = LoopBreak e r' \<longrightarrow> rn_held r' = None)"
proof -
  obtain payload w1 where p: "take_pending_swap H sw w = (payload, w1)" by fastforce
  have w1: "balance q r w1 = balance q r w"
    using quiet_take_pending [OF assms(1), of sw w] p by (simp add: balance_def)
  show ?thesis
  proof (cases payload)
    case (Some pl)
    obtain r2 w2 where s: "apply_swap H pl r w1 = (r2, w2)" by fastforce
    with assms(3) p Some have "st = LoopContinue r2" "w' = w2" by (simp_all add: node_iteration_def)
    with swap_keeps [OF assms(1) s] w1 assms(2) show ?thesis by (auto dest: same_input_wired)
  next
    case None
    with assms(3) p obtain nxt r2 w2 where i: "runner_input H k sw r w1 = Some (nxt, r2, w2)"
      by (cases "runner_input H k sw r w1") (auto simp: node_iteration_def)
    note i_spec = runner_input_balance [OF assms(1,2) i]
    show ?thesis
    proof (cases nxt)
      case (InputEnvelope env)
      with assms(3) p None i have m: "message H senders env r2 w2 = (st, w')"
        by (simp add: node_iteration_def)
      have same: "same_input r2 (loop_runner st)" and "balance q (loop_runner st) w' = balance q r2 w2 + 1"
        using message_counts [OF assms(1) m] by simp_all
      moreover have "wired q (loop_runner st)" "rn_held (loop_runner st) = None"
        using same_input_wired [OF same, of q] same i_spec InputEnvelope by (simp_all add: same_input_def)
      ultimately show ?thesis using i_spec InputEnvelope w1 by auto
    qed (use assms(3) p None i i_spec w1 in \<open>auto simp: node_iteration_def\<close>)
  qed
qed

end

sublocale relay_node \<subseteq> run: conserving_loop
  "\<lambda>(H, senders, k, sw, q). node_iteration H (apply_swap H) (message H senders) k sw"
  "\<lambda>(H, senders, k, sw, q) r. quiet H (dequeued q) \<and> wired q r"
  "\<lambda>(H, senders, k, sw, q). balance q" "\<lambda>r. rn_held r = None"
proof (unfold_locales, goal_cases)
  case (1 c r w r' w')
  then show ?case by (cases c) (auto dest!: iteration_balance)
next
  case (2 c r w e r' w')
  then show ?case by (cases c) (auto dest!: iteration_balance)
qed

context relay_node
begin

lemma loop_settles:
  assumes "quiet H (dequeued q)" "tr_queue_metrics rx = Some q"
    and "map_option (drain_and_exit H) (run_loop (node_iteration H (apply_swap H) (message H senders) k sw)
        k' (runner_start n rx x st m) w) = Some (e, r', w')"
  shows "settled (rn_metrics r') + dequeued q (w_queues w) =
      settled m + of_nat (pending_retries x) + dequeued q (w_queues w') \<and>
    pending_retries (rn_policy r') = 0 \<and> rn_held r' = None"
proof -
  let ?r = "runner_start n rx x st m"
  from assms(3) obtain e1 r1 w1 where
    run: "run_loop (node_iteration H (apply_swap H) (message H senders) k sw) k' ?r w = Some (e1, r1, w1)"
    and d: "drain_and_exit H (e1, r1, w1) = (e, r', w')" by auto
  have "quiet H (dequeued q) \<and> wired q ?r" using assms(1,2) by (simp add: wired_def runner_start_def)
  from run.run_keeps [of "(H, senders, k, sw, q)", unfolded prod.case, OF this run]
  have kept: "balance q r1 w1 = balance q ?r w" "rn_held r1 = None" by auto
  note drained = drain_balance [OF assms(1) d]
  then have "balance q r' w' = balance q ?r w" using kept by simp
  with drained kept(2) show ?thesis by (simp add: balance_def runner_start_def algebra_simps)
qed

end

section \<open>Evaluating a loop on the concrete runtime\<close>

lemma sample_runner_simps [simp]:
  "h_now sample_runner = sample_tick" "h_cancelled sample_runner w = (snd (snd (w_ext w)) = 0, w)"
  "h_recv_poll sample_runner c w =
     (case w_ext w of ([], _) \<Rightarrow> (RecvClosed, w) | (e # es, tk) \<Rightarrow> (RecvMessage e, w\<lparr>w_ext := (es, tk)\<rparr>))"
  "h_has_changed sample_runner c w = Some False" "h_changed_poll sample_runner c w = (WatchPending, w)"
  "h_try_send sample_runner c e w = (SendOk, w)" "h_dlq_try_send sample_runner c d w = (SendOk, w)"
  "h_borrow_and_update sample_runner c w = (None, w)" "h_mark_changed sample_runner c w = w"
  by (simp_all add: sample_runner_def)

lemmas loop_eval =
  eval_nat_numeral node_iteration_def take_pending_swap_def swap_pending_def runner_start_def
  runner_input_def next_input_def sample_executor_def executor_new_def retry_buffer_new_def
  next_ready_retry_def next_ready_def take_due_def sample_tick_def sample_start_def
  next_retry_deadline_def next_deadline_def tracked_receiver_new_def poll_input_def
  tracked_recv_poll_def Let_def record_processed_def send_downstream_def send_matching_def send_one_def
  sample_sender_def update_queue_def report_first_outcome_def drain_and_exit_def flush_to_dlq_def
  drain_all_def dequeued_def record_dequeued_def record_enqueued_def queue_metrics_default_def
  node_metrics_new_def settled_def pending_retries_def buffer_len_def

end
