(* ===== verification/Builder.thy ===== *)
theory Builder
  imports Validation NodeLoop
begin

text \<open>
  Building a pipeline, \<open>wafer-core/src/orchestrator/builder.rs\<close>: one queue per destination node, one
  sender per edge, and the bundle each node task gets. Channels and queue metrics are numbered in
  the order they are created; \<open>iter\<close> is the order in which the hash map of the edges by destination
  is iterated. Sources and sinks are values of any type \<open>'i\<close> and \<open>'o\<close>. The builder leaves the slot of
  the compiled node empty. Its maps of state trackers and metrics share the values the bundles hold,
  so they are not repeated here; the dead-letter receiver is given by its channel's capacity.
\<close>

section \<open>Queue wiring\<close>

record edge_sender =
  es_from_node :: string
  es_from_port :: string
  es_to_node :: string
  es_to_port :: string
  es_sender :: nat
  es_overflow :: overflow_policy
  es_queue_metrics :: nat

record queue_probe =
  qp_queue :: string
  qp_capacity :: usize
  qp_metrics :: nat

record queue_wiring =
  qw_receivers :: "string \<rightharpoonup> tracked_receiver"
  qw_edge_senders :: "edge_sender list"
  qw_dlq_sender :: "nat option"
  qw_queue_probes :: "queue_probe list"
  qw_next_channel :: nat

type_synonym edge_groups = "string \<rightharpoonup> edge_def list"

definition group_edge :: "edge_groups \<Rightarrow> edge_def \<Rightarrow> edge_groups" where
  "group_edge m e = m(ed_to e \<mapsto> (case m (ed_to e) of None \<Rightarrow> [e] | Some es \<Rightarrow> es @ [e]))"

definition edges_by_dest :: "edge_def list \<Rightarrow> edge_groups" where
  "edges_by_dest edges = foldl group_edge Map.empty edges"

definition queue_capacity :: "usize \<Rightarrow> edge_def list \<Rightarrow> usize" where
  "queue_capacity default_capacity edges_to_dest =
     (let caps = List.map_filter ed_capacity edges_to_dest in
      if caps = [] then default_capacity else foldl max (hd caps) (tl caps))"

definition edge_sender_for :: "nat \<Rightarrow> string \<Rightarrow> edge_def \<Rightarrow> edge_sender" where
  "edge_sender_for ch to_node e =
     \<lparr>es_from_node = ed_from e,
      es_from_port = (case ed_port e of None \<Rightarrow> ''default'' | Some p \<Rightarrow> p),
      es_to_node = to_node, es_to_port = ''default'', es_sender = ch,
      es_overflow = (case ed_overflow e of None \<Rightarrow> overflow_default | Some p \<Rightarrow> p),
      es_queue_metrics = ch\<rparr>"

definition wire_queues ::
    "(edge_groups \<Rightarrow> (string \<times> edge_def list) list) \<Rightarrow> edge_def list \<Rightarrow> usize \<Rightarrow> queue_wiring" where
  "wire_queues iter edges default_capacity =
     (let groups = iter (edges_by_dest edges); numbered = enumerate 0 groups in
      \<lparr>qw_receivers = map_of (map (\<lambda>(ch, to_node, _). (to_node, tracked_receiver_new ch ch)) numbered),
       qw_edge_senders = concat (map (\<lambda>(ch, to_node, es). map (edge_sender_for ch to_node) es) numbered),
       qw_dlq_sender = None,
       qw_queue_probes = map (\<lambda>(ch, to_node, es).
         \<lparr>qp_queue = to_node, qp_capacity = queue_capacity default_capacity es, qp_metrics = ch\<rparr>) numbered,
       qw_next_channel = length groups\<rparr>)"

text \<open>A node without an inbound edge gets the receiver of a fresh channel whose sender is gone.\<close>

definition take_receiver :: "string \<Rightarrow> queue_wiring \<Rightarrow> tracked_receiver \<times> queue_wiring" where
  "take_receiver v w =
     (case qw_receivers w v of
        Some r \<Rightarrow> (r, w\<lparr>qw_receivers := (qw_receivers w)(v := None)\<rparr>)
      | None \<Rightarrow> (tracked_receiver_from (qw_next_channel w), w\<lparr>qw_next_channel := qw_next_channel w + 1\<rparr>))"

definition collect_downstream_senders :: "string \<Rightarrow> queue_wiring \<Rightarrow> downstream_sender list" where
  "collect_downstream_senders v w =
     map (\<lambda>e. \<lparr>ds_sender = es_sender e, ds_port = es_from_port e,
               ds_edge = es_from_node e @ '':'' @ es_from_port e @ ''->'' @ es_to_node e @ '':'' @ es_to_port e,
               ds_source_node = es_from_node e, ds_overflow = es_overflow e,
               ds_dlq_sender = qw_dlq_sender w, ds_queue_metrics = Some (es_queue_metrics e)\<rparr>)
       (filter (\<lambda>e. es_from_node e = v) (qw_edge_senders w))"

section \<open>Bundles\<close>

datatype ('i, 'o, 's) node_bundle_kind =
    BundleTransform tracked_receiver "downstream_sender list" nat error_policy_executor "'s transform_node option"
  | BundleFilter tracked_receiver "downstream_sender list" nat error_policy_executor "'s filter_node option"
  | BundleRouter tracked_receiver "downstream_sender list" nat error_policy_executor "'s wasm_node option"
  | BundleSource "'i option" "downstream_sender list"
  | BundleSink "'o option" tracked_receiver

record ('i, 'o, 's) node_bundle =
  nb_node_id :: string
  nb_kind :: "('i, 'o, 's) node_bundle_kind"
  nb_state :: node_state_tracker
  nb_metrics :: node_metrics

record ('i, 'o, 's) build_output =
  bo_node_bundles :: "('i, 'o, 's) node_bundle list"
  bo_watch_senders :: "string \<rightharpoonup> nat"
  bo_dlq :: "(usize \<times> dead_letter_config) option"
  bo_dag_graph :: dag_graph
  bo_replacement_eligible :: "string set"
  bo_queue_probes :: "queue_probe list"

definition resolve_error_policy :: "config \<Rightarrow> string \<Rightarrow> resolved_error_policy" where
  "resolve_error_policy c v =
     resolved_error_policy_from
       (case effective_error_policy c v of None \<Rightarrow> cf_error_policy c | Some p \<Rightarrow> p)"

definition validate_channel_capacities :: "config \<Rightarrow> (wafer_error, unit) result" where
  "validate_channel_capacities c =
     (if ec_default_queue_capacity (cf_engine c) = 0
      then Inl (ConfigErr (CfgMessage ''engine.default_queue_capacity must be greater than zero''))
      else if list_ex (\<lambda>e. ed_capacity e = Some 0) (cf_edges c)
      then Inl (ConfigErr (CfgMessage ''edge capacity must be greater than zero''))
      else if map_option dead_letter_queue_capacity (cf_dead_letter c) = Some 0
      then Inl (ConfigErr (CfgMessage ''dead_letter.queue_capacity must be greater than zero''))
      else Inr ())"

text \<open>
  The bundle of one node. The dead-letter channel has the number \<open>0\<close> among the dead-letter channels,
  the watch channels are numbered by their node's position.
\<close>

definition build_node ::
    "config \<Rightarrow> nat option \<Rightarrow> (string \<rightharpoonup> 'i) \<Rightarrow> (string \<rightharpoonup> 'o) \<Rightarrow> nat \<Rightarrow> string \<Rightarrow> node_def \<Rightarrow> queue_wiring
       \<Rightarrow> ('i, 'o, 's) node_bundle_kind \<times> queue_wiring" where
  "build_node c dlq_tx sources sinks watch v n w =
     (let policy = executor_new (resolve_error_policy c v) dlq_tx v in
      case category n of
        CTransform \<Rightarrow>
          let (r, w) = take_receiver v w in (BundleTransform r (collect_downstream_senders v w) watch policy None, w)
      | CFilter \<Rightarrow>
          let (r, w) = take_receiver v w in (BundleFilter r (collect_downstream_senders v w) watch policy None, w)
      | CRouter \<Rightarrow>
          let (r, w) = take_receiver v w in (BundleRouter r (collect_downstream_senders v w) watch policy None, w)
      | CSource \<Rightarrow> (BundleSource (sources v) (collect_downstream_senders v w), w)
      | CSink \<Rightarrow> let (r, w) = take_receiver v w in (BundleSink (sinks v) r, w))"

fun build_nodes ::
    "config \<Rightarrow> nat option \<Rightarrow> (string \<rightharpoonup> 'i) \<Rightarrow> (string \<rightharpoonup> 'o) \<Rightarrow> (string \<Rightarrow> instant) \<Rightarrow> nat
       \<Rightarrow> (string \<times> node_def) list \<Rightarrow> queue_wiring \<Rightarrow> ('i, 'o, 's) node_bundle list \<times> queue_wiring" where
  "build_nodes c dlq_tx sources sinks now i [] w = ([], w)"
| "build_nodes c dlq_tx sources sinks now i ((v, n) # ns) w =
     (let (kind, w) = build_node c dlq_tx sources sinks i v n w;
          (bundles, w) = build_nodes c dlq_tx sources sinks now (Suc i) ns w
      in (\<lparr>nb_node_id = v, nb_kind = kind, nb_state = state_new (now v), nb_metrics = node_metrics_new\<rparr>
            # bundles, w))"

definition build_pipeline_inner ::
    "toposort \<Rightarrow> (edge_groups \<Rightarrow> (string \<times> edge_def list) list) \<Rightarrow> (string \<Rightarrow> instant) \<Rightarrow> config
       \<Rightarrow> (string \<rightharpoonup> 'i) \<Rightarrow> (string \<rightharpoonup> 'o) \<Rightarrow> (wafer_error, ('i, 'o, 's) build_output) result" where
  "build_pipeline_inner topo iter now c sources sinks =
     (case dag_from_config topo c of
        Inl e \<Rightarrow> Inl e
      | Inr g \<Rightarrow>
          (case validate_channel_capacities c of
             Inl e \<Rightarrow> Inl e
           | Inr _ \<Rightarrow>
               let wiring = wire_queues iter (cf_edges c) (ec_default_queue_capacity (cf_engine c));
                   dlq_tx = (if cf_dead_letter c = None then None else Some 0);
                   dlq = map_option (\<lambda>d. (dead_letter_queue_capacity d, d)) (cf_dead_letter c);
                   wiring = wiring\<lparr>qw_dlq_sender := dlq_tx\<rparr>;
                   (bundles, wiring') = build_nodes c dlq_tx sources sinks now 0 (cf_nodes c) wiring
               in Inr \<lparr>bo_node_bundles = bundles,
                       bo_watch_senders = map_of (concat (map (\<lambda>(i, v, n).
                          if category n \<in> {CTransform, CFilter, CRouter} then [(v, i)] else [])
                          (enumerate 0 (cf_nodes c)))),
                       bo_dlq = dlq, bo_dag_graph = g, bo_replacement_eligible = {},
                       bo_queue_probes = qw_queue_probes wiring'\<rparr>))"

definition build_pipeline ::
    "toposort \<Rightarrow> (edge_groups \<Rightarrow> (string \<times> edge_def list) list) \<Rightarrow> (string \<Rightarrow> instant) \<Rightarrow> config
       \<Rightarrow> (wafer_error, ('i, 'o, 's) build_output) result" where
  "build_pipeline topo iter now c = build_pipeline_inner topo iter now c Map.empty Map.empty"

definition build_pipeline_with_io ::
    "toposort \<Rightarrow> (edge_groups \<Rightarrow> (string \<times> edge_def list) list) \<Rightarrow> (string \<Rightarrow> instant) \<Rightarrow> config
       \<Rightarrow> (string \<rightharpoonup> 'i) \<Rightarrow> (string \<rightharpoonup> 'o) \<Rightarrow> (wafer_error, ('i, 'o, 's) build_output) result" where
  "build_pipeline_with_io topo iter now c sources sinks = build_pipeline_inner topo iter now c sources sinks"

section \<open>What the wiring promises\<close>

text \<open>The view of a bundle from its neighbours: its category, the queue it reads and the queues it feeds.\<close>

definition bundle_category :: "('i, 'o, 's) node_bundle \<Rightarrow> node_category" where
  "bundle_category b =
     (case nb_kind b of BundleTransform _ _ _ _ _ \<Rightarrow> CTransform | BundleFilter _ _ _ _ _ \<Rightarrow> CFilter
      | BundleRouter _ _ _ _ _ \<Rightarrow> CRouter | BundleSource _ _ \<Rightarrow> CSource | BundleSink _ _ \<Rightarrow> CSink)"

definition bundle_receiver :: "('i, 'o, 's) node_bundle \<Rightarrow> nat option" where
  "bundle_receiver b =
     (case nb_kind b of BundleTransform r _ _ _ _ \<Rightarrow> Some (tr_receiver r) | BundleFilter r _ _ _ _ \<Rightarrow> Some (tr_receiver r)
      | BundleRouter r _ _ _ _ \<Rightarrow> Some (tr_receiver r) | BundleSource _ _ \<Rightarrow> None | BundleSink _ r \<Rightarrow> Some (tr_receiver r))"

definition bundle_senders :: "('i, 'o, 's) node_bundle \<Rightarrow> downstream_sender list option" where
  "bundle_senders b =
     (case nb_kind b of BundleTransform _ s _ _ _ \<Rightarrow> Some s | BundleFilter _ s _ _ _ \<Rightarrow> Some s
      | BundleRouter _ s _ _ _ \<Rightarrow> Some s | BundleSource _ s \<Rightarrow> Some s | BundleSink _ _ \<Rightarrow> None)"

definition bundle_policy :: "('i, 'o, 's) node_bundle \<Rightarrow> error_policy_executor option" where
  "bundle_policy b =
     (case nb_kind b of BundleTransform _ _ _ p _ \<Rightarrow> Some p | BundleFilter _ _ _ p _ \<Rightarrow> Some p
      | BundleRouter _ _ _ p _ \<Rightarrow> Some p | BundleSource _ _ \<Rightarrow> None | BundleSink _ _ \<Rightarrow> None)"

text \<open>The sending end of an edge whose destination reads channel \<open>ch (ed_to e)\<close>.\<close>

definition edge_endpoint :: "(string \<Rightarrow> nat) \<Rightarrow> nat option \<Rightarrow> edge_def \<Rightarrow> downstream_sender" where
  "edge_endpoint ch dlq e =
     (let port = (case ed_port e of None \<Rightarrow> ''default'' | Some p \<Rightarrow> p) in
      \<lparr>ds_sender = ch (ed_to e), ds_port = port, ds_edge = ed_from e @ '':'' @ port @ ''->'' @ ed_to e @ '':default'',
       ds_source_node = ed_from e, ds_overflow = (case ed_overflow e of None \<Rightarrow> overflow_default | Some p \<Rightarrow> p),
       ds_dlq_sender = dlq, ds_queue_metrics = Some (ch (ed_to e))\<rparr>)"

lemma edges_by_dest_eq:
  "edges_by_dest edges v = (if \<exists>e \<in> set edges. ed_to e = v then Some (filter (\<lambda>e. ed_to e = v) edges) else None)"
  by (induction edges rule: rev_induct) (auto simp: edges_by_dest_def group_edge_def split: option.splits if_splits)

lemma mset_groups:
  assumes "distinct (map fst gs)" "\<And>v es. (v, es) \<in> set gs \<Longrightarrow> es = filter (\<lambda>e. f e = v) xs"
    "set (map fst gs) = f ` set xs"
  shows "mset (concat (map snd gs)) = mset xs"
proof (rule multiset_eqI)
  fix x
  have one: "count (mset (concat (map snd hs))) x = (if f x \<in> fst ` set hs then count (mset xs) x else 0)"
    if "distinct (map fst hs)" "set hs \<subseteq> set gs" for hs
    using that
  proof (induction hs)
    case (Cons h hs)
    then have "snd h = filter (\<lambda>e. f e = fst h) xs" using assms(2) [of "fst h" "snd h"] by simp
    with Cons show ?case by (auto simp: mset_filter)
  qed simp
  show "count (mset (concat (map snd gs))) x = count (mset xs) x"
    using one [OF assms(1)] assms(3) by (auto simp: count_eq_zero_iff)
qed

lemma enumerate_indices:
  "distinct (map fst gs) \<Longrightarrow> enumerate 0 gs = map (\<lambda>g. (the (node_indices_of (map fst gs) (fst g)), g)) gs"
proof (rule nth_equalityI)
  fix i assume d: "distinct (map fst gs)" and "i < length (enumerate 0 gs)"
  then have "node_indices_of (map fst gs) (fst (gs ! i)) = Some i" by (subst node_indices_Some) simp_all
  with \<open>i < length (enumerate 0 gs)\<close>
  show "enumerate 0 gs ! i = map (\<lambda>g. (the (node_indices_of (map fst gs) (fst g)), g)) gs ! i"
    by (simp add: nth_enumerate_eq)
qed simp

lemma map_of_by_key: "map_of (map (\<lambda>g. (fst g, h (fst g))) gs) v = (if v \<in> fst ` set gs then Some (h v) else None)"
  by (induction gs) auto

lemma wire_queues_exact:
  fixes edges cap iter
  defines "w \<equiv> wire_queues iter edges cap" and "dests \<equiv> ed_to ` set edges"
  assumes it: "hash_iteration iter (edges_by_dest edges)"
  shows "\<exists>ch. inj_on ch dests \<and> (\<forall>v \<in> dests. ch v < qw_next_channel w) \<and>
    (\<forall>v. qw_receivers w v = (if v \<in> dests then Some (tracked_receiver_new (ch v) (ch v)) else None)) \<and>
    mset (qw_edge_senders w) = mset (map (\<lambda>e. edge_sender_for (ch (ed_to e)) (ed_to e) e) edges) \<and>
    (\<forall>v. map_of (map (\<lambda>p. (qp_queue p, qp_capacity p)) (qw_queue_probes w)) v =
       (if v \<in> dests then Some (queue_capacity cap (filter (\<lambda>e. ed_to e = v) edges)) else None))"
proof -
  define gs where "gs = iter (edges_by_dest edges)"
  have d: "distinct (map fst gs)" and m: "map_of gs = edges_by_dest edges"
    using it by (simp_all add: hash_iteration_def gs_def)
  have dests: "set (map fst gs) = dests"
  proof -
    have "dom (edges_by_dest edges) = dests" by (auto simp: edges_by_dest_eq dests_def dom_def split: if_splits)
    then show ?thesis using dom_map_of_conv_image_fst [of gs] by (simp add: m)
  qed
  have grp: "es = filter (\<lambda>e. ed_to e = v) edges" if "(v, es) \<in> set gs" for v es
    using that d by (simp add: map_of_eq_Some_iff [symmetric] m edges_by_dest_eq split: if_splits)
  let ?ch = "\<lambda>v. the (node_indices_of (map fst gs) v)"
  have ix: "?ch v < length gs \<and> map fst gs ! ?ch v = v" if "v \<in> dests" for v
    using that node_indices_None [of "map fst gs" v] node_indices_Some [OF d, of v]
    by (cases "node_indices_of (map fst gs) v") (auto simp: dests [symmetric])
  have recv: "qw_receivers w = map_of (map (\<lambda>g. (fst g, tracked_receiver_new (?ch (fst g)) (?ch (fst g)))) gs)"
    by (simp add: w_def wire_queues_def Let_def gs_def [symmetric] enumerate_indices [OF d] case_prod_beta comp_def)
  have send: "qw_edge_senders w = concat (map (\<lambda>g. map (edge_sender_for (?ch (fst g)) (fst g)) (snd g)) gs)"
    by (simp add: w_def wire_queues_def Let_def gs_def [symmetric] enumerate_indices [OF d] case_prod_beta comp_def)
  have probe: "map (\<lambda>p. (qp_queue p, qp_capacity p)) (qw_queue_probes w) = map (\<lambda>g. (fst g, queue_capacity cap (snd g))) gs"
    by (simp add: w_def wire_queues_def Let_def gs_def [symmetric] enumerate_indices [OF d] case_prod_beta comp_def)
  have inj: "inj_on ?ch dests" by (rule inj_onI) (metis ix)
  have lt: "?ch v < qw_next_channel w" if "v \<in> dests" for v
    using ix [OF that] by (simp add: w_def wire_queues_def Let_def gs_def)
  have recv': "qw_receivers w v = (if v \<in> dests then Some (tracked_receiver_new (?ch v) (?ch v)) else None)" for v
    using map_of_by_key [of "\<lambda>v. tracked_receiver_new (?ch v) (?ch v)" gs v]
    by (simp only: recv dests [symmetric] set_map)
  have send': "mset (qw_edge_senders w) = mset (map (\<lambda>e. edge_sender_for (?ch (ed_to e)) (ed_to e) e) edges)"
  proof -
    have to: "ed_to e = fst g" if "g \<in> set gs" "e \<in> set (snd g)" for g e
      using grp [of "fst g" "snd g"] that by simp
    have "qw_edge_senders w = map (\<lambda>e. edge_sender_for (?ch (ed_to e)) (ed_to e) e) (concat (map snd gs))"
      unfolding send map_concat map_map by (rule arg_cong [of _ _ concat]) (simp add: to)
    moreover have "mset (concat (map snd gs)) = mset edges"
      by (rule mset_groups [OF d grp]) (simp_all only: dests dests_def)
    ultimately show ?thesis by (simp only: mset_map)
  qed
  have probe': "map_of (map (\<lambda>p. (qp_queue p, qp_capacity p)) (qw_queue_probes w)) v =
       (if v \<in> dests then Some (queue_capacity cap (filter (\<lambda>e. ed_to e = v) edges)) else None)" for v
    using map_of_map [of "queue_capacity cap" gs]
    by (simp add: probe m edges_by_dest_eq dests_def image_iff case_prod_beta') blast
  show ?thesis by (intro exI [of _ ?ch] conjI allI ballI inj lt recv' send' probe')
qed

section \<open>What the bundles are\<close>

lemmas bundle_views = bundle_category_def bundle_receiver_def bundle_senders_def bundle_policy_def

lemma take_receiver_frame:
  "take_receiver v w = (r, w') \<Longrightarrow>
     qw_edge_senders w' = qw_edge_senders w \<and> qw_dlq_sender w' = qw_dlq_sender w \<and>
     qw_queue_probes w' = qw_queue_probes w"
  by (auto simp: take_receiver_def split: option.splits)

lemma build_node_frame:
  "build_node c dlq src snk i v n w = (k, w') \<Longrightarrow>
     qw_edge_senders w' = qw_edge_senders w \<and> qw_dlq_sender w' = qw_dlq_sender w \<and>
     qw_queue_probes w' = qw_queue_probes w"
  by (auto simp: build_node_def Let_def dest: take_receiver_frame split: node_category.splits prod.splits)

lemma collect_frame:
  "qw_edge_senders w' = qw_edge_senders w \<and> qw_dlq_sender w' = qw_dlq_sender w \<and> P \<Longrightarrow>
     collect_downstream_senders v w' = collect_downstream_senders v w"
  by (simp add: collect_downstream_senders_def)

lemma collect_update [simp]:
  "collect_downstream_senders v (w\<lparr>qw_receivers := x\<rparr>) = collect_downstream_senders v w"
  "collect_downstream_senders v (w\<lparr>qw_next_channel := k\<rparr>) = collect_downstream_senders v w"
  by (simp_all add: collect_downstream_senders_def)

lemma build_node_views:
  fixes st m
  assumes "build_node c dlq src snk i v n w = (k, w')"
  defines "b \<equiv> \<lparr>nb_node_id = v, nb_kind = k, nb_state = st, nb_metrics = m\<rparr>"
  shows "bundle_category b = category n"
    and "bundle_senders b = (if category n = CSink then None else Some (collect_downstream_senders v w))"
    and "bundle_policy b = (if category n \<in> {CSource, CSink} then None
           else Some (executor_new (resolve_error_policy c v) dlq v))"
    and "bundle_receiver b =
           (if category n = CSource then None
            else Some (case qw_receivers w v of Some r \<Rightarrow> tr_receiver r | None \<Rightarrow> qw_next_channel w))"
    and "qw_receivers w' = (if category n = CSource then qw_receivers w else (qw_receivers w)(v := None))"
    and "qw_next_channel w' = qw_next_channel w + (if category n = CSource \<or> qw_receivers w v \<noteq> None then 0 else 1)"
  using assms(1)
  by (auto simp: b_def build_node_def bundle_views take_receiver_def tracked_receiver_from_def Let_def fun_upd_idem
      split: node_category.splits option.splits)

lemma build_nodes_bundles:
  fixes bs :: "('i, 'o, 's) node_bundle list"
  shows "build_nodes c dlq src snk now i ns w = (bs, w') \<Longrightarrow>
     map nb_node_id bs = map fst ns \<and> map bundle_category bs = map (\<lambda>p. category (snd p)) ns \<and>
     (\<forall>b \<in> set bs. bundle_senders b =
        (if bundle_category b = CSink then None else Some (collect_downstream_senders (nb_node_id b) w)) \<and>
      bundle_policy b = (if bundle_category b \<in> {CSource, CSink} then None
        else Some (executor_new (resolve_error_policy c (nb_node_id b)) dlq (nb_node_id b)))) \<and>
     qw_queue_probes w' = qw_queue_probes w"
proof (induction ns arbitrary: i w bs w')
  case (Cons p ns)
  obtain v n where p: "p = (v, n)" by fastforce
  obtain k :: "('i, 'o, 's) node_bundle_kind" and w1 where b1: "build_node c dlq src snk i v n w = (k, w1)" by fastforce
  obtain bs' where b2: "build_nodes c dlq src snk now (Suc i) ns w1 = (bs', w')"
    and bs: "bs = \<lparr>nb_node_id = v, nb_kind = k, nb_state = state_new (now v), nb_metrics = node_metrics_new\<rparr> # bs'"
    using Cons.prems by (auto simp: p b1 split: prod.splits)
  note views = build_node_views(1-3) [OF b1, of "state_new (now v)" node_metrics_new]
  show ?case
    using Cons.IH [OF b2] views build_node_frame [OF b1] collect_frame [OF build_node_frame [OF b1]]
    by (simp add: bs p)
qed simp

lemma bundle_of_node:
  assumes "build_nodes c dlq src snk now i ns w = (bs, w')" "b \<in> set bs"
  shows "\<exists>n. (nb_node_id b, n) \<in> set ns \<and> bundle_category b = category n"
proof -
  note maps = build_nodes_bundles [OF assms(1), THEN conjunct1]
    build_nodes_bundles [OF assms(1), THEN conjunct2, THEN conjunct1]
  from assms(2) obtain j where j: "j < length bs" "b = bs ! j" by (auto simp: in_set_conv_nth)
  have "length bs = length ns" using maps(1) by (metis length_map)
  with j maps have "nb_node_id b = fst (ns ! j)" "bundle_category b = category (snd (ns ! j))" "ns ! j \<in> set ns"
    by (metis nth_map, metis nth_map, simp)
  then show ?thesis by (metis prod.collapse)
qed

lemma build_nodes_fresh:
  fixes bs :: "('i, 'o, 's) node_bundle list"
  assumes "build_nodes c dlq src snk now i ns w = (bs, w')" "distinct (map fst ns)"
  shows "\<exists>f. inj_on f (fst ` set ns) \<and> (\<forall>v. qw_next_channel w \<le> f v) \<and>
    (\<forall>b \<in> set bs. \<forall>k. bundle_receiver b = Some k \<longrightarrow>
       k = (case qw_receivers w (nb_node_id b) of Some r \<Rightarrow> tr_receiver r | None \<Rightarrow> f (nb_node_id b)))"
  using assms
proof (induction ns arbitrary: i w bs w')
  case (Cons p ns)
  obtain v n where p: "p = (v, n)" by fastforce
  obtain k :: "('i, 'o, 's) node_bundle_kind" and w1 where b1: "build_node c dlq src snk i v n w = (k, w1)" by fastforce
  let ?b = "\<lparr>nb_node_id = v, nb_kind = k, nb_state = state_new (now v), nb_metrics = node_metrics_new\<rparr>"
  obtain bs' where b2: "build_nodes c dlq src snk now (Suc i) ns w1 = (bs', w')" and bs: "bs = ?b # bs'"
    using Cons.prems by (auto simp: p b1 split: prod.splits)
  note views = build_node_views(4) [OF b1, of "state_new (now v)" node_metrics_new] build_node_views(5,6) [OF b1]
  from Cons.IH [OF b2] Cons.prems(2) obtain f where inj: "inj_on f (fst ` set ns)"
    and lo: "\<And>u. qw_next_channel w1 \<le> f u"
    and rx: "\<And>b k. b \<in> set bs' \<Longrightarrow> bundle_receiver b = Some k \<Longrightarrow>
       k = (case qw_receivers w1 (nb_node_id b) of Some r \<Rightarrow> tr_receiver r | None \<Rightarrow> f (nb_node_id b))"
    by auto
  have ids: "nb_node_id b \<noteq> v" if "b \<in> set bs'" for b
  proof -
    have "set (map nb_node_id bs') = set (map fst ns)" using build_nodes_bundles [OF b2] by simp
    with that Cons.prems(2) show ?thesis by (force simp: p)
  qed
  obtain x where x: "x \<notin> f ` fst ` set ns" "qw_next_channel w \<le> x"
    "category n \<noteq> CSource \<Longrightarrow> qw_receivers w v = None \<Longrightarrow> x = qw_next_channel w"
  proof (cases "category n \<noteq> CSource \<and> qw_receivers w v = None")
    case True
    then have "qw_next_channel w < f u" for u using lo [of u] by (simp add: views(3))
    then show ?thesis using that [of "qw_next_channel w"] by force
  next
    case False
    obtain x where "x \<notin> {..<qw_next_channel w} \<union> f ` fst ` set ns"
      using ex_new_if_finite [OF infinite_UNIV_nat] by (metis finite_Un finite_lessThan finite_imageI List.finite_set)
    with False that [of x] show ?thesis by auto
  qed
  show ?case
  proof (intro exI [of _ "f(v := x)"] conjI ballI allI impI)
    show "inj_on (f(v := x)) (fst ` set (p # ns))" 
      using inj x(1) Cons.prems(2) by (auto simp: p inj_on_fun_updI)
    show "qw_next_channel w \<le> (f(v := x)) u" for u
      using lo [of u] views(3) x(2) by (simp split: if_splits)
    show "j = (case qw_receivers w (nb_node_id b) of Some r \<Rightarrow> tr_receiver r | None \<Rightarrow> (f(v := x)) (nb_node_id b))"
      if "b \<in> set bs" "bundle_receiver b = Some j" for b j
      using that views rx [of b j] ids [of b] x(3) by (auto simp: bs split: if_splits option.splits)
  qed
qed (auto intro!: exI [of _ "\<lambda>_. qw_next_channel w" for w])

section \<open>The whole build\<close>

definition dlq_channel :: "config \<Rightarrow> nat option" where
  "dlq_channel c = (if cf_dead_letter c = None then None else Some 0)"

lemma build_Inr:
  assumes "build_pipeline_inner topo iter now c src snk = Inr out"
  obtains g w' where "dag_from_config topo c = Inr g" "validate_channel_capacities c = Inr ()"
    "build_nodes c (dlq_channel c) src snk now 0 (cf_nodes c)
       ((wire_queues iter (cf_edges c) (ec_default_queue_capacity (cf_engine c)))\<lparr>qw_dlq_sender := dlq_channel c\<rparr>) =
       (bo_node_bundles out, w')"
    "bo_queue_probes out = qw_queue_probes w'" "bo_dag_graph out = g"
  using assms by (auto simp: build_pipeline_inner_def dlq_channel_def Let_def split: sum.splits prod.splits)

lemma capacities_positive:
  "validate_channel_capacities c = Inr () \<longleftrightarrow>
     ec_default_queue_capacity (cf_engine c) \<noteq> 0 \<and> (\<forall>e \<in> set (cf_edges c). ed_capacity e \<noteq> Some 0) \<and>
     map_option dead_letter_queue_capacity (cf_dead_letter c) \<noteq> Some 0"
  by (auto simp: validate_channel_capacities_def list_ex_iff)

lemma queue_capacity_positive:
  assumes "0 < d" "\<forall>e \<in> set es. ed_capacity e \<noteq> Some 0"
  shows "0 < queue_capacity d es"
proof -
  have le: "x \<le> foldl max x ys" for x :: nat and ys by (induction ys arbitrary: x) (auto intro: max.coboundedI1 order_trans)
  have "0 < k" if "k \<in> set (List.map_filter ed_capacity es)" for k
    using that assms(2) by (auto simp: List.map_filter_def)
  then show ?thesis
    using assms(1) le [of "hd (List.map_filter ed_capacity es)" "tl (List.map_filter ed_capacity es)"]
    by (auto simp: queue_capacity_def Let_def intro: order_less_le_trans [OF _ le])
qed

lemma collect_wired:
  assumes "mset (qw_edge_senders w) = mset (map (\<lambda>e. edge_sender_for (ch (ed_to e)) (ed_to e) e) edges)"
  shows "mset (collect_downstream_senders v w) =
    mset (map (edge_endpoint ch (qw_dlq_sender w)) (filter (\<lambda>e. ed_from e = v) edges))"
proof -
  let ?sender = "\<lambda>e. \<lparr>ds_sender = es_sender e, ds_port = es_from_port e,
    ds_edge = es_from_node e @ '':'' @ es_from_port e @ ''->'' @ es_to_node e @ '':'' @ es_to_port e,
    ds_source_node = es_from_node e, ds_overflow = es_overflow e,
    ds_dlq_sender = qw_dlq_sender w, ds_queue_metrics = Some (es_queue_metrics e)\<rparr>"
  have "mset (collect_downstream_senders v w) = image_mset ?sender (filter_mset (\<lambda>e. es_from_node e = v) (mset (qw_edge_senders w)))"
    unfolding collect_downstream_senders_def by simp
  also have "\<dots> = mset (map ?sender (filter (\<lambda>e. es_from_node e = v) (map (\<lambda>e. edge_sender_for (ch (ed_to e)) (ed_to e) e) edges)))"
    unfolding assms by simp
  also have "map ?sender (filter (\<lambda>e. es_from_node e = v) (map (\<lambda>e. edge_sender_for (ch (ed_to e)) (ed_to e) e) edges)) =
    map (edge_endpoint ch (qw_dlq_sender w)) (filter (\<lambda>e. ed_from e = v) edges)"
    by (induction edges) (simp_all add: edge_sender_for_def edge_endpoint_def Let_def)
  finally show ?thesis .
qed

definition policy_actions :: "resolved_error_policy \<Rightarrow> resolved_simple_action set" where
  "policy_actions r =
     {rp_bad_input r, rr_exhausted (rp_dependency_failed r), rr_exhausted (rp_processing_failed r), rp_timed_out r}"

lemma policy_actions_dlq: "ActDlq \<in> policy_actions (resolved_error_policy_from p) \<longleftrightarrow> dlq_actions p \<noteq> []"
  by (auto simp: policy_actions_def resolved_error_policy_from_def resolved_retry_config_from_def
      resolved_simple_action_from_def dlq_actions_def split: simple_action.splits if_splits)

lemma processing_node:
  assumes "(v, n) \<in> set (cf_nodes c)" "distinct (map fst (cf_nodes c))" "category n \<notin> {CSource, CSink}"
  obtains w where "node_wasm n = Some w"
    "effective_error_policy c v = Some (case wd_error_policy w of None \<Rightarrow> cf_error_policy c | Some p \<Rightarrow> p)"
  using assms by (cases n) (auto simp: category_def node_wasm_def effective_error_policy_def)

text \<open>What validation guarantees of the policy a processing node is built with.\<close>

lemma validated_policy:
  assumes "pipeline_ok c" "(v, n) \<in> set (cf_nodes c)" "distinct (map fst (cf_nodes c))" "category n \<notin> {CSource, CSink}"
  shows "0 < rp_retry_buffer_capacity (resolve_error_policy c v)"
    and "dlq_channel c = None \<Longrightarrow> ActDlq \<notin> policy_actions (resolve_error_policy c v)"
proof -
  from processing_node [OF assms(2-4)] obtain w where w: "node_wasm n = Some w"
    and e: "effective_error_policy c v = Some (case wd_error_policy w of None \<Rightarrow> cf_error_policy c | Some p \<Rightarrow> p)" by metis
  have "node_ok n" using assms(1,2) by (auto simp: pipeline_ok_def)
  with w have "grants_ok w" by (simp add: node_ok_def)
  moreover have r: "resources_ok c" using assms(1) by (simp add: pipeline_ok_def)
  ultimately show "0 < rp_retry_buffer_capacity (resolve_error_policy c v)"
    by (auto simp: resolve_error_policy_def e resolved_error_policy_from_def grants_ok_def resources_ok_def
        split: option.splits)
  have "v \<in> fst ` set (cf_nodes c)" using assms(2) by force
  then show "dlq_channel c = None \<Longrightarrow> ActDlq \<notin> policy_actions (resolve_error_policy c v)"
    using r e by (simp add: resolve_error_policy_def policy_actions_dlq resources_ok_def dlq_channel_def ball_simps(9) split: if_splits)
      force
qed

lemma validated_overflow:
  assumes "resources_ok c" "d \<in># mset (map (edge_endpoint ch (dlq_channel c)) (filter P (cf_edges c)))"
    "ds_overflow d = DeadLetter"
  shows "ds_dlq_sender d \<noteq> None"
  using assms by (auto simp: edge_endpoint_def Let_def resources_ok_def dlq_channel_def overflow_default_def
      split: option.splits if_splits)

lemma build_wired:
  assumes "distinct (map fst (cf_nodes c))" "hash_iteration iter (edges_by_dest (cf_edges c))"
    "build_pipeline_inner topo iter now c src snk = Inr out"
  shows "map nb_node_id (bo_node_bundles out) = map fst (cf_nodes c) \<and>
    map bundle_category (bo_node_bundles out) = map (\<lambda>p. category (snd p)) (cf_nodes c) \<and>
    (\<exists>ch. inj_on ch (fst ` set (cf_nodes c)) \<and>
       (\<forall>b \<in> set (bo_node_bundles out).
          (\<forall>k. bundle_receiver b = Some k \<longrightarrow> k = ch (nb_node_id b)) \<and>
          (\<forall>s. bundle_senders b = Some s \<longrightarrow>
             mset s = mset (map (edge_endpoint ch (dlq_channel c))
               (filter (\<lambda>e. ed_from e = nb_node_id b) (cf_edges c)))))) \<and>
    (\<forall>e \<in> set (cf_edges c). \<exists>cap > 0.
       map_of (map (\<lambda>p. (qp_queue p, qp_capacity p)) (bo_queue_probes out)) (ed_to e) = Some cap)"
proof -
  let ?cap = "ec_default_queue_capacity (cf_engine c)"
  let ?wired = "wire_queues iter (cf_edges c) ?cap" and ?dests = "ed_to ` set (cf_edges c)"
  let ?w = "?wired\<lparr>qw_dlq_sender := dlq_channel c\<rparr>"
  obtain g w' where caps: "validate_channel_capacities c = Inr ()"
    and bn: "build_nodes c (dlq_channel c) src snk now 0 (cf_nodes c) ?w = (bo_node_bundles out, w')"
    and pr: "bo_queue_probes out = qw_queue_probes w'" using build_Inr [OF assms(3)] by metis
  obtain ch where ch: "inj_on ch ?dests" "\<forall>v \<in> ?dests. ch v < qw_next_channel ?wired"
    "\<forall>v. qw_receivers ?wired v = (if v \<in> ?dests then Some (tracked_receiver_new (ch v) (ch v)) else None)"
    and snd: "mset (qw_edge_senders ?wired) = mset (map (\<lambda>e. edge_sender_for (ch (ed_to e)) (ed_to e) e) (cf_edges c))"
    and probes: "\<forall>v. map_of (map (\<lambda>p. (qp_queue p, qp_capacity p)) (qw_queue_probes ?wired)) v =
       (if v \<in> ?dests then Some (queue_capacity ?cap (filter (\<lambda>e. ed_to e = v) (cf_edges c))) else None)"
    using wire_queues_exact [OF assms(2), of ?cap] by (elim exE conjE) (rule that)
  obtain f where f: "inj_on f (fst ` set (cf_nodes c))" "\<And>v. qw_next_channel ?wired \<le> f v"
    and rx: "\<And>b k. b \<in> set (bo_node_bundles out) \<Longrightarrow> bundle_receiver b = Some k \<Longrightarrow>
      k = (case qw_receivers ?wired (nb_node_id b) of Some r \<Rightarrow> tr_receiver r | None \<Rightarrow> f (nb_node_id b))"
    using build_nodes_fresh [OF bn assms(1)] by auto
  define chan where "chan v = (if v \<in> ?dests then ch v else f v)" for v
  have inj: "inj_on chan (fst ` set (cf_nodes c))"
  proof (rule inj_onI)
    fix u v assume uv: "u \<in> fst ` set (cf_nodes c)" "v \<in> fst ` set (cf_nodes c)" "chan u = chan v"
    show "u = v"
      using uv bspec [OF ch(2), of u] bspec [OF ch(2), of v] f(2) [of u] f(2) [of v] inj_onD [OF ch(1), of u v] inj_onD [OF f(1), of u v]
      by (auto simp: chan_def split: if_splits)
  qed
  have read: "k = chan (nb_node_id b)" if "b \<in> set (bo_node_bundles out)" "bundle_receiver b = Some k" for b k
    using rx [OF that] by (simp add: ch(3) chan_def tracked_receiver_new_def split: if_splits)
  have "mset (qw_edge_senders ?w) = mset (map (\<lambda>e. edge_sender_for (chan (ed_to e)) (ed_to e) e) (cf_edges c))"
  proof -
    have "map (\<lambda>e. edge_sender_for (ch (ed_to e)) (ed_to e) e) (cf_edges c) =
        map (\<lambda>e. edge_sender_for (chan (ed_to e)) (ed_to e) e) (cf_edges c)" by (simp add: chan_def)
    then show ?thesis using snd by (simp del: map_eq_conv mset_map)
  qed
  note senders = collect_wired [OF this]
  have room: "\<exists>cap > 0. map_of (map (\<lambda>p. (qp_queue p, qp_capacity p)) (bo_queue_probes out)) (ed_to e) = Some cap"
    if "e \<in> set (cf_edges c)" for e
  proof -
    have "bo_queue_probes out = qw_queue_probes ?wired" using build_nodes_bundles [OF bn] pr by simp
    moreover have "0 < queue_capacity ?cap (filter (\<lambda>e'. ed_to e' = ed_to e) (cf_edges c))"
      using caps by (intro queue_capacity_positive) (auto simp: capacities_positive)
    ultimately show ?thesis using spec [OF probes, of "ed_to e"] that by (simp only:) auto
  qed
  have sent: "mset s = mset (map (edge_endpoint chan (dlq_channel c)) (filter (\<lambda>e. ed_from e = nb_node_id b) (cf_edges c)))"
    if "b \<in> set (bo_node_bundles out)" "bundle_senders b = Some s" for b s
    using build_nodes_bundles [OF bn] that senders [of "nb_node_id b"] by (auto split: if_splits)
  show ?thesis using build_nodes_bundles [OF bn] inj read sent room by blast
qed

lemma build_total:
  assumes "toposort_spec topo" "distinct (map fst (cf_nodes c))" "cf_nodes c \<noteq> []" "pipeline_ok c"
  shows "\<exists>out. build_pipeline_inner topo iter now c src snk = Inr out"
proof -
  have "edges_known c" "acyclic (edge_rel c)" and r: "resources_ok c"
    using assms(4) by (simp_all add: pipeline_ok_def wiring_ok_def)
  with dag_from_config_ok [OF assms(1-3)] obtain g where "dag_from_config topo c = Inr g" by blast
  moreover have "validate_channel_capacities c = Inr ()"
    using r by (simp add: capacities_positive resources_ok_def)
  ultimately show ?thesis by (simp add: build_pipeline_inner_def Let_def split: prod.splits)
qed

section \<open>Properties\<close>

text \<open>
  C2: a pipeline that builds is the configured graph. There is one bundle per node, in order and of
  the node's category, and one channel per node: each bundle reads the channel of its own node, and
  its senders are, edge by edge, the channels of the destinations of the edges that leave it, with
  the port, overflow policy and dead-letter sender of the edge. Every queue has room.
\<close>

theorem build_wires_edges:
  assumes "distinct (map fst (cf_nodes c))" "hash_iteration iter (edges_by_dest (cf_edges c))"
    "build_pipeline_inner topo iter now c src snk = Inr out"
  shows "map nb_node_id (bo_node_bundles out) = map fst (cf_nodes c) \<and>
    map bundle_category (bo_node_bundles out) = map (\<lambda>p. category (snd p)) (cf_nodes c) \<and>
    (\<exists>ch. inj_on ch (fst ` set (cf_nodes c)) \<and>
       (\<forall>b \<in> set (bo_node_bundles out).
          (\<forall>k. bundle_receiver b = Some k \<longrightarrow> k = ch (nb_node_id b)) \<and>
          (\<forall>s. bundle_senders b = Some s \<longrightarrow>
             mset s = mset (map (edge_endpoint ch (dlq_channel c))
               (filter (\<lambda>e. ed_from e = nb_node_id b) (cf_edges c)))))) \<and>
    (\<forall>e \<in> set (cf_edges c). \<exists>cap > 0.
       map_of (map (\<lambda>p. (qp_queue p, qp_capacity p)) (bo_queue_probes out)) (ed_to e) = Some cap)"
  by (rule build_wired [OF assms])

definition one_group :: "edge_groups \<Rightarrow> (string \<times> edge_def list) list" where
  "one_group m = (case m ''out'' of None \<Rightarrow> [] | Some es \<Rightarrow> [(''out'', es)])"

lemma one_group_sample: "hash_iteration one_group (edges_by_dest (cf_edges sample_dag))"
  by (auto simp: hash_iteration_def one_group_def edges_by_dest_def group_edge_def sample_dag_def fun_eq_iff)

theorem build_wires_edges_witness:
  "\<exists>out ch. build_pipeline kahn_sort one_group (\<lambda>_. 0) sample_dag = Inr (out :: (unit, unit, unit) build_output) \<and>
     ch ''in'' \<noteq> (ch ''out'' :: nat) \<and>
     (\<forall>b \<in> set (bo_node_bundles out). \<forall>s. bundle_senders b = Some s \<longrightarrow>
        nb_node_id b = ''in'' \<longrightarrow> map ds_sender s = [ch ''out''])"
proof -
  have d: "distinct (map fst (cf_nodes sample_dag))" and ne: "cf_nodes sample_dag \<noteq> []" by (simp_all add: sample_dag_def)
  obtain out :: "(unit, unit, unit) build_output"
    where out: "build_pipeline_inner kahn_sort one_group (\<lambda>_. 0) sample_dag Map.empty Map.empty = Inr out"
    using build_total [OF kahn_sort_spec d ne sample_dag_ok] by blast
  from build_wires_edges [OF d one_group_sample out] obtain ch where
    inj: "inj_on ch (fst ` set (cf_nodes sample_dag))" and
    snd: "\<And>b s. b \<in> set (bo_node_bundles out) \<Longrightarrow> bundle_senders b = Some s \<Longrightarrow>
       mset s = mset (map (edge_endpoint ch (dlq_channel sample_dag))
         (filter (\<lambda>e. ed_from e = nb_node_id b) (cf_edges sample_dag)))" by blast
  have "ch ''in'' \<noteq> ch ''out''" using inj by (simp add: sample_dag_def)
  moreover have "map ds_sender s = [ch ''out'']"
    if "b \<in> set (bo_node_bundles out)" "bundle_senders b = Some s" "nb_node_id b = ''in''" for b s
    using snd [OF that(1,2)] that(3) by (auto simp: sample_dag_def edge_endpoint_def Let_def)
  ultimately show ?thesis using out by (auto simp: build_pipeline_def)
qed

text \<open>
  C11: a configuration that passes validation builds, unless it has no nodes. In the pipeline it gives,
  every retry buffer has room, every error policy that names the dead letter as one of its actions has the
  dead-letter channel, and so has every downstream sender whose overflow policy is to dead-letter. (A policy
  that names no dead letter may still send one for a full retry buffer; without a channel that answers
  closed.) Validation asks for no node, so the one validated configuration that does not build is the one
  without nodes: the build refuses it.
\<close>

theorem validated_pipeline_builds:
  fixes src :: "string \<rightharpoonup> 'i" and snk :: "string \<rightharpoonup> 'o"
  assumes "toposort_spec topo" "distinct (map fst (cf_nodes c))"
    "hash_iteration iter (edges_by_dest (cf_edges c))" "validate topo c = Inr ()"
  shows "if cf_nodes c = []
    then (build_pipeline_with_io topo iter now c src snk :: (wafer_error, ('i, 'o, 's) build_output) result) =
      Inl (ConfigErr (CfgMessage ''pipeline must contain at least one node''))
    else \<exists>out :: ('i, 'o, 's) build_output. build_pipeline_with_io topo iter now c src snk = Inr out \<and>
      (\<forall>b \<in> set (bo_node_bundles out).
         (\<forall>x. bundle_policy b = Some x \<longrightarrow> 0 < rp_retry_buffer_capacity (ep_config x) \<and>
            (ActDlq \<in> policy_actions (ep_config x) \<longrightarrow> ep_dlq_sender x \<noteq> None)) \<and>
         (\<forall>s d. bundle_senders b = Some s \<longrightarrow> d \<in> set s \<longrightarrow> ds_overflow d = DeadLetter \<longrightarrow> ds_dlq_sender d \<noteq> None))"
proof (cases "cf_nodes c = []")
  case True
  then show ?thesis by (simp add: build_pipeline_with_io_def build_pipeline_inner_def dag_from_config_def)
next
  case False
  have ok: "pipeline_ok c" using validation_errors_iff [OF assms(1,2)] assms(4) by (simp add: validate_def Let_def split: if_splits)
  then have res: "resources_ok c" by (simp add: pipeline_ok_def)
  obtain out :: "('i, 'o, 's) build_output" where out: "build_pipeline_inner topo iter now c src snk = Inr out"
    using build_total [OF assms(1,2) False ok] by blast
  obtain w' where bn: "build_nodes c (dlq_channel c) src snk now 0 (cf_nodes c)
       ((wire_queues iter (cf_edges c) (ec_default_queue_capacity (cf_engine c)))\<lparr>qw_dlq_sender := dlq_channel c\<rparr>) =
       (bo_node_bundles out, w')" using build_Inr [OF out] by metis
  have pol: "0 < rp_retry_buffer_capacity (ep_config x) \<and> (ep_dlq_sender x = None \<longrightarrow> ActDlq \<notin> policy_actions (ep_config x))"
    if b: "b \<in> set (bo_node_bundles out)" "bundle_policy b = Some x" for b x
  proof -
    obtain n where n: "(nb_node_id b, n) \<in> set (cf_nodes c)" "bundle_category b = category n"
      using bundle_of_node [OF bn b(1)] by blast
    with b build_nodes_bundles [OF bn] have "category n \<notin> {CSource, CSink}"
      "x = executor_new (resolve_error_policy c (nb_node_id b)) (dlq_channel c) (nb_node_id b)"
      by (auto split: if_splits)
    with validated_policy [OF ok n(1) assms(2)] show ?thesis by (simp add: executor_new_def)
  qed
  obtain ch where "\<And>b s. b \<in> set (bo_node_bundles out) \<Longrightarrow> bundle_senders b = Some s \<Longrightarrow>
       mset s = mset (map (edge_endpoint ch (dlq_channel c)) (filter (\<lambda>e. ed_from e = nb_node_id b) (cf_edges c)))"
    using build_wired [OF assms(2,3) out] by blast
  with validated_overflow [OF res] have "ds_dlq_sender d \<noteq> None"
    if "b \<in> set (bo_node_bundles out)" "bundle_senders b = Some s" "d \<in> set s" "ds_overflow d = DeadLetter" for b s d
    using that by (metis set_mset_mset)
  with pol out False show ?thesis by (auto simp: build_pipeline_with_io_def)
qed

theorem validated_pipeline_builds_witness:
  "\<exists>out. build_pipeline_with_io kahn_sort one_group (\<lambda>_. 0) sample_dag Map.empty Map.empty =
     Inr (out :: (unit, unit, unit) build_output)"
proof -
  have d: "distinct (map fst (cf_nodes sample_dag))" and ne: "cf_nodes sample_dag \<noteq> []" by (simp_all add: sample_dag_def)
  have "validate kahn_sort sample_dag = Inr ()"
    using validation_errors_iff [OF kahn_sort_spec d] sample_dag_ok by (simp add: validate_def Let_def)
  from validated_pipeline_builds [OF kahn_sort_spec d one_group_sample this, unfolded if_not_P [OF ne]]
  show ?thesis by blast
qed

end
