(* ===== verification/PipelineHandle.thy ===== *)
theory PipelineHandle
  imports Builder
begin

text \<open>
  The control-plane handle of a running pipeline, \<open>PipelineHandle\<close> in
  \<open>wafer-core/src/orchestrator/pipeline.rs\<close>, and the phase histograms of \<open>metrics/types.rs\<close>: the swap
  slot of each replaceable node, the hashes of the loaded plugins, the watch slots swaps are sent
  through, queue snapshots. Clones of a handle share their atomics, so one state stands for all of
  them, and calls from several API tasks are a sequence of calls on it. The critical sections of the
  two locks do not panic, so the locks are never poisoned and their error branches are left out.
\<close>

section \<open>Phase histograms\<close>

record phase_histogram =
  hi_buckets :: "u64 list"
  hi_sum_ns :: u64
  hi_count :: u64

definition BUCKETS_NS :: "u64 list" where
  "BUCKETS_NS =
     [100000, 500000, 1000000, 5000000, 10000000, 50000000, 100000000, 500000000, 1000000000, 5000000000]"

definition BUCKET_COUNT :: usize where
  "BUCKET_COUNT = length BUCKETS_NS"

definition phase_histogram_new :: phase_histogram where
  "phase_histogram_new = \<lparr>hi_buckets = replicate BUCKET_COUNT 0, hi_sum_ns = 0, hi_count = 0\<rparr>"

definition phase_record :: "u64 \<Rightarrow> phase_histogram \<Rightarrow> phase_histogram" where
  "phase_record ns h =
     h\<lparr>hi_buckets := map2 (\<lambda>upper b. if ns \<le> upper then b + 1 else b) BUCKETS_NS (hi_buckets h),
       hi_sum_ns := hi_sum_ns h + ns, hi_count := hi_count h + 1\<rparr>"

section \<open>The handle\<close>

record pipeline_handle =
  pl_watch_senders :: "string \<rightharpoonup> nat"
  pl_config :: config
  pl_state_trackers :: "string \<rightharpoonup> node_state_tracker"
  pl_metrics :: "string \<rightharpoonup> node_metrics"
  pl_running :: bool
  pl_replacement_eligible :: "string set"
  pl_swap_in_progress :: "string \<rightharpoonup> bool"
  pl_hotswap_metrics :: "string \<times> string \<rightharpoonup> phase_histogram"
  pl_queue_probes :: "queue_probe list"

record queue_snapshot =
  qs_queue :: string
  qs_depth :: u64
  qs_capacity :: usize
  qs_accepted :: u64
  qs_dequeued :: u64
  qs_processed :: u64
  qs_dropped :: u64
  qs_dead_lettered :: u64
  qs_downstream_closed :: u64
  qs_dlq_full :: u64
  qs_dlq_closed :: u64

text \<open>The sending half of the watch channels.\<close>

record ('x, 's) watch_host = "('x, 's) runner_host" +
  h_watch_send :: "nat \<Rightarrow> swap_payload \<Rightarrow> ('x, 's) world \<Rightarrow> bool \<times> ('x, 's) world"
  h_watch_send_if_modified ::
    "nat \<Rightarrow> (swap_payload option \<Rightarrow> bool \<times> swap_payload option) \<Rightarrow> ('x, 's) world \<Rightarrow> ('x, 's) world"

definition handle_from_build_output :: "('i, 'o, 's) build_output \<Rightarrow> config \<Rightarrow> pipeline_handle" where
  "handle_from_build_output b c =
     \<lparr>pl_watch_senders = bo_watch_senders b, pl_config = c,
      pl_state_trackers = map_of (map (\<lambda>n. (nb_node_id n, nb_state n)) (bo_node_bundles b)),
      pl_metrics = map_of (map (\<lambda>n. (nb_node_id n, nb_metrics n)) (bo_node_bundles b)),
      pl_running = True, pl_replacement_eligible = bo_replacement_eligible b,
      pl_swap_in_progress = (\<lambda>v. if v \<in> bo_replacement_eligible b then Some False else None),
      pl_hotswap_metrics = Map.empty, pl_queue_probes = bo_queue_probes b\<rparr>"

text \<open>A guard is the node whose flag it clears when it is dropped.\<close>

definition try_begin_swap :: "string \<Rightarrow> pipeline_handle \<Rightarrow> (wafer_error, string) result \<times> pipeline_handle" where
  "try_begin_swap v h =
     (case pl_swap_in_progress h v of
        None \<Rightarrow> (Inl (NodeNotSwappable v), h)
      | Some busy \<Rightarrow>
          if busy then (Inl (SwapInProgress v), h)
          else (Inr v, h\<lparr>pl_swap_in_progress := (pl_swap_in_progress h)(v \<mapsto> True)\<rparr>))"

definition drop_swap_guard :: "string \<Rightarrow> pipeline_handle \<Rightarrow> pipeline_handle" where
  "drop_swap_guard v h = h\<lparr>pl_swap_in_progress := (pl_swap_in_progress h)(v \<mapsto> False)\<rparr>"

definition record_hotswap_phase :: "string \<Rightarrow> string \<Rightarrow> u64 \<Rightarrow> pipeline_handle \<Rightarrow> pipeline_handle" where
  "record_hotswap_phase phase v ns h =
     (let key = (phase, v) in
      case pl_hotswap_metrics h key of
        Some hist \<Rightarrow> h\<lparr>pl_hotswap_metrics := (pl_hotswap_metrics h)(key \<mapsto> phase_record ns hist)\<rparr>
      | None \<Rightarrow>
          h\<lparr>pl_hotswap_metrics := (pl_hotswap_metrics h)(key \<mapsto> phase_record ns phase_histogram_new)\<rparr>)"

definition record_plugin_hash :: "string \<Rightarrow> string \<Rightarrow> ('x, 's) world \<Rightarrow> ('x, 's) world" where
  "record_plugin_hash v hash w = w\<lparr>w_hashes := (w_hashes w)(v \<mapsto> hash)\<rparr>"

definition track_swap_plugin_hash :: "string \<Rightarrow> nat \<Rightarrow> string \<Rightarrow> ('x, 's) world \<Rightarrow> ('x, 's) world" where
  "track_swap_plugin_hash v g hash w = update_progress g (track_plugin_hash v hash) w"

definition eq_ignore_ascii_case :: "string \<Rightarrow> string \<Rightarrow> bool" where
  "eq_ignore_ascii_case a b \<longleftrightarrow> map to_ascii_lower a = map to_ascii_lower b"

definition verify_plugin_hash :: "string \<Rightarrow> string \<Rightarrow> ('x, 's) world \<Rightarrow> (wafer_error, unit) result" where
  "verify_plugin_hash v expected w =
     (case w_hashes w v of
        Some cached \<Rightarrow>
          if eq_ignore_ascii_case cached expected then Inr () else Inl (PluginHashMismatch v cached expected)
      | None \<Rightarrow> Inr ())"

definition send_swap ::
    "('x, 's, 'h) watch_host_scheme \<Rightarrow> string \<Rightarrow> swap_payload \<Rightarrow> pipeline_handle \<Rightarrow> ('x, 's) world
       \<Rightarrow> (wafer_error, unit) result \<times> ('x, 's) world" where
  "send_swap H v payload h w =
     (if v \<notin> pl_replacement_eligible h then (Inl (NodeNotSwappable v), w)
      else
        case pl_watch_senders h v of
          None \<Rightarrow>
            (Inl (Runtime (''cannot hot-swap node '' @ quoted v @ '': not found or not a Wasm node'')), w)
        | Some sender \<Rightarrow>
            let (sent, w) = h_watch_send H sender payload w in
            (if sent then Inr ()
             else Inl (Runtime (''cannot hot-swap node '' @ quoted v @ '': receiver dropped (task dead?)'')), w))"

definition retract_slot :: "nat \<Rightarrow> swap_payload option \<Rightarrow> bool \<times> swap_payload option" where
  "retract_slot g slot =
     (False, if (case slot of None \<Rightarrow> False | Some p \<Rightarrow> payload_progress p = g) then None else slot)"

definition retract_swap ::
    "('x, 's, 'h) watch_host_scheme \<Rightarrow> string \<Rightarrow> nat \<Rightarrow> pipeline_handle \<Rightarrow> ('x, 's) world \<Rightarrow> ('x, 's) world" where
  "retract_swap H v g h w =
     (case pl_watch_senders h v of
        None \<Rightarrow> w
      | Some sender \<Rightarrow> h_watch_send_if_modified H sender (retract_slot g) w)"

definition handle_node_state :: "string \<Rightarrow> pipeline_handle \<Rightarrow> node_state option" where
  "handle_node_state v h = map_option node_state_of (pl_state_trackers h v)"

definition queue_snapshots :: "pipeline_handle \<Rightarrow> ('x, 's) world \<Rightarrow> queue_snapshot list" where
  "queue_snapshots h w =
     map (\<lambda>p. let q = w_queues w (qp_metrics p) in
        \<lparr>qs_queue = qp_queue p, qs_depth = depth q, qs_capacity = qp_capacity p, qs_accepted = qm_enqueued q,
         qs_dequeued = qm_dequeued q,
         qs_processed = (case pl_metrics h (qp_queue p) of None \<Rightarrow> 0 | Some m \<Rightarrow> nm_processed m),
         qs_dropped = qm_dropped q, qs_dead_lettered = qm_dead_lettered q,
         qs_downstream_closed = qm_downstream_closed q, qs_dlq_full = qm_dlq_full q, qs_dlq_closed = qm_dlq_closed q\<rparr>)
       (pl_queue_probes h)"

section \<open>Swap slots\<close>

text \<open>Calls of the API tasks in the order they take effect; a guard is dropped once, by its owner.\<close>

datatype swap_call = BeginSwap string | DropGuard nat

fun swap_call_step :: "swap_call \<Rightarrow> pipeline_handle \<times> string list \<Rightarrow> pipeline_handle \<times> string list" where
  "swap_call_step (BeginSwap v) (h, guards) =
     (case try_begin_swap v h of (Inr g, h) \<Rightarrow> (h, g # guards) | (Inl _, h) \<Rightarrow> (h, guards))"
| "swap_call_step (DropGuard i) (h, guards) =
     (if i < length guards then (drop_swap_guard (guards ! i) h, remove_at i guards) else (h, guards))"

definition slots_ok :: "string set \<Rightarrow> pipeline_handle \<times> string list \<Rightarrow> bool" where
  "slots_ok S = (\<lambda>(h, guards). distinct guards \<and> set guards \<subseteq> S \<and>
     pl_swap_in_progress h = (\<lambda>v. if v \<in> S then Some (v \<in> set guards) else None))"

lemma distinct_remove_at:
  assumes "distinct xs" "i < length xs"
  shows "distinct (remove_at i xs)" "set (remove_at i xs) = set xs - {xs ! i}"
proof -
  have "distinct (take i xs @ xs ! i # drop (Suc i) xs)"
    using assms by (simp add: id_take_nth_drop [symmetric])
  moreover have "set xs = set (take i xs @ xs ! i # drop (Suc i) xs)"
    using assms by (simp only: id_take_nth_drop [symmetric])
  ultimately show "distinct (remove_at i xs)" "set (remove_at i xs) = set xs - {xs ! i}"
    by (auto simp: remove_at_def)
qed

lemma try_begin_swap_slots:
  assumes "slots_ok S (h, guards)"
  shows "try_begin_swap v h =
    (if v \<notin> S then (Inl (NodeNotSwappable v), h)
     else if v \<in> set guards then (Inl (SwapInProgress v), h)
     else (Inr v, h\<lparr>pl_swap_in_progress := (pl_swap_in_progress h)(v \<mapsto> True)\<rparr>))"
  using assms by (simp add: slots_ok_def try_begin_swap_def)

lemma swap_call_step_ok:
  assumes "slots_ok S s"
  shows "slots_ok S (swap_call_step c s)"
proof -
  obtain h guards where s: "s = (h, guards)" by fastforce
  show ?thesis
  proof (cases c)
    case (BeginSwap v)
    with assms show ?thesis
      by (auto simp: s try_begin_swap_slots) (auto simp: slots_ok_def fun_eq_iff)
  next
    case (DropGuard i)
    show ?thesis
    proof (cases "i < length guards")
      case True
      with assms have "distinct (remove_at i guards)" "set (remove_at i guards) = set guards - {guards ! i}"
        by (simp_all add: s slots_ok_def distinct_remove_at)
      moreover have "guards ! i \<in> S" using assms True by (auto simp: s slots_ok_def)
      ultimately show ?thesis using assms True DropGuard
        by (auto simp: s slots_ok_def drop_swap_guard_def fun_eq_iff)
    qed (use assms DropGuard s in simp)
  qed
qed

lemma swap_run_ok: "slots_ok S s \<Longrightarrow> slots_ok S (fold swap_call_step calls s)"
  by (induction calls arbitrary: s) (simp_all add: swap_call_step_ok)

section \<open>Phase timings\<close>

type_synonym phase_call = "(string \<times> string) \<times> u64"

definition phase_step :: "phase_call \<Rightarrow> pipeline_handle \<Rightarrow> pipeline_handle" where
  "phase_step c h = record_hotswap_phase (fst (fst c)) (snd (fst c)) (snd c) h"

definition timings :: "string \<times> string \<Rightarrow> phase_call list \<Rightarrow> u64 list" where
  "timings key calls = map snd (filter (\<lambda>c. fst c = key) calls)"

lemma phase_step_at:
  "pl_hotswap_metrics (phase_step c h) key =
     (if key = fst c
      then Some (phase_record (snd c) (case pl_hotswap_metrics h key of None \<Rightarrow> phase_histogram_new | Some x \<Rightarrow> x))
      else pl_hotswap_metrics h key)"
  by (cases c) (auto simp: phase_step_def record_hotswap_phase_def Let_def split: option.splits)

lemma phase_run:
  "pl_hotswap_metrics (fold phase_step calls h) key =
     (if timings key calls = [] then pl_hotswap_metrics h key
      else Some (fold phase_record (timings key calls)
        (case pl_hotswap_metrics h key of None \<Rightarrow> phase_histogram_new | Some x \<Rightarrow> x)))"
proof (induction calls arbitrary: h)
  case (Cons c calls)
  then show ?case by (simp add: phase_step_at timings_def)
qed (simp add: timings_def)

lemma length_BUCKETS_NS [simp]: "length BUCKETS_NS = 10"
  by (simp add: BUCKETS_NS_def)

lemma phase_record_buckets:
  assumes "length (hi_buckets h) = length BUCKETS_NS"
  shows "length (hi_buckets (phase_record ns h)) = length BUCKETS_NS"
    "i < length BUCKETS_NS \<Longrightarrow>
       hi_buckets (phase_record ns h) ! i = hi_buckets h ! i + (if ns \<le> BUCKETS_NS ! i then 1 else 0)"
  using assms by (simp_all add: phase_record_def)

lemma phase_records:
  assumes "length (hi_buckets h) = length BUCKETS_NS"
  shows "hi_count (fold phase_record ns h) = hi_count h + of_nat (length ns)"
    "hi_sum_ns (fold phase_record ns h) = hi_sum_ns h + sum_list ns"
    "i < length BUCKETS_NS \<Longrightarrow> hi_buckets (fold phase_record ns h) ! i =
       hi_buckets h ! i + of_nat (length (filter (\<lambda>n. n \<le> BUCKETS_NS ! i) ns))"
  using assms
proof (induction ns arbitrary: h)
  case (Cons n ns)
  { case 1 show ?case using Cons.IH(1) [of "phase_record n h"] 1 by (simp add: phase_record_def) }
  { case 2 show ?case using Cons.IH(2) [of "phase_record n h"] 2 by (simp add: phase_record_def) }
  { case 3 show ?case using Cons.IH(3) [of "phase_record n h"] 3 by (simp add: phase_record_buckets) }
qed simp_all

section \<open>Properties\<close>

text \<open>
  C24: swaps of one node exclude each other. Whatever the API tasks do, every node has at most one
  guard, its flag is set exactly while that guard lives, and a new swap begins exactly when the node
  can be replaced and has no guard, with the error that says which of the two failed otherwise.
\<close>

theorem swap_slots_exclusive:
  "let s = fold swap_call_step calls (handle_from_build_output b c, []); h = fst s; guards = snd s;
       S = bo_replacement_eligible b in
   distinct guards \<and> set guards \<subseteq> S \<and>
   pl_swap_in_progress h = (\<lambda>v. if v \<in> S then Some (v \<in> set guards) else None) \<and>
   (\<forall>v. fst (try_begin_swap v h) =
      (if v \<notin> S then Inl (NodeNotSwappable v)
       else if v \<in> set guards then Inl (SwapInProgress v) else Inr v))"
proof -
  have "slots_ok (bo_replacement_eligible b) (handle_from_build_output b c, [])"
    by (auto simp: slots_ok_def handle_from_build_output_def fun_eq_iff)
  note run = swap_run_ok [OF this, of calls]
  obtain h guards where s: "fold swap_call_step calls (handle_from_build_output b c, []) = (h, guards)" by fastforce
  show ?thesis
    using run try_begin_swap_slots [OF run [unfolded s]] unfolding s Let_def fst_conv snd_conv
    by (auto simp: slots_ok_def)
qed

text \<open>
  The phase histogram of a phase and node exists exactly when a timing was recorded for them,
  and then holds exactly their timings: its count is their number, its sum their sum modulo
  \<open>2 ^ 64\<close>, and each bucket is cumulative, the number of timings within its bound.
\<close>

theorem phase_timings_cumulative:
  assumes "length calls < 2 ^ 64"
  shows "let ts = timings key calls;
             slot = pl_hotswap_metrics (fold phase_step calls (handle_from_build_output b c)) key in
    (slot = None \<longleftrightarrow> ts = []) \<and>
    (\<forall>h. slot = Some h \<longrightarrow> unat (hi_count h) = length ts \<and> hi_sum_ns h = sum_list ts \<and>
       (\<forall>i < length BUCKETS_NS.
          unat (hi_buckets h ! i) = length (filter (\<lambda>n. n \<le> BUCKETS_NS ! i) ts)))"
proof -
  have len: "length (timings key calls) < 2 ^ 64"
    using assms le_less_trans [OF length_filter_le] by (simp add: timings_def)
  have small: "length (filter P (timings key calls)) < 18446744073709551616" for P
    using le_less_trans [OF length_filter_le len] by simp
  have new: "length (hi_buckets phase_histogram_new) = length BUCKETS_NS"
    by (simp add: phase_histogram_new_def BUCKET_COUNT_def)
  show ?thesis
    using len phase_records [OF new, where ns = "timings key calls"]
    by (auto simp: Let_def phase_run handle_from_build_output_def phase_histogram_new_def BUCKET_COUNT_def
        unat_of_nat small split: if_splits)
qed

definition sample_build :: "(unit, unit, unit) build_output" where
  "sample_build =
     \<lparr>bo_node_bundles = [], bo_watch_senders = Map.empty, bo_dlq = None,
      bo_dag_graph = \<lparr>dg_nodes = [], dg_edges = [], dg_node_indices = Map.empty, dg_topo_order = []\<rparr>,
      bo_replacement_eligible = {}, bo_queue_probes = []\<rparr>"

theorem phase_timings_cumulative_witness:
  "\<exists>h. pl_hotswap_metrics (fold phase_step [((''compile'', ''n''), 600000), ((''signal'', ''n''), 5), ((''compile'', ''n''), 7)]
      (handle_from_build_output sample_build sample_dag)) (''compile'', ''n'') = Some h \<and>
     unat (hi_count h) = 2 \<and> unat (hi_buckets h ! 1) = 1 \<and> unat (hi_buckets h ! 2) = 2"
proof -
  let ?calls = "[((''compile'', ''n''), 600000), ((''signal'', ''n''), 5), ((''compile'', ''n''), 7)] :: phase_call list"
  have ts: "timings (''compile'', ''n'') ?calls = [600000, 7]" by (simp add: timings_def)
  show ?thesis
    using phase_timings_cumulative [of ?calls "(''compile'', ''n'')" sample_build sample_dag] unfolding ts Let_def
    by (auto simp: BUCKETS_NS_def)
qed

end
