(* ===== verification/FilterLoop.thy ===== *)
theory FilterLoop
  imports NodeLoop
begin

text \<open>
  The filter loop, \<open>wafer-core/src/runner/filter.rs\<close>: one iteration, the loop with its final flush,
  and what it does with every message it takes from its queue.
\<close>

definition dispatch_filter_outcome ::
    "('x, 's, 'h) runner_host_scheme \<Rightarrow> filter_outcome \<Rightarrow> downstream_sender list \<Rightarrow> runtime_envelope
       \<Rightarrow> 'n runner \<Rightarrow> ('x, 's) world \<Rightarrow> 'n runner \<times> ('x, 's) world" where
  "dispatch_filter_outcome H oc senders env r w =
     (case oc of
        Forward \<Rightarrow>
          let (m, w) = record_processed H (rn_metrics r) w;
              w = send_downstream H senders env w
          in report_first_outcome H ForwardedEnqueued (r\<lparr>rn_metrics := m\<rparr>) w
      | DropMessage \<Rightarrow>
          report_first_outcome H FilterDropped (r\<lparr>rn_metrics := record_filtered_out (rn_metrics r)\<rparr>) w)"

definition filter_apply_swap ::
    "('x, 's, 'h) runner_host_scheme \<Rightarrow> swap_payload \<Rightarrow> 's filter_node runner \<Rightarrow> ('x, 's) world
       \<Rightarrow> 's filter_node runner \<times> ('x, 's) world" where
  "filter_apply_swap H payload r w =
     (let g = payload_progress payload;
          (result, n, w) =
            (case payload of
               SwapReconfigure cfg _ \<Rightarrow> fn_reconfigure H cfg (rn_node r) w
             | _ \<Rightarrow> try_apply_filter H payload (rn_node r) w);
          r = r\<lparr>rn_node := n\<rparr>
      in
      case result of
        Inr _ \<Rightarrow> adopt_swap H g r w
      | Inl e \<Rightarrow> (r, reject_swap g e w))"

definition filter_message ::
    "('x, 's, 'h) runner_host_scheme \<Rightarrow> downstream_sender list \<Rightarrow> runtime_envelope
       \<Rightarrow> 's filter_node runner \<Rightarrow> ('x, 's) world
       \<Rightarrow> 's filter_node runner loop_step \<times> ('x, 's) world" where
  "filter_message H senders env r w =
     (let (result, n, w) = fn_evaluate H env (rn_node r) w; r = r\<lparr>rn_node := n\<rparr> in
      case result of
        Inr oc \<Rightarrow>
          let (r, w) = dispatch_filter_outcome H oc senders env r w in (LoopContinue r, w)
      | Inl err \<Rightarrow> node_failure H (fn_recover H) err env r w)"

definition filter_iteration ::
    "('x, 's, 'h) runner_host_scheme \<Rightarrow> nat \<Rightarrow> downstream_sender list \<Rightarrow> nat
       \<Rightarrow> 's filter_node runner \<Rightarrow> ('x, 's) world
       \<Rightarrow> ('s filter_node runner loop_step \<times> ('x, 's) world) option" where
  "filter_iteration H k senders sw r w =
     node_iteration H (filter_apply_swap H) (filter_message H senders) k sw r w"

definition run_filter_loop ::
    "('x, 's, 'h) runner_host_scheme \<Rightarrow> nat \<Rightarrow> 's filter_node \<Rightarrow> tracked_receiver
       \<Rightarrow> downstream_sender list \<Rightarrow> nat \<Rightarrow> error_policy_executor \<Rightarrow> node_state_tracker \<Rightarrow> node_metrics
       \<Rightarrow> ('x, 's) world \<Rightarrow> (exit_result \<times> 's filter_node runner \<times> ('x, 's) world) option" where
  "run_filter_loop H k n rx senders sw x st m w =
     map_option (drain_and_exit H)
       (run_loop (filter_iteration H k senders sw) k (runner_start n rx x st m) w)"

section \<open>Conservation\<close>

lemma dispatch_filter_balance:
  assumes "quiet H (dequeued q)" "dispatch_filter_outcome H oc senders env r w = (r', w')"
  shows "same_input r r' \<and> balance q r' w' = balance q r w + 1"
proof (cases oc)
  case Forward
  obtain m w1 where m: "record_processed H (rn_metrics r) w = (m, w1)" by fastforce
  from assms(2) Forward m have rep: "report_first_outcome H ForwardedEnqueued (r\<lparr>rn_metrics := m\<rparr>)
      (send_downstream H senders env w1) = (r', w')"
    by (simp add: dispatch_filter_outcome_def)
  have "settled m = settled (rn_metrics r) + 1" "dequeued q (w_queues w1) = dequeued q (w_queues w)"
    using settled_record_processed [of H "rn_metrics r" w] m
      quiet_record_processed [OF assms(1), of "rn_metrics r" w] by simp_all
  with report_first_balance [OF assms(1) rep] send_downstream_dequeued [OF assms(1), of senders env w1]
  show ?thesis by (simp add: balance_def)
next
  case DropMessage
  with assms(2) have rep: "report_first_outcome H FilterDropped
      (r\<lparr>rn_metrics := record_filtered_out (rn_metrics r)\<rparr>) w = (r', w')"
    by (simp add: dispatch_filter_outcome_def)
  from report_first_balance [OF assms(1) rep] show ?thesis by (simp add: balance_def)
qed

lemma filter_apply_swap_balance:
  assumes "quiet H (dequeued q)" "filter_apply_swap H p r w = (r', w')"
  shows "same_input r r' \<and> balance q r' w' = balance q r w"
proof -
  let ?app = "case p of SwapReconfigure cfg _ \<Rightarrow> fn_reconfigure H cfg (rn_node r) w
    | _ \<Rightarrow> try_apply_filter H p (rn_node r) w"
  obtain res n w1 where app: "?app = (res, n, w1)" by (metis prod_cases3)
  have "dequeued q (w_queues (snd (snd ?app))) = dequeued q (w_queues w)"
    by (cases p) (simp_all add: quiet_intros assms(1))
  with app have w1: "dequeued q (w_queues w1) = dequeued q (w_queues w)" by simp
  show ?thesis
  proof (cases res)
    case (Inl e)
    with assms(2) app w1 show ?thesis
      by (auto simp: filter_apply_swap_def balance_def)
  next
    case (Inr u)
    with assms(2) app have "adopt_swap H (payload_progress p) (r\<lparr>rn_node := n\<rparr>) w1 = (r', w')"
      by (simp add: filter_apply_swap_def Let_def)
    from adopt_swap_balance [OF assms(1) this] w1 show ?thesis
      by (simp add: balance_world [of q w1 w])
  qed
qed

lemma filter_message_balance:
  assumes "quiet H (dequeued q)" "filter_message H senders env r w = (st, w')"
  shows "same_input r (loop_runner st) \<and> balance q (loop_runner st) w' = balance q r w + 1"
proof -
  obtain res n w1 where ev: "fn_evaluate H env (rn_node r) w = (res, n, w1)" by (metis prod_cases3)
  define r1 where "r1 = r\<lparr>rn_node := n\<rparr>"
  have w1: "balance q r1 w1 = balance q r w"
    using quiet_evaluate [OF assms(1), of env "rn_node r" w] ev by (simp add: balance_def r1_def)
  have "same_input r1 (loop_runner st) \<and> balance q (loop_runner st) w' = balance q r1 w1 + 1"
  proof (cases res)
    case (Inr oc)
    obtain r2 w2 where d: "dispatch_filter_outcome H oc senders env r1 w1 = (r2, w2)" by fastforce
    with assms(2) ev Inr have "st = LoopContinue r2" "w' = w2"
      by (simp_all add: filter_message_def r1_def)
    with dispatch_filter_balance [OF assms(1) d] show ?thesis by simp
  next
    case (Inl err)
    with assms(2) ev have "node_failure H (fn_recover H) err env r1 w1 = (st, w')"
      by (simp add: filter_message_def r1_def)
    from filter_rec.node_failure_balance [OF assms(1) this] show ?thesis .
  qed
  with w1 show ?thesis by (simp add: r1_def)
qed

interpretation filter_relay: relay_node filter_apply_swap filter_message
  by unfold_locales (fact filter_apply_swap_balance, fact filter_message_balance)

section \<open>Properties\<close>

text \<open>
  C5: a filter loses no message. Whatever happens while it runs (verdicts, guest errors, traps,
  exhausted budgets, swaps, cancellation), when the loop returns the messages it has settled
  (forwarded, filtered out, dead-lettered, skipped, or dropped on recovery or teardown) are exactly
  those it took from its queue plus the retries it started with, and nothing is buffered or held.
\<close>

theorem filter_settles_all:
  assumes "quiet H (dequeued q)" "tr_queue_metrics rx = Some q"
    and "run_filter_loop H k n rx senders sw x st m w = Some (e, r', w')"
  shows "settled (rn_metrics r') + dequeued q (w_queues w) =
      settled m + of_nat (pending_retries x) + dequeued q (w_queues w') \<and>
    pending_retries (rn_policy r') = 0 \<and> rn_held r' = None"
  using filter_relay.loop_settles [OF assms(1,2)] assms(3)
  unfolding run_filter_loop_def filter_iteration_def by blast

definition sample_filter :: "nat list filter_node" where
  "sample_filter = FNative \<lparr>nf_id = ''n'', nf_predicate_fn = (\<lambda>_. True)\<rparr>"

theorem filter_settles_all_witness:
  "\<exists>e r' w'. run_filter_loop sample_runner 4 sample_filter (tracked_receiver_new 0 0) [sample_sender] 0
      sample_executor (state_new 0) node_metrics_new (sample_start [sample_envelope] 2) = Some (e, r', w') \<and>
    settled (rn_metrics r') = 1"
proof -
  let ?run = "run_filter_loop sample_runner 4 sample_filter (tracked_receiver_new 0 0) [sample_sender] 0
      sample_executor (state_new 0) node_metrics_new (sample_start [sample_envelope] 2)"
  have q: "tr_queue_metrics (tracked_receiver_new 0 0) = Some 0" by (simp add: tracked_receiver_new_def)
  obtain e r' w' where run: "?run = Some (e, r', w')" and "dequeued 0 (w_queues w') = 1"
    by (simp add: loop_eval run_filter_loop_def filter_iteration_def filter_message_def fn_evaluate_def sample_filter_def
        evaluate_sync_def dispatch_filter_outcome_def)
  from filter_settles_all [OF sample_runner_quiet q run] this show ?thesis
    by (auto simp: loop_eval)
qed

end
