(* ===== verification/RouterLoop.thy ===== *)
theory RouterLoop
  imports NodeLoop
begin

text \<open>
  The router loop, \<open>wafer-core/src/runner/router.rs\<close>: one iteration, the loop with its final flush,
  and what it does with every message it takes from its queue.
\<close>

definition dispatch_route_outcome ::
    "('x, 's, 'h) runner_host_scheme \<Rightarrow> string list \<Rightarrow> downstream_sender list \<Rightarrow> runtime_envelope
       \<Rightarrow> 'n runner \<Rightarrow> ('x, 's) world \<Rightarrow> 'n runner \<times> ('x, 's) world" where
  "dispatch_route_outcome H ports senders env r w =
     (if ports = [] then
        let (m, w) = record_processed H (rn_metrics r) w
        in report_first_outcome H RouterDropped (r\<lparr>rn_metrics := m\<rparr>) w
      else
        let (m, w) = record_processed H (rn_metrics r) w;
            w = fan_out H ports env senders w
        in report_first_outcome H ForwardedEnqueued (r\<lparr>rn_metrics := m\<rparr>) w)"

definition router_apply_swap ::
    "('x, 's, 'h) runner_host_scheme \<Rightarrow> swap_payload \<Rightarrow> 's wasm_node runner \<Rightarrow> ('x, 's) world
       \<Rightarrow> 's wasm_node runner \<times> ('x, 's) world" where
  "router_apply_swap H payload r w =
     (let g = payload_progress payload;
          (result, n, w) =
            (case payload of
               SwapReconfigure cfg _ \<Rightarrow> router_reconfigure H cfg (rn_node r) w
             | _ \<Rightarrow> try_apply_router H payload (rn_node r) w);
          r = r\<lparr>rn_node := n\<rparr>
      in
      case result of
        Inr _ \<Rightarrow> adopt_swap H g r w
      | Inl e \<Rightarrow> (r, reject_swap g e w))"

definition router_message ::
    "('x, 's, 'h) runner_host_scheme \<Rightarrow> downstream_sender list \<Rightarrow> runtime_envelope
       \<Rightarrow> 's wasm_node runner \<Rightarrow> ('x, 's) world
       \<Rightarrow> 's wasm_node runner loop_step \<times> ('x, 's) world" where
  "router_message H senders env r w =
     (let (result, n, w) = router_route H env (rn_node r) w; r = r\<lparr>rn_node := n\<rparr> in
      case result of
        Inr (RouteError e) \<Rightarrow>
          let err = ProcessingFailed (pe_message e)
          in step_of_policy (apply_policy H err env (note_error err r) w)
      | Inr (Ports ports) \<Rightarrow>
          let (r, w) = dispatch_route_outcome H ports senders env r w in (LoopContinue r, w)
      | Inl err \<Rightarrow> node_failure H (router_recover H) err env r w)"

definition router_iteration ::
    "('x, 's, 'h) runner_host_scheme \<Rightarrow> nat \<Rightarrow> downstream_sender list \<Rightarrow> nat
       \<Rightarrow> 's wasm_node runner \<Rightarrow> ('x, 's) world
       \<Rightarrow> ('s wasm_node runner loop_step \<times> ('x, 's) world) option" where
  "router_iteration H k senders sw r w =
     node_iteration H (router_apply_swap H) (router_message H senders) k sw r w"

definition run_router_loop ::
    "('x, 's, 'h) runner_host_scheme \<Rightarrow> nat \<Rightarrow> 's wasm_node \<Rightarrow> tracked_receiver
       \<Rightarrow> downstream_sender list \<Rightarrow> nat \<Rightarrow> error_policy_executor \<Rightarrow> node_state_tracker \<Rightarrow> node_metrics
       \<Rightarrow> ('x, 's) world \<Rightarrow> (exit_result \<times> 's wasm_node runner \<times> ('x, 's) world) option" where
  "run_router_loop H k n rx senders sw x st m w =
     map_option (drain_and_exit H)
       (run_loop (router_iteration H k senders sw) k (runner_start n rx x st m) w)"

section \<open>Conservation\<close>

lemma dispatch_route_balance:
  assumes "quiet H (dequeued q)" "dispatch_route_outcome H ports senders env r w = (r', w')"
  shows "same_input r r' \<and> balance q r' w' = balance q r w + 1"
proof -
  obtain m w1 where m: "record_processed H (rn_metrics r) w = (m, w1)" by fastforce
  define w2 where "w2 = (if ports = [] then w1 else fan_out H ports env senders w1)"
  from assms(2) m have rep: "report_first_outcome H (if ports = [] then RouterDropped else ForwardedEnqueued)
      (r\<lparr>rn_metrics := m\<rparr>) w2 = (r', w')"
    by (simp add: dispatch_route_outcome_def w2_def split: if_splits)
  have "settled m = settled (rn_metrics r) + 1" "dequeued q (w_queues w2) = dequeued q (w_queues w)"
    using settled_record_processed [of H "rn_metrics r" w] m fan_out_dequeued [OF assms(1), of ports env senders w1]
      quiet_record_processed [OF assms(1), of "rn_metrics r" w] by (simp_all add: w2_def)
  with report_first_balance [OF assms(1) rep] show ?thesis by (simp add: balance_def)
qed

lemma router_apply_swap_balance:
  assumes "quiet H (dequeued q)" "router_apply_swap H p r w = (r', w')"
  shows "same_input r r' \<and> balance q r' w' = balance q r w"
proof -
  let ?app = "case p of SwapReconfigure cfg _ \<Rightarrow> router_reconfigure H cfg (rn_node r) w
    | _ \<Rightarrow> try_apply_router H p (rn_node r) w"
  obtain res n w1 where app: "?app = (res, n, w1)" by (metis prod_cases3)
  have "dequeued q (w_queues (snd (snd ?app))) = dequeued q (w_queues w)"
    by (cases p) (simp_all add: quiet_intros assms(1))
  with app have w1: "dequeued q (w_queues w1) = dequeued q (w_queues w)" by simp
  show ?thesis
  proof (cases res)
    case (Inl e)
    with assms(2) app w1 show ?thesis by (auto simp: router_apply_swap_def balance_def)
  next
    case (Inr u)
    with assms(2) app have "adopt_swap H (payload_progress p) (r\<lparr>rn_node := n\<rparr>) w1 = (r', w')"
      by (simp add: router_apply_swap_def Let_def)
    from adopt_swap_balance [OF assms(1) this] w1 show ?thesis
      by (simp add: balance_world [of q w1 w])
  qed
qed

lemma router_message_balance:
  assumes "quiet H (dequeued q)" "router_message H senders env r w = (st, w')"
  shows "same_input r (loop_runner st) \<and> balance q (loop_runner st) w' = balance q r w + 1"
proof -
  obtain res n w1 where ev: "router_route H env (rn_node r) w = (res, n, w1)" by (metis prod_cases3)
  define r1 where "r1 = r\<lparr>rn_node := n\<rparr>"
  have w1: "balance q r1 w1 = balance q r w"
    using quiet_route [OF assms(1), of env "rn_node r" w] ev by (simp add: balance_def r1_def)
  note step = assms(2) [unfolded router_message_def ev Let_def prod.case r1_def [symmetric]]
  have "same_input r1 (loop_runner st) \<and> balance q (loop_runner st) w' = balance q r1 w1 + 1"
  proof (cases res)
    case (Inr oc)
    show ?thesis
    proof (cases oc)
      case (Ports ports)
      obtain r2 w2 where d: "dispatch_route_outcome H ports senders env r1 w1 = (r2, w2)" by fastforce
      with step Inr Ports have "st = LoopContinue r2" "w' = w2" by simp_all
      with dispatch_route_balance [OF assms(1) d] show ?thesis by simp
    next
      case (RouteError e)
      let ?err = "ProcessingFailed (pe_message e)"
      obtain go r2 w2 where t: "apply_policy H ?err env (note_error ?err r1) w1 = (go, r2, w2)"
        by (metis prod_cases3)
      from apply_policy_balance [OF assms(1) t] step Inr RouteError t show ?thesis
        by (auto simp: step_of_policy_eq)
    qed
  next
    case (Inl err)
    with step have "node_failure H (router_recover H) err env r1 w1 = (st, w')" by simp
    from router_rec.node_failure_balance [OF assms(1) this] show ?thesis .
  qed
  with w1 show ?thesis by (simp add: r1_def)
qed

interpretation router_relay: relay_node router_apply_swap router_message
  by unfold_locales (fact router_apply_swap_balance, fact router_message_balance)

section \<open>Properties\<close>

text \<open>
  C6: a router loses no message. When its loop returns, the messages it has settled (routed to
  any number of ports, dead-lettered, skipped, or dropped on recovery or teardown) are exactly
  those it took from its queue plus the retries it started with, and nothing is buffered or held.
\<close>

theorem router_settles_all:
  assumes "quiet H (dequeued q)" "tr_queue_metrics rx = Some q"
    and "run_router_loop H k n rx senders sw x st m w = Some (e, r', w')"
  shows "settled (rn_metrics r') + dequeued q (w_queues w) =
      settled m + of_nat (pending_retries x) + dequeued q (w_queues w') \<and>
    pending_retries (rn_policy r') = 0 \<and> rn_held r' = None"
  using router_relay.loop_settles [OF assms(1,2)] assms(3)
  unfolding run_router_loop_def router_iteration_def by blast

theorem router_settles_all_witness:
  "\<exists>e r' w'. run_router_loop sample_runner 2 sample_node (tracked_receiver_new 0 0) [sample_sender] 0
      sample_executor (state_new 0) node_metrics_new (sample_start [] 2) = Some (e, r', w') \<and>
    settled (rn_metrics r') = 0"
proof -
  let ?run = "run_router_loop sample_runner 2 sample_node (tracked_receiver_new 0 0) [sample_sender] 0
      sample_executor (state_new 0) node_metrics_new (sample_start [] 2)"
  have q: "tr_queue_metrics (tracked_receiver_new 0 0) = Some 0" by (simp add: tracked_receiver_new_def)
  obtain e r' w' where run: "?run = Some (e, r', w')" and "dequeued 0 (w_queues w') = 0"
    by (simp add: loop_eval run_router_loop_def router_iteration_def)
  from router_settles_all [OF sample_runner_quiet q run] this show ?thesis
    by (auto simp: loop_eval)
qed

end
