(* ===== verification/TransformLoop.thy ===== *)
theory TransformLoop
  imports NodeLoop
begin

text \<open>
  The transform loop, \<open>wafer-core/src/runner/transform.rs\<close>: the loop of the other nodes with the
  canary window in addition. After a swap the pre-instantiated previous version is kept; a trap
  while the window is open rolls back to it once and runs the failed message again before anything
  else is taken.
\<close>

record 's transform_runner = "'s transform_node runner" +
  tl_canary :: "transform_canary_state option"
  tl_rollback_retry :: "runtime_envelope option"

definition close_canary ::
    "('x, 's, 'h) runner_host_scheme \<Rightarrow> 's transform_runner \<Rightarrow> ('x, 's) world
       \<Rightarrow> 's transform_runner \<times> ('x, 's) world" where
  "close_canary H r w =
     (case tl_canary r of
        None \<Rightarrow> (r, w)
      | Some c \<Rightarrow>
          let (expired, w) = window_expired H (ca_counters c) w
          in (if expired then r\<lparr>tl_canary := None\<rparr> else r, w))"

definition transform_apply_swap ::
    "('x, 's, 'h) runner_host_scheme \<Rightarrow> hot_swap_config \<Rightarrow> swap_payload \<Rightarrow> 's transform_runner
       \<Rightarrow> ('x, 's) world \<Rightarrow> 's transform_runner \<times> ('x, 's) world" where
  "transform_apply_swap H cfg payload r w =
     (let g = payload_progress payload;
          v1_pre = map_option wn_cached_pre (tn_as_wasm (rn_node r));
          is_reconfigure = (case payload of SwapReconfigure _ _ \<Rightarrow> True | _ \<Rightarrow> False);
          (result, n, w) =
            (case payload of
               SwapReconfigure new_config _ \<Rightarrow> tn_reconfigure H new_config (rn_node r) w
             | _ \<Rightarrow> try_apply_transform H payload (rn_node r) w);
          r = r\<lparr>rn_node := n\<rparr>
      in
      case result of
        Inl e \<Rightarrow> (r, reject_swap g e w)
      | Inr _ \<Rightarrow>
          let (r, w) = adopt_swap H g r w in
          if is_reconfigure then (r\<lparr>tl_canary := None\<rparr>, w)
          else
            (case v1_pre of
               None \<Rightarrow> (r, w)
             | Some pre \<Rightarrow>
                 let (c, w) = canary_state_new H pre cfg g w in (r\<lparr>tl_canary := Some c\<rparr>, w)))"

definition set_cached_pre :: "instance_pre \<Rightarrow> 's transform_node \<Rightarrow> 's transform_node" where
  "set_cached_pre pre t = (case t of TWasm n \<Rightarrow> TWasm (n\<lparr>wn_cached_pre := pre\<rparr>) | TNative n \<Rightarrow> TNative n)"

text \<open>A trap inside the window; the canary has been taken. \<open>True\<close> means the roll back worked.\<close>

definition roll_back ::
    "('x, 's, 'h) runner_host_scheme \<Rightarrow> transform_canary_state \<Rightarrow> wasm_process_error \<Rightarrow> runtime_envelope
       \<Rightarrow> 's transform_runner \<Rightarrow> ('x, 's) world \<Rightarrow> bool \<times> 's transform_runner \<times> ('x, 's) world" where
  "roll_back H c err safety r w =
     (let msg = wasm_process_error_display err;
          (_, st, w) = transition_to_error H (rn_state r) w;
          n = set_cached_pre (ca_snapshot_pre c) (rn_node r);
          w = restore_replaced_plugin_hash (ca_swap c) w;
          (rollback_start, w) = h_now H w;
          (res, n, w) = tn_recover H n w
      in
      case res of
        Inr _ \<Rightarrow>
          let (el, w) = elapsed H rollback_start w;
              rollback_ns = duration_ns_saturating el;
              (_, st) = transition_to_recovering st;
              (d, st, w) = transition_recovering_to_running_timed H st w;
              m = (case d of None \<Rightarrow> rn_metrics r | Some ns \<Rightarrow> record_recovery ns (rn_metrics r));
              w = (case rn_pending_swap r of
                     None \<Rightarrow> w
                   | Some g \<Rightarrow> update_progress g (report_rolled_back rollback_ns msg) w)
          in (True, r\<lparr>rn_node := n, rn_state := st, rn_metrics := record_rollback m,
                       rn_pending_swap := None, tl_rollback_retry := Some safety\<rparr>, w)
      | Inl e \<Rightarrow>
          let w = (case rn_pending_swap r of
                     None \<Rightarrow> w
                   | Some g \<Rightarrow> update_progress g (report_rolled_back 0
                                 (''rollback failed: '' @ wafer_error_display e)) w)
          in (False, r\<lparr>rn_node := n, rn_state := st, rn_pending_swap := None\<rparr>, w))"

definition transform_failure ::
    "('x, 's, 'h) runner_host_scheme \<Rightarrow> wasm_process_error \<Rightarrow> runtime_envelope \<Rightarrow> 's transform_runner
       \<Rightarrow> ('x, 's) world \<Rightarrow> 's transform_runner loop_step \<times> ('x, 's) world" where
  "transform_failure H err safety r w =
     (case tl_canary r of
        None \<Rightarrow> node_failure H (tn_recover H) err safety r w
      | Some c \<Rightarrow>
          if is_condemning err then
            let r = note_error err r;
                (ok, r, w) = roll_back H c err safety (r\<lparr>tl_canary := None\<rparr>) w
            in
            if ok then (LoopContinue r, w)
            else step_of_exit (recover_condemned H (tn_recover H) err safety r w)
          else step_of_policy (apply_policy H err safety (note_error err r) w))"

definition transform_message ::
    "('x, 's, 'h) runner_host_scheme \<Rightarrow> downstream_sender list \<Rightarrow> runtime_envelope
       \<Rightarrow> 's transform_runner \<Rightarrow> ('x, 's) world \<Rightarrow> 's transform_runner loop_step \<times> ('x, 's) world" where
  "transform_message H senders env r w =
     (let (result, n, w) = tn_process H env (rn_node r) w; r = r\<lparr>rn_node := n\<rparr> in
      case result of
        Inr out \<Rightarrow>
          let (m, w) = record_processed H (rn_metrics r) w;
              w = send_downstream H senders out w;
              (r, w) = report_first_outcome H ForwardedEnqueued (r\<lparr>rn_metrics := m\<rparr>) w
          in (LoopContinue (r\<lparr>tl_canary := map_option canary_success (tl_canary r)\<rparr>), w)
      | Inl err \<Rightarrow> transform_failure H err env r w)"

definition transform_iteration ::
    "('x, 's, 'h) runner_host_scheme \<Rightarrow> nat \<Rightarrow> hot_swap_config \<Rightarrow> downstream_sender list \<Rightarrow> nat
       \<Rightarrow> 's transform_runner \<Rightarrow> ('x, 's) world
       \<Rightarrow> ('s transform_runner loop_step \<times> ('x, 's) world) option" where
  "transform_iteration H k cfg senders sw r w =
     (let (r, w) = close_canary H r w;
          (payload, w) = (if tl_rollback_retry r = None then take_pending_swap H sw w else (None, w))
      in
      case payload of
        Some p \<Rightarrow> let (r, w) = transform_apply_swap H cfg p r w in Some (LoopContinue r, w)
      | None \<Rightarrow>
          (case tl_rollback_retry r of
             Some retry \<Rightarrow> Some (transform_message H senders retry (r\<lparr>tl_rollback_retry := None\<rparr>) w)
           | None \<Rightarrow>
               (case runner_input H k sw r w of
                  None \<Rightarrow> None
                | Some (InputEnvelope env, r, w) \<Rightarrow> Some (transform_message H senders env r w)
                | Some (InputSwap, r, w) \<Rightarrow> Some (LoopContinue r, w)
                | Some (InputClosed, r, w) \<Rightarrow> Some (LoopBreak (Inr ()) r, w))))"

definition run_transform_loop_with_config ::
    "('x, 's, 'h) runner_host_scheme \<Rightarrow> nat \<Rightarrow> 's transform_node \<Rightarrow> tracked_receiver
       \<Rightarrow> downstream_sender list \<Rightarrow> nat \<Rightarrow> error_policy_executor \<Rightarrow> node_state_tracker \<Rightarrow> node_metrics
       \<Rightarrow> hot_swap_config \<Rightarrow> ('x, 's) world
       \<Rightarrow> (exit_result \<times> 's transform_runner \<times> ('x, 's) world) option" where
  "run_transform_loop_with_config H k n rx senders sw x st m cfg w =
     map_option (drain_and_exit H)
       (run_loop (transform_iteration H k cfg senders sw) k
          (runner.extend (runner_start n rx x st m)
             \<lparr>tl_canary = None, tl_rollback_retry = None\<rparr>) w)"

definition run_transform_loop ::
    "('x, 's, 'h) runner_host_scheme \<Rightarrow> nat \<Rightarrow> 's transform_node \<Rightarrow> tracked_receiver
       \<Rightarrow> downstream_sender list \<Rightarrow> nat \<Rightarrow> error_policy_executor \<Rightarrow> node_state_tracker \<Rightarrow> node_metrics
       \<Rightarrow> ('x, 's) world \<Rightarrow> (exit_result \<times> 's transform_runner \<times> ('x, 's) world) option" where
  "run_transform_loop H k n rx senders sw x st m w =
     run_transform_loop_with_config H k n rx senders sw x st m hot_swap_config_default w"

section \<open>Conservation\<close>

definition transform_total :: "nat \<Rightarrow> 's transform_runner \<Rightarrow> ('x, 's) world \<Rightarrow> u64" where
  "transform_total q r w = balance q r w + opt_count (tl_rollback_retry r)"

lemma same_input_transform:
  assumes "same_input r r'"
  shows "tl_canary r' = tl_canary r" "tl_rollback_retry r' = tl_rollback_retry r"
  using assms by (cases r; cases r'; simp add: same_input_def)+

lemma transform_field_updates [simp]:
  "balance q (r\<lparr>tl_canary := c\<rparr>) w = balance q r w" "balance q (r\<lparr>tl_rollback_retry := b\<rparr>) w = balance q r w"
  "wired q (r\<lparr>tl_canary := c\<rparr>) = wired q r" "wired q (r\<lparr>tl_rollback_retry := b\<rparr>) = wired q r"
  by (simp_all add: balance_def wired_def)

text \<open>What handling a message keeps: the receiver, and the held message.\<close>

definition keeps_input :: "'s transform_runner \<Rightarrow> 's transform_runner \<Rightarrow> bool" where
  "keeps_input r r' \<longleftrightarrow> rn_receiver r' = rn_receiver r \<and> rn_held r' = rn_held r"

lemma keeps_input_update [simp]:
  "keeps_input r (r\<lparr>tl_canary := c\<rparr>)" "keeps_input r r"
  "keeps_input (r\<lparr>rn_node := n\<rparr>) r' = keeps_input r r'" "keeps_input (note_error e r) r' = keeps_input r r'"
  "keeps_input (r\<lparr>tl_canary := c\<rparr>) r' = keeps_input r r'"
  by (simp_all add: keeps_input_def note_error_def)

lemma same_input_keeps: "same_input r r' \<Longrightarrow> keeps_input r r'"
  by (simp add: keeps_input_def same_input_def)

lemma keeps_input_trans: "keeps_input r r' \<Longrightarrow> keeps_input r' r'' \<Longrightarrow> keeps_input r r''"
  by (simp add: keeps_input_def)

lemma note_error_transform [simp]:
  "tl_canary (note_error e r) = tl_canary r" "tl_rollback_retry (note_error e r) = tl_rollback_retry r"
  by (simp_all add: note_error_def)

lemma roll_back_balance:
  assumes "quiet H (dequeued q)" "roll_back H c err env r w = (ok, r', w')"
  shows "keeps_input r r' \<and> balance q r' w' = balance q r w \<and> tl_canary r' = tl_canary r \<and>
    tl_rollback_retry r' = (if ok then Some env else tl_rollback_retry r) \<and> rn_pending_swap r' = None"
proof -
  obtain b st w1 where e: "transition_to_error H (rn_state r) w = (b, st, w1)" by (metis prod_cases3)
  let ?w2 = "restore_replaced_plugin_hash (ca_swap c) w1"
  obtain start w3 where n: "h_now H ?w2 = (start, w3)" by fastforce
  obtain res n' w4 where rec: "tn_recover H (set_cached_pre (ca_snapshot_pre c) (rn_node r)) w3 = (res, n', w4)"
    by (metis prod_cases3)
  have w4: "dequeued q (w_queues w4) = dequeued q (w_queues w)"
    using to_error_quiet [OF assms(1) e] quiet_fst(1) [OF assms(1) n]
      transform_rec.recover_quiet [OF assms(1), of "set_cached_pre (ca_snapshot_pre c) (rn_node r)" w3] rec
    by simp
  show ?thesis
  proof (cases res)
    case (Inl err')
    with assms(2) e n rec w4 show ?thesis
      by (auto simp: roll_back_def keeps_input_def balance_def split: option.splits)
  next
    case (Inr u)
    obtain el w5 where el: "elapsed H start w4 = (el, w5)" by fastforce
    obtain b2 st2 where t: "transition_to_recovering st = (b2, st2)" by fastforce
    obtain d st3 w6 where d: "transition_recovering_to_running_timed H st2 w5 = (d, st3, w6)"
      by (metis prod_cases3)
    have w6: "dequeued q (w_queues w6) = dequeued q (w_queues w)"
      using timed_quiet [OF assms(1) d] quiet_elapsed [OF assms(1), of start w4] el w4 by simp
    with assms(2) e n rec Inr el t d show ?thesis
      by (cases d; cases "rn_pending_swap r")
         (auto simp: roll_back_def keeps_input_def balance_def Let_def)
  qed
qed

lemma transform_failure_total:
  assumes "quiet H (dequeued q)" "tl_rollback_retry r = None"
    and "transform_failure H err env r w = (st, w')"
  shows "keeps_input r (loop_runner st) \<and> transform_total q (loop_runner st) w' = transform_total q r w + 1 \<and>
    (\<forall>e r'. st = LoopBreak e r' \<longrightarrow> tl_rollback_retry r' = None)"
proof -
  have plain: ?thesis if "same_input r0 (loop_runner st)" "tl_rollback_retry r0 = None" "keeps_input r r0"
      "balance q (loop_runner st) w' = balance q r w + 1" for r0
    using same_input_transform(2) [OF that(1)] that same_input_keeps [OF that(1)] assms(2)
    by (auto simp: transform_total_def intro: keeps_input_trans)
  show ?thesis
  proof (cases "tl_canary r")
    case None
    with assms(3) have "node_failure H (tn_recover H) err env r w = (st, w')"
      by (simp add: transform_failure_def)
    from transform_rec.node_failure_balance [OF assms(1) this] assms(2) show ?thesis
      by (intro plain [of r]) simp_all
  next
    case (Some c)
    show ?thesis
    proof (cases "is_condemning err")
      case False
      obtain go r2 w2 where t: "apply_policy H err env (note_error err r) w = (go, r2, w2)"
        by (metis prod_cases3)
      from assms(3) Some False t have "loop_runner st = r2" "w' = w2"
        by (auto simp: transform_failure_def step_of_policy_eq)
      with apply_policy_balance [OF assms(1) t] assms(2) show ?thesis by (intro plain [of r]) simp_all
    next
      case True
      let ?r = "(note_error err r)\<lparr>tl_canary := None\<rparr>"
      obtain ok r2 w2 where rb: "roll_back H c err env ?r w = (ok, r2, w2)" by (metis prod_cases3)
      note rb_spec = roll_back_balance [OF assms(1) rb]
      show ?thesis
      proof (cases ok)
        case True2: True
        with assms(3) Some True rb have "st = LoopContinue r2" "w' = w2"
          by (simp_all add: transform_failure_def)
        with rb_spec True2 assms(2) show ?thesis by (simp add: transform_total_def)
      next
        case False
        obtain ex r3 w3 where t: "recover_condemned H (tn_recover H) err env r2 w2 = (ex, r3, w3)"
          by (metis prod_cases3)
        from assms(3) Some True rb False t have "loop_runner st = r3" "w' = w3"
          by (auto simp: transform_failure_def step_of_exit_eq)
        with transform_rec.recover_condemned_balance [OF assms(1) t] rb_spec False assms(2) show ?thesis
          by (intro plain [of r2]) simp_all
      qed
    qed
  qed
qed

lemma transform_message_total:
  assumes "quiet H (dequeued q)" "tl_rollback_retry r = None"
    and "transform_message H senders env r w = (st, w')"
  shows "keeps_input r (loop_runner st) \<and> transform_total q (loop_runner st) w' = transform_total q r w + 1 \<and>
    (\<forall>e r'. st = LoopBreak e r' \<longrightarrow> tl_rollback_retry r' = None)"
proof -
  obtain res n w1 where ev: "tn_process H env (rn_node r) w = (res, n, w1)" by (metis prod_cases3)
  define r1 where "r1 = r\<lparr>rn_node := n\<rparr>"
  have w1: "dequeued q (w_queues w1) = dequeued q (w_queues w)"
    using quiet_process [OF assms(1), of env "rn_node r" w] ev by simp
  then have tot: "transform_total q r1 w1 = transform_total q r w"
    by (simp add: transform_total_def balance_def r1_def)
  show ?thesis
  proof (cases res)
    case (Inl err)
    with assms(3) ev have "transform_failure H err env r1 w1 = (st, w')"
      by (simp add: transform_message_def r1_def)
    from transform_failure_total [OF assms(1) _ this] assms(2) tot show ?thesis
      by (simp add: r1_def)
  next
    case (Inr out)
    obtain m w2 where m: "record_processed H (rn_metrics r1) w1 = (m, w2)" by fastforce
    let ?w3 = "send_downstream H senders out w2"
    obtain r4 w4 where rep: "report_first_outcome H ForwardedEnqueued (r1\<lparr>rn_metrics := m\<rparr>) ?w3 = (r4, w4)"
      by fastforce
    from assms(3) ev Inr m rep have st: "st = LoopContinue (r4\<lparr>tl_canary := map_option canary_success (tl_canary r4)\<rparr>)"
      "w' = w4" by (simp_all add: transform_message_def r1_def)
    have "settled m = settled (rn_metrics r1) + 1" "dequeued q (w_queues ?w3) = dequeued q (w_queues w1)"
      using settled_record_processed [of H "rn_metrics r1" w1] m send_downstream_dequeued [OF assms(1), of senders out w2]
        quiet_record_processed [OF assms(1), of "rn_metrics r1" w1] by simp_all
    then have "balance q (r1\<lparr>rn_metrics := m\<rparr>) ?w3 = balance q r1 w1 + 1" by (simp add: balance_def)
    with report_first_balance [OF assms(1) rep] st tot same_input_transform(2) [of "r1\<lparr>rn_metrics := m\<rparr>" r4]
    show ?thesis by (auto simp: transform_total_def same_input_def keeps_input_def r1_def)
  qed
qed

lemma transform_apply_swap_total:
  assumes "quiet H (dequeued q)" "transform_apply_swap H cfg p r w = (r', w')"
  shows "keeps_input r r' \<and> balance q r' w' = balance q r w \<and> tl_rollback_retry r' = tl_rollback_retry r"
proof -
  let ?app = "case p of SwapReconfigure new_config _ \<Rightarrow> tn_reconfigure H new_config (rn_node r) w
    | _ \<Rightarrow> try_apply_transform H p (rn_node r) w"
  obtain res n w1 where app: "?app = (res, n, w1)" by (metis prod_cases3)
  have "dequeued q (w_queues (snd (snd ?app))) = dequeued q (w_queues w)"
    by (cases p) (simp_all add: quiet_intros assms(1))
  with app have w1: "dequeued q (w_queues w1) = dequeued q (w_queues w)" by simp
  define r1 where "r1 = r\<lparr>rn_node := n\<rparr>"
  have r1: "keeps_input r r1" "tl_rollback_retry r1 = tl_rollback_retry r" "balance q r1 w1 = balance q r w"
    using w1 by (simp_all add: r1_def keeps_input_def balance_def)
  show ?thesis
  proof (cases res)
    case (Inl e)
    with assms(2) app have "r' = r1" "w' = reject_swap (payload_progress p) e w1"
      by (simp_all add: transform_apply_swap_def Let_def r1_def)
    with r1 show ?thesis by (simp add: balance_def)
  next
    case (Inr u)
    obtain r2 w2 where ad: "adopt_swap H (payload_progress p) r1 w1 = (r2, w2)" by fastforce
    note ad_spec = adopt_swap_balance [OF assms(1) ad]
    obtain c where r': "r' = r2\<lparr>tl_canary := c\<rparr>" and w': "dequeued q (w_queues w') = dequeued q (w_queues w2)"
    proof (cases "case p of SwapReconfigure _ _ \<Rightarrow> True | _ \<Rightarrow> False")
      case True
      with assms(2) app Inr ad have "r' = r2\<lparr>tl_canary := None\<rparr>" "w' = w2"
        by (simp_all add: transform_apply_swap_def Let_def r1_def)
      then show ?thesis using that by simp
    next
      case False
      note step = assms(2) [unfolded transform_apply_swap_def Let_def app prod.case Inr sum.case
          r1_def [symmetric] ad if_not_P [OF False]]
      show ?thesis
      proof (cases "map_option wn_cached_pre (tn_as_wasm (rn_node r))")
        case None
        with step have "r' = r2\<lparr>tl_canary := tl_canary r2\<rparr>" "w' = w2" by simp_all
        then show ?thesis using that by blast
      next
        case (Some pre)
        obtain c w3 where c: "canary_state_new H pre cfg (payload_progress p) w2 = (c, w3)" by fastforce
        with step Some have "r' = r2\<lparr>tl_canary := Some c\<rparr>" "w' = w3" by simp_all
        moreover have "dequeued q (w_queues w3) = dequeued q (w_queues w2)"
          using quiet_canary_new [OF assms(1), of pre cfg "payload_progress p" w2] c by simp
        ultimately show ?thesis using that by blast
      qed
    qed
    have "balance q r' w' = balance q r2 w2" using w' r' by (simp add: balance_def)
    with ad_spec r1 same_input_transform(2) [of r1 r2] r' show ?thesis
      by (auto simp: keeps_input_def same_input_def)
  qed
qed

lemma close_canary_total:
  assumes "quiet H (dequeued q)" "close_canary H r w = (r', w')"
  shows "keeps_input r r' \<and> balance q r' w' = balance q r w \<and> tl_rollback_retry r' = tl_rollback_retry r"
proof (cases "tl_canary r")
  case None
  with assms(2) show ?thesis by (auto simp: close_canary_def)
next
  case (Some c)
  obtain x w1 where x: "window_expired H (ca_counters c) w = (x, w1)" by fastforce
  have "dequeued q (w_queues w1) = dequeued q (w_queues w)"
    using quiet_window [OF assms(1), of "ca_counters c" w] x by simp
  with assms(2) Some x show ?thesis by (auto simp: close_canary_def balance_def)
qed

definition transform_ok :: "nat \<Rightarrow> 's transform_runner \<Rightarrow> bool" where
  "transform_ok q r \<longleftrightarrow> wired q r \<and> (tl_rollback_retry r = None \<or> rn_held r = None)"

text \<open>A message handled with nothing held back leaves the runner in order.\<close>

lemma transform_message_ok:
  assumes "quiet H (dequeued q)" "wired q r" "tl_rollback_retry r = None" "rn_held r = None"
    and "transform_message H senders env r w = (st, w')"
  shows "transform_ok q (loop_runner st) \<and> transform_total q (loop_runner st) w' = balance q r w + 1 \<and>
    (\<forall>e r'. st = LoopBreak e r' \<longrightarrow> rn_held r' = None \<and> tl_rollback_retry r' = None)"
proof -
  from transform_message_total [OF assms(1,3,5)]
  have k: "keeps_input r (loop_runner st)" and t: "transform_total q (loop_runner st) w' = transform_total q r w + 1"
    and b: "\<forall>e r'. st = LoopBreak e r' \<longrightarrow> tl_rollback_retry r' = None" by blast+
  from k assms(2,4) have "wired q (loop_runner st)" "rn_held (loop_runner st) = None"
    by (simp_all add: keeps_input_def wired_def)
  with t b assms(3) show ?thesis by (auto simp: transform_ok_def transform_total_def)
qed

lemma transform_iteration_total:
  assumes "quiet H (dequeued q)" "transform_ok q r" "transform_iteration H k cfg senders sw r w = Some (st, w')"
  shows "transform_ok q (loop_runner st) \<and> transform_total q (loop_runner st) w' = transform_total q r w \<and>
    (\<forall>e r'. st = LoopBreak e r' \<longrightarrow> rn_held r' = None \<and> tl_rollback_retry r' = None)"
proof -
  obtain r1 w1 where c: "close_canary H r w = (r1, w1)" by fastforce
  note c_spec = close_canary_total [OF assms(1) c]
  have ok1: "wired q r1" "tl_rollback_retry r1 = None \<or> rn_held r1 = None"
    using c_spec assms(2) by (auto simp: transform_ok_def keeps_input_def wired_def)
  have tot: "transform_total q r1 w1 = transform_total q r w" using c_spec by (simp add: transform_total_def)
  note step = assms(3) [unfolded transform_iteration_def c Let_def prod.case]
  show ?thesis
  proof (cases "tl_rollback_retry r1")
    case (Some retry)
    let ?r = "r1\<lparr>tl_rollback_retry := None\<rparr>"
    from step Some have m: "transform_message H senders retry ?r w1 = (st, w')" by simp
    from Some ok1 have "rn_held ?r = None" by simp
    from transform_message_ok [OF assms(1) _ _ this m] ok1(1) tot Some show ?thesis
      by (simp add: transform_total_def)
  next
    case None
    obtain payload w2 where p: "take_pending_swap H sw w1 = (payload, w2)" by fastforce
    have w2: "balance q r1 w2 = balance q r1 w1"
      using quiet_take_pending [OF assms(1), of sw w1] p by (simp add: balance_def)
    show ?thesis
    proof (cases payload)
      case (Some pl)
      obtain r3 w3 where s: "transform_apply_swap H cfg pl r1 w2 = (r3, w3)" by fastforce
      with step None p Some have "st = LoopContinue r3" "w' = w3" by simp_all
      with transform_apply_swap_total [OF assms(1) s] w2 tot ok1 None show ?thesis
        by (auto simp: transform_total_def transform_ok_def keeps_input_def wired_def)
    next
      case none: None
      with step None p obtain nxt r3 w3 where i: "runner_input H k sw r1 w2 = Some (nxt, r3, w3)"
        by (cases "runner_input H k sw r1 w2") auto
      note i_spec = runner_input_balance [OF assms(1) ok1(1) i]
      then have more: "tl_rollback_retry r3 = None" using None by (cases r1; cases r3) simp
      have bal: "balance q r3 w3 + input_count nxt = transform_total q r w"
        using i_spec w2 tot None by (simp add: transform_total_def)
      show ?thesis
      proof (cases nxt)
        case (InputEnvelope env)
        with step None p none i have m: "transform_message H senders env r3 w3 = (st, w')" by simp
        from i_spec InputEnvelope have "rn_held r3 = None" "wired q r3" by simp_all
        from transform_message_ok [OF assms(1) this(2) more this(1) m] bal InputEnvelope show ?thesis by simp
      qed (use step None p none i i_spec bal more in \<open>auto simp: transform_total_def transform_ok_def\<close>)
    qed
  qed
qed

interpretation transform_run: conserving_loop
  "\<lambda>(H, k, cfg, senders, sw, q). transform_iteration H k cfg senders sw"
  "\<lambda>(H, k, cfg, senders, sw, q) r. quiet H (dequeued q) \<and> transform_ok q r"
  "\<lambda>(H, k, cfg, senders, sw, q). transform_total q" "\<lambda>r. rn_held r = None \<and> tl_rollback_retry r = None"
proof (unfold_locales, goal_cases)
  case (1 c r w r' w')
  then show ?case by (cases c) (auto dest!: transform_iteration_total)
next
  case (2 c r w e r' w')
  then show ?case by (cases c) (auto dest!: transform_iteration_total)
qed

section \<open>Rolling back\<close>

lemma tn_recover_pre:
  assumes "tn_recover H (set_cached_pre pre t) w = (res, TWasm n, w')"
  shows "wn_cached_pre n = pre"
proof (cases t)
  case (TNative nt)
  with assms show ?thesis by (simp add: tn_recover_def set_cached_pre_def)
next
  case (TWasm n0)
  let ?n = "n0\<lparr>wn_cached_pre := pre\<rparr>"
  from assms TWasm have rec: "recover_from_cached_pre H ''transform'' ?n w = (res, n, w')"
    by (auto simp: tn_recover_def set_cached_pre_def transform_recover_def split: prod.splits)
  then show ?thesis
    by (auto simp: recover_from_cached_pre_def Let_def case_prod_beta
        dest!: validate_and_init_restore(2) split: sum.splits)
qed

text \<open>Where the roll back re-instantiates: the node failed and the hash of the old version is current again.\<close>

definition roll_back_start ::
    "('x, 's, 'h) runner_host_scheme \<Rightarrow> transform_canary_state \<Rightarrow> node_state_tracker \<Rightarrow> ('x, 's) world \<Rightarrow> ('x, 's) world" where
  "roll_back_start H c st w =
     snd (h_now H (restore_replaced_plugin_hash (ca_swap c) (snd (snd (transition_to_error H st w)))))"

definition answered :: "nat option \<Rightarrow> u64 \<Rightarrow> string \<Rightarrow> ('x, 's) world \<Rightarrow> ('x, 's) world" where
  "answered caller ns reason w =
     (case caller of None \<Rightarrow> w | Some g \<Rightarrow> update_progress g (report_rolled_back ns reason) w)"

lemma roll_back_success:
  assumes "roll_back H c err env r w = (ok, r', w')"
    "tn_recover H (set_cached_pre (ca_snapshot_pre c) (rn_node r)) (roll_back_start H c (rn_state r) w) = (Inr u, n, w4)"
  shows "ok \<and> settled (rn_metrics r') = settled (rn_metrics r) \<and> nm_rollbacks (rn_metrics r') = nm_rollbacks (rn_metrics r) + 1 \<and>
    rn_policy r' = rn_policy r \<and> rn_node r' = n \<and> (\<forall>x. n = TWasm x \<longrightarrow> wn_cached_pre x = ca_snapshot_pre c) \<and>
    (\<exists>ns s. w' = answered (rn_pending_swap r) ns (wasm_process_error_display err) s)"
proof -
  obtain b st w1 where e: "transition_to_error H (rn_state r) w = (b, st, w1)" by (metis prod_cases3)
  let ?w2 = "restore_replaced_plugin_hash (ca_swap c) w1"
  obtain start w3 where n: "h_now H ?w2 = (start, w3)" by fastforce
  have rec: "tn_recover H (set_cached_pre (ca_snapshot_pre c) (rn_node r)) w3 = (Inr u, n, w4)"
    using assms(2) e n by (simp add: roll_back_start_def)
  obtain el w5 where el: "elapsed H start w4 = (el, w5)" by fastforce
  obtain b2 st2 where t: "transition_to_recovering st = (b2, st2)" by fastforce
  obtain d st3 w6 where d: "transition_recovering_to_running_timed H st2 w5 = (d, st3, w6)"
    by (metis prod_cases3)
  have r': "ok" "rn_node r' = n" "rn_policy r' = rn_policy r"
    "rn_metrics r' = record_rollback (case d of None \<Rightarrow> rn_metrics r | Some ns \<Rightarrow> record_recovery ns (rn_metrics r))"
    "w' = answered (rn_pending_swap r) (duration_ns_saturating el) (wasm_process_error_display err) w6"
    using assms(1) e n rec el t d by (auto simp: roll_back_def Let_def answered_def)
  have "nm_rollbacks (record_recovery ns m) = nm_rollbacks m" for ns m
    by (simp add: record_recovery_def Let_def)
  then have "nm_rollbacks (rn_metrics r') = nm_rollbacks (rn_metrics r) + 1"
    unfolding r'(4) by (cases d) (simp_all add: record_rollback_def)
  moreover have "settled (rn_metrics r') = settled (rn_metrics r)"
    unfolding r'(4) by (cases d) simp_all
  ultimately show ?thesis using r'(1-3,5) tn_recover_pre rec by auto
qed

lemma roll_back_failure:
  assumes "roll_back H c err env r w = (ok, r', w')"
    "tn_recover H (set_cached_pre (ca_snapshot_pre c) (rn_node r)) (roll_back_start H c (rn_state r) w) = (Inl e, n, w4)"
  shows "\<not> ok \<and> r' = r\<lparr>rn_node := n, rn_state := fst (snd (transition_to_error H (rn_state r) w)), rn_pending_swap := None\<rparr> \<and>
    w' = answered (rn_pending_swap r) 0 (''rollback failed: '' @ wafer_error_display e) w4"
  using assms by (auto simp: roll_back_def roll_back_start_def answered_def Let_def split: prod.splits option.split)

lemma roll_back_fields:
  "roll_back H c err env r w = (ok, r', w') \<Longrightarrow> tl_canary r' = tl_canary r \<and> rn_pending_swap r' = None \<and>
     tl_rollback_retry r' = (if ok then Some env else tl_rollback_retry r)"
  by (auto simp: roll_back_def Let_def case_prod_beta split: sum.splits)

section \<open>Properties\<close>

text \<open>
  C1: a transform loses no message. Whatever happens while its loop runs (results, guest errors,
  traps, exhausted budgets, swaps, roll backs, cancellation), when it returns the messages it has
  settled are exactly those it took from its queue plus the retries it started with; nothing is
  buffered, held back for a swap or set aside by a roll back.
\<close>

theorem transform_settles_all:
  assumes "quiet H (dequeued q)" "tr_queue_metrics rx = Some q"
    and "run_transform_loop_with_config H k n rx senders sw x st m cfg w = Some (e, r', w')"
  shows "settled (rn_metrics r') + dequeued q (w_queues w) =
      settled m + of_nat (pending_retries x) + dequeued q (w_queues w') \<and>
    pending_retries (rn_policy r') = 0 \<and> rn_held r' = None \<and> tl_rollback_retry r' = None"
proof -
  let ?r = "runner.extend (runner_start n rx x st m) \<lparr>tl_canary = None, tl_rollback_retry = None\<rparr>"
  have start: "rn_metrics ?r = m" "rn_policy ?r = x" "rn_held ?r = None" "rn_receiver ?r = rx"
    "tl_rollback_retry ?r = None"
    by (simp_all add: runner.extend_def runner_start_def)
  from assms(3) obtain e1 r1 w1 where
    run: "run_loop (transform_iteration H k cfg senders sw) k ?r w = Some (e1, r1, w1)"
    and d: "drain_and_exit H (e1, r1, w1) = (e, r', w')"
    by (auto simp: run_transform_loop_with_config_def)
  have "quiet H (dequeued q) \<and> transform_ok q ?r"
    using assms(1,2) start by (simp add: transform_ok_def wired_def)
  from transform_run.run_keeps [of "(H, k, cfg, senders, sw, q)", unfolded prod.case, OF this run]
  have kept: "transform_total q r1 w1 = transform_total q ?r w" "rn_held r1 = None" "tl_rollback_retry r1 = None"
    by auto
  note drained = drain_balance [OF assms(1) d]
  then have "tl_rollback_retry r' = None" using kept(3) by (cases r1; cases r') simp
  moreover have "balance q r' w' = balance q ?r w"
    using drained kept start by (simp add: transform_total_def)
  ultimately show ?thesis using drained kept start by (simp add: balance_def algebra_simps)
qed

theorem transform_settles_all_witness:
  "\<exists>e r' w'. run_transform_loop_with_config sample_runner 4 (TNative \<lparr>nt_id = ''n'', nt_process_fn = passthrough_fn\<rparr>)
      (tracked_receiver_new 0 0) [sample_sender] 0 sample_executor (state_new 0) node_metrics_new
      hot_swap_config_default (sample_start [sample_envelope] 2) = Some (e, r', w') \<and>
    settled (rn_metrics r') = 1"
proof -
  let ?run = "run_transform_loop_with_config sample_runner 4 (TNative \<lparr>nt_id = ''n'', nt_process_fn = passthrough_fn\<rparr>)
      (tracked_receiver_new 0 0) [sample_sender] 0 sample_executor (state_new 0) node_metrics_new
      hot_swap_config_default (sample_start [sample_envelope] 2)"
  have q: "tr_queue_metrics (tracked_receiver_new 0 0) = Some 0" by (simp add: tracked_receiver_new_def)
  obtain e r' w' where run: "?run = Some (e, r', w')" and "dequeued 0 (w_queues w') = 1"
    by (simp add: loop_eval run_transform_loop_with_config_def runner.extend_def transform_iteration_def
        close_canary_def transform_message_def tn_process_def native_process_def passthrough_fn_def)
  from transform_settles_all [OF sample_runner_quiet q run] this show ?thesis
    by (auto simp: loop_eval)
qed

text \<open>
  C25: a trap or unrecoverable error inside the canary window ends the window and rolls back once. The
  version from before the swap is made current and instantiated. If that succeeds, and only then: the
  message is set aside unsettled, the node is the new instance of the old version, one roll back is
  counted, the caller that waits for the swap has been answered with the trap, and the next iteration
  runs exactly this message again before it looks at swaps, retries or input. If it fails, the caller
  has been answered that the roll back failed, nothing is set aside and the message is condemned and
  the instance replaced like after a trap outside a window. In both cases no window is open and no
  caller waits, so a second trap cannot roll back again.
\<close>

theorem canary_rolls_back_once:
  assumes "tl_canary r = Some c" "tl_rollback_retry r = None"
    and "tn_process H env (rn_node r) w = (Inl err, t, w1)" "is_condemning err"
    and "tn_recover H (set_cached_pre (ca_snapshot_pre c) t) (roll_back_start H c (rn_state r) w1) = (res, n, w2)"
    and "transform_message H senders env r w = (st, w')"
  shows "tl_canary (loop_runner st) = None \<and> rn_pending_swap (loop_runner st) = None \<and>
    (case res of
       Inr _ \<Rightarrow>
         \<exists>r'. st = LoopContinue r' \<and> tl_rollback_retry r' = Some env \<and> rn_node r' = n \<and>
           settled (rn_metrics r') = settled (rn_metrics r) \<and> rn_policy r' = rn_policy r \<and>
           nm_rollbacks (rn_metrics r') = nm_rollbacks (rn_metrics r) + 1 \<and>
           (\<forall>x. n = TWasm x \<longrightarrow> wn_cached_pre x = ca_snapshot_pre c) \<and>
           (\<exists>ns s. w' = answered (rn_pending_swap r) ns (wasm_process_error_display err) s) \<and>
           (\<forall>k cfg sw s. transform_iteration H k cfg senders sw r' s =
              Some (transform_message H senders env (r'\<lparr>tl_rollback_retry := None\<rparr>) s))
     | Inl e \<Rightarrow>
         tl_rollback_retry (loop_runner st) = None \<and>
         (\<exists>r2. r2 = (note_error err (r\<lparr>rn_node := t\<rparr>))\<lparr>tl_canary := None, rn_node := n,
              rn_state := fst (snd (transition_to_error H (rn_state r) w1)), rn_pending_swap := None\<rparr> \<and>
            (st, w') = step_of_exit (recover_condemned H (tn_recover H) err env r2
              (answered (rn_pending_swap r) 0 (''rollback failed: '' @ wafer_error_display e) w2))))"
proof -
  let ?r0 = "(note_error err (r\<lparr>rn_node := t\<rparr>))\<lparr>tl_canary := None\<rparr>"
  obtain ok r2 w3 where rb: "roll_back H c err env ?r0 w1 = (ok, r2, w3)" by (metis prod_cases3)
  note f = roll_back_fields [OF rb]
  have step: "(st, w') = (if ok then (LoopContinue r2, w3)
      else step_of_exit (recover_condemned H (tn_recover H) err env r2 w3))"
    using assms(1,3,4,6) rb by (simp add: transform_message_def transform_failure_def)
  have rec: "tn_recover H (set_cached_pre (ca_snapshot_pre c) (rn_node ?r0)) (roll_back_start H c (rn_state ?r0) w1) = (res, n, w2)"
    using assms(5) by (simp add: note_error_def)
  show ?thesis
  proof (cases res)
    case (Inr u)
    note s = roll_back_success [OF rb rec [unfolded Inr]]
    then have again: "transform_iteration H k cfg senders sw r2 x =
        Some (transform_message H senders env (r2\<lparr>tl_rollback_retry := None\<rparr>) x)" for k cfg sw x
      using f by (simp add: transform_iteration_def close_canary_def)
    have "settled (rn_metrics ?r0) = settled (rn_metrics r)" "rn_policy ?r0 = rn_policy r"
      "rn_pending_swap ?r0 = rn_pending_swap r"
      by (simp_all add: note_error_def)
    moreover have "nm_rollbacks (rn_metrics ?r0) = nm_rollbacks (rn_metrics r)"
      by (simp add: note_error_def record_error_def record_failed_def Let_def split: option.splits)
    ultimately show ?thesis using s f again step Inr by auto
  next
    case (Inl e)
    note fl = roll_back_failure [OF rb rec [unfolded Inl]]
    obtain ex r3 w4 where t: "recover_condemned H (tn_recover H) err env r2 w3 = (ex, r3, w4)"
      by (metis prod_cases3)
    from recover_condemned_fields [OF t] have s: "same_input r2 r3" "rn_pending_swap r3 = rn_pending_swap r2"
      by simp_all
    from step fl t have "loop_runner st = r3" by (auto simp: step_of_exit_eq dest!: sym [of "(st, w')"])
    with same_input_transform [OF s(1)] s(2) f fl assms(2)
    have "tl_canary (loop_runner st) = None" "rn_pending_swap (loop_runner st) = None" "tl_rollback_retry (loop_runner st) = None"
      by simp_all
    moreover have "r2 = (note_error err (r\<lparr>rn_node := t\<rparr>))\<lparr>tl_canary := None, rn_node := n,
        rn_state := fst (snd (transition_to_error H (rn_state r) w1)), rn_pending_swap := None\<rparr>"
      using fl by (simp add: note_error_def)
    moreover have "(st, w') = step_of_exit (recover_condemned H (tn_recover H) err env r2
        (answered (rn_pending_swap r) 0 (''rollback failed: '' @ wafer_error_display e) w2))"
      using step fl by (simp add: note_error_def)
    ultimately show ?thesis by (simp add: Inl)
  qed
qed

definition trap_runner :: "(runtime_envelope list \<times> nat \<times> nat, nat list) runner_host" where
  "trap_runner = sample_runner\<lparr>h_call_process := (\<lambda>_ _ st w.
     (Inl \<lparr>ee_code = None, ee_display = ''trap'', ee_chain = ''trap''\<rparr>, st, w))\<rparr>"

definition canary_runner :: "nat list transform_runner" where
  "canary_runner = runner.extend
     (runner_start (TWasm sample_node) (tracked_receiver_new 0 0) sample_executor (state_new 0) node_metrics_new)
     \<lparr>tl_canary = Some \<lparr>ca_snapshot_pre = PreTransform 7,
        ca_counters = \<lparr>cc_success_count = 0, cc_window_start = 0, cc_config = hot_swap_config_default\<rparr>,
        ca_swap = 0\<rparr>,
      tl_rollback_retry = None\<rparr>"

lemma trap_recovers:
  "\<exists>n w2. tn_recover trap_runner (set_cached_pre (PreTransform 7) (TWasm sample_node)) w = (Inr (), n, w2)"
  by (simp add: tn_recover_def transform_recover_def set_cached_pre_def recover_from_cached_pre_def sample_node_def
      wasm_node_new_def recovery_store_def validate_and_init_def trap_runner_def sample_runner_def Let_def)

theorem canary_rolls_back_once_witness:
  "\<exists>r' w'. transform_message trap_runner [] sample_envelope canary_runner (sample_start [] 2) = (LoopContinue r', w') \<and>
     tl_canary r' = None \<and> tl_rollback_retry r' = Some sample_envelope \<and>
     nm_rollbacks (rn_metrics r') = nm_rollbacks (rn_metrics canary_runner) + 1"
proof -
  obtain st w' where m: "transform_message trap_runner [] sample_envelope canary_runner (sample_start [] 2) = (st, w')"
    by fastforce
  obtain c where c: "tl_canary canary_runner = Some c" "tl_rollback_retry canary_runner = None" "ca_snapshot_pre c = PreTransform 7"
    by (simp add: canary_runner_def runner.extend_def)
  have "\<exists>w1. tn_process trap_runner sample_envelope (rn_node canary_runner) (sample_start [] 2) =
      (Inl (Trapped None ''trap''), TWasm sample_node, w1)"
    by (simp add: canary_runner_def runner.extend_def runner_start_def tn_process_def transform_process_def
        call_guest_def sample_node_def wasm_node_new_def trap_runner_def sample_runner_def sample_engine_def
        build_wit_message_def clear_log_buffer_def flush_logs_def map_trap_def new_with_memory_limit_def Let_def)
  then obtain w1 where p: "tn_process trap_runner sample_envelope (rn_node canary_runner) (sample_start [] 2) =
      (Inl (Trapped None ''trap''), TWasm sample_node, w1)" by blast
  obtain n w2 where rec: "tn_recover trap_runner (set_cached_pre (ca_snapshot_pre c) (TWasm sample_node))
      (roll_back_start trap_runner c (rn_state canary_runner) w1) = (Inr (), n, w2)"
    using trap_recovers c(3) by metis
  have "is_condemning (Trapped None ''trap'')" by (simp add: is_condemning_def)
  from canary_rolls_back_once [OF c(1,2) p this rec m] m show ?thesis by auto
qed

end
