(* ===== verification/SourceLoop.thy ===== *)
theory SourceLoop
  imports NodeLoop
begin

text \<open>
  The source loop, \<open>wafer-core/src/runner/source.rs\<close>. A source is known by its trait: the record
  holds the operations the loop calls, on the source's own state \<open>'k\<close>. Polling the future of
  \<open>poll()\<close> once is an operation that may be pending.
\<close>

section \<open>The source and its loop\<close>

datatype source_poll = SrcPending | SrcReady "(wafer_error, runtime_envelope option) result"

record ('k, 'w) source_ops =
  src_id :: "'k \<Rightarrow> string"
  src_poll :: "'k \<Rightarrow> 'w \<Rightarrow> source_poll \<times> 'k \<times> 'w"
  src_close :: "'k \<Rightarrow> 'w \<Rightarrow> (wafer_error, unit) result \<times> 'k \<times> 'w"

record ('x, 's) uuid_host = "('x, 's) runner_host" +
  h_new_uuid :: "('x, 's) world \<Rightarrow> string \<times> ('x, 's) world"

definition MAX_CONSECUTIVE_POLL_ERRORS :: u32 where
  "MAX_CONSECUTIVE_POLL_ERRORS = 20"

definition POLL_ERROR_BACKOFF_MIN :: duration where
  "POLL_ERROR_BACKOFF_MIN = 1000000"

definition POLL_ERROR_BACKOFF_MAX :: duration where
  "POLL_ERROR_BACKOFF_MAX = 1000000000"

definition poll_error_backoff :: "u32 \<Rightarrow> duration" where
  "poll_error_backoff consecutive_errors =
     (let doublings = min (sat_sub consecutive_errors 1) 16
      in min (POLL_ERROR_BACKOFF_MIN * 2 ^ unat doublings) POLL_ERROR_BACKOFF_MAX)"

record 'k source_runner =
  sr_source :: 'k
  sr_consecutive_errors :: u32
  sr_state :: node_state_tracker
  sr_metrics :: node_metrics

text \<open>The outer \<open>select!\<close>: cancellation first, then the source. \<open>Some None\<close> is cancellation.\<close>

fun select_source ::
    "('x, 's, 'h) uuid_host_scheme \<Rightarrow> ('k, ('x, 's) world) source_ops \<Rightarrow> nat \<Rightarrow> 'k \<Rightarrow> ('x, 's) world
       \<Rightarrow> ((wafer_error, runtime_envelope option) result option \<times> 'k \<times> ('x, 's) world) option" where
  "select_source H S 0 s w = None"
| "select_source H S (Suc k) s w =
     (let (c, w) = h_cancelled H w in
      if c then Some (None, s, w)
      else
        let (p, s, w) = src_poll S s w in
        case p of
          SrcReady r \<Rightarrow> Some (Some r, s, w)
        | SrcPending \<Rightarrow> select_source H S k s (h_park H w))"

text \<open>The inner \<open>select!\<close>: cancellation (\<open>True\<close>) or the end of the back-off.\<close>

fun select_sleep ::
    "('x, 's, 'h) uuid_host_scheme \<Rightarrow> nat \<Rightarrow> instant \<Rightarrow> ('x, 's) world \<Rightarrow> (bool \<times> ('x, 's) world) option" where
  "select_sleep H 0 deadline w = None"
| "select_sleep H (Suc k) deadline w =
     (let (c, w) = h_cancelled H w in
      if c then Some (True, w)
      else
        let (now, w) = h_now H w in
        if deadline \<le> now then Some (False, w) else select_sleep H k deadline (h_park H w))"

definition budget_exhausted_error :: "string \<Rightarrow> u32 \<Rightarrow> wafer_error \<Rightarrow> wafer_error" where
  "budget_exhausted_error sid n e =
     Runtime (''source '' @ quoted sid @ '' stopped after '' @ show_nat (unat n)
              @ '' consecutive poll errors: '' @ wafer_error_display e)"

definition source_trace_id ::
    "('x, 's, 'h) uuid_host_scheme \<Rightarrow> runtime_envelope \<Rightarrow> ('x, 's) world
       \<Rightarrow> runtime_envelope \<times> ('x, 's) world" where
  "source_trace_id H env w =
     (if trace_id env = None then let (uuid, w) = h_new_uuid H w in (ensure_trace_id uuid env, w)
      else (env, w))"

definition source_iteration ::
    "('x, 's, 'h) uuid_host_scheme \<Rightarrow> ('k, ('x, 's) world) source_ops \<Rightarrow> nat \<Rightarrow> downstream_sender list
       \<Rightarrow> 'k source_runner \<Rightarrow> ('x, 's) world \<Rightarrow> ('k source_runner loop_step \<times> ('x, 's) world) option" where
  "source_iteration H S k senders r w =
     (case select_source H S k (sr_source r) w of
        None \<Rightarrow> None
      | Some (polled, s, w) \<Rightarrow>
          let r = r\<lparr>sr_source := s\<rparr> in
          (case polled of
             None \<Rightarrow> Some (LoopBreak (Inr ()) r, w)
           | Some (Inr (Some env)) \<Rightarrow>
               let (env, w) = source_trace_id H env w;
                   (m, w) = record_processed H (sr_metrics r) w;
                   w = send_downstream H senders env w
               in Some (LoopContinue (r\<lparr>sr_consecutive_errors := 0, sr_metrics := m\<rparr>), w)
           | Some (Inr None) \<Rightarrow> Some (LoopBreak (Inr ()) r, w)
           | Some (Inl e) \<Rightarrow>
               let r = r\<lparr>sr_metrics := record_failed (sr_metrics r),
                         sr_consecutive_errors := sat_add (sr_consecutive_errors r) 1\<rparr>
               in
               if sr_consecutive_errors r \<ge> MAX_CONSECUTIVE_POLL_ERRORS then
                 let (_, st, w) = transition_to_error H (sr_state r) w
                 in Some (LoopBreak (Inl (budget_exhausted_error (src_id S s) (sr_consecutive_errors r) e))
                            (r\<lparr>sr_state := st\<rparr>), w)
               else
                 let backoff = poll_error_backoff (sr_consecutive_errors r);
                     (now, w) = h_now H w
                 in
                 (case select_sleep H k (now + backoff) w of
                    None \<Rightarrow> None
                  | Some (cancelled, w) \<Rightarrow>
                      Some (if cancelled then LoopBreak (Inr ()) r else LoopContinue r, w))))"

definition source_start :: "'k \<Rightarrow> node_state_tracker \<Rightarrow> node_metrics \<Rightarrow> 'k source_runner" where
  "source_start s st m =
     \<lparr>sr_source = s, sr_consecutive_errors = 0, sr_state = snd (transition_to_running st), sr_metrics = m\<rparr>"

text \<open>The source is closed on every exit; an error of \<open>close\<close> is only logged.\<close>

definition close_source ::
    "('k, ('x, 's) world) source_ops \<Rightarrow> exit_result \<times> 'k source_runner \<times> ('x, 's) world
       \<Rightarrow> exit_result \<times> 'k source_runner \<times> ('x, 's) world" where
  "close_source S ex =
     (case ex of (e, r, w) \<Rightarrow>
        let (_, s, w) = src_close S (sr_source r) w in (e, r\<lparr>sr_source := s\<rparr>, w))"

definition run_source_loop ::
    "('x, 's, 'h) uuid_host_scheme \<Rightarrow> ('k, ('x, 's) world) source_ops \<Rightarrow> nat \<Rightarrow> 'k \<Rightarrow> downstream_sender list
       \<Rightarrow> node_state_tracker \<Rightarrow> node_metrics \<Rightarrow> ('x, 's) world
       \<Rightarrow> (exit_result \<times> 'k source_runner \<times> ('x, 's) world) option" where
  "run_source_loop H S k s senders st m w =
     map_option (close_source S) (run_loop (source_iteration H S k senders) k (source_start s st m) w)"

section \<open>Back-off\<close>

lemma poll_error_backoff_bounds:
  "POLL_ERROR_BACKOFF_MIN \<le> poll_error_backoff n" "poll_error_backoff n \<le> POLL_ERROR_BACKOFF_MAX"
  by (simp_all add: poll_error_backoff_def Let_def POLL_ERROR_BACKOFF_MIN_def POLL_ERROR_BACKOFF_MAX_def)

text \<open>
  \<open>clock_runs H d\<close>: nothing is cancelled, the clock does not run backwards, and every time the task
  is woken up at least \<open>d\<close> nanoseconds have passed.
\<close>

definition clock_runs :: "('x, 's, 'h) uuid_host_scheme \<Rightarrow> nat \<Rightarrow> bool" where
  "clock_runs H d \<longleftrightarrow> 0 < d \<and>
     (\<forall>w. \<not> fst (h_cancelled H w)) \<and>
     (\<forall>w. fst (h_now H (snd (h_cancelled H w))) \<ge> fst (h_now H w)) \<and>
     (\<forall>w. fst (h_now H (snd (h_now H w))) \<ge> fst (h_now H w)) \<and>
     (\<forall>w. fst (h_now H (h_park H w)) \<ge> fst (h_now H w) + d)"

lemma clock_runsD:
  assumes "clock_runs H d"
  shows "0 < d" "\<not> fst (h_cancelled H w)" "fst (h_now H w) \<le> fst (h_now H (snd (h_cancelled H w)))"
    "fst (h_now H w) \<le> fst (h_now H (snd (h_now H w)))" "fst (h_now H w) + d \<le> fst (h_now H (h_park H w))"
  using assms unfolding clock_runs_def by blast+

lemma select_sleep_returns:
  assumes "clock_runs H d" "deadline \<le> fst (h_now H w) + d * k"
  shows "\<exists>w'. select_sleep H (Suc k) deadline w = Some (False, w')"
  using assms(2)
proof (induction k arbitrary: w)
  case 0
  note cl = clock_runsD [OF assms(1)]
  have "deadline \<le> fst (h_now H (snd (h_cancelled H w)))" using 0 cl(3) [of w] by simp
  with cl(2) [of w] show ?case by (simp add: case_prod_beta)
next
  case (Suc k)
  note cl = clock_runsD [OF assms(1)]
  obtain c w1 where c: "h_cancelled H w = (c, w1)" by fastforce
  obtain now w2 where n: "h_now H w1 = (now, w2)" by fastforce
  have nc: "\<not> c" using cl(2) [of w] c by simp
  have t: "fst (h_now H w) \<le> now" using cl(3) [of w] c n by simp
  show ?case
  proof (cases "deadline \<le> now")
    case True
    with c n nc show ?thesis by simp
  next
    case False
    have "now + d \<le> fst (h_now H (h_park H w2))"
      using cl(4) [of w1] cl(5) [of w2] n by simp
    with Suc.prems t have "deadline \<le> fst (h_now H (h_park H w2)) + d * k" by simp
    from Suc.IH [OF this] obtain w' where "select_sleep H (Suc k) deadline (h_park H w2) = Some (False, w')" by blast
    with c n nc False show ?thesis by (simp del: select_sleep.simps add: select_sleep.simps(2) [of H "Suc k" _ w])
  qed
qed

section \<open>A source that keeps failing\<close>

definition always_fails :: "('k, 'w) source_ops \<Rightarrow> bool" where
  "always_fails S \<longleftrightarrow> (\<forall>s w. \<exists>e s' w'. src_poll S s w = (SrcReady (Inl e), s', w'))"

lemma select_source_fails:
  assumes "clock_runs H d" "always_fails S"
  shows "\<exists>e s' w'. select_source H S (Suc k) s w = Some (Some (Inl e), s', w')"
proof -
  obtain c w1 where c: "h_cancelled H w = (c, w1)" by fastforce
  with clock_runsD(2) [OF assms(1), of w] have "\<not> c" by simp
  moreover obtain e s' w' where "src_poll S s w1 = (SrcReady (Inl e), s', w')"
    using assms(2) unfolding always_fails_def by blast
  ultimately show ?thesis using c by simp
qed

lemma failing_iteration:
  assumes "clock_runs H d" "always_fails S" "POLL_ERROR_BACKOFF_MAX \<le> d * j" "Suc j \<le> k"
    and "unat (sr_consecutive_errors r) < 20"
  shows "\<exists>e s st w'. let r' = r\<lparr>sr_source := s, sr_consecutive_errors := sr_consecutive_errors r + 1,
        sr_metrics := record_failed (sr_metrics r), sr_state := st\<rparr> in
    source_iteration H S k senders r w =
      Some (if unat (sr_consecutive_errors r) = 19
            then LoopBreak (Inl (budget_exhausted_error (src_id S s) 20 e)) r' else LoopContinue r', w')"
proof -
  let ?n = "sr_consecutive_errors r"
  obtain k' where k': "k = Suc k'" using assms(4) by (cases k) auto
  obtain e s' w1 where p: "select_source H S k (sr_source r) w = Some (Some (Inl e), s', w1)"
    using select_source_fails [OF assms(1,2)] unfolding k' by blast
  have inc: "sat_add ?n 1 = ?n + 1" "unat (?n + 1) = unat ?n + 1"
    using assms(5) by (simp_all add: sat_add_one_of_less [of _ 20] word_less_nat_alt unat_word_ariths)
  have ge: "MAX_CONSECUTIVE_POLL_ERRORS \<le> ?n + 1 \<longleftrightarrow> unat ?n = 19"
    using assms(5) inc(2) by (auto simp: MAX_CONSECUTIVE_POLL_ERRORS_def word_le_nat_alt)
  show ?thesis
  proof (cases "unat ?n = 19")
    case True
    obtain b st w2 where t: "transition_to_error H (sr_state r) w1 = (b, st, w2)" by (metis prod_cases3)
    from True have n: "?n + 1 = 20" by (simp add: word_unat_eq_iff inc(2))
    show ?thesis using p ge True t inc(1) n
      by (intro exI [of _ e] exI [of _ s'] exI [of _ st] exI [of _ w2])
         (simp add: source_iteration_def Let_def)
  next
    case False
    obtain now w2 where n: "h_now H w1 = (now, w2)" by fastforce
    let ?dl = "now + poll_error_backoff (?n + 1)"
    have "?dl \<le> fst (h_now H w2) + d * k'"
    proof -
      have "poll_error_backoff (?n + 1) \<le> d * j"
        using poll_error_backoff_bounds(2) [of "?n + 1"] assms(3) by simp
      moreover have "d * j \<le> d * k'" using assms(4) k' by simp
      moreover have "now \<le> fst (h_now H w2)" using clock_runsD(4) [OF assms(1), of w1] n by simp
      ultimately show ?thesis by linarith
    qed
    from select_sleep_returns [OF assms(1) this] obtain w3 where
      sl: "select_sleep H k ?dl w2 = Some (False, w3)" unfolding k' by blast
    show ?thesis using p ge False n sl inc(1)
      by (intro exI [of _ e] exI [of _ s'] exI [of _ "sr_state r"] exI [of _ w3])
         (simp add: source_iteration_def Let_def)
  qed
qed

lemma failing_run:
  assumes "clock_runs H d" "always_fails S" "POLL_ERROR_BACKOFF_MAX \<le> d * j" "Suc j \<le> k"
    and "unat (sr_consecutive_errors r) + l = 20" "0 < l" "l \<le> f"
  shows "\<exists>e s r' w'. run_loop (source_iteration H S k senders) f r w =
      Some (Inl (budget_exhausted_error (src_id S s) 20 e), r', w') \<and>
    nm_attempts_failed (sr_metrics r') = nm_attempts_failed (sr_metrics r) + of_nat l \<and>
    nm_processed (sr_metrics r') = nm_processed (sr_metrics r) \<and> sr_consecutive_errors r' = 20"
  using assms(5-7)
proof (induction l arbitrary: r w f)
  case (Suc l)
  let ?n = "sr_consecutive_errors r"
  obtain f' where f': "f = Suc f'" using Suc.prems(3) by (cases f) auto
  from Suc.prems(1) have lt: "unat ?n < 20" by simp
  then have inc: "unat (?n + 1) = unat ?n + 1" by (simp add: unat_word_ariths)
  obtain e s st w1 where it: "let r' = r\<lparr>sr_source := s, sr_consecutive_errors := ?n + 1,
        sr_metrics := record_failed (sr_metrics r), sr_state := st\<rparr> in
    source_iteration H S k senders r w =
      Some (if unat ?n = 19 then LoopBreak (Inl (budget_exhausted_error (src_id S s) 20 e)) r' else LoopContinue r', w1)"
    using failing_iteration [OF assms(1-4) lt] by metis
  define r1 where "r1 = r\<lparr>sr_source := s, sr_consecutive_errors := ?n + 1,
        sr_metrics := record_failed (sr_metrics r), sr_state := st\<rparr>"
  have r1: "sr_consecutive_errors r1 = ?n + 1"
    "nm_attempts_failed (sr_metrics r1) = nm_attempts_failed (sr_metrics r) + 1"
    "nm_processed (sr_metrics r1) = nm_processed (sr_metrics r)"
    by (simp_all add: r1_def record_failed_def)
  show ?case
  proof (cases l)
    case 0
    with Suc.prems(1) have n: "unat ?n = 19" by simp
    then have "?n + 1 = 20" by (simp add: word_unat_eq_iff inc)
    with it n f' r1 0 show ?thesis by (auto simp: Let_def r1_def)
  next
    case (Suc l')
    with Suc.prems(1) have "unat ?n \<noteq> 19" by simp
    with it have "run_loop (source_iteration H S k senders) f r w =
        run_loop (source_iteration H S k senders) f' r1 w1" by (simp add: Let_def r1_def f')
    moreover have "unat (sr_consecutive_errors r1) + l = 20" "0 < l" "l \<le> f'"
      using Suc.prems(1,3) Suc r1(1) inc f' by simp_all
    note Suc.IH [OF this, of w1]
    ultimately show ?thesis using r1 by (auto simp: algebra_simps)
  qed
qed simp

section \<open>Properties\<close>

text \<open>
  C13: a broken source ends the run instead of spinning. A source whose every poll fails stops after
  exactly twenty polls with an error naming that number; each failure is counted, nothing is
  emitted, and the source is closed. The loop returns: fuel for the twenty polls and for the
  wake-ups of the longest back-off is enough, whatever the clock's step.
\<close>

theorem broken_source_stops:
  assumes "clock_runs H d" "always_fails S" "POLL_ERROR_BACKOFF_MAX \<le> d * j" "Suc j \<le> k" "20 \<le> k"
  shows "\<exists>e s1 r w1 w'. run_source_loop H S k s senders st m w =
      Some (Inl (budget_exhausted_error (src_id S s1) 20 e), r, w') \<and>
    nm_attempts_failed (sr_metrics r) = nm_attempts_failed m + 20 \<and> nm_processed (sr_metrics r) = nm_processed m \<and>
    (\<exists>s2 res. src_close S s2 w1 = (res, sr_source r, w'))"
proof -
  have "unat (sr_consecutive_errors (source_start s st m)) + 20 = 20" by (simp add: source_start_def)
  from failing_run [OF assms(1-4) this _ assms(5)] obtain e s1 r1 w1 where
    run: "run_loop (source_iteration H S k senders) k (source_start s st m) w =
      Some (Inl (budget_exhausted_error (src_id S s1) 20 e), r1, w1)"
    and "nm_attempts_failed (sr_metrics r1) = nm_attempts_failed m + 20" "nm_processed (sr_metrics r1) = nm_processed m"
    by (fastforce simp: source_start_def)
  moreover obtain res s2 w2 where "src_close S (sr_source r1) w1 = (res, s2, w2)" by (metis prod_cases3)
  ultimately show ?thesis by (fastforce simp: run_source_loop_def close_source_def)
qed

text \<open>A runtime whose clock advances a second per wake-up, and a source that always fails.\<close>

definition second_runner :: "(runtime_envelope list \<times> nat \<times> nat, nat list) uuid_host" where
  "second_runner = runner_host.extend
     (sample_runner\<lparr>h_cancelled := (\<lambda>w. (False, w)),
        h_park := (\<lambda>w. case w_ext w of (q, t, k) \<Rightarrow> w\<lparr>w_ext := (q, t + 1000000000, k)\<rparr>)\<rparr>)
     \<lparr>h_new_uuid = (\<lambda>w. (''uuid'', w))\<rparr>"

definition broken_source :: "(nat, sample_world) source_ops" where
  "broken_source =
     \<lparr>src_id = (\<lambda>_. ''s''), src_poll = (\<lambda>n w. (SrcReady (Inl (Runtime ''no'')), Suc n, w)),
      src_close = (\<lambda>n w. (Inr (), n, w))\<rparr>"

theorem broken_source_stops_witness:
  "\<exists>e s1 r w1 w'. run_source_loop second_runner broken_source 20 0 [] (state_new 0) node_metrics_new
        (sample_start [] 1) =
      Some (Inl (budget_exhausted_error (src_id broken_source s1) 20 e), r, w') \<and>
    nm_attempts_failed (sr_metrics r) = nm_attempts_failed node_metrics_new + 20 \<and>
    nm_processed (sr_metrics r) = nm_processed node_metrics_new \<and>
    (\<exists>s2 res. src_close broken_source s2 w1 = (res, sr_source r, w'))"
proof (rule broken_source_stops [where d = 1000000000 and j = 1])
  show "clock_runs second_runner 1000000000"
    by (simp add: clock_runs_def second_runner_def runner_host.extend_def sample_runner_def sample_tick_def
        case_prod_beta)
  show "always_fails broken_source" by (simp add: always_fails_def broken_source_def)
qed (simp_all add: POLL_ERROR_BACKOFF_MAX_def)

end
