(* ===== verification/SinkLoop.thy ===== *)
theory SinkLoop
  imports NodeLoop
begin

text \<open>
  The sink loop, \<open>wafer-core/src/runner/sink.rs\<close>. A sink is known by its trait, as a record of the
  operations the loop calls on the sink's own state \<open>'k\<close>.
\<close>

section \<open>The sink and its loop\<close>

record ('k, 'w) sink_ops =
  snk_id :: "'k \<Rightarrow> string"
  snk_collect :: "runtime_envelope \<Rightarrow> 'k \<Rightarrow> 'w \<Rightarrow> (wafer_error, unit) result \<times> 'k \<times> 'w"
  snk_flush :: "'k \<Rightarrow> 'w \<Rightarrow> (wafer_error, unit) result \<times> 'k \<times> 'w"
  snk_close :: "'k \<Rightarrow> 'w \<Rightarrow> (wafer_error, unit) result \<times> 'k \<times> 'w"
  snk_batch_timeout :: "'k \<Rightarrow> duration option"

record 'k sink_runner =
  sn_sink :: 'k
  sn_receiver :: tracked_receiver
  sn_metrics :: node_metrics

datatype sink_input = SinkMessage runtime_envelope | SinkStop | SinkIdle

text \<open>
  Both \<open>select!\<close>s: the queue first, then cancellation, then the idle timer when there is a batch
  timeout.
\<close>

fun select_sink ::
    "('x, 's, 'h) runner_host_scheme \<Rightarrow> nat \<Rightarrow> instant option \<Rightarrow> tracked_receiver \<Rightarrow> ('x, 's) world
       \<Rightarrow> (sink_input \<times> tracked_receiver \<times> ('x, 's) world) option" where
  "select_sink H 0 deadline r w = None"
| "select_sink H (Suc k) deadline r w =
     (let (p, r, w) = tracked_recv_poll H r w in
      case p of
        RecvMessage e \<Rightarrow> Some (SinkMessage e, r, w)
      | RecvClosed \<Rightarrow> Some (SinkStop, r, w)
      | RecvPending \<Rightarrow>
          let (c, w) = h_cancelled H w in
          if c then Some (SinkStop, r, w)
          else
            let (t, w) = poll_timer H deadline w in
            if t then Some (SinkIdle, r, w) else select_sink H k deadline r (h_park H w))"

definition sink_deadline ::
    "('x, 's, 'h) runner_host_scheme \<Rightarrow> duration option \<Rightarrow> ('x, 's) world \<Rightarrow> instant option \<times> ('x, 's) world" where
  "sink_deadline H timeout w =
     (case timeout of
        None \<Rightarrow> (None, w)
      | Some d \<Rightarrow> (let (now, w) = h_now H w in (Some (now + d), w)))"

definition sink_iteration ::
    "('x, 's, 'h) runner_host_scheme \<Rightarrow> ('k, ('x, 's) world) sink_ops \<Rightarrow> nat \<Rightarrow> duration option
       \<Rightarrow> 'k sink_runner \<Rightarrow> ('x, 's) world \<Rightarrow> ('k sink_runner loop_step \<times> ('x, 's) world) option" where
  "sink_iteration H S k timeout r w =
     (let (deadline, w) = sink_deadline H timeout w in
      case select_sink H k deadline (sn_receiver r) w of
        None \<Rightarrow> None
      | Some (inp, rx, w) \<Rightarrow>
          let r = r\<lparr>sn_receiver := rx\<rparr> in
          (case inp of
             SinkStop \<Rightarrow> Some (LoopBreak (Inr ()) r, w)
           | SinkIdle \<Rightarrow>
               let (_, s, w) = snk_flush S (sn_sink r) w in Some (LoopContinue (r\<lparr>sn_sink := s\<rparr>), w)
           | SinkMessage env \<Rightarrow>
               let (res, s, w) = snk_collect S env (sn_sink r) w;
                   (m, w) = (case res of
                               Inr _ \<Rightarrow> record_processed H (sn_metrics r) w
                             | Inl _ \<Rightarrow> (record_failed (sn_metrics r), w))
               in Some (LoopContinue (r\<lparr>sn_sink := s, sn_metrics := m\<rparr>), w)))"

text \<open>Draining the queue after the loop; senders may still be adding, so it takes fuel.\<close>

fun drain_queue ::
    "('x, 's, 'h) runner_host_scheme \<Rightarrow> ('k, ('x, 's) world) sink_ops \<Rightarrow> nat \<Rightarrow> 'k sink_runner \<Rightarrow> ('x, 's) world
       \<Rightarrow> ('k sink_runner \<times> ('x, 's) world) option" where
  "drain_queue H S 0 r w = None"
| "drain_queue H S (Suc k) r w =
     (let (m, w) = tracked_try_recv H (sn_receiver r) w in
      case m of
        None \<Rightarrow> Some (r, w)
      | Some env \<Rightarrow>
          let (_, s, w) = snk_collect S env (sn_sink r) w
          in drain_queue H S k (r\<lparr>sn_sink := s\<rparr>) w)"

definition finish_sink ::
    "('x, 's, 'h) runner_host_scheme \<Rightarrow> ('k, ('x, 's) world) sink_ops \<Rightarrow> node_state_tracker \<Rightarrow> 'k sink_runner
       \<Rightarrow> ('x, 's) world \<Rightarrow> exit_result \<times> 'k sink_runner \<times> node_state_tracker \<times> ('x, 's) world" where
  "finish_sink H S st r w =
     (let (flushed, s, w) = snk_flush S (sn_sink r) w;
          (closed, s, w) = snk_close S s w;
          r = r\<lparr>sn_sink := s\<rparr>;
          failure = (case (flushed, closed) of
                       (Inr _, Inr _) \<Rightarrow> None
                     | (Inl e, _) \<Rightarrow> Some (''final flush failed: '' @ wafer_error_display e)
                     | (Inr _, Inl e) \<Rightarrow> Some (''close failed: '' @ wafer_error_display e))
      in
      case failure of
        None \<Rightarrow> (Inr (), r, st, w)
      | Some msg \<Rightarrow>
          let (_, st, w) = transition_to_error H st w
          in (Inl (Runtime (''sink '' @ quoted (snk_id S s) @ '' '' @ msg)), r, st, w))"

definition run_sink_loop ::
    "('x, 's, 'h) runner_host_scheme \<Rightarrow> ('k, ('x, 's) world) sink_ops \<Rightarrow> nat \<Rightarrow> 'k \<Rightarrow> tracked_receiver
       \<Rightarrow> node_state_tracker \<Rightarrow> node_metrics \<Rightarrow> ('x, 's) world
       \<Rightarrow> (exit_result \<times> 'k sink_runner \<times> node_state_tracker \<times> ('x, 's) world) option" where
  "run_sink_loop H S k s rx st m w =
     (let st = snd (transition_to_running st);
          r = \<lparr>sn_sink = s, sn_receiver = rx, sn_metrics = m\<rparr>;
          batch_timeout = snk_batch_timeout S s
      in
      case run_loop (sink_iteration H S k batch_timeout) k r w of
        None \<Rightarrow> None
      | Some (_, r, w) \<Rightarrow>
          (case drain_queue H S k r w of
             None \<Rightarrow> None
           | Some (r, w) \<Rightarrow> Some (finish_sink H S st r w)))"

section \<open>What the sink is given\<close>

text \<open>
  Observers: \<open>taken\<close> lists the messages handed out of the queue \<open>c\<close> so far, \<open>log\<close> those the sink was
  asked to collect. Only the two receive operations extend the first, only \<open>collect\<close> the second.
\<close>

definition queue_log ::
    "('x, 's, 'h) runner_host_scheme \<Rightarrow> nat \<Rightarrow> ('x \<Rightarrow> runtime_envelope list) \<Rightarrow> bool" where
  "queue_log H c taken \<longleftrightarrow>
     (\<forall>w. taken (w_ext (snd (h_recv_poll H c w))) =
        taken (w_ext w) @ (case fst (h_recv_poll H c w) of RecvMessage e \<Rightarrow> [e] | _ \<Rightarrow> [])) \<and>
     (\<forall>w. taken (w_ext (snd (h_try_recv H c w))) =
        taken (w_ext w) @ (case fst (h_try_recv H c w) of Some e \<Rightarrow> [e] | None \<Rightarrow> [])) \<and>
     (\<forall>w. taken (w_ext (snd (h_cancelled H w))) = taken (w_ext w)) \<and>
     (\<forall>w. taken (w_ext (snd (h_now H w))) = taken (w_ext w)) \<and>
     (\<forall>w. taken (w_ext (h_park H w)) = taken (w_ext w))"

definition sink_log ::
    "('k, ('x, 's) world) sink_ops \<Rightarrow> ('x \<Rightarrow> runtime_envelope list) \<Rightarrow> ('k \<Rightarrow> runtime_envelope list) \<Rightarrow> bool" where
  "sink_log S taken log \<longleftrightarrow>
     (\<forall>e s w. log (fst (snd (snk_collect S e s w))) = log s @ [e] \<and>
        taken (w_ext (snd (snd (snk_collect S e s w)))) = taken (w_ext w)) \<and>
     (\<forall>s w. log (fst (snd (snk_flush S s w))) = log s \<and>
        taken (w_ext (snd (snd (snk_flush S s w)))) = taken (w_ext w)) \<and>
     (\<forall>s w. log (fst (snd (snk_close S s w))) = log s \<and>
        taken (w_ext (snd (snd (snk_close S s w)))) = taken (w_ext w))"

lemma queue_logD:
  assumes "queue_log H c taken"
  shows "h_recv_poll H c w = (p, w1) \<Longrightarrow>
      taken (w_ext w1) = taken (w_ext w) @ (case p of RecvMessage e \<Rightarrow> [e] | _ \<Rightarrow> [])"
    "h_try_recv H c w = (m, w2) \<Longrightarrow> taken (w_ext w2) = taken (w_ext w) @ (case m of Some e \<Rightarrow> [e] | None \<Rightarrow> [])"
    "taken (w_ext (snd (h_cancelled H w))) = taken (w_ext w)"
    "taken (w_ext (snd (h_now H w))) = taken (w_ext w)"
    "taken (w_ext (h_park H w)) = taken (w_ext w)"
  using assms unfolding queue_log_def by (metis fst_conv snd_conv)+

lemma sink_logD:
  assumes "sink_log S taken log"
  shows "snk_collect S e s w = (res, s', w') \<Longrightarrow> log s' = log s @ [e] \<and> taken (w_ext w') = taken (w_ext w)"
    "snk_flush S s w = (res, s', w') \<Longrightarrow> log s' = log s \<and> taken (w_ext w') = taken (w_ext w)"
    "snk_close S s w = (res, s', w') \<Longrightarrow> log s' = log s \<and> taken (w_ext w') = taken (w_ext w)"
  using assms unfolding sink_log_def by (metis fst_conv snd_conv)+

definition counted :: "node_metrics \<Rightarrow> u64" where
  "counted m = nm_processed m + nm_attempts_failed m"

lemma counted_processed: "record_processed H m w = (m', w') \<Longrightarrow> counted m' = counted m + 1"
  by (auto simp: record_processed_def counted_def Let_def case_prod_beta split: if_splits)

lemma counted_failed: "counted (record_failed m) = counted m + 1"
  by (simp add: counted_def record_failed_def)

lemma record_processed_taken:
  assumes "queue_log H c taken" "record_processed H m w = (m', w')"
  shows "taken (w_ext w') = taken (w_ext w)"
  using assms(2) queue_logD(4) [OF assms(1), of w]
  by (auto simp: record_processed_def Let_def case_prod_beta split: if_splits)

lemma select_sink_taken:
  assumes "queue_log H c taken" "tr_receiver r = c" "select_sink H k deadline r w = Some (inp, r', w')"
  shows "tr_receiver r' = c \<and>
    taken (w_ext w') = taken (w_ext w) @ (case inp of SinkMessage e \<Rightarrow> [e] | _ \<Rightarrow> [])"
  using assms(2,3)
proof (induction k arbitrary: r w)
  case (Suc k)
  obtain p w1 where p: "h_recv_poll H c w = (p, w1)" by fastforce
  note t1 = queue_logD(1) [OF assms(1) p]
  show ?case
  proof (cases p)
    case RecvPending
    obtain cc w2 where c: "h_cancelled H w1 = (cc, w2)" by fastforce
    obtain t w3 where t: "poll_timer H deadline w2 = (t, w3)" by fastforce
    have "taken (w_ext w2) = taken (w_ext w1)" using queue_logD(3) [OF assms(1), of w1] c by simp
    moreover have "taken (w_ext w3) = taken (w_ext w2)"
      using queue_logD(4) [OF assms(1), of w2] t
      by (auto simp: poll_timer_def case_prod_beta split: option.splits)
    ultimately have w3: "taken (w_ext w2) = taken (w_ext w)" "taken (w_ext w3) = taken (w_ext w)"
      using t1 RecvPending by simp_all
    show ?thesis
    proof (cases "cc \<or> t")
      case True
      with Suc.prems p RecvPending c t w3 show ?thesis
        by (auto simp: tracked_recv_poll_def split: if_splits)
    next
      case False
      with Suc.prems p RecvPending c t have "select_sink H k deadline r (h_park H w3) = Some (inp, r', w')"
        by (simp add: tracked_recv_poll_def)
      from Suc.IH [OF Suc.prems(1) this] w3 queue_logD(5) [OF assms(1), of w3] show ?thesis by simp
    qed
  next
    case (RecvMessage e)
    with Suc.prems p t1 show ?thesis by (auto simp: tracked_recv_poll_def)
  next
    case RecvClosed
    with Suc.prems p t1 show ?thesis by (auto simp: tracked_recv_poll_def)
  qed
qed simp

lemma sink_iteration_taken:
  assumes "queue_log H c taken" "sink_log S taken log" "tr_receiver (sn_receiver r) = c"
    and "sink_iteration H S k timeout r w = Some (st, w')"
  shows "\<exists>es. tr_receiver (sn_receiver (loop_runner st)) = c \<and> taken (w_ext w') = taken (w_ext w) @ es \<and>
    log (sn_sink (loop_runner st)) = log (sn_sink r) @ es \<and>
    counted (sn_metrics (loop_runner st)) = counted (sn_metrics r) + of_nat (length es)"
proof -
  obtain dl w1 where dl: "sink_deadline H timeout w = (dl, w1)" by fastforce
  have w1: "taken (w_ext w1) = taken (w_ext w)"
    using dl queue_logD(4) [OF assms(1), of w]
    by (auto simp: sink_deadline_def case_prod_beta split: option.splits)
  from assms(4) dl obtain inp rx w2 where sel: "select_sink H k dl (sn_receiver r) w1 = Some (inp, rx, w2)"
    by (cases "select_sink H k dl (sn_receiver r) w1") (auto simp: sink_iteration_def)
  note t2 = select_sink_taken [OF assms(1,3) sel]
  note step = assms(4) [unfolded sink_iteration_def dl Let_def prod.case sel option.case]
  show ?thesis
  proof (cases inp)
    case SinkStop
    with step t2 w1 show ?thesis by (auto intro!: exI [of _ "[]"])
  next
    case SinkIdle
    obtain res s w3 where f: "snk_flush S (sn_sink r) w2 = (res, s, w3)" by (metis prod_cases3)
    from sink_logD(2) [OF assms(2) f] step SinkIdle f t2 w1 show ?thesis by (auto intro!: exI [of _ "[]"])
  next
    case (SinkMessage env)
    obtain res s w3 where cl: "snk_collect S env (sn_sink r) w2 = (res, s, w3)" by (metis prod_cases3)
    obtain m w4 where m: "counted m = counted (sn_metrics r) + 1" "taken (w_ext w4) = taken (w_ext w3)"
      and st: "st = LoopContinue (r\<lparr>sn_receiver := rx, sn_sink := s, sn_metrics := m\<rparr>)" "w' = w4"
    proof (cases res)
      case (Inl e)
      with step SinkMessage cl show ?thesis by (intro that) (auto simp: counted_failed)
    next
      case (Inr u)
      obtain m w4 where p: "record_processed H (sn_metrics r) w3 = (m, w4)" by fastforce
      with step SinkMessage cl Inr that [OF counted_processed [OF p] record_processed_taken [OF assms(1) p]]
      show ?thesis by auto
    qed
    with sink_logD(1) [OF assms(2) cl] SinkMessage t2 w1 show ?thesis
      by (auto intro!: exI [of _ "[env]"])
  qed
qed

lemma sink_run_taken:
  assumes "queue_log H c taken" "sink_log S taken log" "tr_receiver (sn_receiver r) = c"
    and "run_loop (sink_iteration H S k timeout) f r w = Some (e, r', w')"
  shows "\<exists>es. tr_receiver (sn_receiver r') = c \<and> taken (w_ext w') = taken (w_ext w) @ es \<and>
    log (sn_sink r') = log (sn_sink r) @ es \<and> counted (sn_metrics r') = counted (sn_metrics r) + of_nat (length es)"
  using assms(3,4)
proof (induction f arbitrary: r w)
  case (Suc f)
  from Suc.prems(2) obtain st w1 where b: "sink_iteration H S k timeout r w = Some (st, w1)"
    by (cases "sink_iteration H S k timeout r w") auto
  from sink_iteration_taken [OF assms(1,2) Suc.prems(1) b] obtain es where
    es: "tr_receiver (sn_receiver (loop_runner st)) = c" "taken (w_ext w1) = taken (w_ext w) @ es"
    "log (sn_sink (loop_runner st)) = log (sn_sink r) @ es"
    "counted (sn_metrics (loop_runner st)) = counted (sn_metrics r) + of_nat (length es)" by blast
  show ?case
  proof (cases st)
    case (LoopContinue r1)
    with Suc.prems(2) b have "run_loop (sink_iteration H S k timeout) f r1 w1 = Some (e, r', w')" by simp
    from Suc.IH [OF _ this] es LoopContinue obtain es' where
      "tr_receiver (sn_receiver r') = c" "taken (w_ext w') = taken (w_ext w) @ es @ es'"
      "log (sn_sink r') = log (sn_sink r) @ es @ es'"
      "counted (sn_metrics r') = counted (sn_metrics r) + of_nat (length (es @ es'))"
      by (auto simp: algebra_simps)
    then show ?thesis by blast
  next
    case (LoopBreak e1 r1)
    with Suc.prems(2) b es show ?thesis by auto
  qed
qed simp

lemma drain_taken:
  assumes "queue_log H c taken" "sink_log S taken log" "tr_receiver (sn_receiver r) = c"
    and "drain_queue H S k r w = Some (r', w')"
  shows "\<exists>es. taken (w_ext w') = taken (w_ext w) @ es \<and> log (sn_sink r') = log (sn_sink r) @ es \<and>
    sn_metrics r' = sn_metrics r"
  using assms(3,4)
proof (induction k arbitrary: r w)
  case (Suc k)
  obtain m w1 where m: "h_try_recv H c w = (m, w1)" by fastforce
  note t = queue_logD(2) [OF assms(1) m]
  show ?case
  proof (cases m)
    case None
    with Suc.prems m t show ?thesis by (auto simp: tracked_try_recv_def)
  next
    case (Some env)
    let ?w2 = "update_queue (tr_queue_metrics (sn_receiver r)) record_dequeued w1"
    obtain res s w3 where cl: "snk_collect S env (sn_sink r) ?w2 = (res, s, w3)" by (metis prod_cases3)
    with Suc.prems m Some have rest: "drain_queue H S k (r\<lparr>sn_sink := s\<rparr>) w3 = Some (r', w')"
      by (simp add: tracked_try_recv_def)
    from Suc.prems(1) have c': "tr_receiver (sn_receiver (r\<lparr>sn_sink := s\<rparr>)) = c" by simp
    from Suc.IH [OF c' rest] obtain es' where "taken (w_ext w') = taken (w_ext w3) @ es'"
      "log (sn_sink r') = log s @ es'" "sn_metrics r' = sn_metrics r" by auto
    with sink_logD(1) [OF assms(2) cl] t Some show ?thesis by (auto intro!: exI [of _ "env # es'"])
  qed
qed simp

lemma to_error_taken:
  assumes "queue_log H c taken" "transition_to_error H st w = (b, st', w')"
  shows "taken (w_ext w') = taken (w_ext w)"
  using assms(2) queue_logD(4) [OF assms(1), of w]
  by (auto simp: transition_to_error_def elapsed_eq Let_def case_prod_beta split: if_splits)

section \<open>Properties\<close>

text \<open>
  C3: a sink is given every message taken from its queue, once and in order, also those still
  queued when it is cancelled; it is flushed and closed at the end, and the run succeeds exactly
  when both do. Every message collected before the drain is counted as processed or failed; those
  delivered while draining are not counted.
\<close>

theorem sink_collects_all:
  assumes "queue_log H (tr_receiver rx) taken" "sink_log S taken log"
    and "run_sink_loop H S k s rx st m w = Some (e, r', st', w')"
  shows "\<exists>es drained. taken (w_ext w') = taken (w_ext w) @ es @ drained \<and>
    log (sn_sink r') = log s @ es @ drained \<and> counted (sn_metrics r') = counted m + of_nat (length es) \<and>
    (\<exists>s1 w1 s2 w2 w3 fl cl. snk_flush S s1 w1 = (fl, s2, w2) \<and> snk_close S s2 w2 = (cl, sn_sink r', w3) \<and>
       ((e = Inr ()) \<longleftrightarrow> is_ok fl \<and> is_ok cl))"
proof -
  let ?r = "\<lparr>sn_sink = s, sn_receiver = rx, sn_metrics = m\<rparr>"
  note run = assms(3) [unfolded run_sink_loop_def Let_def]
  obtain e1 r1 w1 where l: "run_loop (sink_iteration H S k (snk_batch_timeout S s)) k ?r w = Some (e1, r1, w1)"
    using run by (cases "run_loop (sink_iteration H S k (snk_batch_timeout S s)) k ?r w") auto
  obtain r2 w2 where d: "drain_queue H S k r1 w1 = Some (r2, w2)"
    using run l by (cases "drain_queue H S k r1 w1") auto
  have fin: "finish_sink H S (snd (transition_to_running st)) r2 w2 = (e, r', st', w')" using run l d by simp
  have c: "tr_receiver (sn_receiver ?r) = tr_receiver rx" by simp
  from sink_run_taken [OF assms(1,2) c l] obtain es where
    es: "tr_receiver (sn_receiver r1) = tr_receiver rx" "taken (w_ext w1) = taken (w_ext w) @ es"
    "log (sn_sink r1) = log s @ es" "counted (sn_metrics r1) = counted m + of_nat (length es)" by auto
  from drain_taken [OF assms(1,2) es(1) d] obtain dr where
    dr: "taken (w_ext w2) = taken (w_ext w1) @ dr" "log (sn_sink r2) = log (sn_sink r1) @ dr"
    "sn_metrics r2 = sn_metrics r1" by auto
  obtain fl s3 w3 where fl: "snk_flush S (sn_sink r2) w2 = (fl, s3, w3)" by (metis prod_cases3)
  obtain cl s4 w4 where cl: "snk_close S s3 w3 = (cl, s4, w4)" by (metis prod_cases3)
  have res: "sn_sink r' = s4" "sn_metrics r' = sn_metrics r2" "taken (w_ext w') = taken (w_ext w4)"
    "(e = Inr ()) \<longleftrightarrow> is_ok fl \<and> is_ok cl"
    using fin fl cl to_error_taken [OF assms(1)]
    by (auto simp: finish_sink_def Let_def is_ok_def split: sum.splits prod.splits)
  have "taken (w_ext w4) = taken (w_ext w2)" "log s4 = log (sn_sink r2)"
    using sink_logD(2) [OF assms(2) fl] sink_logD(3) [OF assms(2) cl] by simp_all
  with es dr res have "taken (w_ext w') = taken (w_ext w) @ es @ dr \<and> log (sn_sink r') = log s @ es @ dr \<and>
      counted (sn_metrics r') = counted m + of_nat (length es)" by simp
  with fl cl res show ?thesis by metis
qed

text \<open>
  A sink that keeps what it is given, and a runtime whose queue is a list next to the messages
  already taken from it.
\<close>

definition list_sink :: "(runtime_envelope list, 'w) sink_ops" where
  "list_sink =
     \<lparr>snk_id = (\<lambda>_. ''s''), snk_collect = (\<lambda>e s w. (Inr (), s @ [e], w)),
      snk_flush = (\<lambda>s w. (Inr (), s, w)), snk_close = (\<lambda>s w. (Inr (), s, w)),
      snk_batch_timeout = (\<lambda>_. None)\<rparr>"

type_synonym logged_world = "(runtime_envelope list \<times> runtime_envelope list, unit) world"

definition logged_take :: "logged_world \<Rightarrow> runtime_envelope option \<times> logged_world" where
  "logged_take w =
     (case w_ext w of
        ([], _) \<Rightarrow> (None, w)
      | (e # q, t) \<Rightarrow> (Some e, w\<lparr>w_ext := (q, t @ [e])\<rparr>))"

definition logged_runner :: "(runtime_envelope list \<times> runtime_envelope list, unit) runner_host" where
  "logged_runner =
     \<lparr>h_now = (\<lambda>w. (0, w)), h_system_now = (\<lambda>w. (0, w)), h_dlq_try_send = (\<lambda>_ _ w. (SendOk, w)),
      h_new_store = (\<lambda>_ dt. \<lparr>so_data = dt, so_guest = ()\<rparr>),
      h_epoch_deadline_trap = (\<lambda>st. st), h_set_epoch_deadline = (\<lambda>_ st. st), h_set_fuel = (\<lambda>_ st. Inr st),
      h_push_buffer = (\<lambda>_ st. (Inr 0, st)), h_delete_buffer = (\<lambda>_ st. (Inr (), st)),
      h_debug_error = (\<lambda>_. []), h_instantiate = (\<lambda>_ st w. (Inr (BTransform 0), st, w)),
      h_call_validate = (\<lambda>_ _ st w. (Inr None, st, w)), h_call_init = (\<lambda>_ _ st w. (Inr (Inr ()), st, w)),
      h_call_process = (\<lambda>_ _ st w. (Inr (Inl WitTimedOut), st, w)),
      h_call_evaluate = (\<lambda>_ _ st w. (Inr (Inr True), st, w)), h_call_route = (\<lambda>_ _ st w. (Inr (Inr []), st, w)),
      h_call_output_ports = (\<lambda>_ st w. (Inr [], st, w)),
      h_reserve = (\<lambda>_ w. (True, w)), h_permit_send = (\<lambda>_ _ w. w), h_try_send = (\<lambda>_ _ w. (SendOk, w)),
      h_recv_poll = (\<lambda>_ w. case logged_take w of
         (None, w) \<Rightarrow> (RecvClosed, w) | (Some e, w) \<Rightarrow> (RecvMessage e, w)),
      h_try_recv = (\<lambda>_. logged_take),
      h_cancelled = (\<lambda>w. (False, w)), h_park = (\<lambda>w. w), h_has_changed = (\<lambda>_ _. Some False),
      h_borrow_has_changed = (\<lambda>_ _. False), h_borrow_and_update = (\<lambda>_ w. (None, w)),
      h_changed_poll = (\<lambda>_ w. (WatchPending, w)), h_mark_changed = (\<lambda>_ w. w)\<rparr>"

definition logged_start :: "runtime_envelope list \<Rightarrow> logged_world" where
  "logged_start q =
     \<lparr>w_progress = (\<lambda>_. progress_channel), w_hashes = Map.empty, w_queues = (\<lambda>_. queue_metrics_default),
      w_transform_slots = (\<lambda>_. None), w_store_slots = (\<lambda>_. None), w_bindings_slots = (\<lambda>_. None),
      w_ext = (q, [])\<rparr>"

lemma logged_runner_log: "queue_log logged_runner c snd"
  by (simp add: queue_log_def logged_runner_def logged_take_def split: prod.split list.split option.split)

lemma list_sink_log: "sink_log list_sink snd id"
  by (simp add: sink_log_def list_sink_def)

theorem sink_collects_all_witness:
  "\<exists>e r' st' w'. run_sink_loop logged_runner list_sink 4 [] (tracked_receiver_new 0 0) (state_new 0) node_metrics_new
      (logged_start [sample_envelope]) = Some (e, r', st', w') \<and> sn_sink r' = [sample_envelope]"
proof -
  let ?run = "run_sink_loop logged_runner list_sink 4 [] (tracked_receiver_new 0 0) (state_new 0) node_metrics_new
      (logged_start [sample_envelope])"
  obtain e r' st' w' where run: "?run = Some (e, r', st', w')" and "snd (w_ext w') = [sample_envelope]"
    by (simp add: run_sink_loop_def eval_nat_numeral sink_iteration_def sink_deadline_def list_sink_def
        tracked_receiver_new_def tracked_recv_poll_def tracked_try_recv_def logged_runner_def logged_take_def
        logged_start_def update_queue_def record_processed_def node_metrics_new_def finish_sink_def Let_def)
  with sink_collects_all [OF logged_runner_log list_sink_log run] show ?thesis
    by (auto simp: logged_start_def)
qed

end
