(* ===== verification/Supervisor.thy ===== *)
theory Supervisor
  imports PipelineHandle FilterLoop RouterLoop TransformLoop SourceLoop SinkLoop
begin

text \<open>
  Running a built pipeline, \<open>PipelineOrchestrator\<close> in \<open>wafer-core/src/orchestrator/pipeline.rs\<close>: the task
  of each bundle, and the supervision that joins the tasks, aborts those that outlive the shutdown
  deadline, waits for the dead-letter writer and reports every failure. The set of tasks and the
  cancellation token are \<open>tokio\<close>'s, so joining, aborting and cancelling are operations of the host.
  The tasks run concurrently: \<open>run_bundle\<close> is one task in a world the others change under it.
\<close>

section \<open>The task of a node\<close>

datatype task_exit = TaskDone nat exit_result | TaskPanicked nat string

datatype join_poll = JoinPending | JoinEmpty | JoinDone task_exit

datatype dlq_exit = DlqDone exit_result | DlqPanicked string

record ('x, 's) supervisor_host = "('x, 's) uuid_host" +
  h_cancel :: "('x, 's) world \<Rightarrow> ('x, 's) world"
  h_join_poll :: "('x, 's) world \<Rightarrow> join_poll \<times> ('x, 's) world"
  h_abort_all :: "('x, 's) world \<Rightarrow> ('x, 's) world"
  h_dlq_poll :: "('x, 's) world \<Rightarrow> dlq_exit option \<times> ('x, 's) world"

record ('k, 'w) source_io = "('k, 'w) source_ops" +
  src_init :: "'k \<Rightarrow> 'w \<Rightarrow> (wafer_error, unit) result \<times> 'k \<times> 'w"

record ('k, 'w) sink_io = "('k, 'w) sink_ops" +
  snk_init :: "'k \<Rightarrow> 'w \<Rightarrow> (wafer_error, unit) result \<times> 'k \<times> 'w"

text \<open>The loop of a node without a compiled instance: every message is forwarded unchanged.\<close>

record passthrough_runner =
  pr_receiver :: tracked_receiver
  pr_metrics :: node_metrics

fun select_passthrough ::
    "('x, 's, 'h) runner_host_scheme \<Rightarrow> nat \<Rightarrow> tracked_receiver \<Rightarrow> ('x, 's) world
       \<Rightarrow> (runtime_envelope option \<times> tracked_receiver \<times> ('x, 's) world) option" where
  "select_passthrough H 0 r w = None"
| "select_passthrough H (Suc k) r w =
     (let (c, w) = h_cancelled H w in
      if c then Some (None, r, w)
      else
        let (p, r, w) = tracked_recv_poll H r w in
        case p of
          RecvMessage e \<Rightarrow> Some (Some e, r, w)
        | RecvClosed \<Rightarrow> Some (None, r, w)
        | RecvPending \<Rightarrow> select_passthrough H k r (h_park H w))"

definition passthrough_iteration ::
    "('x, 's, 'h) runner_host_scheme \<Rightarrow> nat \<Rightarrow> downstream_sender list \<Rightarrow> passthrough_runner \<Rightarrow> ('x, 's) world
       \<Rightarrow> (passthrough_runner loop_step \<times> ('x, 's) world) option" where
  "passthrough_iteration H k senders r w =
     (case select_passthrough H k (pr_receiver r) w of
        None \<Rightarrow> None
      | Some (None, rx, w) \<Rightarrow> Some (LoopBreak (Inr ()) (r\<lparr>pr_receiver := rx\<rparr>), w)
      | Some (Some env, rx, w) \<Rightarrow>
          let w = send_downstream H senders env w;
              (m, w) = record_processed H (pr_metrics r) w
          in Some (LoopContinue (r\<lparr>pr_receiver := rx, pr_metrics := m\<rparr>), w))"

definition run_passthrough_loop ::
    "('x, 's, 'h) runner_host_scheme \<Rightarrow> nat \<Rightarrow> tracked_receiver \<Rightarrow> downstream_sender list \<Rightarrow> node_state_tracker
       \<Rightarrow> node_metrics \<Rightarrow> ('x, 's) world
       \<Rightarrow> (exit_result \<times> node_state_tracker \<times> node_metrics \<times> ('x, 's) world) option" where
  "run_passthrough_loop H k rx senders st m w =
     (let st = snd (transition_to_running st) in
      map_option (\<lambda>(_, r, w). (Inr (), st, pr_metrics r, w))
        (run_loop (passthrough_iteration H k senders) k \<lparr>pr_receiver = rx, pr_metrics = m\<rparr> w))"

text \<open>A bundle without an instance of its source or sink only waits for the cancellation.\<close>

fun await_cancelled :: "('x, 's, 'h) runner_host_scheme \<Rightarrow> nat \<Rightarrow> ('x, 's) world \<Rightarrow> ('x, 's) world option" where
  "await_cancelled H 0 w = None"
| "await_cancelled H (Suc k) w =
     (let (c, w) = h_cancelled H w in if c then Some w else await_cancelled H k (h_park H w))"

definition fail_io_init ::
    "('w, 'h) host_scheme \<Rightarrow> string \<Rightarrow> string \<Rightarrow> wafer_error \<Rightarrow> node_state_tracker \<Rightarrow> 'w
       \<Rightarrow> wafer_error \<times> node_state_tracker \<times> 'w" where
  "fail_io_init H role v e st w =
     (let (_, st, w) = transition_to_error H st w
      in (PluginInit (role @ '' '' @ quoted v @ '' init failed: '' @ wafer_error_display e), st, w))"

text \<open>The drop guard: the pipeline is cancelled unless the task ended well.\<close>

definition spawn_node_task ::
    "('x, 's, 'h) supervisor_host_scheme
       \<Rightarrow> (exit_result \<times> node_state_tracker \<times> node_metrics \<times> ('x, 's) world) option
       \<Rightarrow> (exit_result \<times> node_state_tracker \<times> node_metrics \<times> ('x, 's) world) option" where
  "spawn_node_task H task =
     map_option (\<lambda>(e, st, m, w). (e, st, m, if is_ok e then w else h_cancel H w)) task"

definition source_task ::
    "('x, 's, 'h) supervisor_host_scheme \<Rightarrow> ('k, ('x, 's) world) source_io \<Rightarrow> nat \<Rightarrow> string \<Rightarrow> 'k
       \<Rightarrow> downstream_sender list \<Rightarrow> node_state_tracker \<Rightarrow> node_metrics \<Rightarrow> ('x, 's) world
       \<Rightarrow> (exit_result \<times> node_state_tracker \<times> node_metrics \<times> ('x, 's) world) option" where
  "source_task H S k v s senders st m w =
     (let (r, s, w) = src_init S s w in
      case r of
        Inl e \<Rightarrow> let (e, st, w) = fail_io_init H ''source'' v e st w in Some (Inl e, st, m, w)
      | Inr _ \<Rightarrow>
          map_option (\<lambda>(e, r, w). (e, sr_state r, sr_metrics r, w))
            (run_source_loop H (source_ops.truncate S) k s senders st m w))"

definition sink_task ::
    "('x, 's, 'h) supervisor_host_scheme \<Rightarrow> ('k, ('x, 's) world) sink_io \<Rightarrow> nat \<Rightarrow> string \<Rightarrow> 'k
       \<Rightarrow> tracked_receiver \<Rightarrow> node_state_tracker \<Rightarrow> node_metrics \<Rightarrow> ('x, 's) world
       \<Rightarrow> (exit_result \<times> node_state_tracker \<times> node_metrics \<times> ('x, 's) world) option" where
  "sink_task H S k v s rx st m w =
     (let (r, s, w) = snk_init S s w in
      case r of
        Inl e \<Rightarrow> let (e, st, w) = fail_io_init H ''sink'' v e st w in Some (Inl e, st, m, w)
      | Inr _ \<Rightarrow>
          map_option (\<lambda>(e, r, st, w). (e, st, sn_metrics r, w))
            (run_sink_loop H (sink_ops.truncate S) k s rx st m w))"

definition run_bundle ::
    "('x, 's, 'h) supervisor_host_scheme \<Rightarrow> ('i, ('x, 's) world) source_io \<Rightarrow> ('o, ('x, 's) world) sink_io
       \<Rightarrow> hot_swap_config \<Rightarrow> nat \<Rightarrow> ('i, 'o, 's) node_bundle \<Rightarrow> ('x, 's) world
       \<Rightarrow> (exit_result \<times> node_state_tracker \<times> node_metrics \<times> ('x, 's) world) option" where
  "run_bundle H S K cfg k b w =
     (let v = nb_node_id b; st = nb_state b; m = nb_metrics b in
      case nb_kind b of
        BundleTransform rx senders sw x node \<Rightarrow>
          spawn_node_task H (case node of
            Some n \<Rightarrow> map_option (\<lambda>(e, r, w). (e, rn_state r, rn_metrics r, w))
                        (run_transform_loop_with_config H k n rx senders sw x st m cfg w)
          | None \<Rightarrow> run_passthrough_loop H k rx senders st m w)
      | BundleFilter rx senders sw x node \<Rightarrow>
          spawn_node_task H (case node of
            Some n \<Rightarrow> map_option (\<lambda>(e, r, w). (e, rn_state r, rn_metrics r, w))
                        (run_filter_loop H k n rx senders sw x st m w)
          | None \<Rightarrow> run_passthrough_loop H k rx senders st m w)
      | BundleRouter rx senders sw x node \<Rightarrow>
          spawn_node_task H (case node of
            Some n \<Rightarrow> map_option (\<lambda>(e, r, w). (e, rn_state r, rn_metrics r, w))
                        (run_router_loop H k n rx senders sw x st m w)
          | None \<Rightarrow> run_passthrough_loop H k rx senders st m w)
      | BundleSource source senders \<Rightarrow>
          (case source of
             Some s \<Rightarrow> spawn_node_task H (source_task H S k v s senders st m w)
           | None \<Rightarrow> map_option (\<lambda>w. (Inr (), st, m, w)) (await_cancelled H k w))
      | BundleSink sink rx \<Rightarrow>
          (case sink of
             Some s \<Rightarrow> spawn_node_task H (sink_task H K k v s rx st m w)
           | None \<Rightarrow> map_option (\<lambda>w. (Inr (), st, m, w)) (await_cancelled H k w)))"

section \<open>Supervision\<close>

definition SHUTDOWN_TIMEOUT :: duration where
  "SHUTDOWN_TIMEOUT = 5000000000"

record orchestrator =
  or_task_nodes :: "(nat \<times> string) list"
  or_state_trackers :: "string \<rightharpoonup> node_state_tracker"
  or_dlq_handle :: bool
  or_running :: bool

text \<open>
  The orchestrator right after \<open>from_build_output\<close>: tasks are numbered in the order they are spawned,
  which is the order of the bundles.
\<close>

definition from_build_output :: "('i, 'o, 's) build_output \<Rightarrow> orchestrator" where
  "from_build_output b =
     \<lparr>or_task_nodes = enumerate 0 (map nb_node_id (bo_node_bundles b)),
      or_state_trackers = map_of (map (\<lambda>n. (nb_node_id n, nb_state n)) (bo_node_bundles b)),
      or_dlq_handle = (bo_dlq b \<noteq> None), or_running = True\<rparr>"

definition take_task_node :: "nat \<Rightarrow> orchestrator \<Rightarrow> string \<times> orchestrator" where
  "take_task_node i p =
     (case map_of (or_task_nodes p) i of None \<Rightarrow> ''<unknown>'' | Some v \<Rightarrow> v,
      p\<lparr>or_task_nodes := filter (\<lambda>(j, _). j \<noteq> i) (or_task_nodes p)\<rparr>)"

definition record_task_exit ::
    "('w, 'h) host_scheme \<Rightarrow> task_exit \<Rightarrow> orchestrator \<Rightarrow> 'w \<Rightarrow> string option \<times> orchestrator \<times> 'w" where
  "record_task_exit H joined p w =
     (case joined of
        TaskDone i (Inr _) \<Rightarrow> (None, snd (take_task_node i p), w)
      | TaskDone i (Inl e) \<Rightarrow>
          let (v, p) = take_task_node i p
          in (Some (''node '' @ quoted v @ '' failed: '' @ wafer_error_display e), p, w)
      | TaskPanicked i msg \<Rightarrow>
          let (v, p) = take_task_node i p;
              (p, w) = (case or_state_trackers p v of
                          None \<Rightarrow> (p, w)
                        | Some t \<Rightarrow>
                            let (_, t, w) = transition_to_error H t w
                            in (p\<lparr>or_state_trackers := (or_state_trackers p)(v \<mapsto> t)\<rparr>, w))
          in (Some (''node '' @ quoted v @ '' panicked: '' @ msg), p, w))"

text \<open>
  \<open>JoinSet::shutdown\<close>: abort every task, then join until the set is empty. No timer is raced against it:
  a task that never yields keeps it waiting.
\<close>

fun join_aborted ::
    "('x, 's, 'h) supervisor_host_scheme \<Rightarrow> nat \<Rightarrow> ('x, 's) world \<Rightarrow> ('x, 's) world option" where
  "join_aborted H 0 w = None"
| "join_aborted H (Suc k) w =
     (let (j, w) = h_join_poll H w in
      case j of
        JoinDone _ \<Rightarrow> join_aborted H k w
      | JoinEmpty \<Rightarrow> Some w
      | JoinPending \<Rightarrow> join_aborted H k (h_park H w))"

definition abort_stuck_tasks ::
    "('x, 's, 'h) supervisor_host_scheme \<Rightarrow> nat \<Rightarrow> orchestrator \<Rightarrow> ('x, 's) world
       \<Rightarrow> (string \<times> orchestrator \<times> ('x, 's) world) option" where
  "abort_stuck_tasks H k p w =
     (let stuck = join (CHR 0x27 # '', '' @ [CHR 0x27]) (sort (map snd (or_task_nodes p)));
          p = p\<lparr>or_task_nodes := []\<rparr>
      in map_option
           (\<lambda>w. (''node(s) '' @ quoted stuck @ '' did not stop within '' @ show_nat (SHUTDOWN_TIMEOUT div 1000000000)
                   @ ''s and were aborted'', p, w))
           (join_aborted H k (h_abort_all H w)))"

text \<open>What the outer \<open>select!\<close> yields: cancellation, a joined task, or no task left.\<close>

datatype supervised = SupCancelled | SupJoined task_exit | SupEmpty

fun select_supervised ::
    "('x, 's, 'h) supervisor_host_scheme \<Rightarrow> nat \<Rightarrow> ('x, 's) world \<Rightarrow> (supervised \<times> ('x, 's) world) option" where
  "select_supervised H 0 w = None"
| "select_supervised H (Suc k) w =
     (let (c, w) = h_cancelled H w in
      if c then Some (SupCancelled, w)
      else
        let (j, w) = h_join_poll H w in
        case j of
          JoinDone e \<Rightarrow> Some (SupJoined e, w)
        | JoinEmpty \<Rightarrow> Some (SupEmpty, w)
        | JoinPending \<Rightarrow> select_supervised H k (h_park H w))"

text \<open>The inner \<open>select!\<close>: the deadline (\<open>SupCancelled\<close>) first, then the tasks.\<close>

fun select_draining ::
    "('x, 's, 'h) supervisor_host_scheme \<Rightarrow> nat \<Rightarrow> instant \<Rightarrow> ('x, 's) world \<Rightarrow> (supervised \<times> ('x, 's) world) option" where
  "select_draining H 0 deadline w = None"
| "select_draining H (Suc k) deadline w =
     (let (t, w) = poll_timer H (Some deadline) w in
      if t then Some (SupCancelled, w)
      else
        let (j, w) = h_join_poll H w in
        case j of
          JoinDone e \<Rightarrow> Some (SupJoined e, w)
        | JoinEmpty \<Rightarrow> Some (SupEmpty, w)
        | JoinPending \<Rightarrow> select_draining H k deadline (h_park H w))"

text \<open>\<open>extend\<close> with an \<open>Option\<close>.\<close>

definition option_list :: "'a option \<Rightarrow> 'a list" where
  "option_list x = (case x of None \<Rightarrow> [] | Some a \<Rightarrow> [a])"

text \<open>Failures are pushed on the list \<open>fs\<close>; the fuel bounds the iterations and each wait.\<close>

fun drain_tasks ::
    "('x, 's, 'h) supervisor_host_scheme \<Rightarrow> nat \<Rightarrow> nat \<Rightarrow> instant \<Rightarrow> string list \<Rightarrow> orchestrator \<Rightarrow> ('x, 's) world
       \<Rightarrow> (string list \<times> orchestrator \<times> ('x, 's) world) option" where
  "drain_tasks H 0 k deadline fs p w = None"
| "drain_tasks H (Suc n) k deadline fs p w =
     (case select_draining H k deadline w of
        None \<Rightarrow> None
      | Some (SupCancelled, w) \<Rightarrow> map_option (\<lambda>(msg, p, w). (fs @ [msg], p, w)) (abort_stuck_tasks H k p w)
      | Some (SupEmpty, w) \<Rightarrow> Some (fs, p, w)
      | Some (SupJoined e, w) \<Rightarrow>
          let (f, p, w) = record_task_exit H e p w
          in drain_tasks H n k deadline (fs @ option_list f) p w)"

fun supervise ::
    "('x, 's, 'h) supervisor_host_scheme \<Rightarrow> nat \<Rightarrow> nat \<Rightarrow> string list \<Rightarrow> orchestrator \<Rightarrow> ('x, 's) world
       \<Rightarrow> (string list \<times> orchestrator \<times> ('x, 's) world) option" where
  "supervise H 0 k fs p w = None"
| "supervise H (Suc n) k fs p w =
     (case select_supervised H k w of
        None \<Rightarrow> None
      | Some (SupCancelled, w) \<Rightarrow>
          let (now, w) = h_now H w in drain_tasks H k k (now + SHUTDOWN_TIMEOUT) fs p w
      | Some (SupEmpty, w) \<Rightarrow> Some (fs, p, w)
      | Some (SupJoined e, w) \<Rightarrow>
          let (f, p, w) = record_task_exit H e p w in supervise H n k (fs @ option_list f) p w)"

text \<open>\<open>timeout\<close> around the handle of the dead-letter task; \<open>Some None\<close> is the timeout.\<close>

fun await_dlq ::
    "('x, 's, 'h) supervisor_host_scheme \<Rightarrow> nat \<Rightarrow> instant \<Rightarrow> ('x, 's) world \<Rightarrow> (dlq_exit option \<times> ('x, 's) world) option" where
  "await_dlq H 0 deadline w = None"
| "await_dlq H (Suc k) deadline w =
     (let (d, w) = h_dlq_poll H w in
      case d of
        Some e \<Rightarrow> Some (Some e, w)
      | None \<Rightarrow>
          let (t, w) = poll_timer H (Some deadline) w in
          if t then Some (None, w) else await_dlq H k deadline (h_park H w))"

definition dlq_failure :: "dlq_exit option \<Rightarrow> string list" where
  "dlq_failure d =
     (case d of
        Some (DlqDone (Inr _)) \<Rightarrow> []
      | Some (DlqDone (Inl e)) \<Rightarrow> [''DLQ sink failed: '' @ wafer_error_display e]
      | Some (DlqPanicked msg) \<Rightarrow> [''DLQ task panicked: '' @ msg]
      | None \<Rightarrow> [''DLQ task did not stop within 5s''])"

definition run_until_complete ::
    "('x, 's, 'h) supervisor_host_scheme \<Rightarrow> nat \<Rightarrow> orchestrator \<Rightarrow> ('x, 's) world
       \<Rightarrow> (exit_result \<times> orchestrator \<times> ('x, 's) world) option" where
  "run_until_complete H k p w =
     (case supervise H k k [] p w of
        None \<Rightarrow> None
      | Some (fs, p, w) \<Rightarrow>
          let waited = (if or_dlq_handle p
                        then let (now, w) = h_now H w in
                             map_option (\<lambda>(d, w). (dlq_failure d, w)) (await_dlq H k (now + 5000000000) w)
                        else Some ([], w))
          in
          (case waited of
             None \<Rightarrow> None
           | Some (ds, w) \<Rightarrow>
               let fs = fs @ ds; p = p\<lparr>or_dlq_handle := False, or_running := False\<rparr>
               in Some (if fs = [] then Inr () else Inl (Runtime (''pipeline run failed: '' @ join ''; '' fs)), p, w)))"

definition pipeline_shutdown ::
    "('x, 's, 'h) supervisor_host_scheme \<Rightarrow> nat \<Rightarrow> orchestrator \<Rightarrow> ('x, 's) world
       \<Rightarrow> (exit_result \<times> orchestrator \<times> ('x, 's) world) option" where
  "pipeline_shutdown H k p w = run_until_complete H k p (h_cancel H w)"

section \<open>What joining promises\<close>

text \<open>
  \<open>join_set_laws H pend\<close>: \<open>pend w\<close> lists the exits of the tasks not yet joined, in the order they
  will be joined. Joining takes the first, finds the set empty exactly when none is left, and
  nothing else the supervisor calls joins a task.
\<close>

definition join_set_laws :: "('x, 's, 'h) supervisor_host_scheme \<Rightarrow> (('x, 's) world \<Rightarrow> task_exit list) \<Rightarrow> bool" where
  "join_set_laws H pend \<longleftrightarrow>
     (\<forall>w. case h_join_poll H w of
            (JoinDone e, w') \<Rightarrow> pend w = e # pend w'
          | (JoinEmpty, w') \<Rightarrow> pend w = [] \<and> pend w' = []
          | (JoinPending, w') \<Rightarrow> pend w' = pend w) \<and>
     (\<forall>w. pend (snd (h_cancelled H w)) = pend w) \<and> (\<forall>w. pend (snd (h_now H w)) = pend w) \<and>
     (\<forall>w. pend (h_park H w) = pend w) \<and> (\<forall>w. pend (h_cancel H w) = pend w)"

definition exit_id :: "task_exit \<Rightarrow> nat" where
  "exit_id e = (case e of TaskDone i _ \<Rightarrow> i | TaskPanicked i _ \<Rightarrow> i)"

definition exit_ok :: "task_exit \<Rightarrow> bool" where
  "exit_ok e = (case e of TaskDone _ r \<Rightarrow> is_ok r | TaskPanicked _ _ \<Rightarrow> False)"

definition exit_failure :: "(nat \<times> string) list \<Rightarrow> task_exit \<Rightarrow> string option" where
  "exit_failure nodes e =
     (let v = quoted (case map_of nodes (exit_id e) of None \<Rightarrow> ''<unknown>'' | Some v \<Rightarrow> v) in
      case e of
        TaskDone _ (Inr _) \<Rightarrow> None
      | TaskDone _ (Inl err) \<Rightarrow> Some (''node '' @ v @ '' failed: '' @ wafer_error_display err)
      | TaskPanicked _ msg \<Rightarrow> Some (''node '' @ v @ '' panicked: '' @ msg))"

definition exit_failures :: "(nat \<times> string) list \<Rightarrow> task_exit list \<Rightarrow> string list" where
  "exit_failures nodes es = concat (map (\<lambda>e. option_list (exit_failure nodes e)) es)"

definition still_running :: "(nat \<times> string) list \<Rightarrow> task_exit list \<Rightarrow> string list" where
  "still_running nodes taken = sort (map snd (filter (\<lambda>(i, _). i \<notin> exit_id ` set taken) nodes))"

definition stuck_message :: "string list \<Rightarrow> string" where
  "stuck_message vs =
     ''node(s) '' @ quoted (join (CHR 0x27 # '', '' @ [CHR 0x27]) vs) @ '' did not stop within 5s and were aborted''"

text \<open>
  The failures of a run: those of all exits, or, when it was too \<open>late\<close>, those of a part and the nodes that
  were aborted.
\<close>

definition run_failures :: "bool \<Rightarrow> (nat \<times> string) list \<Rightarrow> task_exit list \<Rightarrow> string list \<Rightarrow> bool" where
  "run_failures late nodes exits fs \<longleftrightarrow>
     fs = exit_failures nodes exits \<or>
     late \<and> (\<exists>taken rest. exits = taken @ rest \<and>
        fs = exit_failures nodes taken @ [stuck_message (still_running nodes taken)])"

text \<open>A clock reading at least the shutdown timeout after one at which the token had just been seen fired.\<close>

definition past_shutdown :: "('x, 's, 'h) supervisor_host_scheme \<Rightarrow> bool" where
  "past_shutdown H \<longleftrightarrow> (\<exists>s0 s. fst (h_cancelled H s0) \<and>
     fst (h_now H (snd (h_cancelled H s0))) + SHUTDOWN_TIMEOUT \<le> fst (h_now H s))"

lemma join_poll_law:
  assumes "join_set_laws H pend" "h_join_poll H w = (j, w')"
  shows "case j of JoinDone e \<Rightarrow> pend w = e # pend w' | JoinEmpty \<Rightarrow> pend w = [] \<and> pend w' = []
    | JoinPending \<Rightarrow> pend w' = pend w"
  using assms unfolding join_set_laws_def by (metis (no_types, lifting) case_prod_conv)

lemma join_set_keeps:
  assumes "join_set_laws H pend"
  shows "pend (snd (h_cancelled H w)) = pend w" "pend (snd (h_now H w)) = pend w" "pend (h_park H w) = pend w"
    "pend (h_cancel H w) = pend w" "poll_timer H d w = (t, w') \<Longrightarrow> pend w' = pend w"
    "transition_to_error H st w = (b, st', w') \<Longrightarrow> pend w' = pend w"
  using assms
  by (auto simp: join_set_laws_def poll_timer_def transition_to_error_def elapsed_eq Let_def case_prod_beta
      split: option.splits if_splits)

lemma exit_ok_failure: "exit_failure nodes e = None \<longleftrightarrow> exit_ok e"
  by (auto simp: exit_failure_def exit_ok_def Let_def split: task_exit.splits sum.splits)

lemma exit_failures_Nil: "exit_failures nodes es = [] \<longleftrightarrow> (\<forall>e \<in> set es. exit_ok e)"
  by (induction es) (auto simp: exit_failures_def option_list_def exit_ok_failure [of nodes, symmetric] split: option.splits)

lemma record_task_exit_spec:
  assumes "join_set_laws H pend" "record_task_exit H e p w = (f, p', w')"
  shows "f = exit_failure (or_task_nodes p) e"
    "or_task_nodes p' = filter (\<lambda>(j, _). j \<noteq> exit_id e) (or_task_nodes p)"
    "or_dlq_handle p' = or_dlq_handle p" "pend w' = pend w"
  using assms(2) join_set_keeps(6) [OF assms(1)]
  by (auto simp: record_task_exit_def take_task_node_def exit_failure_def exit_id_def Let_def
      split: task_exit.splits sum.splits prod.splits option.splits)

text \<open>Both waits only look at the tasks; what they yield is what joining yields.\<close>

definition yields :: "task_exit list \<Rightarrow> supervised \<Rightarrow> task_exit list \<Rightarrow> bool" where
  "yields before y after =
     (case y of SupCancelled \<Rightarrow> after = before | SupJoined e \<Rightarrow> before = e # after | SupEmpty \<Rightarrow> before = [] \<and> after = [])"

lemma select_supervised_spec:
  assumes "join_set_laws H pend"
  shows "select_supervised H k w = Some (y, w') \<Longrightarrow> yields (pend w) y (pend w')"
proof (induction k arbitrary: w)
  case (Suc k)
  obtain c w1 where c: "h_cancelled H w = (c, w1)" by fastforce
  obtain j w2 where j: "h_join_poll H w1 = (j, w2)" by fastforce
  have "pend w1 = pend w" using join_set_keeps(1) [OF assms, of w] c by simp
  with Suc.prems Suc.IH [of "h_park H w2"] c j join_poll_law [OF assms j] show ?case
    by (auto simp: yields_def Let_def join_set_keeps(3) [OF assms] split: if_splits join_poll.splits supervised.splits)
qed simp

lemma select_draining_spec:
  assumes "join_set_laws H pend"
  shows "select_draining H k d w = Some (y, w') \<Longrightarrow> yields (pend w) y (pend w')"
proof (induction k arbitrary: w)
  case (Suc k)
  obtain t w1 where t: "poll_timer H (Some d) w = (t, w1)" by fastforce
  obtain j w2 where j: "h_join_poll H w1 = (j, w2)" by fastforce
  have "pend w1 = pend w" using join_set_keeps(5) [OF assms t] .
  with Suc.prems Suc.IH [of "h_park H w2"] t j join_poll_law [OF assms j] show ?case
    by (auto simp: yields_def Let_def join_set_keeps(3) [OF assms] split: if_splits join_poll.splits supervised.splits)
qed simp

lemma exit_failure_filter:
  "exit_id e \<noteq> i \<Longrightarrow> exit_failure (filter (\<lambda>(j, _). j \<noteq> i) nodes) e = exit_failure nodes e"
proof -
  have "map_of (filter (\<lambda>(j, _). j \<noteq> i) nodes) k = map_of nodes k" if "k \<noteq> i" for k
    using that by (induction nodes) auto
  then show "exit_id e \<noteq> i \<Longrightarrow> exit_failure (filter (\<lambda>(j, _). j \<noteq> i) nodes) e = exit_failure nodes e"
    by (simp add: exit_failure_def)
qed

lemma exit_failures_filter:
  "i \<notin> exit_id ` set es \<Longrightarrow> exit_failures (filter (\<lambda>(j, _). j \<noteq> i) nodes) es = exit_failures nodes es"
  by (induction es) (auto simp: exit_failures_def exit_failure_filter)

lemma still_running_filter:
  "still_running (filter (\<lambda>(j, _). j \<noteq> exit_id e) nodes) taken = still_running nodes (e # taken)"
  by (simp add: still_running_def case_prod_unfold conj_commute)

lemma run_failures_Cons:
  assumes "distinct (map exit_id (e # exits))"
    "run_failures late (filter (\<lambda>(j, _). j \<noteq> exit_id e) nodes) exits fs"
  shows "run_failures late nodes (e # exits) (option_list (exit_failure nodes e) @ fs)"
proof -
  have new: "exit_id e \<notin> exit_id ` set exits" using assms(1) by simp
  from assms(2) show ?thesis
  proof (unfold run_failures_def [of _ _ exits], elim disjE exE conjE)
    assume "fs = exit_failures (filter (\<lambda>(j, _). j \<noteq> exit_id e) nodes) exits"
    then have "option_list (exit_failure nodes e) @ fs = exit_failures nodes (e # exits)"
      using exit_failures_filter [OF new] by (simp add: exit_failures_def)
    then show ?thesis by (simp only: run_failures_def) simp
  next
    fix taken rest
    assume l: late and ex: "exits = taken @ rest" and fs: "fs = exit_failures (filter (\<lambda>(j, _). j \<noteq> exit_id e) nodes) taken @
      [stuck_message (still_running (filter (\<lambda>(j, _). j \<noteq> exit_id e) nodes) taken)]"
    have "exit_id e \<notin> exit_id ` set taken" using new ex by auto
    then have "option_list (exit_failure nodes e) @ fs =
         exit_failures nodes (e # taken) @ [stuck_message (still_running nodes (e # taken))]"
      unfolding fs by (simp add: exit_failures_filter still_running_filter) (simp add: exit_failures_def)
    moreover have "e # exits = (e # taken) @ rest" by (simp add: ex)
    ultimately show ?thesis using l unfolding run_failures_def by blast
  qed
qed

lemma abort_message:
  assumes "abort_stuck_tasks H k p w = Some (msg, p', w')"
  shows "msg = stuck_message (still_running (or_task_nodes p) [])" "or_dlq_handle p' = or_dlq_handle p"
proof -
  have "show_nat (SHUTDOWN_TIMEOUT div 1000000000) = ''5''" by (simp add: SHUTDOWN_TIMEOUT_def show_nat.simps char_of_def bit_0)
  with assms show "msg = stuck_message (still_running (or_task_nodes p) [])" "or_dlq_handle p' = or_dlq_handle p"
    by (auto simp: abort_stuck_tasks_def stuck_message_def still_running_def Let_def)
qed

lemma select_draining_deadline:
  "select_draining H k d w = Some (SupCancelled, w') \<Longrightarrow> \<exists>s. d \<le> fst (h_now H s)"
proof (induction k arbitrary: w)
  case (Suc k)
  obtain t w1 where t: "poll_timer H (Some d) w = (t, w1)" by fastforce
  have "t \<Longrightarrow> d \<le> fst (h_now H w)" using t by (auto simp: poll_timer_def case_prod_beta Let_def)
  with Suc t show ?case by (auto simp: Let_def split: if_splits join_poll.splits prod.splits)
qed simp

lemma select_supervised_cancelled:
  "select_supervised H k w = Some (SupCancelled, w') \<Longrightarrow> \<exists>s. fst (h_cancelled H s) \<and> w' = snd (h_cancelled H s)"
proof (induction k arbitrary: w)
  case (Suc k)
  obtain c w1 where c: "h_cancelled H w = (c, w1)" by fastforce
  show ?case
  proof (cases c)
    case True
    then have "fst (h_cancelled H w)" "w' = snd (h_cancelled H w)" using Suc.prems c by simp_all
    then show ?thesis by blast
  next
    case False
    with Suc c show ?thesis by (auto simp: Let_def split: join_poll.splits prod.splits)
  qed
qed simp

lemma run_failures_mono: "run_failures l nodes exits fs \<Longrightarrow> l \<longrightarrow> l' \<Longrightarrow> run_failures l' nodes exits fs"
  by (auto simp: run_failures_def)

lemma drain_tasks_spec:
  assumes "join_set_laws H pend"
  shows "drain_tasks H n k d fs p w = Some (fs', p', w') \<Longrightarrow> distinct (map exit_id (pend w)) \<Longrightarrow>
    \<exists>gs. fs' = fs @ gs \<and> run_failures (\<exists>s. d \<le> fst (h_now H s)) (or_task_nodes p) (pend w) gs \<and> or_dlq_handle p' = or_dlq_handle p"
proof (induction n arbitrary: fs p w)
  case (Suc n)
  from Suc.prems(1) obtain y w1 where y: "select_draining H k d w = Some (y, w1)"
    by (auto split: option.splits)
  note ys = select_draining_spec [OF assms y]
  show ?case
  proof (cases y)
    case SupCancelled
    with Suc.prems(1) y obtain msg where a: "abort_stuck_tasks H k p w1 = Some (msg, p', w')" "fs' = fs @ [msg]" by auto
    have "run_failures (\<exists>s. d \<le> fst (h_now H s)) (or_task_nodes p) (pend w) [msg]"
      unfolding run_failures_def abort_message(1) [OF a(1)]
      using select_draining_deadline y SupCancelled
      by (intro disjI2 conjI) (blast, rule exI [of _ "[]"], simp add: exit_failures_def)
    with a abort_message(2) [OF a(1)] show ?thesis by auto
  next
    case (SupJoined e)
    obtain f p1 w2 where r: "record_task_exit H e p w1 = (f, p1, w2)" by (metis prod_cases3)
    note rs = record_task_exit_spec [OF assms r]
    from ys SupJoined have pw: "pend w = e # pend w2" by (simp add: yields_def rs)
    from Suc.prems(1) y SupJoined r have "drain_tasks H n k d (fs @ option_list f) p1 w2 = Some (fs', p', w')" by simp
    from Suc.IH [OF this] Suc.prems(2) pw obtain gs where
      "fs' = fs @ option_list f @ gs" "run_failures (\<exists>s. d \<le> fst (h_now H s)) (or_task_nodes p1) (pend w2) gs" "or_dlq_handle p' = or_dlq_handle p"
      by (auto simp: rs)
    with run_failures_Cons [of e "pend w2" _ "or_task_nodes p" gs] Suc.prems(2) show ?thesis
      by (auto simp: rs pw)
  next
    case SupEmpty
    with Suc.prems(1) y ys show ?thesis by (simp add: yields_def run_failures_def exit_failures_def)
  qed
qed simp

lemma supervise_spec:
  assumes "join_set_laws H pend"
  shows "supervise H n k fs p w = Some (fs', p', w') \<Longrightarrow> distinct (map exit_id (pend w)) \<Longrightarrow>
    \<exists>gs. fs' = fs @ gs \<and> run_failures (past_shutdown H) (or_task_nodes p) (pend w) gs \<and> or_dlq_handle p' = or_dlq_handle p"
proof (induction n arbitrary: fs p w)
  case (Suc n)
  from Suc.prems(1) obtain y w1 where y: "select_supervised H k w = Some (y, w1)"
    by (auto split: option.splits)
  note ys = select_supervised_spec [OF assms y]
  show ?case
  proof (cases y)
    case SupCancelled
    obtain now w2 where now: "h_now H w1 = (now, w2)" by fastforce
    have "pend w2 = pend w" using ys join_set_keeps(2) [OF assms, of w1] now SupCancelled by (simp add: yields_def)
    with drain_tasks_spec [OF assms, of k k "now + SHUTDOWN_TIMEOUT" fs p w2] Suc.prems y SupCancelled now
    obtain gs where gs: "fs' = fs @ gs" "or_dlq_handle p' = or_dlq_handle p"
      "run_failures (\<exists>s. now + SHUTDOWN_TIMEOUT \<le> fst (h_now H s)) (or_task_nodes p) (pend w) gs" by auto
    obtain s0 where "fst (h_cancelled H s0)" "w1 = snd (h_cancelled H s0)"
      using select_supervised_cancelled [of H k w w1] y SupCancelled by blast
    then have "(\<exists>s. now + SHUTDOWN_TIMEOUT \<le> fst (h_now H s)) \<longrightarrow> past_shutdown H"
      using now unfolding past_shutdown_def by (metis fst_conv)
    with gs run_failures_mono show ?thesis by blast
  next
    case (SupJoined e)
    obtain f p1 w2 where r: "record_task_exit H e p w1 = (f, p1, w2)" by (metis prod_cases3)
    note rs = record_task_exit_spec [OF assms r]
    from ys SupJoined have pw: "pend w = e # pend w2" by (simp add: yields_def rs)
    from Suc.prems(1) y SupJoined r have "supervise H n k (fs @ option_list f) p1 w2 = Some (fs', p', w')" by simp
    from Suc.IH [OF this] Suc.prems(2) pw obtain gs where
      "fs' = fs @ option_list f @ gs" "run_failures (past_shutdown H) (or_task_nodes p1) (pend w2) gs" "or_dlq_handle p' = or_dlq_handle p"
      by (auto simp: rs)
    with run_failures_Cons [of e "pend w2" _ "or_task_nodes p" gs] Suc.prems(2) show ?thesis
      by (auto simp: rs pw)
  next
    case SupEmpty
    with Suc.prems(1) y ys show ?thesis by (simp add: yields_def run_failures_def exit_failures_def)
  qed
qed simp

lemma run_failures_Nil: "run_failures late nodes exits [] \<Longrightarrow> \<forall>e \<in> set exits. exit_ok e"
  by (auto simp: run_failures_def exit_failures_Nil [of nodes, symmetric])

section \<open>The shutdown ends\<close>

text \<open>
  \<open>clock_advances H\<close>: the monotonic clock never runs backwards, parking the task takes time, and a
  cancelled token stays cancelled; \<open>sees_cancel\<close> is a world in which the token has fired.
\<close>

definition clock_at :: "('w, 'h) host_scheme \<Rightarrow> 'w \<Rightarrow> instant" where
  "clock_at H w = fst (h_now H w)"

definition clock_advances :: "('x, 's, 'h) supervisor_host_scheme \<Rightarrow> bool" where
  "clock_advances H \<longleftrightarrow>
     (\<forall>w. clock_at H w \<le> clock_at H (snd (h_now H w))) \<and> (\<forall>w. clock_at H w \<le> clock_at H (snd (h_join_poll H w))) \<and>
     (\<forall>w. clock_at H w \<le> clock_at H (snd (h_dlq_poll H w))) \<and> (\<forall>w. clock_at H w < clock_at H (h_park H w)) \<and>
     (\<forall>w. fst (h_cancelled H (h_cancel H w)))"

lemma clock_advancesD:
  assumes "clock_advances H"
  shows "clock_at H w \<le> clock_at H (snd (h_now H w))" "clock_at H w \<le> clock_at H (snd (h_join_poll H w))"
    "clock_at H w \<le> clock_at H (snd (h_dlq_poll H w))" "clock_at H w < clock_at H (h_park H w)"
    "fst (h_cancelled H (h_cancel H w))"
    "poll_timer H (Some d) w = (t, w') \<Longrightarrow> t = (d \<le> clock_at H w) \<and> clock_at H w \<le> clock_at H w'"
  using assms by (auto simp: clock_advances_def poll_timer_def clock_at_def case_prod_beta Let_def)

lemma select_draining_returns:
  assumes "clock_advances H"
  shows "d - clock_at H w < k \<Longrightarrow> select_draining H k d w \<noteq> None"
proof (induction k arbitrary: w)
  case (Suc k)
  obtain t w1 where t: "poll_timer H (Some d) w = (t, w1)" by fastforce
  obtain j w2 where j: "h_join_poll H w1 = (j, w2)" by fastforce
  note ts = clock_advancesD(6) [OF assms t]
  have "clock_at H w1 \<le> clock_at H w2" using clock_advancesD(2) [OF assms, of w1] j by simp
  with ts clock_advancesD(4) [OF assms, of w2] have lt: "clock_at H w < clock_at H (h_park H w2)" by simp
  show ?case
  proof (cases "d \<le> clock_at H w")
    case False
    then have "d - clock_at H (h_park H w2) < k" using lt Suc.prems by simp
    with Suc.IH show ?thesis using t j by (auto simp: Let_def split: join_poll.splits)
  qed (use t ts in \<open>simp add: Let_def\<close>)
qed simp

lemma select_draining_clock:
  assumes "clock_advances H"
  shows "select_draining H k d w = Some (y, w') \<Longrightarrow> clock_at H w \<le> clock_at H w'"
proof (induction k arbitrary: w)
  case (Suc k)
  obtain t w1 where t: "poll_timer H (Some d) w = (t, w1)" by fastforce
  obtain j w2 where j: "h_join_poll H w1 = (j, w2)" by fastforce
  note ts = clock_advancesD(6) [OF assms t]
  have "clock_at H w1 \<le> clock_at H w2" using clock_advancesD(2) [OF assms, of w1] j by simp
  with Suc.IH [of "h_park H w2"] Suc.prems t j ts clock_advancesD(4) [OF assms, of w2] show ?case
    by (auto simp: Let_def split: if_splits join_poll.splits)
qed simp

lemma record_task_exit_clock:
  assumes "clock_advances H" "record_task_exit H e p w = (f, p', w')"
  shows "clock_at H w \<le> clock_at H w'"
proof -
  have "clock_at H w \<le> clock_at H w''" if "transition_to_error H st w = (b, st', w'')" for st b st' w''
    using that clock_advancesD(1) [OF assms(1), of w]
    by (auto simp: transition_to_error_def elapsed_eq Let_def split: if_splits)
  with assms(2) show ?thesis
    by (auto simp: record_task_exit_def Let_def split: task_exit.splits sum.splits prod.splits option.splits)
qed

text \<open>
  \<open>abort_laws H pend lag m\<close>, what \<open>tokio\<close> documents of aborting: an aborted task ends at its next await.
  \<open>lag w\<close> is \<open>Some i\<close> once all tasks have been aborted and the next one to end does so within \<open>i\<close>
  wake-ups, and no task needs more than \<open>m\<close>; aborting starts no task. Before the abort it says nothing:
  a task may hang for ever.
\<close>

definition abort_laws ::
    "('x, 's, 'h) supervisor_host_scheme \<Rightarrow> (('x, 's) world \<Rightarrow> task_exit list) \<Rightarrow> (('x, 's) world \<Rightarrow> nat option)
       \<Rightarrow> nat \<Rightarrow> bool" where
  "abort_laws H pend lag m \<longleftrightarrow>
     (\<forall>w. length (pend (h_abort_all H w)) \<le> length (pend w) \<and> (\<exists>i \<le> m. lag (h_abort_all H w) = Some i)) \<and>
     (\<forall>w i w'. lag w = Some i \<longrightarrow> h_join_poll H w = (JoinPending, w') \<longrightarrow> (\<exists>j < i. lag (h_park H w') = Some j)) \<and>
     (\<forall>w i e w'. lag w = Some i \<longrightarrow> h_join_poll H w = (JoinDone e, w') \<longrightarrow> (\<exists>j \<le> m. lag w' = Some j))"

lemma join_aborted_returns:
  assumes "join_set_laws H pend" "abort_laws H pend lag m"
  shows "lag w = Some i \<Longrightarrow> length (pend w) * Suc m + i < k \<Longrightarrow> join_aborted H k w \<noteq> None"
proof (induction k arbitrary: w i)
  case (Suc k)
  obtain j w1 where j: "h_join_poll H w = (j, w1)" by fastforce
  note law = join_poll_law [OF assms(1) j]
  show ?case
  proof (cases j)
    case JoinPending
    then obtain i' where "i' < i" "lag (h_park H w1) = Some i'" using assms(2) Suc.prems(1) j unfolding abort_laws_def by blast
    then show ?thesis using Suc.IH [of "h_park H w1" i'] Suc.prems(2) law j JoinPending
      by (simp add: join_set_keeps(3) [OF assms(1)])
  next
    case (JoinDone e)
    then obtain i' where "i' \<le> m" "lag w1 = Some i'" using assms(2) Suc.prems(1) j unfolding abort_laws_def by blast
    then show ?thesis using Suc.IH [of w1 i'] Suc.prems(2) law j JoinDone by simp
  qed (use j in simp)
qed simp

lemma abort_returns:
  assumes "join_set_laws H pend" "abort_laws H pend lag m" "length (pend w) * Suc m + m < k"
  shows "abort_stuck_tasks H k p w \<noteq> None"
proof -
  obtain i where i: "i \<le> m" "lag (h_abort_all H w) = Some i" "length (pend (h_abort_all H w)) \<le> length (pend w)"
    using assms(2) unfolding abort_laws_def by blast
  then have "length (pend (h_abort_all H w)) * Suc m + i < k"
    using assms(3) by (meson add_le_mono le_less_trans mult_le_mono1)
  from join_aborted_returns [OF assms(1,2) i(2) this] show ?thesis by (simp add: abort_stuck_tasks_def Let_def)
qed

lemma drain_tasks_returns:
  assumes "clock_advances H" "join_set_laws H pend" "abort_laws H pend lag m"
  shows "length (pend w) < n \<Longrightarrow> length (pend w) * Suc m + m < k \<Longrightarrow> d - clock_at H w < k \<Longrightarrow>
    drain_tasks H n k d fs p w \<noteq> None"
proof (induction n arbitrary: fs p w)
  case (Suc n)
  from select_draining_returns [OF assms(1) Suc.prems(3)] obtain y w1
    where y: "select_draining H k d w = Some (y, w1)" by auto
  note ys = select_draining_spec [OF assms(2) y]
  show ?case
  proof (cases y)
    case (SupJoined e)
    obtain f p1 w2 where r: "record_task_exit H e p w1 = (f, p1, w2)" by (metis prod_cases3)
    have "pend w = e # pend w2"
      using ys SupJoined record_task_exit_spec(4) [OF assms(2) r] by (simp add: yields_def)
    moreover have "clock_at H w \<le> clock_at H w2"
      using select_draining_clock [OF assms(1) y] record_task_exit_clock [OF assms(1) r] by simp
    ultimately show ?thesis using Suc.IH [of w2] Suc.prems y SupJoined r by simp
  next
    case SupCancelled
    then show ?thesis using ys Suc.prems(2) y abort_returns [OF assms(2,3), of w1 k p] by (simp add: yields_def)
  qed (use y in simp)
qed simp

lemma await_dlq_returns:
  assumes "clock_advances H"
  shows "d - clock_at H w < k \<Longrightarrow> await_dlq H k d w \<noteq> None"
proof (induction k arbitrary: w)
  case (Suc k)
  obtain j w1 where j: "h_dlq_poll H w = (j, w1)" by fastforce
  obtain t w2 where t: "poll_timer H (Some d) w1 = (t, w2)" by fastforce
  note ts = clock_advancesD(6) [OF assms t]
  have "clock_at H w \<le> clock_at H w1" using clock_advancesD(3) [OF assms, of w] j by simp
  with ts clock_advancesD(4) [OF assms, of w2] have lt: "clock_at H w < clock_at H (h_park H w2)" by simp
  show ?case
  proof (cases "d \<le> clock_at H w1")
    case False
    then have "d - clock_at H (h_park H w2) < k" using lt Suc.prems \<open>clock_at H w \<le> clock_at H w1\<close> by simp
    with Suc.IH show ?thesis using t j by (auto simp: Let_def split: option.splits)
  qed (use t ts j in \<open>auto simp: Let_def split: option.splits\<close>)
qed simp

lemma supervise_cancelled_returns:
  assumes "clock_advances H" "join_set_laws H pend" "abort_laws H pend lag m" "fst (h_cancelled H w)"
    "length (pend w) * Suc m + m < k" "SHUTDOWN_TIMEOUT < k"
  shows "supervise H k k fs p w \<noteq> None"
proof -
  obtain k' where k: "k = Suc k'" using assms(6) by (cases k) auto
  obtain w1 where c: "h_cancelled H w = (True, w1)" using assms(4) by (cases "h_cancelled H w") auto
  obtain now w2 where n: "h_now H w1 = (now, w2)" by fastforce
  have "now \<le> clock_at H w2" using clock_advancesD(1) [OF assms(1), of w1] n by (simp add: clock_at_def)
  then have "now + SHUTDOWN_TIMEOUT - clock_at H w2 < k" using assms(6) by simp
  moreover have "pend w2 = pend w"
    using join_set_keeps(1) [OF assms(2), of w] join_set_keeps(2) [OF assms(2), of w1] c n by simp
  moreover from assms(5) have "length (pend w) < k" by simp
  ultimately have "drain_tasks H k k (now + SHUTDOWN_TIMEOUT) fs p w2 \<noteq> None"
    using drain_tasks_returns [OF assms(1-3), of w2] assms(5) by simp
  then show ?thesis using c n by (simp add: k Let_def)
qed

lemma run_cancelled_returns:
  assumes "clock_advances H" "join_set_laws H pend" "abort_laws H pend lag m" "fst (h_cancelled H w)"
    "length (pend w) * Suc m + m < k" "SHUTDOWN_TIMEOUT < k"
  shows "\<exists>r p' w'. run_until_complete H k p w = Some (r, p', w')"
proof -
  obtain fs p1 w1 where s: "supervise H k k [] p w = Some (fs, p1, w1)"
    using supervise_cancelled_returns [OF assms, of "[]" p] by (cases "supervise H k k [] p w") auto
  obtain now w2 where n: "h_now H w1 = (now, w2)" by fastforce
  have "now \<le> clock_at H w2" using clock_advancesD(1) [OF assms(1), of w1] n by (simp add: clock_at_def)
  then have "now + 5000000000 - clock_at H w2 < k" using assms(6) by (simp add: SHUTDOWN_TIMEOUT_def)
  from await_dlq_returns [OF assms(1) this] obtain d w3
    where "await_dlq H k (now + 5000000000) w2 = Some (d, w3)" by auto
  then show ?thesis using s n by (simp add: run_until_complete_def Let_def)
qed

text \<open>A task that is never joined, aborted or not, keeps every run waiting, whatever the fuel.\<close>

lemma never_joined:
  assumes "\<And>w. fst (h_join_poll H w) = JoinPending"
  shows "join_aborted H k w = None" "run_until_complete H k p w = None"
proof -
  have j: "h_join_poll H w = (j, w') \<Longrightarrow> j = JoinPending" for w j w' using assms [of w] by simp
  have joined: "join_aborted H k w = None" for k w
    by (induction k arbitrary: w) (auto simp: Let_def split: prod.split dest: j)
  have draining: "select_draining H k d w = Some (y, w') \<Longrightarrow> y = SupCancelled" for k d w y w'
    by (induction k arbitrary: w) (auto simp: Let_def split: prod.splits if_splits dest: j)
  then have dr: "drain_tasks H n k d fs p w = None" for n k d fs p w
    by (cases n) (auto simp: abort_stuck_tasks_def joined Let_def split: option.split supervised.split dest: draining)
  have sel: "select_supervised H k w = Some (y, w') \<Longrightarrow> y = SupCancelled" for k w y w'
    by (induction k arbitrary: w) (auto simp: Let_def split: prod.splits if_splits dest: j)
  have "supervise H n k fs p w = None" for n k fs p w
    by (cases n) (auto simp: dr Let_def case_prod_beta split: option.split supervised.split dest: sel)
  then show "join_aborted H k w = None" "run_until_complete H k p w = None" by (simp_all add: joined run_until_complete_def)
qed

text \<open>What the wait for the dead-letter writer gives: its end, or that at the deadline it was still running.\<close>

lemma await_dlq_spec:
  "await_dlq H k d w = Some (y, w') \<Longrightarrow>
    (case y of
       Some e \<Rightarrow> \<exists>s. fst (h_dlq_poll H s) = Some e
     | None \<Rightarrow> \<exists>s. fst (h_dlq_poll H s) = None \<and> d \<le> fst (h_now H (snd (h_dlq_poll H s))))"
proof (induction k arbitrary: w)
  case (Suc k)
  obtain j w1 where j: "h_dlq_poll H w = (j, w1)" by fastforce
  obtain t w2 where t: "poll_timer H (Some d) w1 = (t, w2)" by fastforce
  have ts: "t \<longrightarrow> d \<le> fst (h_now H w1)" using t by (auto simp: poll_timer_def case_prod_beta Let_def)
  show ?case
  proof (cases j)
    case None
    show ?thesis
    proof (cases t)
      case True
      then have "fst (h_dlq_poll H w) = None" "d \<le> fst (h_now H (snd (h_dlq_poll H w)))" "y = None"
        using Suc.prems j t ts None by auto
      then show ?thesis by auto
    qed (use Suc.prems Suc.IH j t None in simp)
  next
    case (Some e)
    then have "fst (h_dlq_poll H w) = Some e" "y = Some e" using Suc.prems j by auto
    then show ?thesis by auto
  qed
qed simp

section \<open>Properties\<close>

text \<open>
  C16: a run reports every failure and nothing else. Its failures are those of the node tasks, in the order
  they ended and by the name of their node, or, only once the shutdown timeout has passed since the
  cancellation was seen, those of the tasks that ended before followed by the nodes that were aborted, and
  then that of the dead-letter writer: \<open>fate\<close> is how the writer's task ends when it does, and
  the run reports exactly that, or that the writer did not stop, but only when it was found running five
  seconds after the tasks were settled. The run succeeds exactly when there is no failure, so then every
  task ended well and so did the writer.
\<close>

theorem run_reports_failures:
  assumes "join_set_laws H pend" "distinct (map exit_id (pend w))" "\<forall>s e. fst (h_dlq_poll H s) = Some e \<longrightarrow> e = fate"
    "run_until_complete H k p w = Some (r, p', w')"
  shows "(\<exists>fs ds p1 w1. supervise H k k [] p w = Some (fs, p1, w1) \<and> run_failures (past_shutdown H) (or_task_nodes p) (pend w) fs \<and>
      (if \<not> or_dlq_handle p then ds = []
       else ds = (case fate of
                    DlqDone (Inr _) \<Rightarrow> []
                  | DlqDone (Inl e) \<Rightarrow> [''DLQ sink failed: '' @ wafer_error_display e]
                  | DlqPanicked m \<Rightarrow> [''DLQ task panicked: '' @ m]) \<or>
         ds = [''DLQ task did not stop within 5s''] \<and>
         (\<exists>s. fst (h_dlq_poll H s) = None \<and> fst (h_now H w1) + 5000000000 \<le> fst (h_now H (snd (h_dlq_poll H s))))) \<and>
      r = (if fs @ ds = [] then Inr () else Inl (Runtime (''pipeline run failed: '' @ join ''; '' (fs @ ds))))) \<and>
    (r = Inr () \<longrightarrow> (\<forall>e \<in> set (pend w). exit_ok e) \<and> (or_dlq_handle p \<longrightarrow> fate = DlqDone (Inr ()))) \<and> \<not> or_running p'"
proof -
  from assms(4) obtain fs p1 w1 where s: "supervise H k k [] p w = Some (fs, p1, w1)"
    by (auto simp: run_until_complete_def split: option.splits)
  from supervise_spec [OF assms(1) s assms(2)] have fs: "run_failures (past_shutdown H) (or_task_nodes p) (pend w) fs"
    and dlq: "or_dlq_handle p1 = or_dlq_handle p" by auto
  from assms(4) s obtain ds w2 where waited: "(if or_dlq_handle p1
        then let (now, w) = h_now H w1 in map_option (\<lambda>(d, w). (dlq_failure d, w)) (await_dlq H k (now + 5000000000) w)
        else Some ([], w1)) = Some (ds, w2)"
    and r: "r = (if fs @ ds = [] then Inr () else Inl (Runtime (''pipeline run failed: '' @ join ''; '' (fs @ ds))))"
    and p': "p' = p1\<lparr>or_dlq_handle := False, or_running := False\<rparr>"
    unfolding run_until_complete_def Let_def
    by (simp only: option.case prod.case) (auto simp only: option.case prod.case option.inject prod.inject split: option.splits prod.splits)
  let ?ended = "case fate of
      DlqDone (Inr _) \<Rightarrow> []
    | DlqDone (Inl e) \<Rightarrow> [''DLQ sink failed: '' @ wafer_error_display e]
    | DlqPanicked m \<Rightarrow> [''DLQ task panicked: '' @ m]"
  have ds: "if \<not> or_dlq_handle p then ds = []
     else ds = ?ended \<or> ds = [''DLQ task did not stop within 5s''] \<and>
       (\<exists>s. fst (h_dlq_poll H s) = None \<and> fst (h_now H w1) + 5000000000 \<le> fst (h_now H (snd (h_dlq_poll H s))))"
  proof (cases "or_dlq_handle p")
    case True
    then obtain d where d: "await_dlq H k (fst (h_now H w1) + 5000000000) (snd (h_now H w1)) = Some (d, w2)" "ds = dlq_failure d"
      using waited by (auto simp: dlq Let_def case_prod_beta)
    from await_dlq_spec [OF d(1)] assms(3) d(2) True show ?thesis
      by (cases d) (auto simp: dlq_failure_def split: option.splits)
  qed (use waited dlq in simp)
  have "r = Inr () \<longrightarrow> (\<forall>e \<in> set (pend w). exit_ok e) \<and> (or_dlq_handle p \<longrightarrow> fate = DlqDone (Inr ()))"
    using r fs ds run_failures_Nil [of "past_shutdown H" "or_task_nodes p" "pend w"] by (auto split: if_splits dlq_exit.splits sum.splits)
  moreover have "\<not> or_running p'" by (simp add: p')
  ultimately show ?thesis using s fs ds r by (intro conjI exI [of _ fs] exI [of _ ds] exI [of _ p1] exI [of _ w1])
qed

text \<open>
  The host on which the supervisor is exhibited: a clock that ticks, a token that has fired, and
  \<open>n\<close> tasks of which the one numbered \<open>0\<close> fails. The tasks end one after the other once \<open>ready\<close> says
  so; aborting them puts a message into the queue of the world.
\<close>

definition sup_exit :: "nat \<Rightarrow> task_exit" where
  "sup_exit i = TaskDone i (if i = 0 then Inl (Runtime ''no'') else Inr ())"

definition sup_pending :: "sample_world \<Rightarrow> task_exit list" where
  "sup_pending w = map sup_exit (rev [0..<snd (snd (w_ext w))])"

definition task_host ::
    "(runtime_envelope list \<Rightarrow> bool) \<Rightarrow> (runtime_envelope list \<times> nat \<times> nat, nat list) supervisor_host" where
  "task_host ready = uuid_host.extend
     (runner_host.extend
        (sample_runner\<lparr>h_cancelled := (\<lambda>w. (True, w)), h_park := (\<lambda>w. snd (sample_tick w))\<rparr>)
        \<lparr>h_new_uuid = (\<lambda>w. (''uuid'', w))\<rparr>)
     \<lparr>h_cancel = (\<lambda>w. w),
      h_join_poll = (\<lambda>w. case w_ext w of (q, t, n) \<Rightarrow>
        (case n of
           0 \<Rightarrow> (JoinEmpty, w)
         | Suc i \<Rightarrow> if ready q then (JoinDone (sup_exit i), w\<lparr>w_ext := (q, t, i)\<rparr>) else (JoinPending, w))),
      h_abort_all = (\<lambda>w. case w_ext w of (q, t, n) \<Rightarrow> w\<lparr>w_ext := ([sample_envelope], t, n)\<rparr>),
      h_dlq_poll = (\<lambda>w. (Some (DlqDone (Inr ())), w))\<rparr>"

text \<open>On \<open>sup_host\<close> tasks end by themselves; on \<open>stuck_host\<close> every task hangs until it is aborted.\<close>

definition sup_host :: "(runtime_envelope list \<times> nat \<times> nat, nat list) supervisor_host" where
  "sup_host = task_host (\<lambda>_. True)"

definition stuck_host :: "(runtime_envelope list \<times> nat \<times> nat, nat list) supervisor_host" where
  "stuck_host = task_host (\<lambda>q. q \<noteq> [])"

lemmas task_host_defs = task_host_def uuid_host.extend_def runner_host.extend_def sample_runner_def
lemmas sup_host_defs = sup_host_def task_host_defs

lemma task_host_joins: "join_set_laws (task_host ready) sup_pending"
  by (auto simp: join_set_laws_def task_host_defs sup_pending_def sample_tick_def split: prod.splits nat.splits)

lemma task_host_clock: "clock_advances (task_host ready)"
  by (auto simp: clock_advances_def clock_at_def task_host_defs sample_tick_def split: prod.splits nat.splits)

definition stuck_lag :: "sample_world \<Rightarrow> nat option" where
  "stuck_lag w = (if fst (w_ext w) = [] then None else Some 0)"

lemma stuck_host_aborts: "abort_laws stuck_host sup_pending stuck_lag 0"
  by (auto simp: abort_laws_def stuck_host_def task_host_defs sup_pending_def stuck_lag_def
      split: prod.splits nat.splits if_splits)

lemma sup_host_aborts: "abort_laws sup_host sup_pending (\<lambda>_. Some 0) 0"
  by (auto simp: abort_laws_def sup_host_defs sup_pending_def split: prod.splits nat.splits)

lemma sup_pending_start: "sup_pending (sample_start q n) = map sup_exit (rev [0..<n])"
  by (simp add: sup_pending_def sample_start_def)

definition sup_orchestrator :: orchestrator where
  "sup_orchestrator =
     \<lparr>or_task_nodes = [(0, ''a''), (1, ''b'')], or_state_trackers = Map.empty, or_dlq_handle = True, or_running = True\<rparr>"

theorem run_reports_failures_witness:
  "\<exists>r p' w'. run_until_complete sup_host (SHUTDOWN_TIMEOUT + 3) sup_orchestrator (sample_start [] 2) = Some (r, p', w') \<and>
     r \<noteq> Inr () \<and> \<not> or_running p'"
proof -
  have c: "fst (h_cancelled sup_host (sample_start [] 2))" by (simp add: sup_host_defs)
  note joins = task_host_joins [of "\<lambda>_. True", folded sup_host_def]
  obtain r p' w' where r: "run_until_complete sup_host (SHUTDOWN_TIMEOUT + 3) sup_orchestrator (sample_start [] 2) = Some (r, p', w')"
    using run_cancelled_returns [OF task_host_clock [of "\<lambda>_. True", folded sup_host_def] joins sup_host_aborts c,
        of "SHUTDOWN_TIMEOUT + 3" sup_orchestrator]
    by (auto simp: sup_pending_start)
  have d: "distinct (map exit_id (sup_pending (sample_start [] 2)))"
    by (simp add: sup_pending_start sup_exit_def exit_id_def numeral_2_eq_2)
  have f: "\<forall>s e. fst (h_dlq_poll sup_host s) = Some e \<longrightarrow> e = DlqDone (Inr ())" by (simp add: sup_host_defs)
  have "sup_exit 0 \<in> set (sup_pending (sample_start [] 2))" "\<not> exit_ok (sup_exit 0)"
    by (simp_all add: sup_pending_start sup_exit_def exit_ok_def)
  with run_reports_failures [OF joins d f r] r show ?thesis by blast
qed

text \<open>
  C17: shutting down returns, however long the tasks hang, as long as they end once they are aborted.
  With fuel for the node tasks, for the wake-ups within the two five-second deadlines and for those the
  aborted tasks need to reach an await, the shutdown ends with a result. The last hypothesis is needed:
  the wait for the aborted tasks has no deadline of its own, so a task that never yields keeps the
  shutdown waiting for ever, whatever the fuel.
\<close>

theorem shutdown_returns:
  assumes "clock_advances H" "join_set_laws H pend" "abort_laws H pend lag m"
    "length (pend w) * Suc m + m < k" "SHUTDOWN_TIMEOUT < k"
  shows "(\<exists>r p' w'. pipeline_shutdown H k p w = Some (r, p', w')) \<and>
    (\<forall>G n q v. (\<forall>s. fst (h_join_poll G s) = JoinPending) \<longrightarrow> pipeline_shutdown G n q (v :: ('x, 's) world) = None)"
proof
  show "\<exists>r p' w'. pipeline_shutdown H k p w = Some (r, p', w')"
    unfolding pipeline_shutdown_def
    using clock_advancesD(5) [OF assms(1)] assms(4,5) join_set_keeps(4) [OF assms(2)]
    by (intro run_cancelled_returns [OF assms(1-3)]) simp_all
  show "\<forall>G n q v. (\<forall>s. fst (h_join_poll G s) = JoinPending) \<longrightarrow> pipeline_shutdown G n q (v :: ('x, 's) world) = None"
    by (auto simp: pipeline_shutdown_def intro: never_joined(2))
qed

theorem shutdown_returns_witness:
  "(\<exists>r p' w'. pipeline_shutdown stuck_host (SHUTDOWN_TIMEOUT + 3) sup_orchestrator (sample_start [] 2) = Some (r, p', w')) \<and>
   pipeline_shutdown (stuck_host\<lparr>h_join_poll := (\<lambda>w. (JoinPending, w))\<rparr>) 9 sup_orchestrator (sample_start [] 2) = None"
proof -
  let ?never = "stuck_host\<lparr>h_join_poll := (\<lambda>w. (JoinPending, w))\<rparr>"
  note ret = shutdown_returns [OF task_host_clock [of "\<lambda>q. q \<noteq> []", folded stuck_host_def]
      task_host_joins [of "\<lambda>q. q \<noteq> []", folded stuck_host_def] stuck_host_aborts,
      of "sample_start [] 2" "SHUTDOWN_TIMEOUT + 3" sup_orchestrator]
  have "length (sup_pending (sample_start [] 2)) * Suc 0 + 0 < SHUTDOWN_TIMEOUT + 3" "SHUTDOWN_TIMEOUT < SHUTDOWN_TIMEOUT + 3"
    by (simp_all add: sup_pending_start)
  note both = ret [OF this]
  have "\<forall>s. fst (h_join_poll ?never s) = JoinPending" by simp
  with both show ?thesis by blast
qed

text \<open>
  C22: a node that fails stops the pipeline. When the task of any bundle returns an error, the
  cancellation token has fired; an I/O node whose \<open>init\<close> fails is marked as failed and never
  enters its loop.
\<close>

theorem failed_node_cancels:
  assumes "\<And>w. fst (h_cancelled H (h_cancel H w))"
    "run_bundle H S K cfg k b w = Some (Inl e, st, m, w')"
  shows "fst (h_cancelled H w') \<and>
    (\<forall>s senders s' w1 err. nb_kind b = BundleSource (Some s) senders \<longrightarrow> src_init S s w = (Inl err, s', w1) \<longrightarrow>
       node_state_of st = Error \<and> m = nb_metrics b) \<and>
    (\<forall>s rx s' w1 err. nb_kind b = BundleSink (Some s) rx \<longrightarrow> snk_init K s w = (Inl err, s', w1) \<longrightarrow>
       node_state_of st = Error \<and> m = nb_metrics b)"
proof -
  have spawned: "\<exists>w1. w' = h_cancel H w1" if "spawn_node_task H t = Some (Inl e, st, m, w')" for t
    using that by (auto simp: spawn_node_task_def)
  have "\<exists>w1. w' = h_cancel H w1"
    using assms(2)
    by (auto simp: run_bundle_def Let_def split: node_bundle_kind.splits option.splits dest: spawned)
  moreover have "node_state_of st' = Error" if "fail_io_init H role v err st0 w0 = (e', st', w1)" for role v err st0 w0 e' st' w1
    using that by (auto simp: fail_io_init_def transition_to_error_def Let_def node_state_of_def
        u8_to_state_def state_to_u8_def split: if_splits prod.splits)
  ultimately show ?thesis
    using assms
    by (auto simp: run_bundle_def Let_def spawn_node_task_def source_task_def sink_task_def
        split: prod.splits)
qed

definition unreachable_source :: "(nat, sample_world) source_io" where
  "unreachable_source = source_ops.extend broken_source \<lparr>src_init = (\<lambda>s w. (Inl (Runtime ''refused''), s, w))\<rparr>"

definition null_sink :: "(unit, sample_world) sink_io" where
  "null_sink =
     \<lparr>snk_id = (\<lambda>_. ''k''), snk_collect = (\<lambda>_ s w. (Inr (), s, w)), snk_flush = (\<lambda>s w. (Inr (), s, w)),
      snk_close = (\<lambda>s w. (Inr (), s, w)), snk_batch_timeout = (\<lambda>_. None), snk_init = (\<lambda>s w. (Inr (), s, w))\<rparr>"

definition source_bundle :: "(nat, unit, nat list) node_bundle" where
  "source_bundle =
     \<lparr>nb_node_id = ''in'', nb_kind = BundleSource (Some 0) [], nb_state = state_new 0, nb_metrics = node_metrics_new\<rparr>"

theorem failed_node_cancels_witness:
  "\<exists>e st m w'. run_bundle sup_host unreachable_source null_sink hot_swap_config_default 1 source_bundle (sample_start [] 0) =
     Some (Inl e, st, m, w') \<and> fst (h_cancelled sup_host w') \<and> node_state_of st = Error"
proof -
  let ?run = "run_bundle sup_host unreachable_source null_sink hot_swap_config_default 1 source_bundle (sample_start [] 0)"
  have init: "src_init unreachable_source 0 (sample_start [] 0) = (Inl (Runtime ''refused''), 0, sample_start [] 0)"
    by (simp add: unreachable_source_def source_ops.extend_def)
  have "\<exists>e st m w'. ?run = Some (Inl e, st, m, w')"
    by (simp add: run_bundle_def source_bundle_def source_task_def init spawn_node_task_def fail_io_init_def
        Let_def split: prod.splits)
  then obtain e st m w' where r: "?run = Some (Inl e, st, m, w')" by blast
  have "fst (h_cancelled sup_host (h_cancel sup_host w))" for w by (simp add: sup_host_defs)
  from failed_node_cancels [OF this r] init r show ?thesis by (auto simp: source_bundle_def)
qed

end
