(* ===== verification/EngineLoad.thy ===== *)
theory EngineLoad
  imports WasmNode
begin

text \<open>
  Compiling and linking guests: the component cache of \<open>wafer-core/src/engine/cache.rs\<close>, and from
  \<open>engine/loader.rs\<close> the engine's settings, its fuel budgets and the linking of a component for each
  world. The Wasm engine itself, the hash function and the file system are parameters: the fields of
  \<open>cache_host\<close> and \<open>linker_host\<close>. The cache is used from one call at a time; its lock is not held
  while compiling, and two callers that compile the same bytes at once both insert through
  \<open>entry().or_insert_with\<close>, which is the insertion written out here.
\<close>

section \<open>The component cache\<close>

datatype cache_outcome = MemoryHit | DiskHit | Compiled

definition cache_outcome_as_str :: "cache_outcome \<Rightarrow> string" where
  "cache_outcome_as_str oc =
     (case oc of MemoryHit \<Rightarrow> ''memory_hit'' | DiskHit \<Rightarrow> ''disk_hit'' | Compiled \<Rightarrow> ''compiled'')"

text \<open>The key of a component, \<open>[u8; 32]\<close>: the blake3 hash of its bytes.\<close>

type_synonym digest = "256 word"

record 'c component_cache =
  ch_memory :: "digest \<rightharpoonup> 'c"
  ch_disk_dir :: "string option"

record ('c, 'w) cache_host =
  ch_hash :: "bytes \<Rightarrow> digest"
  ch_hex :: "digest \<Rightarrow> string"
  ch_os :: string
  ch_arch :: string
  ch_compile :: "bytes \<Rightarrow> (string, 'c) result"
  ch_serialize :: "'c \<Rightarrow> bytes option"
  ch_deserialize :: "bytes \<Rightarrow> 'c option"
  ch_read :: "string \<Rightarrow> 'w \<Rightarrow> bytes option \<times> 'w"
  ch_remove :: "string \<Rightarrow> 'w \<Rightarrow> 'w"
  ch_create_dir :: "string \<Rightarrow> 'w \<Rightarrow> 'w"
  ch_write :: "string \<Rightarrow> bytes \<Rightarrow> 'w \<Rightarrow> 'w"

definition cache_new :: "string option \<Rightarrow> 'c component_cache" where
  "cache_new dir = \<lparr>ch_memory = Map.empty, ch_disk_dir = dir\<rparr>"

definition memory_only :: "'c component_cache" where
  "memory_only = cache_new None"

definition artifact_path :: "('c, 'w) cache_host \<Rightarrow> string \<Rightarrow> digest \<Rightarrow> string" where
  "artifact_path G dir hash = dir @ ''/'' @ ch_hex G hash @ ''-'' @ ch_os G @ ''-'' @ ch_arch G @ ''.cwasm''"

definition try_load_from_disk ::
    "('c, 'w) cache_host \<Rightarrow> digest \<Rightarrow> 'c component_cache \<Rightarrow> 'w \<Rightarrow> 'c option \<times> 'w" where
  "try_load_from_disk G hash k w =
     (case ch_disk_dir k of
        None \<Rightarrow> (None, w)
      | Some dir \<Rightarrow>
          let path = artifact_path G dir hash; (read, w) = ch_read G path w in
          case read of
            None \<Rightarrow> (None, w)
          | Some data \<Rightarrow>
              (case ch_deserialize G data of
                 None \<Rightarrow> (None, ch_remove G path w)
               | Some c \<Rightarrow> (Some c, w)))"

definition try_save_to_disk ::
    "('c, 'w) cache_host \<Rightarrow> digest \<Rightarrow> 'c \<Rightarrow> 'c component_cache \<Rightarrow> 'w \<Rightarrow> 'w" where
  "try_save_to_disk G hash c k w =
     (case ch_disk_dir k of
        None \<Rightarrow> w
      | Some dir \<Rightarrow>
          (case ch_serialize G c of
             None \<Rightarrow> w
           | Some data \<Rightarrow> ch_write G (artifact_path G dir hash) data (ch_create_dir G dir w)))"

definition insert_component ::
    "digest \<Rightarrow> 'c \<Rightarrow> cache_outcome \<Rightarrow> 'c component_cache \<Rightarrow> ('c \<times> cache_outcome) \<times> 'c component_cache" where
  "insert_component hash c oc k =
     (case ch_memory k hash of
        Some c' \<Rightarrow> ((c', oc), k)
      | None \<Rightarrow> ((c, oc), k\<lparr>ch_memory := (ch_memory k)(hash \<mapsto> c)\<rparr>))"

definition get_or_compile ::
    "('c, 'w) cache_host \<Rightarrow> bytes \<Rightarrow> string \<Rightarrow> 'c component_cache \<Rightarrow> 'w
       \<Rightarrow> (wafer_error, 'c \<times> cache_outcome) result \<times> 'c component_cache \<times> 'w" where
  "get_or_compile G wasm_bytes name k w =
     (let hash = ch_hash G wasm_bytes in
      case ch_memory k hash of
        Some c \<Rightarrow> (Inr (c, MemoryHit), k, w)
      | None \<Rightarrow>
          let (loaded, w) = try_load_from_disk G hash k w in
          (case loaded of
             Some c \<Rightarrow> (let (r, k) = insert_component hash c DiskHit k in (Inr r, k, w))
           | None \<Rightarrow>
               (case ch_compile G wasm_bytes of
                  Inl e \<Rightarrow> (Inl (ComponentLoad (''<bytes:'' @ name @ ''>'') e), k, w)
                | Inr c \<Rightarrow>
                    let w = try_save_to_disk G hash c k w; (r, k) = insert_component hash c Compiled k
                    in (Inr r, k, w))))"

definition cache_len :: "'c component_cache \<Rightarrow> nat" where
  "cache_len k = card (dom (ch_memory k))"

section \<open>The engine\<close>

record wafer_engine =
  we_fuel :: fuel_budgets
  we_meters_fuel :: bool
  we_epoch_deadline :: "u64 option"
  we_epoch_tick_ms :: u64
  we_cache :: "nat component_cache"

text \<open>\<open>created\<close> is the error of \<open>Engine::new\<close>, when it fails.\<close>

definition engine_build :: "string option \<Rightarrow> engine_config \<Rightarrow> bool \<Rightarrow> (wafer_error, wafer_engine) result" where
  "engine_build created c meters_fuel =
     (case created of
        Some e \<Rightarrow> Inl (PluginInit e)
      | None \<Rightarrow>
          Inr \<lparr>we_fuel = ec_fuel c, we_meters_fuel = meters_fuel, we_epoch_deadline = ec_epoch_deadline c,
               we_epoch_tick_ms = ec_epoch_tick_ms c, we_cache = memory_only\<rparr>)"

definition role_fuel_set :: "fuel_budgets \<Rightarrow> bool" where
  "role_fuel_set f \<longleftrightarrow> fb_transform f \<noteq> None \<or> fb_filter f \<noteq> None \<or> fb_router f \<noteq> None"

definition from_engine_config :: "string option \<Rightarrow> engine_config \<Rightarrow> (wafer_error, wafer_engine) result" where
  "from_engine_config created c = engine_build created c (role_fuel_set (ec_fuel c))"

definition node_fuel_set :: "node_def \<Rightarrow> bool" where
  "node_fuel_set d =
     (case d of
        NTransform wd \<Rightarrow> wd_fuel wd \<noteq> None
      | NFilter wd \<Rightarrow> wd_fuel wd \<noteq> None
      | NRouter wd \<Rightarrow> wd_fuel wd \<noteq> None
      | NSource _ \<Rightarrow> False
      | NSink _ \<Rightarrow> False)"

definition for_pipeline :: "string option \<Rightarrow> config \<Rightarrow> (wafer_error, wafer_engine) result" where
  "for_pipeline created c =
     engine_build created (cf_engine c)
       (list_ex (\<lambda>(_, d). node_fuel_set d) (cf_nodes c) \<or> role_fuel_set (ec_fuel (cf_engine c)))"

definition with_cache_dir :: "string option \<Rightarrow> engine_config \<Rightarrow> string \<Rightarrow> (wafer_error, wafer_engine) result" where
  "with_cache_dir created c dir =
     (case from_engine_config created c of
        Inl e \<Rightarrow> Inl e
      | Inr g \<Rightarrow> Inr (g\<lparr>we_cache := cache_new (Some dir)\<rparr>))"

text \<open>Budgets are \<open>NonZeroU64\<close>; its \<open>MAX\<close> is the largest word.\<close>

definition fuel_budget :: "wafer_engine \<Rightarrow> node_category \<Rightarrow> u64 option \<Rightarrow> u64 option" where
  "fuel_budget g kind node_fuel =
     (case (case kind of
              CTransform \<Rightarrow> Some (fb_transform (we_fuel g))
            | CFilter \<Rightarrow> Some (fb_filter (we_fuel g))
            | CRouter \<Rightarrow> Some (fb_router (we_fuel g))
            | CSource \<Rightarrow> None
            | CSink \<Rightarrow> None) of
        None \<Rightarrow> None
      | Some role_fuel \<Rightarrow>
          if we_meters_fuel g
          then Some (case node_fuel of
                       Some f \<Rightarrow> f
                     | None \<Rightarrow> (case role_fuel of Some f \<Rightarrow> f | None \<Rightarrow> - 1))
          else None)"

section \<open>Linking\<close>

datatype link_role = LinkTransform | LinkInference | LinkFilter | LinkRouter

text \<open>The engine's steps: what is added to the linker, the type check of the imports, the typed wrapper.\<close>

datatype link_step = AddWasi | AddHttp | AddNn | AddHostTraits link_role | InstantiatePre nat | TypedPre link_role nat

record linker_host =
  lk_step :: "link_step \<Rightarrow> (string, nat) result"

definition build_linker :: "linker_host \<Rightarrow> (wafer_error, unit) result" where
  "build_linker L =
     (case lk_step L AddWasi of
        Inl e \<Rightarrow> Inl (PluginInit e)
      | Inr _ \<Rightarrow> (case lk_step L AddHttp of Inl e \<Rightarrow> Inl (PluginInit e) | Inr _ \<Rightarrow> Inr ()))"

definition instance_pre_of :: "link_role \<Rightarrow> nat \<Rightarrow> instance_pre" where
  "instance_pre_of role n =
     (case role of
        LinkTransform \<Rightarrow> PreTransform n
      | LinkInference \<Rightarrow> PreInference n
      | LinkFilter \<Rightarrow> PreFilter n
      | LinkRouter \<Rightarrow> PreRouter n)"

text \<open>The words the filter and router worlds put before an engine error.\<close>

definition pre_error :: "link_role \<Rightarrow> string \<Rightarrow> wafer_error" where
  "pre_error role e =
     PluginInit (case role of
        LinkFilter \<Rightarrow> ''Component does not implement the filter-node world: '' @ e
      | LinkRouter \<Rightarrow> ''Component does not implement the router-node world: '' @ e
      | _ \<Rightarrow> e)"

definition typed_error :: "link_role \<Rightarrow> string \<Rightarrow> wafer_error" where
  "typed_error role e =
     PluginInit (case role of
        LinkFilter \<Rightarrow> ''Failed to create FilterNodePre: '' @ e
      | LinkRouter \<Rightarrow> ''Failed to create RouterNodePre: '' @ e
      | _ \<Rightarrow> e)"

definition pre_instantiate :: "linker_host \<Rightarrow> link_role \<Rightarrow> nat \<Rightarrow> (wafer_error, instance_pre) result" where
  "pre_instantiate L role component =
     (case build_linker L of
        Inl e \<Rightarrow> Inl e
      | Inr _ \<Rightarrow>
          (case (if role = LinkInference then lk_step L AddNn else Inr 0) of
             Inl e \<Rightarrow> Inl (PluginInit e)
           | Inr _ \<Rightarrow>
               (case lk_step L (AddHostTraits (if role = LinkInference then LinkTransform else role)) of
                  Inl e \<Rightarrow> Inl (PluginInit e)
                | Inr _ \<Rightarrow>
                    (case lk_step L (InstantiatePre component) of
                       Inl e \<Rightarrow> Inl (pre_error role e)
                     | Inr pre \<Rightarrow>
                         (case lk_step L (TypedPre role pre) of
                            Inl e \<Rightarrow> Inl (typed_error role e)
                          | Inr n \<Rightarrow> Inr (instance_pre_of role n))))))"

section \<open>Lemmas\<close>

text \<open>The component and the tier of an answer, and what compiling without a cache answers.\<close>

definition component_of :: "(wafer_error, 'c \<times> cache_outcome) result \<Rightarrow> (wafer_error, 'c) result" where
  "component_of r = (case r of Inl e \<Rightarrow> Inl e | Inr (c, _) \<Rightarrow> Inr c)"

definition outcome_of :: "(wafer_error, 'c \<times> cache_outcome) result \<Rightarrow> cache_outcome option" where
  "outcome_of r = (case r of Inl _ \<Rightarrow> None | Inr (_, oc) \<Rightarrow> Some oc)"

lemma component_outcome [simp]:
  "component_of (Inl e) = Inl e" "component_of (Inr (c, oc)) = Inr c" "outcome_of (Inl e) = None"
  "outcome_of (Inr (c, oc)) = Some oc"
  by (simp_all add: component_of_def outcome_of_def)








text \<open>A sequence of requests on one cache.\<close>

fun cache_run ::
    "('c, 'w) cache_host \<Rightarrow> (bytes \<times> string) list \<Rightarrow> 'c component_cache \<Rightarrow> 'w
       \<Rightarrow> (wafer_error, 'c \<times> cache_outcome) result list" where
  "cache_run G [] k w = []"
| "cache_run G ((bs, name) # qs) k w =
     (let (r, k, w) = get_or_compile G bs name k w in r # cache_run G qs k w)"


lemma cache_run_length: "length (cache_run G qs k w) = length qs"
  by (induction qs arbitrary: k w) (auto simp: case_prod_beta Let_def)





section \<open>Properties\<close>









text \<open>
  The engine of a pipeline meters fuel as soon as any role or node has a budget, and then every Wasm
  node runs with a budget: its own, else its role's, else the largest; without any budget none is set.
\<close>

theorem pipeline_fuel:
  assumes "for_pipeline None c = Inr g" "kind \<in> {CTransform, CFilter, CRouter}"
  shows "fuel_budget g kind node_fuel \<noteq> None \<longleftrightarrow>
      (\<exists>(v, d) \<in> set (cf_nodes c). node_fuel_set d) \<or> role_fuel_set (ec_fuel (cf_engine c))"
    "fuel_budget g kind (Some f) \<noteq> None \<Longrightarrow> fuel_budget g kind (Some f) = Some f"
    "fuel_budget g CSource node_fuel = None" "fuel_budget g CSink node_fuel = None"
proof -
  have "we_meters_fuel g \<longleftrightarrow> list_ex (\<lambda>(_, d). node_fuel_set d) (cf_nodes c) \<or> role_fuel_set (ec_fuel (cf_engine c))"
    using assms(1) unfolding for_pipeline_def engine_build_def by auto
  then have "we_meters_fuel g \<longleftrightarrow> (\<exists>(v, d) \<in> set (cf_nodes c). node_fuel_set d) \<or> role_fuel_set (ec_fuel (cf_engine c))"
    by (simp add: list_ex_iff)
  then show "fuel_budget g kind node_fuel \<noteq> None \<longleftrightarrow>
      (\<exists>(v, d) \<in> set (cf_nodes c). node_fuel_set d) \<or> role_fuel_set (ec_fuel (cf_engine c))"
    "fuel_budget g kind (Some f) \<noteq> None \<Longrightarrow> fuel_budget g kind (Some f) = Some f"
    using assms(2) by (auto simp: fuel_budget_def)
qed (simp_all add: fuel_budget_def)

end
