(* ===== verification/SwapPrepare.thy ===== *)
theory SwapPrepare
  imports PipelineHandle EngineLoad
begin

text \<open>
  Preparing a replacement, \<open>wafer-core/src/orchestrator/hotswap.rs\<close>: the timeline of a swap and the
  compile, link and instantiate steps that end in a payload ready for the node's watch channel. A
  payload shares its store and bindings with the runner through slots of the world, so \<open>h_alloc\<close> gives
  the identity of a new \<open>Arc\<close>. The blocking pool may lose a task: \<open>h_blocking_exit\<close> is the error of
  joining it, if any.
\<close>

section \<open>The timeline\<close>

record swap_timeline =
  sm_request_time :: instant
  sm_compile_done :: "instant option"
  sm_instantiate_done :: "instant option"
  sm_signal_sent :: "instant option"
  sm_swap_acked :: "instant option"
  sm_first_local_outcome :: "instant option"
  sm_rollback_time_ns :: "u64 option"
  sm_compile_cache :: "cache_outcome option"

definition timeline_start :: "('w, 'h) host_scheme \<Rightarrow> 'w \<Rightarrow> swap_timeline \<times> 'w" where
  "timeline_start H w =
     (let (now, w) = h_now H w in
      (\<lparr>sm_request_time = now, sm_compile_done = None, sm_instantiate_done = None, sm_signal_sent = None,
        sm_swap_acked = None, sm_first_local_outcome = None, sm_rollback_time_ns = None, sm_compile_cache = None\<rparr>, w))"

definition mark_compile_done :: "('w, 'h) host_scheme \<Rightarrow> swap_timeline \<Rightarrow> 'w \<Rightarrow> swap_timeline \<times> 'w" where
  "mark_compile_done H t w = (let (now, w) = h_now H w in (t\<lparr>sm_compile_done := Some now\<rparr>, w))"

definition mark_instantiate_done :: "('w, 'h) host_scheme \<Rightarrow> swap_timeline \<Rightarrow> 'w \<Rightarrow> swap_timeline \<times> 'w" where
  "mark_instantiate_done H t w = (let (now, w) = h_now H w in (t\<lparr>sm_instantiate_done := Some now\<rparr>, w))"

definition mark_signal_sent :: "('w, 'h) host_scheme \<Rightarrow> swap_timeline \<Rightarrow> 'w \<Rightarrow> swap_timeline \<times> 'w" where
  "mark_signal_sent H t w = (let (now, w) = h_now H w in (t\<lparr>sm_signal_sent := Some now\<rparr>, w))"

definition mark_swap_acked :: "('w, 'h) host_scheme \<Rightarrow> swap_timeline \<Rightarrow> 'w \<Rightarrow> swap_timeline \<times> 'w" where
  "mark_swap_acked H t w = (let (now, w) = h_now H w in (t\<lparr>sm_swap_acked := Some now\<rparr>, w))"

definition mark_timeline_outcome :: "('w, 'h) host_scheme \<Rightarrow> swap_timeline \<Rightarrow> 'w \<Rightarrow> swap_timeline \<times> 'w" where
  "mark_timeline_outcome H t w = (let (now, w) = h_now H w in (t\<lparr>sm_first_local_outcome := Some now\<rparr>, w))"

text \<open>\<open>duration_since\<close> is zero when the clock stepped back.\<close>

definition between :: "instant option \<Rightarrow> instant option \<Rightarrow> u64 option" where
  "between start finish =
     (case (start, finish) of
        (Some s, Some f) \<Rightarrow> Some (duration_ns_saturating (f - s))
      | _ \<Rightarrow> None)"

definition compile_duration_ns :: "swap_timeline \<Rightarrow> u64 option" where
  "compile_duration_ns t = between (Some (sm_request_time t)) (sm_compile_done t)"

definition instantiate_duration_ns :: "swap_timeline \<Rightarrow> u64 option" where
  "instantiate_duration_ns t = between (sm_compile_done t) (sm_instantiate_done t)"

definition signal_duration_ns :: "swap_timeline \<Rightarrow> u64 option" where
  "signal_duration_ns t = between (sm_instantiate_done t) (sm_signal_sent t)"

definition ack_duration_ns :: "swap_timeline \<Rightarrow> u64 option" where
  "ack_duration_ns t = between (sm_signal_sent t) (sm_swap_acked t)"

definition outcome_duration_ns :: "swap_timeline \<Rightarrow> u64 option" where
  "outcome_duration_ns t = between (sm_swap_acked t) (sm_first_local_outcome t)"

definition total_duration_ns :: "swap_timeline \<Rightarrow> u64 option" where
  "total_duration_ns t = between (Some (sm_request_time t)) (sm_first_local_outcome t)"

definition fmt_opt :: "u64 option \<Rightarrow> string" where
  "fmt_opt v = (case v of None \<Rightarrow> ''null'' | Some n \<Rightarrow> show_nat (unat n))"

definition json_field :: "string \<Rightarrow> string \<Rightarrow> string" where
  "json_field key value = ''  '' @ [CHR 0x22] @ key @ [CHR 0x22] @ '': '' @ value"

definition timeline_to_json :: "swap_timeline \<Rightarrow> string" where
  "timeline_to_json t =
     ''{'' @ [CHR 0x0A] @
     join ('','' @ [CHR 0x0A])
       [json_field ''compile_ns'' (fmt_opt (compile_duration_ns t)),
        json_field ''instantiate_ns'' (fmt_opt (instantiate_duration_ns t)),
        json_field ''signal_ns'' (fmt_opt (signal_duration_ns t)),
        json_field ''ack_ns'' (fmt_opt (ack_duration_ns t)),
        json_field ''first_post_replacement_local_outcome_ns'' (fmt_opt (outcome_duration_ns t)),
        json_field ''total_ns'' (fmt_opt (total_duration_ns t)),
        json_field ''rollback_time_ns'' (fmt_opt (sm_rollback_time_ns t)),
        json_field ''compile_cache''
          (case sm_compile_cache t of None \<Rightarrow> ''null'' | Some c \<Rightarrow> [CHR 0x22] @ cache_outcome_as_str c @ [CHR 0x22])] @
     [CHR 0x0A] @ ''}''"

section \<open>Preparation\<close>

record ('x, 's) replace_host = "('x, 's) watch_host" +
  h_alloc :: "('x, 's) world \<Rightarrow> nat \<times> ('x, 's) world"
  h_cache :: "(nat, ('x, 's) world) cache_host"
  h_engine_cache :: "('x, 's) world \<Rightarrow> nat component_cache"
  h_set_engine_cache :: "nat component_cache \<Rightarrow> ('x, 's) world \<Rightarrow> ('x, 's) world"
  h_linker :: linker_host
  h_blocking_exit :: "('x, 's) world \<Rightarrow> string option \<times> ('x, 's) world"
  h_create_store :: "wafer_state \<Rightarrow> 's store"
  h_read_file :: "string \<Rightarrow> ('x, 's) world \<Rightarrow> (string, bytes) result \<times> ('x, 's) world"
  h_compute_hash :: "bytes \<Rightarrow> string"

definition compile_cached ::
    "('x, 's, 'h) replace_host_scheme \<Rightarrow> bytes \<Rightarrow> string \<Rightarrow> ('x, 's) world
       \<Rightarrow> (wafer_error, nat \<times> cache_outcome) result \<times> ('x, 's) world" where
  "compile_cached H wasm_bytes name w =
     (let (r, k, w) = get_or_compile (h_cache H) wasm_bytes name (h_engine_cache H w) w
      in (r, h_set_engine_cache H k w))"

definition compile_and_link ::
    "('x, 's, 'h) replace_host_scheme \<Rightarrow> bytes \<Rightarrow> string \<Rightarrow> link_role \<Rightarrow> swap_timeline \<Rightarrow> ('x, 's) world
       \<Rightarrow> (wafer_error, instance_pre) result \<times> swap_timeline \<times> ('x, 's) world" where
  "compile_and_link H wasm_bytes v role t w =
     (let (compiled, w) = compile_cached H wasm_bytes v w;
          (task, w) = (case compiled of
              Inl e \<Rightarrow> (Inl e, w)
            | Inr (component, outcome) \<Rightarrow>
                let (compile_done, w) = h_now H w in
                (map_sum id (\<lambda>pre. (pre, compile_done, outcome)) (pre_instantiate (h_linker H) role component), w));
          (lost, w) = h_blocking_exit H w
      in
      case lost of
        Some e \<Rightarrow> (Inl (PluginInit (''compile task failed: '' @ e)), t, w)
      | None \<Rightarrow>
          (case task of
             Inl e \<Rightarrow> (Inl e, t, w)
           | Inr (pre, compile_done, outcome) \<Rightarrow>
               (Inr pre, t\<lparr>sm_compile_done := Some compile_done, sm_compile_cache := Some outcome\<rparr>, w)))"

definition new_swap_store ::
    "('x, 's, 'h) replace_host_scheme \<Rightarrow> wafer_engine \<Rightarrow> string \<Rightarrow> runtime_capabilities \<Rightarrow> usize \<Rightarrow> u64 option
       \<Rightarrow> (wafer_error, 's store) result" where
  "new_swap_store H g v caps memory_limit fuel_limit =
     (let st = h_create_store H (new_with_memory_limit v caps memory_limit) in
      case (case fuel_limit of None \<Rightarrow> Inr st | Some n \<Rightarrow> h_set_fuel H n st) of
        Inl e \<Rightarrow> Inl (PluginInit (''failed to set fuel: '' @ e))
      | Inr st \<Rightarrow>
          Inr (case we_epoch_deadline g of
                 None \<Rightarrow> st
               | Some n \<Rightarrow> h_set_epoch_deadline H (lifecycle_epoch_deadline n) (h_epoch_deadline_trap H st)))"

text \<open>Compile, link, create the store and instantiate: the steps the three roles share.\<close>

definition prepare_instance ::
    "('x, 's, 'h) replace_host_scheme \<Rightarrow> wafer_engine \<Rightarrow> bytes \<Rightarrow> string \<Rightarrow> link_role \<Rightarrow> runtime_capabilities
       \<Rightarrow> usize \<Rightarrow> u64 option \<Rightarrow> ('x, 's) world
       \<Rightarrow> (wafer_error, 's store \<times> bindings \<times> instance_pre \<times> swap_timeline) result \<times> ('x, 's) world" where
  "prepare_instance H g wasm_bytes v role caps memory_limit fuel_limit w =
     (let (t, w) = timeline_start H w;
          (linked, t, w) = compile_and_link H wasm_bytes v role t w
      in
      case linked of
        Inl e \<Rightarrow> (Inl e, w)
      | Inr pre \<Rightarrow>
          (case new_swap_store H g v caps memory_limit fuel_limit of
             Inl e \<Rightarrow> (Inl e, w)
           | Inr st \<Rightarrow>
               let (b, st, w) = h_instantiate H pre st w in
               (case b of
                  Inl e \<Rightarrow> (Inl (PluginInit (''instantiation failed: '' @ ee_display e)), w)
                | Inr b \<Rightarrow> let (t, w) = mark_instantiate_done H t w in (Inr (st, b, pre, t), w))))"

definition prepare_transform_swap ::
    "('x, 's, 'h) replace_host_scheme \<Rightarrow> wafer_engine \<Rightarrow> bytes \<Rightarrow> string \<Rightarrow> runtime_capabilities \<Rightarrow> usize
       \<Rightarrow> u64 option \<Rightarrow> nat \<Rightarrow> ('x, 's) world
       \<Rightarrow> (wafer_error, swap_payload \<times> swap_timeline) result \<times> ('x, 's) world" where
  "prepare_transform_swap H g wasm_bytes v caps memory_limit fuel_limit progress w =
     (let role = (if rcap_allow_inference caps then LinkInference else LinkTransform);
          (r, w) = prepare_instance H g wasm_bytes v role caps memory_limit fuel_limit w
      in
      case r of
        Inl e \<Rightarrow> (Inl e, w)
      | Inr (st, b, pre, t) \<Rightarrow>
          let (slot, w) = h_alloc H w;
              w = w\<lparr>w_transform_slots := (w_transform_slots w)
                     (slot := Some \<lparr>pt_store = st, pt_bindings = b, pt_pre = pre\<rparr>)\<rparr>
          in (Inr (SwapTransform slot progress, t), w))"

text \<open>The shared body of the filter and the router; \<open>payload\<close> is the constructor.\<close>

definition prepare_stored_swap ::
    "('x, 's, 'h) replace_host_scheme \<Rightarrow> wafer_engine \<Rightarrow> link_role \<Rightarrow> (nat \<Rightarrow> nat \<Rightarrow> instance_pre \<Rightarrow> nat \<Rightarrow> swap_payload)
       \<Rightarrow> bytes \<Rightarrow> string \<Rightarrow> runtime_capabilities \<Rightarrow> usize \<Rightarrow> u64 option \<Rightarrow> nat \<Rightarrow> ('x, 's) world
       \<Rightarrow> (wafer_error, swap_payload \<times> swap_timeline) result \<times> ('x, 's) world" where
  "prepare_stored_swap H g role payload wasm_bytes v caps memory_limit fuel_limit progress w =
     (let (r, w) = prepare_instance H g wasm_bytes v role caps memory_limit fuel_limit w in
      case r of
        Inl e \<Rightarrow> (Inl e, w)
      | Inr (st, b, pre, t) \<Rightarrow>
          let (store_slot, w) = h_alloc H w;
              w = w\<lparr>w_store_slots := (w_store_slots w)(store_slot := Some st)\<rparr>;
              (bindings_slot, w) = h_alloc H w;
              w = w\<lparr>w_bindings_slots := (w_bindings_slots w)(bindings_slot := Some b)\<rparr>
          in (Inr (payload store_slot bindings_slot pre progress, t), w))"

definition prepare_filter_swap ::
    "('x, 's, 'h) replace_host_scheme \<Rightarrow> wafer_engine \<Rightarrow> bytes \<Rightarrow> string \<Rightarrow> runtime_capabilities \<Rightarrow> usize
       \<Rightarrow> u64 option \<Rightarrow> nat \<Rightarrow> ('x, 's) world
       \<Rightarrow> (wafer_error, swap_payload \<times> swap_timeline) result \<times> ('x, 's) world" where
  "prepare_filter_swap H g = prepare_stored_swap H g LinkFilter SwapFilter"

definition prepare_router_swap ::
    "('x, 's, 'h) replace_host_scheme \<Rightarrow> wafer_engine \<Rightarrow> bytes \<Rightarrow> string \<Rightarrow> runtime_capabilities \<Rightarrow> usize
       \<Rightarrow> u64 option \<Rightarrow> nat \<Rightarrow> ('x, 's) world
       \<Rightarrow> (wafer_error, swap_payload \<times> swap_timeline) result \<times> ('x, 's) world" where
  "prepare_router_swap H g = prepare_stored_swap H g LinkRouter SwapRouter"

end
