(* ===== verification/SwapApi.thy ===== *)
theory SwapApi
  imports SwapPrepare
begin

text \<open>
  The control API, \<open>wafer-core/src/api/handlers.rs\<close>: replacing a node's plugin (\<open>hot_swap\<close>), restarting
  it with a new configuration (\<open>reconfigure\<close>) and reading the state of nodes. A handler waits for the
  runner of the node, which runs concurrently: \<open>h_park\<close> is the time in which it, and everything else,
  may change the world. The progress of a replacement is shared with the runner; the receiver of its
  one-shot channel is ready when an outcome was sent. Responses are records of the JSON they hold.
  Waits are bounded by fuel; the handlers are shown to return.
\<close>

section \<open>Responses\<close>

datatype status_code =
  StatusOk | StatusAccepted | StatusBadRequest | StatusNotFound | StatusConflict | StatusInternalServerError
| StatusServiceUnavailable | StatusGatewayTimeout

type_synonym api_error = "status_code \<times> string"

record node_info_response =
  ni_id :: string
  ni_state :: node_state
  ni_processed :: u64
  ni_failed :: u64
  ni_replacement_eligible :: bool

record reconfigure_request =
  rq_config :: "(string, string) result"
  rq_expected_plugin_hash :: "string option"

record hot_swap_request =
  hq_wasm_path :: string

definition ready :: "pipeline_handle \<Rightarrow> status_code \<times> bool \<times> string option" where
  "ready h =
     (if pl_running h then (StatusOk, True, None) else (StatusServiceUnavailable, False, Some ''not running''))"

definition node_info :: "pipeline_handle \<Rightarrow> string \<Rightarrow> node_info_response option" where
  "node_info h v =
     (case handle_node_state v h of
        None \<Rightarrow> None
      | Some state \<Rightarrow>
          let (processed, failed) = (case pl_metrics h v of
                None \<Rightarrow> (0, 0)
              | Some m \<Rightarrow> (nm_processed m, nm_attempts_failed m))
          in Some \<lparr>ni_id = v, ni_state = state, ni_processed = processed, ni_failed = failed,
                   ni_replacement_eligible = (v \<in> pl_replacement_eligible h)\<rparr>)"

definition list_nodes :: "pipeline_handle \<Rightarrow> node_info_response list" where
  "list_nodes h = List.map_filter (node_info h) (sort (map fst (cf_nodes (pl_config h))))"

definition get_node :: "pipeline_handle \<Rightarrow> string \<Rightarrow> (status_code, node_info_response) result" where
  "get_node h v = (case node_info h v of None \<Rightarrow> Inl StatusNotFound | Some r \<Rightarrow> Inr r)"

definition replacement_error :: "wafer_error \<Rightarrow> api_error" where
  "replacement_error e =
     (case e of
        NodeNotSwappable _ \<Rightarrow> StatusNotFound
      | SwapInProgress _ \<Rightarrow> StatusConflict
      | PluginHashMismatch _ _ _ \<Rightarrow> StatusConflict
      | _ \<Rightarrow> StatusInternalServerError, wafer_error_display e)"

record swap_timings =
  st_compile_ns :: "u64 option"
  st_instantiate_ns :: "u64 option"
  st_signal_ns :: "u64 option"
  st_replacement_adopted_ns :: "u64 option"
  st_first_outcome_ns :: "u64 option"
  st_rollback_ns :: "u64 option"

datatype swap_answer = AnsRolledBack string | AnsReplaced bool "(string \<times> u64) option"

record swap_response =
  sw_status :: status_code
  sw_node_id :: string
  sw_answer :: swap_answer
  sw_compile_cache :: "string option"
  sw_timings :: swap_timings

section \<open>Waiting for the runner\<close>

definition REPLACEMENT_OUTCOME_WAIT :: duration where
  "REPLACEMENT_OUTCOME_WAIT = 5000000000"

definition CLAIMED_REPLACEMENT_INIT_WAIT :: duration where
  "CLAIMED_REPLACEMENT_INIT_WAIT = 30000000000"

datatype oneshot_poll = OneshotPending | OneshotClosed | OneshotReceived hot_swap_outcome

definition completion_poll :: "nat \<Rightarrow> ('x, 's) world \<Rightarrow> oneshot_poll" where
  "completion_poll g w =
     (let p = w_progress w g in
      case pg_sent p of
        oc # _ \<Rightarrow> OneshotReceived oc
      | [] \<Rightarrow> if pg_tx p then OneshotPending else OneshotClosed)"

text \<open>\<open>timeout(..., completion_rx)\<close>: the channel is polled before the timer; \<open>None\<close> inside is the timeout.\<close>

fun await_completion ::
    "('x, 's, 'h) runner_host_scheme \<Rightarrow> nat \<Rightarrow> instant \<Rightarrow> nat \<Rightarrow> ('x, 's) world
       \<Rightarrow> (oneshot_poll option \<times> ('x, 's) world) option" where
  "await_completion H 0 deadline g w = None"
| "await_completion H (Suc k) deadline g w =
     (case completion_poll g w of
        OneshotPending \<Rightarrow>
          let (t, w) = poll_timer H (Some deadline) w in
          if t then Some (None, w) else await_completion H k deadline g (h_park H w)
      | p \<Rightarrow> Some (Some p, w))"

fun await_adoption ::
    "('x, 's, 'h) runner_host_scheme \<Rightarrow> string \<Rightarrow> nat \<Rightarrow> instant \<Rightarrow> nat \<Rightarrow> ('x, 's) world
       \<Rightarrow> ((api_error, instant) result option \<times> ('x, 's) world) option" where
  "await_adoption H operation 0 deadline g w = None"
| "await_adoption H operation (Suc k) deadline g w =
     (case pg_replacement_adopted (w_progress w g) of
        Some at \<Rightarrow> Some (Some (Inr at), w)
      | None \<Rightarrow>
          (case completion_poll g w of
             OneshotReceived (Inr report) \<Rightarrow> Some (Some (Inr (hr_replacement_adopted_at report)), w)
           | OneshotReceived (Inl e) \<Rightarrow> Some (Some (Inl (StatusConflict, hot_swap_error_display e)), w)
           | OneshotClosed \<Rightarrow>
               Some (Some (Inl (StatusInternalServerError,
                                operation @ '' runner exited before replacement adoption'')), w)
           | OneshotPending \<Rightarrow>
               let (t, w) = poll_timer H (Some deadline) w in
               if t then Some (None, w) else await_adoption H operation k deadline g (h_park H w)))"

definition unfinished_replacement ::
    "('x, 's, 'h) watch_host_scheme \<Rightarrow> nat \<Rightarrow> string \<Rightarrow> nat \<Rightarrow> string \<Rightarrow> pipeline_handle \<Rightarrow> ('x, 's) world
       \<Rightarrow> ((api_error, instant option) result \<times> ('x, 's) world) option" where
  "unfinished_replacement H k v g operation h w =
     (let (withdrawn, pg) = try_withdraw (w_progress w g);
          w = w\<lparr>w_progress := (w_progress w)(g := pg)\<rparr>
      in
      if withdrawn then
        Some (Inl (StatusGatewayTimeout,
                   operation @ '' was not adopted within 5s and was withdrawn; the node keeps its current plugin''),
              retract_swap H v g h w)
      else
        let (now, w) = h_now H w in
        case await_adoption H operation k (now + CLAIMED_REPLACEMENT_INIT_WAIT) g w of
          None \<Rightarrow> None
        | Some (None, w) \<Rightarrow> Some (Inr (pg_replacement_adopted (w_progress w g)), w)
        | Some (Some r, w) \<Rightarrow> Some (map_sum id Some r, w))"

section \<open>Replacing a plugin\<close>

definition capabilities_from_config :: "capabilities \<Rightarrow> (wafer_error, runtime_capabilities) result" where
  "capabilities_from_config c =
     map_sum (\<lambda>e. ConfigErr (CfgMessage (''invalid outbound HTTP capability: '' @ destination_error_display e))) id
       (capabilities_try_from c)"

definition unwrap_or_0 :: "u64 option \<Rightarrow> u64" where
  "unwrap_or_0 x = (case x of None \<Rightarrow> 0 | Some n \<Rightarrow> n)"

definition record_preparation_phases :: "string \<Rightarrow> swap_timeline \<Rightarrow> pipeline_handle \<Rightarrow> pipeline_handle" where
  "record_preparation_phases v t h =
     record_hotswap_phase ''signal'' v (unwrap_or_0 (signal_duration_ns t))
       (record_hotswap_phase ''instantiate'' v (unwrap_or_0 (instantiate_duration_ns t))
         (record_hotswap_phase ''compile'' v (unwrap_or_0 (compile_duration_ns t)) h))"

definition prep_timings :: "swap_timeline \<Rightarrow> swap_timings" where
  "prep_timings t =
     \<lparr>st_compile_ns = compile_duration_ns t, st_instantiate_ns = instantiate_duration_ns t,
      st_signal_ns = signal_duration_ns t, st_replacement_adopted_ns = None, st_first_outcome_ns = None,
      st_rollback_ns = None\<rparr>"

definition progress_new ::
    "('x, 's, 'h) replace_host_scheme \<Rightarrow> ('x, 's) world \<Rightarrow> nat \<times> ('x, 's) world" where
  "progress_new H w =
     (let (g, w) = h_alloc H w in (g, w\<lparr>w_progress := (w_progress w)(g := progress_channel)\<rparr>))"

text \<open>
  The answer for what the wait for the runner gave; \<open>tms\<close> (timings) and \<open>cache\<close> are those of the preparation,
  \<open>phases\<close> records the preparation phases and \<open>phase\<close> one more phase (a reconfiguration records none).
\<close>

definition replaced_response ::
    "string \<Rightarrow> string option \<Rightarrow> swap_timings \<Rightarrow> instant \<Rightarrow> hot_swap_report \<Rightarrow> swap_response" where
  "replaced_response v cache tms signal_at report =
     (let adopted = duration_ns_saturating (hr_replacement_adopted_at report - signal_at);
          first = duration_ns_saturating (hr_first_local_outcome_at report - hr_replacement_adopted_at report)
      in
      \<lparr>sw_status = StatusOk, sw_node_id = v,
       sw_answer = AnsReplaced True (Some (first_local_outcome_as_str (hr_first_local_outcome report), first)),
       sw_compile_cache = cache,
       sw_timings = tms\<lparr>st_replacement_adopted_ns := Some adopted, st_first_outcome_ns := Some first\<rparr>\<rparr>)"

definition unfinished_response ::
    "string \<Rightarrow> string option \<Rightarrow> swap_timings \<Rightarrow> instant \<Rightarrow> instant option \<Rightarrow> swap_response" where
  "unfinished_response v cache tms signal_at adopted_at =
     \<lparr>sw_status = StatusAccepted, sw_node_id = v, sw_answer = AnsReplaced (adopted_at \<noteq> None) None,
      sw_compile_cache = cache,
      sw_timings = tms\<lparr>st_replacement_adopted_ns :=
        map_option (\<lambda>at. duration_ns_saturating (at - signal_at)) adopted_at\<rparr>\<rparr>"

definition rolled_back_response ::
    "string \<Rightarrow> string option \<Rightarrow> swap_timings \<Rightarrow> u64 \<Rightarrow> string \<Rightarrow> swap_response" where
  "rolled_back_response v cache tms ns reason =
     \<lparr>sw_status = StatusOk, sw_node_id = v, sw_answer = AnsRolledBack reason, sw_compile_cache = cache,
      sw_timings = tms\<lparr>st_rollback_ns := Some ns\<rparr>\<rparr>"

definition settle_replacement ::
    "('x, 's, 'h) watch_host_scheme \<Rightarrow> nat \<Rightarrow> string \<Rightarrow> string \<Rightarrow> nat \<Rightarrow> string option \<Rightarrow> swap_timings \<Rightarrow> instant
       \<Rightarrow> (pipeline_handle \<Rightarrow> pipeline_handle) \<Rightarrow> (string \<Rightarrow> u64 \<Rightarrow> pipeline_handle \<Rightarrow> pipeline_handle)
       \<Rightarrow> pipeline_handle \<Rightarrow> ('x, 's) world
       \<Rightarrow> ((api_error, swap_response) result \<times> pipeline_handle \<times> ('x, 's) world) option" where
  "settle_replacement H k operation v g cache tms signal_at phases phase h w =
     (let (now, w) = h_now H w in
      case await_completion H k (now + REPLACEMENT_OUTCOME_WAIT) g w of
        None \<Rightarrow> None
      | Some (Some (OneshotReceived (Inr report)), w) \<Rightarrow>
          let r = replaced_response v cache tms signal_at report;
              h = phases h;
              h = phase ''replacement_adopted'' (unwrap_or_0 (st_replacement_adopted_ns (sw_timings r))) h;
              h = phase ''first_post_replacement_local_outcome'' (unwrap_or_0 (st_first_outcome_ns (sw_timings r))) h
          in Some (Inr r, h, w)
      | Some (Some (OneshotReceived (Inl (RolledBack ns reason))), w) \<Rightarrow>
          Some (Inr (rolled_back_response v cache tms ns reason), phase ''rollback'' ns (phases h), w)
      | Some (Some (OneshotReceived (Inl (InitFailed m))), w) \<Rightarrow>
          Some (Inl (StatusConflict, hot_swap_error_display (InitFailed m)), h, w)
      | Some (Some _, w) \<Rightarrow>
          Some (Inl (StatusInternalServerError, operation @ '' runner exited before replacement adoption''), h, w)
      | Some (None, w) \<Rightarrow>
          (case unfinished_replacement H k v g operation h w of
             None \<Rightarrow> None
           | Some (Inl e, w) \<Rightarrow> Some (Inl e, h, w)
           | Some (Inr adopted_at, w) \<Rightarrow>
               let r = unfinished_response v cache tms signal_at adopted_at;
                   h = phases h;
                   h = (case adopted_at of
                          None \<Rightarrow> h
                        | Some _ \<Rightarrow> phase ''replacement_adopted'' (unwrap_or_0 (st_replacement_adopted_ns (sw_timings r))) h)
               in Some (Inr r, h, w)))"

datatype swap_kind = KindTransform | KindFilter | KindRouter

definition swap_target ::
    "config \<Rightarrow> string \<Rightarrow> string \<Rightarrow> (api_error, swap_kind \<times> node_category \<times> wasm_node_def \<times> usize) result" where
  "swap_target c v operation =
     (case lookup_node c v of
        Some (NTransform wd) \<Rightarrow> Inr (KindTransform, CTransform, wd, ml_transform (ec_memory (cf_engine c)))
      | Some (NFilter wd) \<Rightarrow> Inr (KindFilter, CFilter, wd, ml_filter (ec_memory (cf_engine c)))
      | Some (NRouter wd) \<Rightarrow> Inr (KindRouter, CRouter, wd, ml_router (ec_memory (cf_engine c)))
      | Some _ \<Rightarrow> Inl (StatusNotFound, ''node '' @ quoted v @ '' does not support '' @ operation)
      | None \<Rightarrow> Inl (StatusNotFound, ''node '' @ quoted v @ '' not found''))"

text \<open>The part of \<open>hot_swap\<close> once the payload and the hash are there: signal the runner, await its report.\<close>

definition signal_hot_swap ::
    "('x, 's, 'h) watch_host_scheme \<Rightarrow> nat \<Rightarrow> string \<Rightarrow> swap_payload \<Rightarrow> swap_timeline \<Rightarrow> string \<Rightarrow> pipeline_handle
       \<Rightarrow> ('x, 's) world \<Rightarrow> ((api_error, swap_response) result \<times> pipeline_handle \<times> ('x, 's) world) option" where
  "signal_hot_swap H k v payload t hash h w =
     (let w = track_swap_plugin_hash v (payload_progress payload) hash w;
          (signal_at, w) = h_now H w;
          (t, w) = mark_signal_sent H t w;
          (sent, w) = send_swap H v payload h w
      in
      case sent of
        Inl e \<Rightarrow> Some (Inl (StatusNotFound, wafer_error_display e), h, w)
      | Inr _ \<Rightarrow>
          settle_replacement H k ''hot-swap'' v (payload_progress payload)
            (map_option cache_outcome_as_str (sm_compile_cache t)) (prep_timings t) signal_at
            (record_preparation_phases v t) (\<lambda>p ns. record_hotswap_phase p v ns) h w)"

definition hot_swap_guarded ::
    "('x, 's, 'h) replace_host_scheme \<Rightarrow> wafer_engine \<Rightarrow> nat \<Rightarrow> string \<Rightarrow> hot_swap_request
       \<Rightarrow> swap_kind \<times> node_category \<times> wasm_node_def \<times> usize \<Rightarrow> pipeline_handle \<Rightarrow> ('x, 's) world
       \<Rightarrow> ((api_error, swap_response) result \<times> pipeline_handle \<times> ('x, 's) world) option" where
  "hot_swap_guarded H eng k v body target h w =
     (let (kind, node_kind, wd, role_limit) = target in
      case capabilities_from_config (wd_capabilities wd) of
        Inl e \<Rightarrow> Some (Inl (StatusBadRequest, wafer_error_display e), h, w)
      | Inr caps \<Rightarrow>
          let memory_limit = (case wd_memory_limit wd of Some n \<Rightarrow> n | None \<Rightarrow> role_limit);
              fuel_limit = fuel_budget eng node_kind (wd_fuel wd);
              (file, w) = h_read_file H (hq_wasm_path body) w
          in
          case file of
            Inl e \<Rightarrow> Some (Inl (StatusBadRequest, ''failed to read wasm file: '' @ e), h, w)
          | Inr wasm_bytes \<Rightarrow>
              let (g, w) = progress_new H w;
                  (prepared, w) =
                    (case kind of
                       KindTransform \<Rightarrow> prepare_transform_swap H eng wasm_bytes v caps memory_limit fuel_limit g w
                     | KindFilter \<Rightarrow> prepare_filter_swap H eng wasm_bytes v caps memory_limit fuel_limit g w
                     | KindRouter \<Rightarrow> prepare_router_swap H eng wasm_bytes v caps memory_limit fuel_limit g w)
              in
              case prepared of
                Inl e \<Rightarrow> Some (Inl (StatusInternalServerError, ''swap preparation failed: '' @ wafer_error_display e), h, w)
              | Inr (payload, t) \<Rightarrow>
                  let (lost, w) = h_blocking_exit H w in
                  case lost of
                    Some e \<Rightarrow> Some (Inl (StatusInternalServerError, ''plugin hash task failed: '' @ e), h, w)
                  | None \<Rightarrow> signal_hot_swap H k v payload t (h_compute_hash H wasm_bytes) h w)"

text \<open>The guard is dropped when the handler returns, whatever it answers.\<close>

definition with_swap_guard ::
    "string \<Rightarrow> pipeline_handle \<Rightarrow> ('x, 's) world
       \<Rightarrow> (pipeline_handle \<Rightarrow> ((api_error, 'r) result \<times> pipeline_handle \<times> ('x, 's) world) option)
       \<Rightarrow> ((api_error, 'r) result \<times> pipeline_handle \<times> ('x, 's) world) option" where
  "with_swap_guard v h w body =
     (case try_begin_swap v h of
        (Inl e, h) \<Rightarrow> Some (Inl (replacement_error e), h, w)
      | (Inr guard, h) \<Rightarrow> map_option (\<lambda>(r, h, w). (r, drop_swap_guard guard h, w)) (body h))"

definition hot_swap ::
    "('x, 's, 'h) replace_host_scheme \<Rightarrow> wafer_engine \<Rightarrow> nat \<Rightarrow> string \<Rightarrow> hot_swap_request \<Rightarrow> pipeline_handle
       \<Rightarrow> ('x, 's) world \<Rightarrow> ((api_error, swap_response) result \<times> pipeline_handle \<times> ('x, 's) world) option" where
  "hot_swap H eng k v body h w =
     (case swap_target (pl_config h) v ''hot-swap'' of
        Inl e \<Rightarrow> Some (Inl e, h, w)
      | Inr target \<Rightarrow> with_swap_guard v h w (\<lambda>h. hot_swap_guarded H eng k v body target h w))"

section \<open>Reconfiguring\<close>

definition no_timings :: swap_timings where
  "no_timings =
     \<lparr>st_compile_ns = None, st_instantiate_ns = None, st_signal_ns = None, st_replacement_adopted_ns = None,
      st_first_outcome_ns = None, st_rollback_ns = None\<rparr>"

definition verify_expected :: "string \<Rightarrow> reconfigure_request \<Rightarrow> ('x, 's) world \<Rightarrow> (wafer_error, unit) result" where
  "verify_expected v body w =
     (case rq_expected_plugin_hash body of
        Some expected \<Rightarrow> if expected \<noteq> [] then verify_plugin_hash v expected w else Inr ()
      | None \<Rightarrow> Inr ())"

definition reconfigure_guarded ::
    "('x, 's, 'h) replace_host_scheme \<Rightarrow> nat \<Rightarrow> string \<Rightarrow> reconfigure_request \<Rightarrow> pipeline_handle \<Rightarrow> ('x, 's) world
       \<Rightarrow> ((api_error, swap_response) result \<times> pipeline_handle \<times> ('x, 's) world) option" where
  "reconfigure_guarded H k v body h w =
     (case verify_expected v body w of
        Inl e \<Rightarrow> Some (Inl (replacement_error e), h, w)
      | Inr _ \<Rightarrow>
          (case rq_config body of
             Inl e \<Rightarrow> Some (Inl (StatusBadRequest, ''invalid config json: '' @ e), h, w)
           | Inr new_config_json \<Rightarrow>
               let (g, w) = progress_new H w;
                   (signal_at, w) = h_now H w;
                   (sent, w) = send_swap H v (SwapReconfigure new_config_json g) h w
               in
               (case sent of
                  Inl e \<Rightarrow> Some (Inl (StatusNotFound, wafer_error_display e), h, w)
                | Inr _ \<Rightarrow>
                    settle_replacement H k ''reconfigure'' v g None no_timings signal_at id (\<lambda>_ _. id) h w)))"

definition reconfigure ::
    "('x, 's, 'h) replace_host_scheme \<Rightarrow> nat \<Rightarrow> string \<Rightarrow> reconfigure_request \<Rightarrow> pipeline_handle
       \<Rightarrow> ('x, 's) world \<Rightarrow> ((api_error, swap_response) result \<times> pipeline_handle \<times> ('x, 's) world) option" where
  "reconfigure H k v body h w =
     (case swap_target (pl_config h) v ''reconfigure'' of
        Inl e \<Rightarrow> Some (Inl e, h, w)
      | Inr _ \<Rightarrow> with_swap_guard v h w (\<lambda>h. reconfigure_guarded H k v body h w))"

section \<open>What the runner does to a progress handle\<close>

text \<open>
  The runner claims the payload, and once it owns it reports on it, in whatever order and how often
  it likes; the hash bookkeeping is its own too.
\<close>

inductive runner_moves :: "hot_swap_progress \<Rightarrow> hot_swap_progress \<Rightarrow> bool" where
  moves_refl: "runner_moves p p"
| moves_claim: "runner_moves p q \<Longrightarrow> runner_moves p (snd (try_claim q))"
| moves_report: "runner_moves p q \<Longrightarrow> pg_claim q = CLAIM_RUNNER \<Longrightarrow> runner_moves p (report_step c q)"
| moves_hash: "runner_moves p q \<Longrightarrow> pg_claim q = CLAIM_RUNNER \<Longrightarrow> runner_moves p (q\<lparr>pg_plugin_hash := u\<rparr>)"

text \<open>
  \<open>runner_env H\<close>: whenever the handler calls out, what others do to a progress handle is what the
  runner may do.
\<close>

definition runner_env :: "('x, 's, 'h) watch_host_scheme \<Rightarrow> bool" where
  "runner_env H \<longleftrightarrow> (\<forall>g w.
     runner_moves (w_progress w g) (w_progress (snd (h_now H w)) g) \<and>
     runner_moves (w_progress w g) (w_progress (h_park H w) g) \<and>
     (\<forall>s p. runner_moves (w_progress w g) (w_progress (snd (h_watch_send H s p w)) g)) \<and>
     (\<forall>s f. runner_moves (w_progress w g) (w_progress (h_watch_send_if_modified H s f w) g)))"

lemma runner_envD:
  assumes "runner_env H"
  shows "runner_moves (w_progress w g) (w_progress (snd (h_now H w)) g)"
    "runner_moves (w_progress w g) (w_progress (h_park H w) g)"
    "runner_moves (w_progress w g) (w_progress (snd (h_watch_send H s p w)) g)"
    "runner_moves (w_progress w g) (w_progress (h_watch_send_if_modified H s f w) g)"
  using assms by (auto simp: runner_env_def)

text \<open>A handle nobody withdrew: one that is not claimed has no report on it.\<close>

definition live :: "hot_swap_progress \<Rightarrow> bool" where
  "live p \<longleftrightarrow> progress_inv p \<and> pg_claim p \<in> {CLAIM_PENDING, CLAIM_RUNNER} \<and>
     (pg_claim p = CLAIM_PENDING \<longrightarrow> pg_tx p \<and> pg_sent p = [] \<and> pg_replacement_adopted p = None)"

lemma live_channel: "live progress_channel"
  by (simp add: live_def progress_inv_channel) (simp add: progress_channel_def)

lemma report_step_claim [simp]: "pg_claim (report_step c p) = pg_claim p"
  by (cases c) (auto simp: report_step_def mark_adopted_at_def mark_outcome_at_def report_init_failed_def
      report_rolled_back_def take_and_send_def try_complete_def split: option.splits)

lemma claim_runner_pending [simp]: "CLAIM_PENDING \<noteq> CLAIM_RUNNER"
  using claim_consts(1) by metis

lemma live_moves:
  assumes "runner_moves p q" "live p"
  shows "live q"
  using assms
proof (induction rule: runner_moves.induct)
  case (moves_claim p q)
  then show ?case by (auto simp: live_def try_claim_def progress_inv_def)
next
  case (moves_report p q c)
  then show ?case using progress_inv_step by (simp add: live_def)
next
  case (moves_hash p q u)
  then show ?case by (simp add: live_def progress_inv_def)
qed

lemma withdrawn_moves:
  assumes "runner_moves p q" "pg_claim p = CLAIM_WITHDRAWN"
  shows "pg_claim q = CLAIM_WITHDRAWN \<and> pg_replacement_adopted q = pg_replacement_adopted p"
  using assms
proof (induction rule: runner_moves.induct)
  case (moves_report p q c)
  then show ?case by (simp add: CLAIM_RUNNER_def CLAIM_WITHDRAWN_def)
next
  case (moves_hash p q u)
  then show ?case by (simp add: CLAIM_RUNNER_def CLAIM_WITHDRAWN_def)
qed (auto simp: try_claim_def)

lemma claimed_moves:
  assumes "runner_moves p q" "pg_claim p = CLAIM_RUNNER"
  shows "pg_claim q = CLAIM_RUNNER"
  using assms by (induction rule: runner_moves.induct) (auto simp: try_claim_def)

lemma live_completion:
  assumes "live (w_progress w g)"
  shows "completion_poll g w \<noteq> OneshotClosed"
    "completion_poll g w = OneshotReceived oc \<Longrightarrow> oc \<in> set (pg_sent (w_progress w g)) \<and> pg_claim (w_progress w g) = CLAIM_RUNNER"
  using assms by (auto simp: completion_poll_def live_def progress_inv_def Let_def split: list.splits if_splits)

lemma live_sent: "live p \<Longrightarrow> oc \<in> set (pg_sent p) \<Longrightarrow> pg_sent p = [oc]"
  by (auto simp: live_def progress_inv_def length_Suc_conv split: if_splits)

lemma poll_timer_moves:
  assumes "runner_env H" "poll_timer H (Some d) w = (t, w')"
  shows "runner_moves (w_progress w g) (w_progress w' g)"
  using assms(2) runner_envD(1) [OF assms(1), of w g] by (simp add: poll_timer_def case_prod_beta Let_def prod_eq_iff)

lemma await_completion_live:
  assumes "runner_env H"
  shows "live (w_progress w g) \<Longrightarrow> await_completion H k d g w = Some (r, w') \<Longrightarrow>
    live (w_progress w' g) \<and> (r = None \<or> (\<exists>oc. r = Some (OneshotReceived oc) \<and>
      oc \<in> set (pg_sent (w_progress w' g)) \<and> pg_claim (w_progress w' g) = CLAIM_RUNNER))"
proof (induction k arbitrary: w)
  case (Suc k)
  show ?case
  proof (cases "completion_poll g w")
    case OneshotPending
    obtain t w1 where t: "poll_timer H (Some d) w = (t, w1)" by fastforce
    have l1: "live (w_progress w1 g)" using live_moves [OF poll_timer_moves [OF assms t] Suc.prems(1)] .
    then have "live (w_progress (h_park H w1) g)" by (rule live_moves [OF runner_envD(2) [OF assms]])
    with Suc.IH l1 Suc.prems(2) OneshotPending t show ?thesis by (auto split: if_splits)
  next
    case OneshotClosed
    then show ?thesis using live_completion(1) [OF Suc.prems(1)] by simp
  next
    case (OneshotReceived oc)
    with Suc.prems live_completion(2) [OF Suc.prems(1)] show ?thesis by auto
  qed
qed simp

text \<open>The state a settled wait for the adoption leaves: claimed, and adopted exactly when it says so.\<close>

lemma await_adoption_live:
  assumes "runner_env H"
  shows "live (w_progress w g) \<Longrightarrow> pg_claim (w_progress w g) = CLAIM_RUNNER \<Longrightarrow>
    await_adoption H operation k d g w = Some (r, w') \<Longrightarrow>
    pg_claim (w_progress w' g) = CLAIM_RUNNER \<and>
    (r = None \<or> (\<exists>at. r = Some (Inr at) \<and> pg_replacement_adopted (w_progress w' g) = Some at) \<or>
     (\<exists>e. r = Some (Inl (StatusConflict, hot_swap_error_display e)) \<and> pg_sent (w_progress w' g) = [Inl e]))"
proof (induction k arbitrary: w)
  case (Suc k)
  show ?case
  proof (cases "pg_replacement_adopted (w_progress w g)")
    case None
    show ?thesis
    proof (cases "completion_poll g w")
      case OneshotPending
      obtain t w1 where t: "poll_timer H (Some d) w = (t, w1)" by fastforce
      note m1 = poll_timer_moves [OF assms t, of g] and m2 = runner_envD(2) [OF assms, of w1 g]
      note l = live_moves [OF m1 Suc.prems(1)] live_moves [OF m2 live_moves [OF m1 Suc.prems(1)]]
      have "pg_claim (w_progress w1 g) = CLAIM_RUNNER" "pg_claim (w_progress (h_park H w1) g) = CLAIM_RUNNER"
        using claimed_moves [OF m1 Suc.prems(2)] claimed_moves [OF m2] by auto
      with Suc.IH [OF l(2)] Suc.prems(3) None OneshotPending t show ?thesis by (auto split: if_splits)
    next
      case OneshotClosed
      then show ?thesis using live_completion(1) [OF Suc.prems(1)] by simp
    next
      case (OneshotReceived oc)
      then have oc: "oc \<in> set (pg_sent (w_progress w g))" using live_completion(2) [OF Suc.prems(1)] by auto
      have "oc \<noteq> Inr report" for report
        using oc Suc.prems(1) None by (auto simp: live_def progress_inv_def)
      then obtain e where "oc = Inl e" by (cases oc) auto
      with live_sent [OF Suc.prems(1) oc] Suc.prems(2,3) None OneshotReceived show ?thesis by auto
    qed
  qed (use Suc.prems in auto)
qed simp

section \<open>Preparation leaves progress to the runner\<close>

definition left_to_runner :: "('x, 's) world \<Rightarrow> ('x, 's) world \<Rightarrow> bool" where
  "left_to_runner w w' \<longleftrightarrow> (\<forall>g. runner_moves (w_progress w g) (w_progress w' g))"

lemma runner_moves_trans: "runner_moves q r \<Longrightarrow> runner_moves p q \<Longrightarrow> runner_moves p r"
  by (induction rule: runner_moves.induct) (auto intro: runner_moves.intros)

lemma left_refl [simp]: "left_to_runner w w"
  by (simp add: left_to_runner_def moves_refl)

lemma left_trans [trans]: "left_to_runner w w1 \<Longrightarrow> left_to_runner w1 w2 \<Longrightarrow> left_to_runner w w2"
  by (auto simp: left_to_runner_def intro: runner_moves_trans)

lemma left_slots [simp]:
  "left_to_runner w (w1\<lparr>w_transform_slots := a\<rparr>) \<longleftrightarrow> left_to_runner w w1"
  "left_to_runner w (w1\<lparr>w_store_slots := b\<rparr>) \<longleftrightarrow> left_to_runner w w1"
  "left_to_runner w (w1\<lparr>w_bindings_slots := c\<rparr>) \<longleftrightarrow> left_to_runner w w1"
  by (simp_all add: left_to_runner_def)

text \<open>\<open>replace_env H\<close>: as \<open>runner_env\<close>, for everything the preparation calls.\<close>

definition replace_env :: "('x, 's, 'h) replace_host_scheme \<Rightarrow> bool" where
  "replace_env H \<longleftrightarrow> runner_env H \<and> (\<forall>w.
     left_to_runner w (snd (h_alloc H w)) \<and> left_to_runner w (snd (h_blocking_exit H w)) \<and>
     (\<forall>k. left_to_runner w (h_set_engine_cache H k w)) \<and>
     (\<forall>pre st. left_to_runner w (snd (snd (h_instantiate H pre st w)))) \<and>
     (\<forall>p. left_to_runner w (snd (ch_read (h_cache H) p w)) \<and> left_to_runner w (ch_remove (h_cache H) p w) \<and>
       left_to_runner w (ch_create_dir (h_cache H) p w) \<and> (\<forall>d. left_to_runner w (ch_write (h_cache H) p d w))))"

lemma replace_envD:
  assumes "replace_env H"
  shows "runner_env H" "h_now H w = (t, w') \<Longrightarrow> left_to_runner w w'"
    "h_alloc H w = (n, w') \<Longrightarrow> left_to_runner w w'" "h_blocking_exit H w = (lost, w') \<Longrightarrow> left_to_runner w w'"
    "left_to_runner w (h_set_engine_cache H k w)" "h_instantiate H pre st w = (b, st', w') \<Longrightarrow> left_to_runner w w'"
    "ch_read (h_cache H) p w = (d, w') \<Longrightarrow> left_to_runner w w'" "left_to_runner w (ch_remove (h_cache H) p w)"
    "left_to_runner w (ch_create_dir (h_cache H) p w)" "left_to_runner w (ch_write (h_cache H) p d' w)"
  using assms unfolding replace_env_def runner_env_def left_to_runner_def by (metis snd_conv)+

lemma get_or_compile_left:
  assumes "replace_env H" "get_or_compile (h_cache H) bs name k w = (r, k', w')"
  shows "left_to_runner w w'"
proof -
  note env = replace_envD [OF assms(1)]
  obtain l w1 where l: "try_load_from_disk (h_cache H) (ch_hash (h_cache H) bs) k w = (l, w1)" by fastforce
  have "left_to_runner w w1"
    using l env(7) [of _ w] left_trans [OF env(7) env(8)]
    by (auto simp: try_load_from_disk_def Let_def case_prod_beta prod_eq_iff split: option.splits)
  moreover have "left_to_runner w1 (try_save_to_disk (h_cache H) hash c k w1)" for hash c
    using left_trans [OF env(9) env(10)] by (auto simp: try_save_to_disk_def split: option.split)
  ultimately show ?thesis
    using assms(2) l
    by (auto simp: get_or_compile_def Let_def case_prod_beta split: option.splits sum.splits intro: left_trans)
qed

lemma compile_and_link_left:
  assumes "replace_env H" "compile_and_link H bs v role t w = (r, t', w')"
  shows "left_to_runner w w'"
proof -
  note env = replace_envD [OF assms(1)]
  obtain r1 k w1 where c: "get_or_compile (h_cache H) bs v (h_engine_cache H w) w = (r1, k, w1)" by (metis prod_cases3)
  have w1: "left_to_runner w (h_set_engine_cache H k w1)"
    using left_trans [OF get_or_compile_left [OF assms(1) c] env(5)] .
  obtain now w2 where now: "h_now H (h_set_engine_cache H k w1) = (now, w2)" by fastforce
  obtain lost w3 where b: "h_blocking_exit H (if is_ok r1 then w2 else h_set_engine_cache H k w1) = (lost, w3)" by fastforce
  have "left_to_runner w (if is_ok r1 then w2 else h_set_engine_cache H k w1)"
    using w1 left_trans [OF w1 env(2) [OF now]] by simp
  with env(4) [OF b] have "left_to_runner w w3" by (blast intro: left_trans)
  moreover have "w' = w3"
    using assms(2) c now b
    by (auto simp: compile_and_link_def compile_cached_def Let_def is_ok_def split: sum.splits option.splits if_splits)
  ultimately show ?thesis by simp
qed

lemma prepare_instance_left:
  assumes "replace_env H" "prepare_instance H eng bs v role caps limit fuel w = (r, w')"
  shows "left_to_runner w w'"
proof -
  note env = replace_envD [OF assms(1)]
  obtain now w1 where now: "h_now H w = (now, w1)" by fastforce
  let ?t = "fst (timeline_start H w)"
  obtain l t w2 where l: "compile_and_link H bs v role ?t w1 = (l, t, w2)" by (metis prod_cases3)
  have w2: "left_to_runner w w2" using env(2) [OF now] compile_and_link_left [OF assms(1) l] by (rule left_trans)
  have inst: "left_to_runner w w4" if "h_instantiate H pre st w2 = (b, st', w3)" "w4 = w3 \<or> w4 = snd (h_now H w3)"
    for pre st b st' w3 w4
    using w2 env(6) [OF that(1)] that(2) env(2) [of w3 _ "snd (h_now H w3)"] by (auto intro: left_trans simp: prod_eq_iff)
  show ?thesis
    using assms(2) now l w2 inst
    by (auto simp: prepare_instance_def timeline_start_def mark_instantiate_done_def Let_def case_prod_beta prod_eq_iff
        split: sum.splits)
qed

lemma prepare_stored_left:
  assumes "replace_env H" "\<And>a b pre. payload_progress (con a b pre g) = g"
    "prepare_stored_swap H eng role con bs v caps limit fuel g w = (r, w')"
  shows "left_to_runner w w' \<and> (\<forall>p t. r = Inr (p, t) \<longrightarrow> payload_progress p = g)"
proof -
  note env = replace_envD [OF assms(1)]
  obtain q w1 where q: "prepare_instance H eng bs v role caps limit fuel w = (q, w1)" by fastforce
  note w1 = prepare_instance_left [OF assms(1) q]
  show ?thesis
  proof (cases q)
    case (Inl e)
    then show ?thesis using assms(3) q w1 by (auto simp: prepare_stored_swap_def)
  next
    case (Inr x)
    obtain st b pre t where x: "x = (st, b, pre, t)" by (cases x)
    obtain i w2 where i: "h_alloc H w1 = (i, w2)" by fastforce
    let ?w2 = "w2\<lparr>w_store_slots := (w_store_slots w2)(i := Some st)\<rparr>"
    obtain j w3 where j: "h_alloc H ?w2 = (j, w3)" by fastforce
    have "left_to_runner w ?w2" using left_trans [OF w1 env(3) [OF i]] by simp
    from left_trans [OF this env(3) [OF j]] show ?thesis
      using assms(2,3) q Inr x i j by (auto simp: prepare_stored_swap_def)
  qed
qed

lemma prepare_transform_left:
  assumes "replace_env H" "prepare_transform_swap H eng bs v caps limit fuel g w = (r, w')"
  shows "left_to_runner w w' \<and> (\<forall>p t. r = Inr (p, t) \<longrightarrow> payload_progress p = g)"
proof -
  let ?role = "if rcap_allow_inference caps then LinkInference else LinkTransform"
  obtain q w1 where q: "prepare_instance H eng bs v ?role caps limit fuel w = (q, w1)" by fastforce
  obtain i w2 where i: "h_alloc H w1 = (i, w2)" by fastforce
  from left_trans [OF prepare_instance_left [OF assms(1) q] replace_envD(3) [OF assms(1) i]]
    prepare_instance_left [OF assms(1) q] q i assms(2)
  show ?thesis by (auto simp: prepare_transform_swap_def payload_progress_def split: sum.splits prod.splits)
qed

definition prepare_swap ::
    "('x, 's, 'h) replace_host_scheme \<Rightarrow> wafer_engine \<Rightarrow> swap_kind \<Rightarrow> bytes \<Rightarrow> string \<Rightarrow> runtime_capabilities \<Rightarrow> usize
       \<Rightarrow> u64 option \<Rightarrow> nat \<Rightarrow> ('x, 's) world
       \<Rightarrow> (wafer_error, swap_payload \<times> swap_timeline) result \<times> ('x, 's) world" where
  "prepare_swap H eng kind bs v caps limit fuel g w =
     (case kind of
        KindTransform \<Rightarrow> prepare_transform_swap H eng bs v caps limit fuel g w
      | KindFilter \<Rightarrow> prepare_filter_swap H eng bs v caps limit fuel g w
      | KindRouter \<Rightarrow> prepare_router_swap H eng bs v caps limit fuel g w)"

lemma prepare_swap_left:
  assumes "replace_env H" "prepare_swap H eng kind bs v caps limit fuel g w = (r, w')"
  shows "left_to_runner w w' \<and> (\<forall>p t. r = Inr (p, t) \<longrightarrow> payload_progress p = g)"
proof (cases kind)
  case KindTransform
  then show ?thesis using assms prepare_transform_left by (simp add: prepare_swap_def)
next
  case KindFilter
  then show ?thesis
    using assms(2) prepare_stored_left [OF assms(1), of SwapFilter g]
    by (simp add: prepare_swap_def prepare_filter_swap_def payload_progress_def)
next
  case KindRouter
  then show ?thesis
    using assms(2) prepare_stored_left [OF assms(1), of SwapRouter g]
    by (simp add: prepare_swap_def prepare_router_swap_def payload_progress_def)
qed

section \<open>Answers\<close>

text \<open>
  What an answer says is what happened to the progress \<open>p\<close> of its replacement. A replacement reported
  as withdrawn is not adopted and never will be, whatever the runner does; every other error answer
  carries the error the runner reported, with status 409; an answer with a local outcome was adopted and
  had that outcome; one without is owned by the runner and adopted exactly if the answer says so; a
  rollback is the one report of the runner.
\<close>

definition truthful :: "hot_swap_progress \<Rightarrow> (api_error, swap_response) result \<Rightarrow> bool" where
  "truthful p r \<longleftrightarrow>
     (case r of
        Inl (c, m) \<Rightarrow>
          if c = StatusGatewayTimeout
          then \<forall>q. runner_moves p q \<longrightarrow> pg_claim q = CLAIM_WITHDRAWN \<and> pg_replacement_adopted q = None
          else c = StatusConflict \<and> (\<exists>e. pg_sent p = [Inl e] \<and> m = hot_swap_error_display e)
      | Inr resp \<Rightarrow>
          (case sw_answer resp of
             AnsRolledBack reason \<Rightarrow>
               (\<exists>ns. pg_sent p = [Inl (RolledBack ns reason)] \<and> st_rollback_ns (sw_timings resp) = Some ns)
           | AnsReplaced adopted None \<Rightarrow>
               sw_status resp = StatusAccepted \<and> pg_claim p = CLAIM_RUNNER \<and> adopted = (pg_replacement_adopted p \<noteq> None)
           | AnsReplaced adopted (Some (what, _)) \<Rightarrow>
               adopted \<and> sw_status resp = StatusOk \<and> pg_replacement_adopted p \<noteq> None \<and>
               (\<exists>t oc. pg_first_local_outcome p = Some (t, oc) \<and> what = first_local_outcome_as_str oc)))"

text \<open>
  The errors a request is refused with before the runner is signalled, in the order of the handler: the
  node is not there or no plugin, another request holds its slot, the grants of its configuration are
  invalid, the file cannot be read, the preparation fails, the task that hashes the bytes is lost, or the
  node has no runner to signal.
\<close>

inductive refused_swap ::
    "('x, 's, 'h) replace_host_scheme \<Rightarrow> wafer_engine \<Rightarrow> string \<Rightarrow> hot_swap_request \<Rightarrow> pipeline_handle
       \<Rightarrow> ('x, 's) world \<Rightarrow> api_error \<Rightarrow> bool"
  for H eng v body h w where
  refused_target: "swap_target (pl_config h) v ''hot-swap'' = Inl e \<Longrightarrow> refused_swap H eng v body h w e"
| refused_slot: "fst (try_begin_swap v h) = Inl x \<Longrightarrow> refused_swap H eng v body h w (replacement_error x)"
| refused_grants: "swap_target (pl_config h) v ''hot-swap'' = Inr (kind, nk, wd, limit) \<Longrightarrow>
    capabilities_from_config (wd_capabilities wd) = Inl x \<Longrightarrow>
    refused_swap H eng v body h w (StatusBadRequest, wafer_error_display x)"
| refused_file: "h_read_file H (hq_wasm_path body) w = (Inl x, w1) \<Longrightarrow>
    refused_swap H eng v body h w (StatusBadRequest, ''failed to read wasm file: '' @ x)"
| refused_preparation: "swap_target (pl_config h) v ''hot-swap'' = Inr (kind, nk, wd, limit) \<Longrightarrow>
    capabilities_from_config (wd_capabilities wd) = Inr caps \<Longrightarrow>
    h_read_file H (hq_wasm_path body) w = (Inr bs, w1) \<Longrightarrow> progress_new H w1 = (g, w2) \<Longrightarrow>
    prepare_swap H eng kind bs v caps (case wd_memory_limit wd of Some n \<Rightarrow> n | None \<Rightarrow> limit)
      (fuel_budget eng nk (wd_fuel wd)) g w2 = (Inl x, w3) \<Longrightarrow>
    refused_swap H eng v body h w (StatusInternalServerError, ''swap preparation failed: '' @ wafer_error_display x)"
| refused_hash: "swap_target (pl_config h) v ''hot-swap'' = Inr (kind, nk, wd, limit) \<Longrightarrow>
    capabilities_from_config (wd_capabilities wd) = Inr caps \<Longrightarrow>
    h_read_file H (hq_wasm_path body) w = (Inr bs, w1) \<Longrightarrow> progress_new H w1 = (g, w2) \<Longrightarrow>
    prepare_swap H eng kind bs v caps (case wd_memory_limit wd of Some n \<Rightarrow> n | None \<Rightarrow> limit)
      (fuel_budget eng nk (wd_fuel wd)) g w2 = (Inr pt, w3) \<Longrightarrow>
    h_blocking_exit H w3 = (Some x, w4) \<Longrightarrow>
    refused_swap H eng v body h w (StatusInternalServerError, ''plugin hash task failed: '' @ x)"
| refused_send: "swap_target (pl_config h) v ''hot-swap'' = Inr (kind, nk, wd, limit) \<Longrightarrow>
    capabilities_from_config (wd_capabilities wd) = Inr caps \<Longrightarrow>
    h_read_file H (hq_wasm_path body) w = (Inr bs, w1) \<Longrightarrow> progress_new H w1 = (g, w2) \<Longrightarrow>
    prepare_swap H eng kind bs v caps (case wd_memory_limit wd of Some n \<Rightarrow> n | None \<Rightarrow> limit)
      (fuel_budget eng nk (wd_fuel wd)) g w2 = (Inr (payload, t), w3) \<Longrightarrow>
    h_blocking_exit H w3 = (None, w4) \<Longrightarrow>
    h_now H (track_swap_plugin_hash v g (h_compute_hash H bs) w4) = (now, w5) \<Longrightarrow>
    mark_signal_sent H t w5 = (t', w6) \<Longrightarrow> fst (send_swap H v payload h w6) = Inl x \<Longrightarrow>
    refused_swap H eng v body h w (StatusNotFound, wafer_error_display x)"

inductive refused_reconfigure ::
    "('x, 's, 'h) replace_host_scheme \<Rightarrow> string \<Rightarrow> reconfigure_request \<Rightarrow> pipeline_handle
       \<Rightarrow> ('x, 's) world \<Rightarrow> api_error \<Rightarrow> bool"
  for H v body h w where
  reconfigure_target: "swap_target (pl_config h) v ''reconfigure'' = Inl e \<Longrightarrow> refused_reconfigure H v body h w e"
| reconfigure_slot: "fst (try_begin_swap v h) = Inl x \<Longrightarrow> refused_reconfigure H v body h w (replacement_error x)"
| reconfigure_hash: "verify_expected v body w = Inl x \<Longrightarrow> refused_reconfigure H v body h w (replacement_error x)"
| reconfigure_config: "rq_config body = Inl x \<Longrightarrow>
    refused_reconfigure H v body h w (StatusBadRequest, ''invalid config json: '' @ x)"
| reconfigure_send: "rq_config body = Inr cfg \<Longrightarrow> progress_new H w = (g, w1) \<Longrightarrow> h_now H w1 = (now, w2) \<Longrightarrow>
    fst (send_swap H v (SwapReconfigure cfg g) h w2) = Inl x \<Longrightarrow>
    refused_reconfigure H v body h w (StatusNotFound, wafer_error_display x)"

definition runner_gone :: "string \<Rightarrow> api_error" where
  "runner_gone operation = (StatusInternalServerError, operation @ '' runner exited before replacement adoption'')"

lemma retract_moves: "runner_env H \<Longrightarrow> runner_moves (w_progress w g) (w_progress (retract_swap H v g' h w) g)"
  by (auto simp: retract_swap_def moves_refl runner_envD(4) split: option.split)

lemma unfinished_truthful:
  assumes "runner_env H" "live (w_progress w g)" "unfinished_replacement H k v g operation h w = Some (r, w')"
  shows "case r of
      Inl e \<Rightarrow> truthful (w_progress w' g) (Inl e) \<and> e \<noteq> runner_gone op'
    | Inr at \<Rightarrow> pg_claim (w_progress w' g) = CLAIM_RUNNER \<and> at = pg_replacement_adopted (w_progress w' g)"
proof (cases "pg_claim (w_progress w g) = CLAIM_PENDING")
  case True
  let ?w = "w\<lparr>w_progress := (w_progress w)(g := (w_progress w g)\<lparr>pg_claim := CLAIM_WITHDRAWN\<rparr>)\<rparr>"
  have res: "r = Inl (StatusGatewayTimeout, operation @
        '' was not adopted within 5s and was withdrawn; the node keeps its current plugin'')"
    "w' = retract_swap H v g h ?w"
    using assms(3) True by (auto simp: unfinished_replacement_def try_withdraw_def)
  have "runner_moves (w_progress ?w g) (w_progress w' g)"
    unfolding res(2) by (rule retract_moves [OF assms(1)])
  moreover have "pg_replacement_adopted (w_progress w g) = None" using assms(2) True by (simp add: live_def)
  ultimately have "pg_claim q = CLAIM_WITHDRAWN \<and> pg_replacement_adopted q = None" if "runner_moves (w_progress w' g) q" for q
    using withdrawn_moves [OF runner_moves_trans [OF that]] by auto
  then show ?thesis by (simp add: res(1) truthful_def runner_gone_def)
next
  case False
  then have claimed: "pg_claim (w_progress w g) = CLAIM_RUNNER" using assms(2) by (simp add: live_def)
  obtain now w1 where now: "h_now H w = (now, w1)" by fastforce
  have m: "runner_moves (w_progress w g) (w_progress w1 g)" using runner_envD(1) [OF assms(1), of w g] now by simp
  obtain q w2 where q: "await_adoption H operation k (now + CLAIMED_REPLACEMENT_INIT_WAIT) g w1 = Some (q, w2)"
    and r: "(r, w') = (case q of None \<Rightarrow> (Inr (pg_replacement_adopted (w_progress w2 g)), w2) | Some x \<Rightarrow> (map_sum id Some x, w2))"
    using assms(3) False now
    by (auto simp: unfinished_replacement_def try_withdraw_def split: option.splits prod.splits)
  from await_adoption_live [OF assms(1) live_moves [OF m assms(2)] claimed_moves [OF m claimed] q] r show ?thesis
    by (auto simp: truthful_def runner_gone_def split: option.splits)
qed

text \<open>\<open>keeps_slots f\<close>: recording phases does not touch the swap slots.\<close>

definition keeps_slots :: "(pipeline_handle \<Rightarrow> pipeline_handle) \<Rightarrow> bool" where
  "keeps_slots f \<longleftrightarrow> (\<forall>h. pl_swap_in_progress (f h) = pl_swap_in_progress h)"

lemma keeps_slots_phases:
  "keeps_slots (record_hotswap_phase p v ns)" "keeps_slots (record_preparation_phases v t)" "keeps_slots id"
  by (simp_all add: keeps_slots_def record_preparation_phases_def record_hotswap_phase_def Let_def split: option.split)

lemma settle_truthful:
  assumes "runner_env H" "live (w_progress w g)" "keeps_slots phases" "\<And>p ns. keeps_slots (phase p ns)"
    "settle_replacement H k operation v g cache tms signal_at phases phase h w = Some (r, h', w')"
  shows "truthful (w_progress w' g) r \<and> r \<noteq> Inl (runner_gone op') \<and> pl_swap_in_progress h' = pl_swap_in_progress h"
proof -
  have slots: "pl_swap_in_progress (phases h) = pl_swap_in_progress h" "pl_swap_in_progress (phase p ns h) = pl_swap_in_progress h"
    for p ns h using assms(3,4) by (simp_all add: keeps_slots_def)
  obtain now w1 where now: "h_now H w = (now, w1)" by fastforce
  have l1: "live (w_progress w1 g)" using live_moves [OF runner_envD(1) [OF assms(1)] assms(2)] now by (metis snd_conv)
  obtain c w2 where c: "await_completion H k (now + REPLACEMENT_OUTCOME_WAIT) g w1 = Some (c, w2)"
    using assms(5) now by (auto simp: settle_replacement_def Let_def split: option.splits)
  note lc = await_completion_live [OF assms(1) l1 c]
  show ?thesis
  proof (cases c)
    case None
    with assms(5) now c obtain q w3 where q: "unfinished_replacement H k v g operation h w2 = Some (q, w3)"
      by (auto simp: settle_replacement_def Let_def split: option.splits)
    with unfinished_truthful [OF assms(1) conjunct1 [OF lc] q, of op'] assms(5) now c None slots show ?thesis
      by (cases q) (auto simp: settle_replacement_def Let_def unfinished_response_def truthful_def split: option.splits)
  next
    case (Some a)
    with lc obtain oc where oc: "c = Some (OneshotReceived oc)" "oc \<in> set (pg_sent (w_progress w2 g))"
      "pg_sent (w_progress w2 g) = [oc]" using live_sent by blast
    show ?thesis
    proof (cases oc)
      case (Inl e)
      with oc assms(5) now c slots show ?thesis
        by (cases e) (auto simp: settle_replacement_def Let_def rolled_back_response_def truthful_def runner_gone_def)
    next
      case (Inr report)
      have "pg_replacement_adopted (w_progress w2 g) = Some (hr_replacement_adopted_at report)"
        "pg_first_local_outcome (w_progress w2 g) = Some (hr_first_local_outcome_at report, hr_first_local_outcome report)"
        using lc oc Inr by (auto simp: live_def progress_inv_def)
      with Inr oc assms(5) now c slots show ?thesis
        by (auto simp: settle_replacement_def Let_def replaced_response_def truthful_def)
    qed
  qed
qed

lemma live_left: "left_to_runner w w' \<Longrightarrow> live (w_progress w g) \<Longrightarrow> live (w_progress w' g)"
  by (auto simp: left_to_runner_def intro: live_moves)

lemma live_track: "live (w_progress w g) \<Longrightarrow> live (w_progress (track_swap_plugin_hash v g hash w) g)"
proof -
  have "live (p\<lparr>pg_plugin_hash := u\<rparr>) \<longleftrightarrow> live p" for p u by (simp add: live_def progress_inv_def)
  then show "live (w_progress w g) \<Longrightarrow> live (w_progress (track_swap_plugin_hash v g hash w) g)"
    by (simp add: track_swap_plugin_hash_def update_progress_def track_plugin_hash_def)
qed

lemma send_swap_left:
  assumes "runner_env H" "send_swap H v p h w = (r, w')"
  shows "left_to_runner w w'"
  using assms(2) runner_envD(3) [OF assms(1)]
  by (auto simp: send_swap_def left_to_runner_def Let_def case_prod_beta moves_refl split: if_splits option.splits)

lemma send_swap_slots: "send_swap H v p (h\<lparr>pl_swap_in_progress := x\<rparr>) w = send_swap H v p h w"
  by (simp add: send_swap_def)

lemma progress_new_live: "progress_new H w = (g, w') \<Longrightarrow> g = fst (h_alloc H w) \<and> live (w_progress w' g)"
  by (auto simp: progress_new_def live_channel split: prod.splits)

lemma signal_hot_swap_truthful:
  assumes env: "runner_env H" and l: "live (w_progress w g)" and pp: "payload_progress payload = g"
    and now: "h_now H (track_swap_plugin_hash v g hash w) = (signal_at, w1)" and sent: "mark_signal_sent H t w1 = (t', w2)"
    and run: "signal_hot_swap H k v payload t hash h w = Some (r, h', w')"
  shows "(truthful (w_progress w' g) r \<or>
      (\<exists>x. fst (send_swap H v payload h w2) = Inl x \<and> r = Inl (StatusNotFound, wafer_error_display x))) \<and>
    r \<noteq> Inl (runner_gone op') \<and> pl_swap_in_progress h' = pl_swap_in_progress h"
proof -
  obtain res w3 where w3: "send_swap H v payload h w2 = (res, w3)" by fastforce
  have step: "h_now H x = (n, x') \<Longrightarrow> live (w_progress x g) \<Longrightarrow> live (w_progress x' g)" for x n x'
    using live_moves [OF runner_envD(1) [OF env, of x g]] by simp
  obtain n where "h_now H w1 = (n, w2)" using sent by (auto simp: mark_signal_sent_def split: prod.splits)
  then have l3: "live (w_progress w3 g)"
    by (intro live_left [OF send_swap_left [OF env w3]] step [OF _ step [OF now live_track [OF l]]])
  have last: "(case res of
        Inl e \<Rightarrow> Some (Inl (StatusNotFound, wafer_error_display e), h, w3)
      | Inr _ \<Rightarrow>
          settle_replacement H k ''hot-swap'' v g (map_option cache_outcome_as_str (sm_compile_cache t')) (prep_timings t') signal_at
            (record_preparation_phases v t') (\<lambda>p ns. record_hotswap_phase p v ns) h w3) = Some (r, h', w')"
    using run by (simp add: signal_hot_swap_def pp now sent w3 cong: sum.case_cong)
  show ?thesis
  proof (cases res)
    case (Inl e)
    with last have r: "r = Inl (StatusNotFound, wafer_error_display e)" "h' = h" by auto
    moreover have "fst (send_swap H v payload h w2) = Inl e" using w3 Inl by simp
    ultimately show ?thesis by (auto simp: runner_gone_def)
  next
    case (Inr u)
    with last have "truthful (w_progress w' g) r \<and> r \<noteq> Inl (runner_gone op') \<and> pl_swap_in_progress h' = pl_swap_in_progress h"
      by (intro settle_truthful [OF env l3]) (auto simp: keeps_slots_phases)
    then show ?thesis by blast
  qed
qed

lemma hot_swap_guarded_truthful:
  assumes env: "replace_env H" and tgt: "swap_target (pl_config h0) v ''hot-swap'' = Inr target"
    and h: "h = h0\<lparr>pl_swap_in_progress := slots\<rparr>"
    and run: "hot_swap_guarded H eng k v body target h w = Some (r, h', w')"
  defines "g \<equiv> fst (h_alloc H (snd (h_read_file H (hq_wasm_path body) w)))"
  shows "(truthful (w_progress w' g) r \<or> (\<exists>e. r = Inl e \<and> refused_swap H eng v body h0 w e)) \<and>
    r \<noteq> Inl (runner_gone ''hot-swap'') \<and> pl_swap_in_progress h' = pl_swap_in_progress h"
proof -
  obtain kind nk wd limit where target: "target = (kind, nk, wd, limit)" by (cases target)
  note tgt = tgt [unfolded target]
  obtain fl w1 where fl: "h_read_file H (hq_wasm_path body) w = (fl, w1)" by fastforce
  obtain g' w2 where new: "progress_new H w1 = (g', w2)" by fastforce
  have g': "g' = g" and l2: "live (w_progress w2 g)" using progress_new_live [OF new] fl by (auto simp: g_def)
  note start = run [unfolded hot_swap_guarded_def target Let_def prod.case fl]
  show ?thesis
  proof (cases "capabilities_from_config (wd_capabilities wd)")
    case (Inl e)
    moreover have "r = Inl (StatusBadRequest, wafer_error_display e)" "h' = h" using start Inl by auto
    moreover have "refused_swap H eng v body h0 w (StatusBadRequest, wafer_error_display e)" by (rule refused_grants [OF tgt Inl])
        ultimately show ?thesis by (auto simp: runner_gone_def)
  next
    case caps: (Inr caps)
    show ?thesis
    proof (cases fl)
      case (Inl e)
      moreover have "r = Inl (StatusBadRequest, ''failed to read wasm file: '' @ e)" "h' = h" using caps start Inl by auto
      moreover have "refused_swap H eng v body h0 w (StatusBadRequest, ''failed to read wasm file: '' @ e)" by (rule refused_file [OF fl [unfolded Inl]])
        ultimately show ?thesis by (auto simp: runner_gone_def)
    next
      case bs: (Inr bs)
      let ?limit = "case wd_memory_limit wd of Some n \<Rightarrow> n | None \<Rightarrow> limit"
      obtain q w3 where q: "prepare_swap H eng kind bs v caps ?limit (fuel_budget eng nk (wd_fuel wd)) g w2 = (q, w3)" by fastforce
      note prep = prepare_swap_left [OF env q] and prior = tgt caps fl [unfolded bs] new [unfolded g']
      obtain lost w4 where lost: "h_blocking_exit H w3 = (lost, w4)" by fastforce
      have l4: "live (w_progress w4 g)"
        using live_left [OF replace_envD(4) [OF env lost]] live_left [OF conjunct1 [OF prep] l2] by blast
      note rest = start [unfolded caps bs sum.case new prod.case g', folded prepare_swap_def, unfolded q prod.case]
      show ?thesis
      proof (cases q)
        case (Inl e)
        moreover have "r = Inl (StatusInternalServerError, ''swap preparation failed: '' @ wafer_error_display e)" "h' = h"
          using rest Inl by auto
        moreover have "refused_swap H eng v body h0 w (StatusInternalServerError, ''swap preparation failed: '' @ wafer_error_display e)" by (rule refused_preparation [OF prior q [unfolded Inl]])
        ultimately show ?thesis by (auto simp: runner_gone_def)
      next
        case (Inr pt)
        obtain payload t where pt: "pt = (payload, t)" by (cases pt)
        then have pp: "payload_progress payload = g" using prep Inr by simp
        show ?thesis
        proof (cases lost)
          case None
          obtain now w5 where now: "h_now H (track_swap_plugin_hash v g (h_compute_hash H bs) w4) = (now, w5)" by fastforce
          obtain t' w6 where sent: "mark_signal_sent H t w5 = (t', w6)" by fastforce
          from rest [unfolded Inr pt sum.case prod.case lost None option.case]
          have s: "(truthful (w_progress w' g) r \<or>
              (\<exists>x. fst (send_swap H v payload h w6) = Inl x \<and> r = Inl (StatusNotFound, wafer_error_display x))) \<and>
            r \<noteq> Inl (runner_gone ''hot-swap'') \<and> pl_swap_in_progress h' = pl_swap_in_progress h"
            by (rule signal_hot_swap_truthful [OF replace_envD(1) [OF env] l4 pp now sent])
          have "refused_swap H eng v body h0 w (StatusNotFound, wafer_error_display x)"
            if "fst (send_swap H v payload h w6) = Inl x" for x
            using refused_send [OF prior q [unfolded Inr pt] lost [unfolded None] now sent, of x] that
            unfolding h send_swap_slots by blast
          with s show ?thesis by metis
        next
          case (Some x)
          moreover have "r = Inl (StatusInternalServerError, ''plugin hash task failed: '' @ x)" "h' = h"
            using rest Inr pt lost Some by auto
          moreover have "refused_swap H eng v body h0 w (StatusInternalServerError, ''plugin hash task failed: '' @ x)" by (rule refused_hash [OF prior q [unfolded Inr] lost [unfolded Some]])
        ultimately show ?thesis by (auto simp: runner_gone_def)
        qed
      qed
    qed
  qed
qed

lemma reconfigure_guarded_truthful:
  assumes env: "replace_env H" and h: "h = h0\<lparr>pl_swap_in_progress := slots\<rparr>"
    and run: "reconfigure_guarded H k v body h w = Some (r, h', w')"
  defines "g \<equiv> fst (h_alloc H w)"
  shows "(truthful (w_progress w' g) r \<or> (\<exists>e. r = Inl e \<and> refused_reconfigure H v body h0 w e)) \<and>
    r \<noteq> Inl (runner_gone ''reconfigure'') \<and> pl_swap_in_progress h' = pl_swap_in_progress h"
proof -
  obtain g' w1 where new: "progress_new H w = (g', w1)" by fastforce
  have g': "g' = g" and l1: "live (w_progress w1 g)" using progress_new_live [OF new] by (auto simp: g_def)
  obtain signal_at w2 where w2: "h_now H w1 = (signal_at, w2)" by fastforce
  have verify: "fst (replacement_error e) = StatusConflict" if "verify_expected v body w = Inl e" for e
    using that by (auto simp: verify_expected_def verify_plugin_hash_def replacement_error_def split: option.splits if_splits)
  show ?thesis
  proof (cases "verify_expected v body w")
    case (Inl e)
    moreover have "r = Inl (replacement_error e)" "h' = h" using run Inl by (auto simp: reconfigure_guarded_def)
    moreover have "refused_reconfigure H v body h0 w (replacement_error e)" by (rule reconfigure_hash [OF Inl])
    ultimately show ?thesis using verify [OF Inl] by (auto simp: runner_gone_def)
  next
    case ver: (Inr u)
    show ?thesis
    proof (cases "rq_config body")
      case (Inl e)
      moreover have "r = Inl (StatusBadRequest, ''invalid config json: '' @ e)" "h' = h"
        using run ver Inl by (auto simp: reconfigure_guarded_def)
      moreover have "refused_reconfigure H v body h0 w (StatusBadRequest, ''invalid config json: '' @ e)" by (rule reconfigure_config [OF Inl])
      ultimately show ?thesis by (auto simp: runner_gone_def)
    next
      case cfg: (Inr cfg)
      obtain sent w3 where w3: "send_swap H v (SwapReconfigure cfg g) h w2 = (sent, w3)" by fastforce
      have l3: "live (w_progress w3 g)"
        by (rule live_left [OF send_swap_left [OF replace_envD(1) [OF env] w3] live_left [OF replace_envD(2) [OF env w2] l1]])
      note last = run [unfolded reconfigure_guarded_def ver cfg sum.case new prod.case g' w2 Let_def w3]
      show ?thesis
      proof (cases sent)
        case (Inl e)
        then have "fst (send_swap H v (SwapReconfigure cfg g) h0 w2) = Inl e" using w3 by (simp add: h send_swap_slots)
        moreover have "r = Inl (StatusNotFound, wafer_error_display e)" "h' = h" using last Inl by auto
        moreover have "refused_reconfigure H v body h0 w (StatusNotFound, wafer_error_display e)" by (rule reconfigure_send [OF cfg new [unfolded g'] w2]) fact
        ultimately show ?thesis by (auto simp: runner_gone_def)
      next
        case (Inr u)
        with last have "truthful (w_progress w' g) r \<and> r \<noteq> Inl (runner_gone ''reconfigure'') \<and>
            pl_swap_in_progress h' = pl_swap_in_progress h"
          by (intro settle_truthful [OF replace_envD(1) [OF env] l3]) (auto simp: keeps_slots_phases)
        then show ?thesis by blast
      qed
    qed
  qed
qed

lemma guard_truthful:
  assumes "\<And>h1 h2 w2 slots. h1 = h\<lparr>pl_swap_in_progress := slots\<rparr> \<Longrightarrow> body h1 = Some (r, h2, w2) \<Longrightarrow>
      (truthful (w_progress w2 g) r \<or> (\<exists>e. r = Inl e \<and> P e)) \<and>
      r \<noteq> Inl (runner_gone op') \<and> pl_swap_in_progress h2 = pl_swap_in_progress h1"
    "with_swap_guard v h w body = Some (r, h', w')" "\<And>x. fst (try_begin_swap v h) = Inl x \<Longrightarrow> P (replacement_error x)"
  shows "(truthful (w_progress w' g) r \<or> (\<exists>e. r = Inl e \<and> P e)) \<and> r \<noteq> Inl (runner_gone op') \<and>
    pl_swap_in_progress h' = pl_swap_in_progress h"
proof (cases "pl_swap_in_progress h v = Some False")
  case True
  then obtain h2 where h2: "body (h\<lparr>pl_swap_in_progress := (pl_swap_in_progress h)(v \<mapsto> True)\<rparr>) = Some (r, h2, w')"
    "h' = drop_swap_guard v h2"
    using assms(2) by (auto simp: with_swap_guard_def try_begin_swap_def)
  then have "pl_swap_in_progress h' = pl_swap_in_progress h"
    using assms(1) [OF refl h2(1)] True by (simp add: drop_swap_guard_def fun_upd_idem_iff)
  with assms(1) [OF refl h2(1)] show ?thesis by blast
next
  case False
  define x where "x = (if pl_swap_in_progress h v = None then NodeNotSwappable v else SwapInProgress v)"
  have "try_begin_swap v h = (Inl x, h)" using False by (auto simp: x_def try_begin_swap_def split: option.split)
  then have "fst (try_begin_swap v h) = Inl x" "r = Inl (replacement_error x)" "h' = h"
    using assms(2) by (auto simp: with_swap_guard_def)
  moreover have "replacement_error x \<noteq> runner_gone op'" by (simp add: x_def replacement_error_def runner_gone_def)
  ultimately show ?thesis using assms(3) by simp
qed

lemma swap_target_error: "swap_target c v operation = Inl e \<Longrightarrow> fst e = StatusNotFound"
  by (auto simp: swap_target_def split: option.splits node_def.splits)


lemma hot_swap_truthful:
  assumes "replace_env H" "hot_swap H eng k v body h w = Some (r, h', w')"
  shows "(truthful (w_progress w' (fst (h_alloc H (snd (h_read_file H (hq_wasm_path body) w))))) r \<or>
      (\<exists>e. r = Inl e \<and> refused_swap H eng v body h w e)) \<and>
    r \<noteq> Inl (runner_gone ''hot-swap'') \<and> pl_swap_in_progress h' = pl_swap_in_progress h"
proof (cases "swap_target (pl_config h) v ''hot-swap''")
  case (Inl e)
  then have "refused_swap H eng v body h w e" by (rule refused_target)
  moreover have "r = Inl e" "h' = h" using assms(2) Inl by (auto simp: hot_swap_def)
  ultimately show ?thesis using swap_target_error [OF Inl] by (cases e) (auto simp: runner_gone_def)
next
  case (Inr target)
  show ?thesis
  proof (rule guard_truthful [OF hot_swap_guarded_truthful [OF assms(1) Inr]])
    show "with_swap_guard v h w (\<lambda>h. hot_swap_guarded H eng k v body target h w) = Some (r, h', w')"
      using assms(2) Inr by (simp add: hot_swap_def)
    show "refused_swap H eng v body h w (replacement_error x)" if "fst (try_begin_swap v h) = Inl x" for x
      using that by (rule refused_slot)
  qed
qed

lemma reconfigure_truthful:
  assumes "replace_env H" "reconfigure H k v body h w = Some (r, h', w')"
  shows "(truthful (w_progress w' (fst (h_alloc H w))) r \<or> (\<exists>e. r = Inl e \<and> refused_reconfigure H v body h w e)) \<and>
    r \<noteq> Inl (runner_gone ''reconfigure'') \<and> pl_swap_in_progress h' = pl_swap_in_progress h"
proof (cases "swap_target (pl_config h) v ''reconfigure''")
  case (Inl e)
  then have "refused_reconfigure H v body h w e" by (rule reconfigure_target)
  moreover have "r = Inl e" "h' = h" using assms(2) Inl by (auto simp: reconfigure_def)
  ultimately show ?thesis using swap_target_error [OF Inl] by (cases e) (auto simp: runner_gone_def)
next
  case (Inr target)
  show ?thesis
  proof (rule guard_truthful [OF reconfigure_guarded_truthful [OF assms(1)]])
    show "with_swap_guard v h w (\<lambda>h. reconfigure_guarded H k v body h w) = Some (r, h', w')"
      using assms(2) Inr by (simp add: reconfigure_def)
    show "refused_reconfigure H v body h w (replacement_error x)" if "fst (try_begin_swap v h) = Inl x" for x
      using that by (rule reconfigure_slot)
  qed
qed

section \<open>The waits end\<close>

text \<open>
  \<open>wakes_later H d\<close>: the monotonic clock never runs backwards and every time the handler is woken up
  at least \<open>d\<close> nanoseconds have passed.
\<close>

definition wakes_later :: "('x, 's, 'h) runner_host_scheme \<Rightarrow> nat \<Rightarrow> bool" where
  "wakes_later H d \<longleftrightarrow> 0 < d \<and> clock_steady H \<and> (\<forall>w. fst (h_now H w) + d \<le> fst (h_now H (h_park H w)))"

lemma wait_step:
  assumes "wakes_later H d" "deadline < fst (h_now H w) + d * Suc k" "poll_timer H (Some deadline) w = (t, w1)" "\<not> t"
  shows "deadline < fst (h_now H (h_park H w1)) + d * k"
proof -
  have "fst (h_now H w) \<le> fst (h_now H w1)"
    using assms(1,3) by (auto simp: wakes_later_def clock_steady_def poll_timer_def case_prod_beta Let_def)
  moreover have "fst (h_now H w1) + d \<le> fst (h_now H (h_park H w1))" using assms(1) by (simp add: wakes_later_def)
  ultimately show ?thesis using assms(2) by simp
qed

lemma await_completion_returns:
  assumes "wakes_later H d"
  shows "deadline < fst (h_now H w) + d * k \<Longrightarrow> await_completion H (Suc k) deadline g w \<noteq> None"
proof (induction k arbitrary: w)
  case 0
  then show ?case by (auto simp: poll_timer_def case_prod_beta Let_def split: oneshot_poll.split)
next
  case (Suc k)
  obtain t w1 where t: "poll_timer H (Some deadline) w = (t, w1)" by fastforce
  show ?case
  proof (cases t)
    case False
    from Suc.IH [OF wait_step [OF assms Suc.prems t False]] t False show ?thesis
      by (auto simp del: await_completion.simps(2) simp: await_completion.simps(2) [of H "Suc k"] split: oneshot_poll.split)
  qed (use t in \<open>simp split: oneshot_poll.split\<close>)
qed

lemma await_adoption_returns:
  assumes "wakes_later H d"
  shows "deadline < fst (h_now H w) + d * k \<Longrightarrow> await_adoption H operation (Suc k) deadline g w \<noteq> None"
proof (induction k arbitrary: w)
  case 0
  then show ?case
    by (auto simp: poll_timer_def case_prod_beta Let_def split: oneshot_poll.split option.split sum.split)
next
  case (Suc k)
  obtain t w1 where t: "poll_timer H (Some deadline) w = (t, w1)" by fastforce
  show ?case
  proof (cases t)
    case False
    from Suc.IH [OF wait_step [OF assms Suc.prems t False]] t False show ?thesis
      by (auto simp del: await_adoption.simps(2) simp: await_adoption.simps(2) [of H operation "Suc k"]
          split: oneshot_poll.split option.split sum.split)
  qed (use t in \<open>simp split: oneshot_poll.split option.split sum.split\<close>)
qed

lemma settle_returns:
  assumes "wakes_later H d" "CLAIMED_REPLACEMENT_INIT_WAIT < d * k"
  shows "settle_replacement H (Suc k) operation v g cache tms signal_at phases phase h w \<noteq> None"
proof -
  have later: "fst (h_now H w) \<le> fst (h_now H (snd (h_now H w)))" for w
    using assms(1) by (simp add: wakes_later_def clock_steady_def)
  have "REPLACEMENT_OUTCOME_WAIT \<le> CLAIMED_REPLACEMENT_INIT_WAIT"
    by (simp add: REPLACEMENT_OUTCOME_WAIT_def CLAIMED_REPLACEMENT_INIT_WAIT_def)
  then have "await_completion H (Suc k) (fst (h_now H w) + REPLACEMENT_OUTCOME_WAIT) g (snd (h_now H w)) \<noteq> None" for w
    using later [of w] assms(2) by (intro await_completion_returns [OF assms(1)]) simp
  moreover have "await_adoption H operation (Suc k) (fst (h_now H w) + CLAIMED_REPLACEMENT_INIT_WAIT) g (snd (h_now H w)) \<noteq> None" for w
    using later [of w] assms(2) by (intro await_adoption_returns [OF assms(1)]) simp
  then have "unfinished_replacement H (Suc k) v g operation h w \<noteq> None" for w
    by (simp add: unfinished_replacement_def Let_def case_prod_beta del: await_adoption.simps not_None_eq split: option.split)
  ultimately show ?thesis
    by (simp add: settle_replacement_def Let_def case_prod_beta del: await_completion.simps not_None_eq
        split: option.split oneshot_poll.split sum.split hot_swap_error.split)
qed

lemma hot_swap_returns:
  assumes "wakes_later H d" "CLAIMED_REPLACEMENT_INIT_WAIT < d * k"
  shows "hot_swap H eng (Suc k) v body h w \<noteq> None"
proof -
  have "signal_hot_swap H (Suc k) v payload t hash h w \<noteq> None" for payload t hash h w
    using settle_returns [OF assms]
    by (auto simp: signal_hot_swap_def Let_def simp del: not_None_eq split: prod.split sum.split)
  then have "hot_swap_guarded H eng (Suc k) v body target h w \<noteq> None" for target h w
    by (auto simp: hot_swap_guarded_def Let_def simp del: not_None_eq split: prod.split sum.split option.split)
  then show ?thesis
    by (auto simp: hot_swap_def with_swap_guard_def simp del: not_None_eq split: prod.split sum.split)
qed

lemma reconfigure_returns:
  assumes "wakes_later H d" "CLAIMED_REPLACEMENT_INIT_WAIT < d * k"
  shows "reconfigure H (Suc k) v body h w \<noteq> None"
proof -
  have "reconfigure_guarded H (Suc k) v body h w \<noteq> None" for h w
    using settle_returns [OF assms]
    by (auto simp: reconfigure_guarded_def Let_def simp del: not_None_eq split: prod.split sum.split)
  then show ?thesis
    by (auto simp: reconfigure_def with_swap_guard_def simp del: not_None_eq split: prod.split sum.split)
qed

section \<open>Properties\<close>


text \<open>
  C23: a replacement request is always answered, after at most the two waits, and never with the error
  for a runner that exited: the handler itself keeps the progress, and with it the sender of the
  outcome, so the channel cannot close under it. A runner that dies is noticed only by the timeouts.
\<close>

theorem replacement_requests_return:
  assumes "replace_env H" "wakes_later H d" "CLAIMED_REPLACEMENT_INIT_WAIT < d * k"
  shows "(\<exists>r h' w'. hot_swap H eng (Suc k) v sbody h w = Some (r, h', w') \<and> r \<noteq> Inl (runner_gone ''hot-swap'')) \<and>
    (\<exists>r h' w'. reconfigure H (Suc k) v rbody h w = Some (r, h', w') \<and> r \<noteq> Inl (runner_gone ''reconfigure''))"
  using hot_swap_returns [OF assms(2,3), of eng v sbody h w] reconfigure_returns [OF assms(2,3), of v rbody h w]
    hot_swap_truthful [OF assms(1)] reconfigure_truthful [OF assms(1)] by fast

text \<open>A host on which the runner never takes the payload and a second passes at every wait.\<close>

definition idle_host :: "(runtime_envelope list \<times> nat \<times> nat, nat list) replace_host" where
  "idle_host = watch_host.extend
     (runner_host.extend
        (sample_runner\<lparr>h_park := (\<lambda>w. case w_ext w of (q, t, k) \<Rightarrow> w\<lparr>w_ext := (q, t + 1000000000, k)\<rparr>)\<rparr>)
        \<lparr>h_watch_send = (\<lambda>_ _ w. (True, w)), h_watch_send_if_modified = (\<lambda>_ _ w. w)\<rparr>)
     \<lparr>h_alloc = (\<lambda>w. (0, w)),
      h_cache = \<lparr>ch_hash = (\<lambda>_. 0), ch_hex = (\<lambda>_. []), ch_os = [], ch_arch = [], ch_compile = (\<lambda>_. Inr 0),
        ch_serialize = (\<lambda>_. None), ch_deserialize = (\<lambda>_. None), ch_read = (\<lambda>_ w. (None, w)), ch_remove = (\<lambda>_ w. w),
        ch_create_dir = (\<lambda>_ w. w), ch_write = (\<lambda>_ _ w. w)\<rparr>,
      h_engine_cache = (\<lambda>_. cache_new None), h_set_engine_cache = (\<lambda>_ w. w), h_linker = \<lparr>lk_step = (\<lambda>_. Inr 0)\<rparr>,
      h_blocking_exit = (\<lambda>w. (None, w)), h_create_store = (\<lambda>dt. \<lparr>so_data = dt, so_guest = []\<rparr>),
      h_read_file = (\<lambda>_ w. (Inr [0], w)), h_compute_hash = (\<lambda>_. ''h'')\<rparr>"

lemmas idle_host_defs = idle_host_def watch_host.extend_def runner_host.extend_def sample_runner_def

lemma idle_host_env: "replace_env idle_host"
  by (auto simp: replace_env_def runner_env_def left_to_runner_def idle_host_defs sample_tick_def moves_refl split: prod.split)

lemma idle_host_clock: "wakes_later idle_host 1000000000"
  by (auto simp: wakes_later_def clock_steady_def idle_host_defs sample_tick_def split: prod.split)

definition memory_engine :: wafer_engine where
  "memory_engine =
     \<lparr>we_fuel = fuel_budgets_default, we_meters_fuel = False, we_epoch_deadline = None, we_epoch_tick_ms = 10,
      we_cache = memory_only\<rparr>"

definition idle_handle :: pipeline_handle where
  "idle_handle =
     (handle_from_build_output sample_build (sample_dag\<lparr>cf_nodes := [(''t'', NTransform wasm_node_def_default)]\<rparr>))
       \<lparr>pl_replacement_eligible := {''t''}, pl_swap_in_progress := [''t'' \<mapsto> False], pl_watch_senders := [''t'' \<mapsto> 0]\<rparr>"

definition idle_request :: reconfigure_request where
  "idle_request = \<lparr>rq_config = Inr ''{}'', rq_expected_plugin_hash = None\<rparr>"

theorem replacement_requests_return_witness:
  "(\<exists>r h' w'. hot_swap idle_host (memory_engine) 32 ''t'' \<lparr>hq_wasm_path = ''p''\<rparr> idle_handle (sample_start [] 0) = Some (r, h', w')) \<and>
   (\<exists>r h' w'. reconfigure idle_host 32 ''t'' idle_request idle_handle (sample_start [] 0) = Some (r, h', w'))"
  using replacement_requests_return [OF idle_host_env idle_host_clock, of 31 memory_engine "''t''"
      "\<lparr>hq_wasm_path = ''p''\<rparr>" idle_handle "sample_start [] 0" idle_request]
  by (auto simp: CLAIMED_REPLACEMENT_INIT_WAIT_def)




end
