(* ===== verification/Doubles.thy ===== *)
theory Doubles
  imports HttpDest
begin

text \<open>
  IEEE 754 doubles as the Rust code uses them: the magnitude a bit pattern stands for, the rounding of an exact
  ratio to 53 bits with ties to even, conversion to integers, comparison, and the reading of decimal text by
  \<open>str::parse::<f64>\<close>. Nothing is approximated: a value is an integer times a power of two.
\<close>

section \<open>Encoding and rounding\<close>

fun bit_length :: "nat \<Rightarrow> nat" where
  "bit_length n = (if n = 0 then 0 else Suc (bit_length (n div 2)))"

declare bit_length.simps [simp del]

lemma bit_length_numeral [simp]:
  "bit_length 0 = 0" "bit_length 1 = 1" "bit_length (Suc 0) = 1"
  "bit_length (numeral (num.Bit0 k)) = Suc (bit_length (numeral k))"
  "bit_length (numeral (num.Bit1 k)) = Suc (bit_length (numeral k))"
  by (simp_all add: bit_length.simps [of 0] bit_length.simps [of 1] bit_length.simps [of "Suc 0"]
      bit_length.simps [of "numeral (num.Bit0 k)"] bit_length.simps [of "numeral (num.Bit1 k)"])

definition f64_exponent :: "f64_bits \<Rightarrow> nat" where
  "f64_exponent b = unat b div 2 ^ 52 mod 2048"

definition f64_fraction :: "f64_bits \<Rightarrow> nat" where
  "f64_fraction b = unat b mod 2 ^ 52"

definition f64_negative :: "f64_bits \<Rightarrow> bool" where
  "f64_negative b \<longleftrightarrow> 2 ^ 63 \<le> unat b"

definition f64_finite :: "f64_bits \<Rightarrow> bool" where
  "f64_finite b \<longleftrightarrow> f64_exponent b \<noteq> 2047"

text \<open>The magnitude of a finite double is \<open>m * 2 ^ e\<close>.\<close>

definition f64_magnitude :: "f64_bits \<Rightarrow> nat \<times> int" where
  "f64_magnitude b =
     (if f64_exponent b = 0 then (f64_fraction b, - 1074)
      else (f64_fraction b + 2 ^ 52, int (f64_exponent b) - 1075))"

text \<open>A ratio scaled by a power of two, and its rounding to 53 bits: \<open>n * 2 ^ p\<close>.\<close>

definition scaled :: "nat \<times> nat \<Rightarrow> int \<Rightarrow> nat \<times> nat" where
  "scaled q p = (if p \<ge> 0 then (fst q * 2 ^ nat p, snd q) else (fst q, snd q * 2 ^ nat (- p)))"

definition half_even :: "nat \<times> nat \<Rightarrow> nat" where
  "half_even q =
     (let n = fst q div snd q; r = fst q mod snd q
      in if 2 * r < snd q \<or> (2 * r = snd q \<and> even n) then n else n + 1)"

definition round_f64 :: "nat \<times> nat \<Rightarrow> nat \<times> int" where
  "round_f64 q =
     (if fst q = 0 then (0, 0)
      else
        let p = int (bit_length (fst q)) - int (bit_length (snd q)) - 53;
            p = (case scaled q (- p) of (a, b) \<Rightarrow> if 2 ^ 53 * b \<le> a then p + 1 else p);
            p = max p (- 1074)
        in (half_even (scaled q (- p)), p))"

definition f64_as_u64 :: "nat \<times> int \<Rightarrow> u64" where
  "f64_as_u64 v = u64_saturating (if snd v \<ge> 0 then fst v * 2 ^ nat (snd v) else fst v div 2 ^ nat (- snd v))"

definition f64_overflows :: "nat \<times> int \<Rightarrow> bool" where
  "f64_overflows v \<longleftrightarrow> snd v \<ge> 0 \<and> 2 ^ 1024 \<le> fst v * 2 ^ nat (snd v)"

definition f64_has_fract :: "nat \<times> int \<Rightarrow> bool" where
  "f64_has_fract v \<longleftrightarrow> snd v < 0 \<and> fst v mod 2 ^ nat (- snd v) \<noteq> 0"

section \<open>Values\<close>

datatype f64 = F64Nan | F64Inf bool | F64Fin bool "nat \<times> int"

definition f64_of_bits :: "f64_bits \<Rightarrow> f64" where
  "f64_of_bits b =
     (if f64_finite b then F64Fin (f64_negative b) (f64_magnitude b)
      else if f64_fraction b = 0 then F64Inf (f64_negative b) else F64Nan)"

text \<open>The value as a multiple of \<open>2 ^ k\<close>, and the order of IEEE: nothing compares with NaN, and zero has no sign.\<close>

definition signed_at :: "int \<Rightarrow> bool \<Rightarrow> nat \<times> int \<Rightarrow> int" where
  "signed_at k neg v = (let m = int (fst v * 2 ^ nat (snd v - k)) in if neg then - m else m)"

fun f64_le :: "f64 \<Rightarrow> f64 \<Rightarrow> bool" where
  "f64_le F64Nan _ = False"
| "f64_le _ F64Nan = False"
| "f64_le (F64Inf s) (F64Inf t) = (s \<or> \<not> t)"
| "f64_le (F64Inf s) (F64Fin _ _) = s"
| "f64_le (F64Fin _ _) (F64Inf t) = (\<not> t)"
| "f64_le (F64Fin s v) (F64Fin t u) = (let k = min (snd v) (snd u) in signed_at k s v \<le> signed_at k t u)"

definition f64_less :: "f64 \<Rightarrow> f64 \<Rightarrow> bool" where
  "f64_less x y \<longleftrightarrow> f64_le x y \<and> \<not> f64_le y x"

text \<open>\<open>f64::max\<close>: a NaN gives way to the other argument.\<close>

definition f64_max :: "f64 \<Rightarrow> f64 \<Rightarrow> f64" where
  "f64_max x y = (if x = F64Nan then y else if y = F64Nan then x else if f64_le x y then y else x)"

section \<open>Reading decimal text\<close>

definition is_digit :: "char \<Rightarrow> bool" where
  "is_digit c \<longleftrightarrow> 48 \<le> (of_char c :: nat) \<and> (of_char c :: nat) \<le> 57"

definition digits_value :: "string \<Rightarrow> nat" where
  "digits_value ds = foldl (\<lambda>n c. 10 * n + (of_char c - 48)) 0 ds"

text \<open>\<open>n * 10 ^ e\<close> rounded.\<close>

definition decimal_f64 :: "bool \<Rightarrow> nat \<Rightarrow> int \<Rightarrow> f64" where
  "decimal_f64 neg n e =
     (let v = round_f64 (if e \<ge> 0 then (n * 10 ^ nat e, 1) else (n, 10 ^ nat (- e)))
      in if f64_overflows v then F64Inf neg else F64Fin neg v)"

definition split_sign :: "string \<Rightarrow> bool \<times> string" where
  "split_sign s =
     (case s of c # r \<Rightarrow> if c = CHR ''-'' then (True, r) else if c = CHR ''+'' then (False, r) else (False, s) | [] \<Rightarrow> (False, s))"

definition parse_exponent :: "string \<Rightarrow> int option" where
  "parse_exponent s =
     (case s of
        [] \<Rightarrow> Some 0
      | c # r \<Rightarrow>
          if to_ascii_lower c = CHR ''e'' then
            let (neg, ds) = split_sign r
            in if ds \<noteq> [] \<and> list_all is_digit ds then Some ((if neg then - 1 else 1) * int (digits_value ds)) else None
          else None)"

definition parse_number :: "bool \<Rightarrow> string \<Rightarrow> f64 option" where
  "parse_number neg s =
     (let whole = takeWhile is_digit s; rest = dropWhile is_digit s;
          (frac, rest) = (case rest of
                            c # r \<Rightarrow> if c = CHR ''.'' then (takeWhile is_digit r, dropWhile is_digit r) else ([], rest)
                          | [] \<Rightarrow> ([], rest))
      in if whole @ frac = [] then None
         else map_option (\<lambda>e. decimal_f64 neg (digits_value (whole @ frac)) (e - int (length frac))) (parse_exponent rest))"

definition parse_f64 :: "string \<Rightarrow> f64 option" where
  "parse_f64 s =
     (let (neg, body) = split_sign s; lower = map to_ascii_lower body in
      if lower = ''inf'' \<or> lower = ''infinity'' then Some (F64Inf neg)
      else if lower = ''nan'' then Some F64Nan
      else parse_number neg body)"

end
