(* ===== verification/CoreUtil.thy ===== *)
theory CoreUtil
  imports Host
begin

text \<open>
  Two utilities of \<open>wafer-core/src/util.rs\<close>. The Unix clock read from the monotonic one, which adds elapsed
  time to an anchor taken once. And \<open>write_atomic\<close>: an artifact is written to a temporary file beside its
  path, synced and renamed over it. A path is its parent and its last component; the file operations of the
  standard library are a parameter, with what the operating system documents of them as \<open>file_laws\<close>. The
  theorem is the promise of the function's comment: at no moment is a truncated artifact at the path.
\<close>

section \<open>The monotonic Unix clock\<close>

record 'w anchored_host = "'w host" +
  ah_anchor :: "instant \<times> u64"

definition monotonic_unix_ns :: "('w, 'h) anchored_host_scheme \<Rightarrow> 'w \<Rightarrow> u64 \<times> 'w" where
  "monotonic_unix_ns H w =
     (let (origin, origin_unix_ns) = ah_anchor H; (el, w) = elapsed H origin w
      in (sat_add origin_unix_ns (duration_ns_saturating el), w))"

definition wall_clock_step_ns :: "('w, 'h) anchored_host_scheme \<Rightarrow> 'w \<Rightarrow> int \<times> 'w" where
  "wall_clock_step_ns H w =
     (let (t, w) = h_system_now H w; wall_ns = unix_epoch_nanos t; (mono, w) = monotonic_unix_ns H w;
          step_ns = uint wall_ns - uint mono
      in (if - (2 ^ 63) \<le> step_ns \<and> step_ns < 2 ^ 63 then step_ns else 2 ^ 63 - 1, w))"

section \<open>Atomic files\<close>

datatype path = Path (path_parent: string) (path_name: string)

definition file_name :: "path \<Rightarrow> string option" where
  "file_name p = (if path_name p = [] then None else Some (path_name p))"

definition with_file_name :: "string \<Rightarrow> path \<Rightarrow> path" where
  "with_file_name name p = Path (path_parent p) name"

record ('a, 'w) file_ops =
  fs_create :: "path \<Rightarrow> 'w \<Rightarrow> (string, unit) result \<times> 'w"
  fs_write_all :: "path \<Rightarrow> 'a \<Rightarrow> 'w \<Rightarrow> (string, unit) result \<times> 'w"
  fs_sync_all :: "path \<Rightarrow> 'w \<Rightarrow> (string, unit) result \<times> 'w"
  fs_rename :: "path \<Rightarrow> path \<Rightarrow> 'w \<Rightarrow> (string, unit) result \<times> 'w"
  fs_remove :: "path \<Rightarrow> 'w \<Rightarrow> (string, unit) result \<times> 'w"

text \<open>\<open>Result::and_then\<close> on effectful steps.\<close>

definition and_then ::
    "('w \<Rightarrow> (string, unit) result \<times> 'w) \<Rightarrow> ('w \<Rightarrow> (string, unit) result \<times> 'w) \<Rightarrow> 'w \<Rightarrow> (string, unit) result \<times> 'w" where
  "and_then f g w = (let (r, w) = f w in case r of Inl e \<Rightarrow> (Inl e, w) | Inr _ \<Rightarrow> g w)"

definition temporary_of :: "path \<Rightarrow> path" where
  "temporary_of p = with_file_name (''.'' @ path_name p @ ''.tmp'') p"

definition write_atomic :: "('a, 'w) file_ops \<Rightarrow> path \<Rightarrow> 'a \<Rightarrow> 'w \<Rightarrow> (string, unit) result \<times> 'w" where
  "write_atomic F p a w =
     (case file_name p of
        None \<Rightarrow> (Inl ''artifact path has no file name'', w)
      | Some _ \<Rightarrow>
          let temporary = temporary_of p;
              (r, w) = and_then (fs_create F temporary)
                         (and_then (and_then (fs_write_all F temporary a) (fs_sync_all F temporary))
                            (fs_rename F temporary p)) w
          in case r of
               Inl e \<Rightarrow> (Inl e, snd (fs_remove F temporary w))
             | Inr _ \<Rightarrow> (Inr (), w))"

section \<open>Atomicity\<close>

text \<open>
  A failed or interrupted creation or write may leave anything at its own path, but nowhere else; a
  complete write leaves the contents; a rename either moves the file or does nothing.
\<close>

definition file_laws :: "('w \<Rightarrow> path \<Rightarrow> 'a option) \<Rightarrow> ('a, 'w) file_ops \<Rightarrow> bool" where
  "file_laws files F \<longleftrightarrow>
     (\<forall>p q w. q \<noteq> p \<longrightarrow> files (snd (fs_create F p w)) q = files w q) \<and>
     (\<forall>p a q w. q \<noteq> p \<longrightarrow> files (snd (fs_write_all F p a w)) q = files w q) \<and>
     (\<forall>p a w. fst (fs_write_all F p a w) = Inr () \<longrightarrow> files (snd (fs_write_all F p a w)) p = Some a) \<and>
     (\<forall>p w. files (snd (fs_sync_all F p w)) = files w) \<and>
     (\<forall>p q w. files (snd (fs_rename F p q w)) =
        (if fst (fs_rename F p q w) = Inr () then (files w)(q := files w p, p := None) else files w)) \<and>
     (\<forall>p q w. q \<noteq> p \<longrightarrow> files (snd (fs_remove F p w)) q = files w q)"

lemma file_lawsD:
  assumes "file_laws files F"
  shows "q \<noteq> p \<Longrightarrow> files (snd (fs_create F p w)) q = files w q"
    "q \<noteq> p \<Longrightarrow> files (snd (fs_write_all F p a w)) q = files w q"
    "fst (fs_write_all F p a w) = Inr () \<Longrightarrow> files (snd (fs_write_all F p a w)) p = Some a"
    "files (snd (fs_sync_all F p w)) = files w"
    "files (snd (fs_rename F p q w)) =
       (if fst (fs_rename F p q w) = Inr () then (files w)(q := files w p, p := None) else files w)"
    "q \<noteq> p \<Longrightarrow> files (snd (fs_remove F p w)) q = files w q"
  using assms by (auto simp: file_laws_def)

text \<open>The worlds the call passes through, one after each file operation it makes: where a crash can find it.\<close>

fun run_until_error :: "('w \<Rightarrow> (string, unit) result \<times> 'w) list \<Rightarrow> 'w \<Rightarrow> 'w list \<times> (string, unit) result" where
  "run_until_error [] w = ([], Inr ())"
| "run_until_error (f # fs) w =
     (let (r, w) = f w in
      case r of Inl e \<Rightarrow> ([w], Inl e) | Inr _ \<Rightarrow> let (ws, r) = run_until_error fs w in (w # ws, r))"

definition write_steps :: "('a, 'w) file_ops \<Rightarrow> path \<Rightarrow> 'a \<Rightarrow> ('w \<Rightarrow> (string, unit) result \<times> 'w) list" where
  "write_steps F p a =
     (let t = temporary_of p in [fs_create F t, fs_write_all F t a, fs_sync_all F t, fs_rename F t p])"

definition write_worlds :: "('a, 'w) file_ops \<Rightarrow> path \<Rightarrow> 'a \<Rightarrow> 'w \<Rightarrow> 'w list" where
  "write_worlds F p a w =
     (let (ws, r) = run_until_error (write_steps F p a) w
      in w # ws @ (case r of Inl _ \<Rightarrow> [snd (fs_remove F (temporary_of p) (last ws))] | Inr _ \<Rightarrow> []))"

lemma write_atomic_worlds:
  assumes "path_name p \<noteq> []"
  shows "snd (write_atomic F p a w) = last (write_worlds F p a w)"
  using assms
  by (auto simp: write_atomic_def file_name_def write_worlds_def write_steps_def and_then_def Let_def
      split: prod.splits sum.splits)

lemma temporary_distinct: "temporary_of p \<noteq> p"
proof
  assume "temporary_of p = p"
  then have "length (path_name (temporary_of p)) = length (path_name p)" by simp
  then show False by (simp add: temporary_of_def with_file_name_def)
qed

text \<open>What each of the four steps may find and leave at the path and at the temporary file.\<close>

lemma write_worlds_files:
  assumes "file_laws files F" "w' \<in> set (write_worlds F p a w)"
  shows "files w' p \<in> {files w p, Some a}" "q \<noteq> p \<Longrightarrow> q \<noteq> temporary_of p \<Longrightarrow> files w' q = files w q"
proof -
  let ?t = "temporary_of p"
  note laws = file_lawsD [OF assms(1)]
  obtain r1 w1 where c: "fs_create F ?t w = (r1, w1)" by fastforce
  obtain r2 w2 where wr: "fs_write_all F ?t a w1 = (r2, w2)" by fastforce
  obtain r3 w3 where sy: "fs_sync_all F ?t w2 = (r3, w3)" by fastforce
  obtain r4 w4 where rn: "fs_rename F ?t p w3 = (r4, w4)" by fastforce
  have 1: "\<And>q. q \<noteq> ?t \<Longrightarrow> files w1 q = files w q" using laws(1) [of _ ?t w] c by simp
  have 2: "\<And>q. q \<noteq> ?t \<Longrightarrow> files w2 q = files w1 q" "r2 = Inr () \<Longrightarrow> files w2 ?t = Some a"
    using laws(2) [of _ ?t a w1] laws(3) [of ?t a w1] wr by simp_all
  have 3: "files w3 = files w2" using laws(4) [of ?t w2] sy by simp
  have 4: "files w4 = (if r4 = Inr () then (files w3)(p := files w3 ?t, ?t := None) else files w3)"
    using laws(5) [of ?t p w3] rn by simp
  have 5: "\<And>q v. q \<noteq> ?t \<Longrightarrow> files (snd (fs_remove F ?t v)) q = files v q" using laws(6) by simp
  have t: "p \<noteq> ?t" using temporary_distinct by metis
  have mem: "w' = w \<or> w' = w1 \<or> w' = snd (fs_remove F ?t w1) \<or> w' = w2 \<or> w' = snd (fs_remove F ?t w2) \<or>
      (r2 = Inr () \<and> (w' = w3 \<or> w' = snd (fs_remove F ?t w3) \<or> w' = w4 \<or> w' = snd (fs_remove F ?t w4)))"
    using assms(2) c wr sy rn
    by (auto simp: write_worlds_def write_steps_def Let_def split: sum.splits)
  show "files w' p \<in> {files w p, Some a}" using mem 1 2 3 4 5 t by auto
  show "q \<noteq> p \<Longrightarrow> q \<noteq> ?t \<Longrightarrow> files w' q = files w q" using mem 1 2 3 4 5 by auto
qed

text \<open>The result: a successful call leaves the artifact, a failed one the old contents.\<close>

lemma write_atomic_files:
  assumes "file_laws files F" "path_name p \<noteq> []" "write_atomic F p a w = (r, w')"
  shows "files w' p = (if r = Inr () then Some a else files w p)"
    "q \<noteq> p \<Longrightarrow> q \<noteq> temporary_of p \<Longrightarrow> files w' q = files w q"
proof -
  let ?t = "temporary_of p"
  note laws = file_lawsD [OF assms(1)]
  obtain r1 w1 where c: "fs_create F ?t w = (r1, w1)" by fastforce
  obtain r2 w2 where wr: "fs_write_all F ?t a w1 = (r2, w2)" by fastforce
  obtain r3 w3 where sy: "fs_sync_all F ?t w2 = (r3, w3)" by fastforce
  obtain r4 w4 where rn: "fs_rename F ?t p w3 = (r4, w4)" by fastforce
  have t: "p \<noteq> ?t" using temporary_distinct by metis
  have "files w1 p = files w p" using laws(1) [OF t, of w] c by simp
  moreover have "files w2 p = files w1 p" "r2 = Inr () \<Longrightarrow> files w2 ?t = Some a"
    using laws(2) [OF t, of a w1] laws(3) [of ?t a w1] wr by simp_all
  moreover have "files w3 = files w2" using laws(4) [of ?t w2] sy by simp
  moreover have "files w4 p = (if r4 = Inr () then files w3 ?t else files w3 p)" using laws(5) [of ?t p w3] rn t by simp
  ultimately show "files w' p = (if r = Inr () then Some a else files w p)"
    using assms(2,3) c wr sy rn laws(6) [OF t]
    by (cases r1; cases r2; cases r3; cases r4) (auto simp: write_atomic_def file_name_def and_then_def)
  have "w' \<in> set (write_worlds F p a w)"
    using write_atomic_worlds [OF assms(2), of F a w] assms(3) last_in_set [of "write_worlds F p a w"]
    by (simp add: write_worlds_def case_prod_beta)
  then show "q \<noteq> p \<Longrightarrow> q \<noteq> ?t \<Longrightarrow> files w' q = files w q" by (rule write_worlds_files(2) [OF assms(1)])
qed

text \<open>
  C31: An artifact is never torn. In every world the call passes through, after the creation of the temporary
  file, the write, the sync, the rename and the clean-up, the path holds its old contents or the whole
  artifact; no file but the path and its temporary file changes; and in the end the path holds the artifact
  exactly when the call succeeded.
\<close>

theorem artifact_never_torn:
  assumes "file_laws files F" "path_name p \<noteq> []" "write_atomic F p a w = (r, w')"
  shows "(\<forall>v \<in> set (write_worlds F p a w). files v p \<in> {files w p, Some a} \<and>
       (\<forall>q. q \<noteq> p \<and> q \<noteq> temporary_of p \<longrightarrow> files v q = files w q)) \<and>
    last (write_worlds F p a w) = w' \<and> files w' p = (if r = Inr () then Some a else files w p)"
  using write_worlds_files [OF assms(1)] write_atomic_worlds [OF assms(2), of F a w] write_atomic_files(1) [OF assms] assms(3)
  by auto

text \<open>Files as a map, with a disk on which some paths cannot be written.\<close>

definition map_files :: "(path \<Rightarrow> bool) \<Rightarrow> ('a, path \<Rightarrow> 'a option) file_ops" where
  "map_files full =
     \<lparr>fs_create = (\<lambda>p w. (Inr (), w(p := None))),
      fs_write_all = (\<lambda>p a w. if full p then (Inl ''disk full'', w(p := None)) else (Inr (), w(p := Some a))),
      fs_sync_all = (\<lambda>p w. (Inr (), w)),
      fs_rename = (\<lambda>p q w. (Inr (), w(q := w p, p := None))), fs_remove = (\<lambda>p w. (Inr (), w(p := None)))\<rparr>"

lemma map_files_laws: "file_laws (\<lambda>w. w) (map_files full)"
  by (simp add: file_laws_def map_files_def)

theorem artifact_never_torn_witness:
  "let full = (\<lambda>p. path_name p = ''.b.tmp''); w = (\<lambda>_. None)(Path ''out'' ''b'' := Some (1 :: nat))
   in fst (write_atomic (map_files full) (Path ''out'' ''a'') 7 w) = Inr () \<and>
      snd (write_atomic (map_files full) (Path ''out'' ''a'') 7 w) (Path ''out'' ''a'') = Some 7 \<and>
      fst (write_atomic (map_files full) (Path ''out'' ''b'') 7 w) = Inl ''disk full'' \<and>
      snd (write_atomic (map_files full) (Path ''out'' ''b'') 7 w) (Path ''out'' ''b'') = Some 1"
proof -
  let ?F = "map_files (\<lambda>p. path_name p = ''.b.tmp'')" and ?w = "(\<lambda>_. None)(Path ''out'' ''b'' := Some (1 :: nat))"
  have r: "fst (write_atomic ?F (Path ''out'' ''a'') 7 ?w) = Inr ()" "fst (write_atomic ?F (Path ''out'' ''b'') 7 ?w) = Inl ''disk full''"
    by (simp_all add: write_atomic_def file_name_def and_then_def temporary_of_def with_file_name_def map_files_def)
  show ?thesis
    using r artifact_never_torn [OF map_files_laws _ prod.collapse [symmetric], of "Path ''out'' ''a''" "\<lambda>p. path_name p = ''.b.tmp''" 7 ?w]
      artifact_never_torn [OF map_files_laws _ prod.collapse [symmetric], of "Path ''out'' ''b''" "\<lambda>p. path_name p = ''.b.tmp''" 7 ?w]
    by (simp add: Let_def)
qed

end
