(* ===== verification/BenchRecorders.thy ===== *)
theory BenchRecorders
  imports Prelude
begin

text \<open>
  The recorders of the benchmark sink, \<open>wafer-core/src/node/sink/bench.rs\<close>: version transitions, the
  one-second throughput grid, the interval latency rows and the burst observation with its fine
  event buckets. A sample's whole seconds are kept as an integer and rates, which are only printed,
  are left out. The histogram is the \<open>hdrhistogram\<close> crate's, so its operations are an argument.
\<close>

section \<open>Hot-swap recorder\<close>

record swap_transition =
  sx_from :: string
  sx_to :: string
  sx_pause_ns :: u64

record hot_swap_recorder =
  hr_current_version :: "string option"
  hr_last_v1_time_ns :: "u64 option"
  hr_first_v2_time_ns :: "u64 option"
  hr_transitions :: "swap_transition list"

definition recorder_new :: hot_swap_recorder where
  "recorder_new =
     \<lparr>hr_current_version = None, hr_last_v1_time_ns = None, hr_first_v2_time_ns = None, hr_transitions = []\<rparr>"

definition recorder_record :: "string \<Rightarrow> u64 \<Rightarrow> hot_swap_recorder \<Rightarrow> hot_swap_recorder" where
  "recorder_record version timestamp_ns r =
     (case hr_current_version r of
        None \<Rightarrow> r\<lparr>hr_current_version := Some version, hr_last_v1_time_ns := Some timestamp_ns\<rparr>
      | Some current \<Rightarrow>
          if current \<noteq> version then
            let pause_ns = (case hr_last_v1_time_ns r of None \<Rightarrow> 0 | Some prev \<Rightarrow> sat_sub timestamp_ns prev)
            in r\<lparr>hr_first_v2_time_ns := Some timestamp_ns,
                 hr_transitions := hr_transitions r @ [\<lparr>sx_from = current, sx_to = version, sx_pause_ns = pause_ns\<rparr>],
                 hr_current_version := Some version, hr_last_v1_time_ns := Some timestamp_ns\<rparr>
          else r\<lparr>hr_last_v1_time_ns := Some timestamp_ns\<rparr>)"

definition pause_duration_ns :: "hot_swap_recorder \<Rightarrow> u64 option" where
  "pause_duration_ns r = (if hr_transitions r = [] then None else Some (sx_pause_ns (last (hr_transitions r))))"

definition last_v1_ns :: "hot_swap_recorder \<Rightarrow> u64 option" where
  "last_v1_ns r =
     (case hr_first_v2_time_ns r of
        None \<Rightarrow> None
      | Some first_v2 \<Rightarrow>
          if hr_transitions r = [] then None
          else Some (sat_sub first_v2 (sx_pause_ns (last (hr_transitions r)))))"

definition first_v2_ns :: "hot_swap_recorder \<Rightarrow> u64 option" where
  "first_v2_ns r = hr_first_v2_time_ns r"

section \<open>Throughput grid\<close>

record throughput_sample =
  tp_elapsed_secs :: u64
  tp_msg_count :: u64
  tp_bytes :: u64

record throughput_grid =
  tg_samples :: "throughput_sample list"
  tg_bucket :: u64
  tg_msg_count :: u64
  tg_bytes :: u64

definition grid_default :: throughput_grid where
  "grid_default = \<lparr>tg_samples = [], tg_bucket = 0, tg_msg_count = 0, tg_bytes = 0\<rparr>"

definition close_bucket :: "throughput_grid \<Rightarrow> throughput_grid" where
  "close_bucket g =
     (let bucket = sat_add (tg_bucket g) 1 in
      g\<lparr>tg_bucket := bucket,
        tg_samples := tg_samples g @
          [\<lparr>tp_elapsed_secs = bucket, tp_msg_count = tg_msg_count g, tp_bytes = tg_bytes g\<rparr>],
        tg_msg_count := 0, tg_bytes := 0\<rparr>)"

lemma sat_add_of_nat: "n + 1 < 2 ^ LENGTH('a) \<Longrightarrow> sat_add (of_nat n) 1 = (of_nat (n + 1) :: 'a::len word)"
proof -
  assume n: "n + 1 < 2 ^ LENGTH('a)"
  then have "n + 1 \<le> 2 ^ LENGTH('a) - 1" by linarith
  with n show ?thesis by (simp add: sat_add_def le_diff_max unat_of_nat add.commute)
qed

lemma unat_sat_add_one: "a < b \<Longrightarrow> unat (sat_add a 1) = unat a + 1" for a b :: "'a::len word"
  using unat_le_max [of b] by (simp add: unat_sat_add word_less_nat_alt)

function advance_grid :: "u64 \<Rightarrow> throughput_grid \<Rightarrow> throughput_grid" where
  "advance_grid secs g = (if tg_bucket g < secs then advance_grid secs (close_bucket g) else g)"
  by auto
termination
  by (relation "measure (\<lambda>(s, g). unat s - unat (tg_bucket g))")
     (auto simp: close_bucket_def Let_def unat_sat_add_one word_less_nat_alt)

declare advance_grid.simps [simp del]

definition as_secs :: "duration \<Rightarrow> u64" where
  "as_secs d = of_nat (d div 1000000000)"

definition grid_record :: "duration \<Rightarrow> u64 \<Rightarrow> throughput_grid \<Rightarrow> throughput_grid" where
  "grid_record since_start bytes g =
     (let g = advance_grid (as_secs since_start) g
      in g\<lparr>tg_msg_count := sat_add (tg_msg_count g) 1, tg_bytes := sat_add (tg_bytes g) bytes\<rparr>)"

definition grid_finish :: "throughput_grid \<Rightarrow> throughput_grid" where
  "grid_finish g = (if tg_msg_count g > 0 then close_bucket g else g)"

section \<open>Interval latency\<close>

definition INTERVAL_WIDTH_NS :: u64 where
  "INTERVAL_WIDTH_NS = 1000000000"

text \<open>The latency histogram: \<open>quantile\<close> reads \<open>value_at_quantile\<close> at a number of hundredths.\<close>

record 'h histogram_ops =
  hg_new :: 'h
  hg_saturating_record :: "u64 \<Rightarrow> 'h \<Rightarrow> 'h"
  hg_len :: "'h \<Rightarrow> u64"
  hg_quantile :: "nat \<Rightarrow> 'h \<Rightarrow> u64"
  hg_reset :: "'h \<Rightarrow> 'h"

record interval_latency_row =
  iv_interval_start_ns :: u64
  iv_interval_end_ns :: u64
  iv_interval_start_unix_epoch_ns :: u64
  iv_interval_end_unix_epoch_ns :: u64
  iv_latency_count :: u64
  iv_latency_p50_ns :: "u64 option"
  iv_latency_p95_ns :: "u64 option"
  iv_latency_p99_ns :: "u64 option"
  iv_received_events :: u64
  iv_throughput_messages :: u64
  iv_duplicates :: u64

record 'h interval_recorder =
  ir_measurement_start_unix_epoch_ns :: u64
  ir_declared_measurement_duration_ns :: u64
  ir_maximum_rows :: usize
  ir_current_bucket :: usize
  ir_histogram :: 'h
  ir_events :: u64
  ir_unique :: u64
  ir_duplicates :: u64
  ir_rows :: "interval_latency_row list"
  ir_overflowed :: bool
  ir_finalized :: bool

definition interval_new :: "'h histogram_ops \<Rightarrow> u64 \<Rightarrow> u64 \<Rightarrow> 'h interval_recorder" where
  "interval_new G start measurement_secs =
     \<lparr>ir_measurement_start_unix_epoch_ns = start,
      ir_declared_measurement_duration_ns = sat_mul measurement_secs INTERVAL_WIDTH_NS,
      ir_maximum_rows = min (unat measurement_secs + 2) (2 ^ 64 - 1),
      ir_current_bucket = 0, ir_histogram = hg_new G, ir_events = 0, ir_unique = 0, ir_duplicates = 0,
      ir_rows = [], ir_overflowed = False, ir_finalized = False\<rparr>"

definition finish_current :: "'h histogram_ops \<Rightarrow> u64 \<Rightarrow> 'h interval_recorder \<Rightarrow> 'h interval_recorder" where
  "finish_current G width_ns r =
     (let start_ns = sat_mul (u64_saturating (ir_current_bucket r)) INTERVAL_WIDTH_NS;
          end_ns = sat_add start_ns width_ns;
          count = hg_len G (ir_histogram r);
          at = (\<lambda>q. if count > 0 then Some (hg_quantile G q (ir_histogram r)) else None)
      in
      r\<lparr>ir_rows := ir_rows r @
          [\<lparr>iv_interval_start_ns = start_ns, iv_interval_end_ns = end_ns,
            iv_interval_start_unix_epoch_ns = sat_add (ir_measurement_start_unix_epoch_ns r) start_ns,
            iv_interval_end_unix_epoch_ns = sat_add (ir_measurement_start_unix_epoch_ns r) end_ns,
            iv_latency_count = count, iv_latency_p50_ns = at 50, iv_latency_p95_ns = at 95, iv_latency_p99_ns = at 99,
            iv_received_events = ir_events r, iv_throughput_messages = ir_unique r, iv_duplicates = ir_duplicates r\<rparr>],
        ir_histogram := hg_reset G (ir_histogram r), ir_events := 0, ir_unique := 0, ir_duplicates := 0,
        ir_current_bucket := ir_current_bucket r + 1\<rparr>)"

text \<open>The two loops: close whole intervals up to a bucket, while there is room for a row.\<close>

function advance_interval :: "'h histogram_ops \<Rightarrow> usize \<Rightarrow> 'h interval_recorder \<Rightarrow> 'h interval_recorder" where
  "advance_interval G bucket r =
     (if ir_current_bucket r < bucket \<and> length (ir_rows r) < ir_maximum_rows r
      then advance_interval G bucket (finish_current G INTERVAL_WIDTH_NS r) else r)"
  by auto
termination
  by (relation "measure (\<lambda>(G, b, r). b - ir_current_bucket r)") (auto simp: finish_current_def Let_def)

declare advance_interval.simps [simp del]

definition interval_record ::
    "'h histogram_ops \<Rightarrow> u64 \<Rightarrow> u64 option \<Rightarrow> bool \<Rightarrow> 'h interval_recorder \<Rightarrow> 'h interval_recorder" where
  "interval_record G elapsed_ns latency_ns duplicate r =
     (let bucket = unat (elapsed_ns div INTERVAL_WIDTH_NS);
          r = advance_interval G bucket r
      in
      if bucket \<noteq> ir_current_bucket r \<or> length (ir_rows r) = ir_maximum_rows r then r\<lparr>ir_overflowed := True\<rparr>
      else
        let r = (case latency_ns of
                   None \<Rightarrow> r
                 | Some l \<Rightarrow> r\<lparr>ir_histogram := hg_saturating_record G l (ir_histogram r)\<rparr>);
            r = r\<lparr>ir_events := sat_add (ir_events r) 1\<rparr>
        in
        if duplicate then r\<lparr>ir_duplicates := sat_add (ir_duplicates r) 1\<rparr>
        else r\<lparr>ir_unique := sat_add (ir_unique r) 1\<rparr>)"

definition interval_finalize :: "'h histogram_ops \<Rightarrow> u64 \<Rightarrow> 'h interval_recorder \<Rightarrow> 'h interval_recorder" where
  "interval_finalize G elapsed_ns r =
     (if ir_finalized r then r
      else
        let r = r\<lparr>ir_finalized := True\<rparr> in
        if elapsed_ns = 0 then r
        else
          let final_bucket = unat (sat_sub elapsed_ns 1 div INTERVAL_WIDTH_NS) in
          if final_bucket \<ge> ir_maximum_rows r then r\<lparr>ir_overflowed := True\<rparr>
          else
            let r = advance_interval G final_bucket r in
            if length (ir_rows r) < ir_maximum_rows r then
              let remainder = elapsed_ns mod INTERVAL_WIDTH_NS
              in finish_current G (if remainder = 0 then INTERVAL_WIDTH_NS else remainder) r
            else r)"

text \<open>What \<open>write\<close> refuses before it writes the artifact; the sum panics or wraps only past \<open>2 ^ 64\<close>.\<close>

definition interval_check :: "u64 \<Rightarrow> 'h interval_recorder \<Rightarrow> (string, unit) result" where
  "interval_check aggregate_count r =
     (if ir_overflowed r then Inl ''interval row limit exceeded''
      else
        let interval_count = sum_list (map iv_latency_count (ir_rows r)) in
        if interval_count \<noteq> aggregate_count
        then Inl (''interval latency population '' @ show_nat (unat interval_count) @ '' differs from aggregate ''
                  @ show_nat (unat aggregate_count))
        else Inr ())"

section \<open>Transitions\<close>

type_synonym observation = "string \<times> u64"

definition observe :: "observation list \<Rightarrow> hot_swap_recorder" where
  "observe obs = fold (\<lambda>(v, t). recorder_record v t) obs recorder_new"

definition changes :: "observation list \<Rightarrow> (observation \<times> observation) list" where
  "changes obs = filter (\<lambda>(a, b). fst a \<noteq> fst b) (zip obs (tl obs))"

definition transition_of :: "observation \<times> observation \<Rightarrow> swap_transition" where
  "transition_of = (\<lambda>(a, b). \<lparr>sx_from = fst a, sx_to = fst b, sx_pause_ns = sat_sub (snd b) (snd a)\<rparr>)"

lemma changes_Nil: "changes [] = []" "changes [x] = []"
  by (simp_all add: changes_def)

lemma changes_snoc:
  "changes (obs @ [o']) = (if obs = [] then [] else changes obs @ (if fst (last obs) \<noteq> fst o' then [(last obs, o')] else []))"
proof (cases obs rule: rev_cases)
  case (snoc ys y)
  have "zip (ys @ [y, o']) (tl (ys @ [y, o'])) = zip (ys @ [y]) (tl (ys @ [y])) @ [(y, o')]"
    by (induction ys rule: induct_list012) simp_all
  then show ?thesis by (simp add: snoc changes_def)
qed (simp add: changes_def)

lemma observe_spec:
  "hr_current_version (observe obs) = (if obs = [] then None else Some (fst (last obs))) \<and>
   hr_last_v1_time_ns (observe obs) = (if obs = [] then None else Some (snd (last obs))) \<and>
   hr_first_v2_time_ns (observe obs) = (if changes obs = [] then None else Some (snd (snd (last (changes obs))))) \<and>
   hr_transitions (observe obs) = map transition_of (changes obs)"
proof (induction obs rule: rev_induct)
  case (snoc o' obs)
  have "observe (obs @ [o']) = recorder_record (fst o') (snd o') (observe obs)"
    by (simp add: observe_def case_prod_beta)
  with snoc show ?case
    by (cases "obs = []"; cases "fst (last obs) = fst o'")
       (simp_all add: recorder_record_def changes_snoc transition_of_def Let_def case_prod_beta changes_Nil
         observe_def recorder_new_def)
qed (simp add: observe_def recorder_new_def changes_Nil)

section \<open>The throughput grid\<close>

type_synonym arrival = "duration \<times> u64"

definition second_of :: "arrival \<Rightarrow> nat" where
  "second_of a = fst a div 1000000000"

definition in_second :: "nat \<Rightarrow> arrival list \<Rightarrow> arrival list" where
  "in_second i arr = filter (\<lambda>a. second_of a = i) arr"

definition total_bytes :: "arrival list \<Rightarrow> u64" where
  "total_bytes arr = fold (\<lambda>a n. sat_add n (snd a)) arr 0"

definition grid_row :: "arrival list \<Rightarrow> nat \<Rightarrow> throughput_sample" where
  "grid_row arr i =
     \<lparr>tp_elapsed_secs = of_nat (i + 1), tp_msg_count = of_nat (length (in_second i arr)),
      tp_bytes = total_bytes (in_second i arr)\<rparr>"

definition grid_inv :: "arrival list \<Rightarrow> nat \<Rightarrow> throughput_grid \<Rightarrow> bool" where
  "grid_inv arr b g \<longleftrightarrow>
     tg_samples g = map (grid_row arr) [0..<b] \<and> tg_bucket g = of_nat b \<and> b < 2 ^ 64 \<and>
     tg_msg_count g = of_nat (length (in_second b arr)) \<and> tg_bytes g = total_bytes (in_second b arr) \<and>
     (\<forall>a \<in> set arr. second_of a \<le> b)"

lemma grid_close:
  assumes "grid_inv arr b g" "b + 1 < 2 ^ 64"
  shows "grid_inv arr (b + 1) (close_bucket g)"
proof -
  have "in_second (b + 1) arr = []"
    using assms(1) by (force simp: grid_inv_def in_second_def filter_empty_conv)
  moreover have "sat_add (of_nat b) 1 = (of_nat (b + 1) :: u64)"
    by (rule sat_add_of_nat) (use assms(2) in simp)
  ultimately show ?thesis
    using assms by (auto simp: grid_inv_def close_bucket_def Let_def grid_row_def total_bytes_def)
qed

lemma grid_advance:
  assumes "grid_inv arr b g" "b \<le> s" "s < 2 ^ 64"
  shows "grid_inv arr s (advance_grid (of_nat s) g)"
  using assms
proof (induction "s - b" arbitrary: b g)
  case 0
  then show ?case by (simp add: advance_grid.simps grid_inv_def)
next
  case (Suc n)
  then have lt: "b < s" by simp
  then have "tg_bucket g < of_nat s"
    using Suc.prems by (simp add: grid_inv_def word_less_nat_alt unat_of_nat)
  moreover have "grid_inv arr s (advance_grid (of_nat s) (close_bucket g))"
    by (rule Suc.hyps(1) [of "b + 1"]) (use Suc lt grid_close [of arr b g] in auto)
  ultimately show ?case by (simp add: advance_grid.simps [of _ g])
qed

lemma grid_record_step:
  assumes "grid_inv arr b g" "b \<le> second_of a" "second_of a < 2 ^ 64" "length arr + 1 < 2 ^ 64"
  shows "grid_inv (arr @ [a]) (second_of a) (grid_record (fst a) (snd a) g)"
proof -
  let ?s = "second_of a"
  have inv: "grid_inv arr ?s (advance_grid (of_nat ?s) g)" using grid_advance [OF assms(1-3)] .
  have "length (in_second ?s arr) + 1 < 2 ^ 64"
    using assms(4) le_less_trans [OF length_filter_le] by (simp add: in_second_def)
  then have "sat_add (of_nat (length (in_second ?s arr))) 1 = (of_nat (length (in_second ?s arr) + 1) :: u64)"
    by (intro sat_add_of_nat) simp
  moreover have "in_second i (arr @ [a]) = in_second i arr" if "i < ?s" for i
    using that by (simp add: in_second_def)
  ultimately show ?thesis
    using inv by (auto simp: grid_inv_def grid_record_def as_secs_def second_of_def [symmetric] Let_def
        in_second_def total_bytes_def grid_row_def)
qed

lemma grid_run:
  assumes "sorted (map fst arr)" "length arr < 2 ^ 64" "\<forall>a \<in> set arr. second_of a + 1 < 2 ^ 64"
  shows "grid_inv arr (if arr = [] then 0 else second_of (last arr)) (fold (\<lambda>a. grid_record (fst a) (snd a)) arr grid_default)"
  using assms
proof (induction arr rule: rev_induct)
  case (snoc a arr)
  let ?b = "if arr = [] then 0 else second_of (last arr)"
  have "?b \<le> second_of a"
    using snoc.prems(1) by (auto simp: sorted_append second_of_def intro!: div_le_mono)
  moreover have "grid_inv arr ?b (fold (\<lambda>a. grid_record (fst a) (snd a)) arr grid_default)"
    using snoc by (simp add: sorted_append)
  ultimately show ?case
    using grid_record_step [of arr ?b _ a] snoc.prems by simp
qed (simp add: grid_inv_def grid_default_def in_second_def total_bytes_def)

lemma grid_finished:
  assumes "arr \<noteq> []" "sorted (map fst arr)" "length arr < 2 ^ 64" "\<forall>a \<in> set arr. second_of a + 1 < 2 ^ 64"
  shows "tg_samples (grid_finish (fold (\<lambda>a. grid_record (fst a) (snd a)) arr grid_default)) =
    map (grid_row arr) [0..<second_of (last arr) + 1]"
proof -
  let ?g = "fold (\<lambda>a. grid_record (fst a) (snd a)) arr grid_default" and ?s = "second_of (last arr)"
  have inv: "grid_inv arr ?s ?g" using grid_run [OF assms(2-4)] assms(1) by simp
  have "last arr \<in> set (in_second ?s arr)" using assms(1) by (simp add: in_second_def)
  then have "0 < length (in_second ?s arr)" by (cases "in_second ?s arr") auto
  moreover have "length (in_second ?s arr) < 2 ^ 64"
    using assms(3) le_less_trans [OF length_filter_le] by (simp add: in_second_def)
  ultimately have "0 < tg_msg_count ?g"
    using inv by (simp add: grid_inv_def word_less_nat_alt unat_of_nat)
  moreover have "grid_inv arr (?s + 1) (close_bucket ?g)"
    using grid_close [OF inv] assms(1,4) by simp
  ultimately show ?thesis by (simp add: grid_finish_def grid_inv_def)
qed

section \<open>The interval rows\<close>

text \<open>\<open>hdrhistogram\<close>: an empty histogram counts nothing, recording counts one, resetting empties it.\<close>

definition counting_histogram :: "'h histogram_ops \<Rightarrow> bool" where
  "counting_histogram G \<longleftrightarrow>
     hg_len G (hg_new G) = 0 \<and> (\<forall>v h. hg_len G (hg_saturating_record G v h) = hg_len G h + 1) \<and>
     (\<forall>h. hg_len G (hg_reset G h) = 0)"

type_synonym interval_call = "u64 \<times> u64 option \<times> bool"

definition interval_step :: "'h histogram_ops \<Rightarrow> interval_call \<Rightarrow> 'h interval_recorder \<Rightarrow> 'h interval_recorder" where
  "interval_step G = (\<lambda>(elapsed, latency, dup). interval_record G elapsed latency dup)"

text \<open>Everything counted so far: in the closed rows and in the open one.\<close>

definition counted_latencies :: "'h histogram_ops \<Rightarrow> 'h interval_recorder \<Rightarrow> u64" where
  "counted_latencies G r = sum_list (map iv_latency_count (ir_rows r)) + hg_len G (ir_histogram r)"

definition counted_events :: "'h interval_recorder \<Rightarrow> nat" where
  "counted_events r = sum_list (map (\<lambda>v. unat (iv_received_events v)) (ir_rows r)) + unat (ir_events r)"

definition counted_unique :: "'h interval_recorder \<Rightarrow> nat" where
  "counted_unique r = sum_list (map (\<lambda>v. unat (iv_throughput_messages v)) (ir_rows r)) + unat (ir_unique r)"

definition counted_duplicates :: "'h interval_recorder \<Rightarrow> nat" where
  "counted_duplicates r = sum_list (map (\<lambda>v. unat (iv_duplicates v)) (ir_rows r)) + unat (ir_duplicates r)"

definition same_counts :: "'h histogram_ops \<Rightarrow> 'h interval_recorder \<Rightarrow> 'h interval_recorder \<Rightarrow> bool" where
  "same_counts G r r' \<longleftrightarrow>
     counted_latencies G r' = counted_latencies G r \<and> counted_events r' = counted_events r \<and>
     counted_unique r' = counted_unique r \<and> counted_duplicates r' = counted_duplicates r \<and>
     ir_overflowed r' = ir_overflowed r \<and> ir_maximum_rows r' = ir_maximum_rows r \<and>
     ir_finalized r' = ir_finalized r"

definition rows_aligned :: "'h interval_recorder \<Rightarrow> bool" where
  "rows_aligned r \<longleftrightarrow> length (ir_rows r) = ir_current_bucket r"

lemma finish_current_counts:
  assumes "counting_histogram G"
  shows "same_counts G r (finish_current G width r)" "rows_aligned r \<Longrightarrow> rows_aligned (finish_current G width r)"
    "ir_current_bucket (finish_current G width r) = ir_current_bucket r + 1"
  using assms
  by (simp_all add: same_counts_def counted_latencies_def counted_events_def counted_unique_def counted_duplicates_def
      rows_aligned_def finish_current_def Let_def counting_histogram_def)

lemma advance_interval_counts:
  assumes "counting_histogram G"
  shows "same_counts G r (advance_interval G b r) \<and> (rows_aligned r \<longrightarrow> rows_aligned (advance_interval G b r)) \<and>
    ir_current_bucket r \<le> ir_current_bucket (advance_interval G b r) \<and>
    (rows_aligned r \<longrightarrow> ir_current_bucket r \<le> b \<longrightarrow> b < ir_maximum_rows r \<longrightarrow> ir_current_bucket (advance_interval G b r) = b)"
  using assms
proof (induction G b r rule: advance_interval.induct)
  case (1 G b r)
  show ?case
  proof (cases "ir_current_bucket r < b \<and> length (ir_rows r) < ir_maximum_rows r")
    case True
    note f = finish_current_counts [OF 1(2), where r = r and width = INTERVAL_WIDTH_NS]
    have "advance_interval G b r = advance_interval G b (finish_current G INTERVAL_WIDTH_NS r)"
      using True by (simp add: advance_interval.simps [of G b r])
    with 1(1) [OF True 1(2)] f True show ?thesis by (auto simp: same_counts_def)
  next
    case False
    then show ?thesis by (auto simp: advance_interval.simps [of G b r] same_counts_def rows_aligned_def)
  qed
qed

text \<open>What one accepted call adds, as long as no counter is full.\<close>

definition call_latency :: "interval_call \<Rightarrow> nat" where
  "call_latency c = (if fst (snd c) = None then 0 else 1)"

definition call_duplicate :: "interval_call \<Rightarrow> nat" where
  "call_duplicate c = (if snd (snd c) then 1 else 0)"

definition recorded :: "'h histogram_ops \<Rightarrow> interval_call list \<Rightarrow> 'h interval_recorder \<Rightarrow> bool" where
  "recorded G calls r \<longleftrightarrow>
     rows_aligned r \<and> counted_latencies G r = of_nat (sum_list (map call_latency calls)) \<and>
     counted_events r = length calls \<and> counted_duplicates r = sum_list (map call_duplicate calls) \<and>
     counted_unique r + counted_duplicates r = length calls \<and>
     (\<forall>c \<in> set calls. unat (fst c div INTERVAL_WIDTH_NS) \<le> ir_current_bucket r)"

lemma recorded_same:
  assumes "recorded G calls r" "same_counts G r r'" "rows_aligned r'" "ir_current_bucket r \<le> ir_current_bucket r'"
  shows "recorded G calls r'"
  using assms by (fastforce simp: recorded_def same_counts_def)

lemma open_interval_add:
  fixes l d
  assumes "counting_histogram G" "recorded G calls r" "length calls + 1 < 2 ^ 64"
    "ir_current_bucket r = unat (e div INTERVAL_WIDTH_NS)"
  defines "r1 \<equiv> (case l of None \<Rightarrow> r | Some v \<Rightarrow> r\<lparr>ir_histogram := hg_saturating_record G v (ir_histogram r)\<rparr>)"
  defines "r2 \<equiv> r1\<lparr>ir_events := sat_add (ir_events r1) 1\<rparr>"
  shows "recorded G (calls @ [(e, l, d)])
    (if d then r2\<lparr>ir_duplicates := sat_add (ir_duplicates r2) 1\<rparr> else r2\<lparr>ir_unique := sat_add (ir_unique r2) 1\<rparr>)"
proof -
  have "unat (ir_events r) + 1 < 2 ^ 64" "unat (ir_duplicates r) + 1 < 2 ^ 64" "unat (ir_unique r) + 1 < 2 ^ 64"
    using assms(2,3) unfolding recorded_def counted_events_def counted_duplicates_def counted_unique_def by linarith+
  then have add: "unat (sat_add (ir_events r) 1) = unat (ir_events r) + 1"
    "unat (sat_add (ir_duplicates r) 1) = unat (ir_duplicates r) + 1"
    "unat (sat_add (ir_unique r) 1) = unat (ir_unique r) + 1"
    by (simp_all add: sat_add_one_less)
  show ?thesis
    using assms(1,2,4) add
    by (cases l; cases d)
       (auto simp: r2_def r1_def recorded_def rows_aligned_def counted_latencies_def counted_events_def
         counted_unique_def counted_duplicates_def call_latency_def call_duplicate_def counting_histogram_def)
qed

lemma interval_step_recorded:
  assumes "counting_histogram G" "recorded G calls r" "length calls + 1 < 2 ^ 64"
    "\<not> ir_overflowed (interval_step G c r)"
  shows "recorded G (calls @ [c]) (interval_step G c r) \<and>
    ir_current_bucket (interval_step G c r) = unat (fst c div INTERVAL_WIDTH_NS) \<and> \<not> ir_overflowed r \<and>
    ir_maximum_rows (interval_step G c r) = ir_maximum_rows r \<and> ir_finalized (interval_step G c r) = ir_finalized r"
proof -
  obtain e l d where c: "c = (e, l, d)" by (metis prod_cases3)
  let ?b = "unat (e div INTERVAL_WIDTH_NS)"
  let ?r = "advance_interval G ?b r"
  note adv = advance_interval_counts [OF assms(1), of r ?b]
  have open_: "?b = ir_current_bucket ?r" "length (ir_rows ?r) \<noteq> ir_maximum_rows ?r"
    using assms(4) by (auto simp: c interval_step_def interval_record_def Let_def split: if_splits)
  have rec: "recorded G calls ?r" using assms(2) adv by (intro recorded_same [OF assms(2)]) (auto simp: recorded_def)
  have "recorded G (calls @ [c]) (interval_step G c r)"
    using open_interval_add [OF assms(1) rec assms(3), of e l d] open_
    by (simp add: c interval_step_def interval_record_def Let_def)
  moreover have "\<not> ir_overflowed r"
    using assms(4) adv open_ by (auto simp: c interval_step_def interval_record_def same_counts_def Let_def
        split: if_splits option.splits)
  ultimately show ?thesis
    using open_ adv by (auto simp: c interval_step_def interval_record_def same_counts_def Let_def split: option.splits)
qed

lemma interval_run_recorded:
  fixes start secs
  assumes "counting_histogram G"
  defines "run \<equiv> \<lambda>calls. fold (interval_step G) calls (interval_new G start secs)"
  shows "length calls < 2 ^ 64 \<Longrightarrow> \<not> ir_overflowed (run calls) \<Longrightarrow>
    recorded G calls (run calls) \<and> \<not> ir_finalized (run calls) \<and>
    ir_current_bucket (run calls) = (if calls = [] then 0 else unat (fst (last calls) div INTERVAL_WIDTH_NS)) \<and>
    ir_maximum_rows (run calls) = ir_maximum_rows (interval_new G start secs)"
proof (induction calls rule: rev_induct)
  case Nil
  then show ?case
    using assms(1) by (simp add: run_def recorded_def rows_aligned_def counted_latencies_def counted_events_def
        counted_unique_def counted_duplicates_def interval_new_def counting_histogram_def)
next
  case (snoc c calls)
  have step: "run (calls @ [c]) = interval_step G c (run calls)" by (simp add: run_def)
  have "\<not> ir_overflowed (run calls)"
  proof
    assume "ir_overflowed (run calls)"
    moreover have "ir_overflowed (advance_interval G b r) = ir_overflowed r" for b r
      using advance_interval_counts [OF assms(1), of r b] by (simp add: same_counts_def)
    ultimately have "ir_overflowed (interval_step G c (run calls))"
      by (auto simp: interval_step_def interval_record_def Let_def split: prod.splits option.splits)
    with snoc.prems(2) show False by (simp add: step)
  qed
  with snoc have IH: "recorded G calls (run calls)" "\<not> ir_finalized (run calls)"
    "ir_maximum_rows (run calls) = ir_maximum_rows (interval_new G start secs)" by simp_all
  from interval_step_recorded [OF assms(1) IH(1), of c] snoc.prems IH(2,3) show ?case by (simp add: step)
qed

lemma finish_current_empties:
  assumes "counting_histogram G"
  shows "hg_len G (ir_histogram (finish_current G width r)) = 0" "ir_events (finish_current G width r) = 0"
    "ir_unique (finish_current G width r) = 0" "ir_duplicates (finish_current G width r) = 0"
  using assms by (simp_all add: finish_current_def Let_def counting_histogram_def)

text \<open>A finalized recorder has closed every interval with something in it.\<close>

lemma interval_finalize_closes:
  fixes elapsed
  assumes "counting_histogram G" "recorded G calls r" "\<not> ir_finalized r"
    "ir_current_bucket r \<le> unat (sat_sub elapsed 1 div INTERVAL_WIDTH_NS)" "elapsed \<noteq> 0 \<or> calls = [] \<and> ir_rows r = []"
    "\<not> ir_overflowed (interval_finalize G elapsed r)"
  defines "r' \<equiv> interval_finalize G elapsed r"
  shows "recorded G calls r' \<and> hg_len G (ir_histogram r') = 0 \<and> ir_events r' = 0 \<and> ir_unique r' = 0 \<and> ir_duplicates r' = 0
    \<or> calls = [] \<and> ir_rows r' = []"
proof (cases "elapsed = 0")
  case True
  then show ?thesis using assms(3,5) by (simp add: r'_def interval_finalize_def)
next
  case False
  let ?r = "r\<lparr>ir_finalized := True\<rparr>" and ?b = "unat (sat_sub elapsed 1 div INTERVAL_WIDTH_NS)"
  let ?adv = "advance_interval G ?b ?r"
  have room: "?b < ir_maximum_rows r"
    using assms(3,6) False by (auto simp: interval_finalize_def Let_def split: if_splits)
  have rec: "recorded G calls ?r" using assms(2)
    by (simp add: recorded_def rows_aligned_def counted_latencies_def counted_events_def counted_unique_def counted_duplicates_def)
  note adv = advance_interval_counts [OF assms(1), of ?r ?b]
  have recA: "recorded G calls ?adv" using adv rec by (intro recorded_same [OF rec]) (auto simp: recorded_def)
  have "length (ir_rows ?adv) < ir_maximum_rows ?adv"
    using adv rec room assms(4) by (auto simp: recorded_def rows_aligned_def same_counts_def)
  then obtain width where r': "r' = finish_current G width ?adv"
    using assms(3) False room by (simp add: r'_def interval_finalize_def Let_def)
  have "recorded G calls r'"
    unfolding r' using finish_current_counts [OF assms(1), where r = ?adv and width = width] recA
    by (intro recorded_same [OF recA]) (auto simp: recorded_def)
  then show ?thesis by (simp add: r' finish_current_empties [OF assms(1)])
qed

text \<open>The state between two calls: nothing overflowed, and the open interval still has room for its row.\<close>

definition interval_open :: "'h histogram_ops \<Rightarrow> interval_call list \<Rightarrow> 'h interval_recorder \<Rightarrow> bool" where
  "interval_open G calls r \<longleftrightarrow>
     recorded G calls r \<and> length (ir_rows r) < ir_maximum_rows r \<and> \<not> ir_finalized r \<and> \<not> ir_overflowed r"

lemma interval_open_new: "counting_histogram G \<Longrightarrow> interval_open G [] (interval_new G start secs)"
  by (simp add: interval_open_def recorded_def rows_aligned_def counted_latencies_def counted_events_def
      counted_unique_def counted_duplicates_def interval_new_def counting_histogram_def)

lemma advance_interval_rows:
  "length (ir_rows r) \<le> ir_maximum_rows r \<Longrightarrow> length (ir_rows (advance_interval G b r)) \<le> ir_maximum_rows (advance_interval G b r)"
proof (induction G b r rule: advance_interval.induct)
  case (1 G b r)
  then show ?case by (simp add: advance_interval.simps [of G b r] finish_current_def Let_def)
qed

lemma interval_overflow_stays:
  assumes "counting_histogram G" "ir_overflowed r"
  shows "ir_overflowed (interval_step G c r)"
proof -
  have "ir_overflowed (advance_interval G b r)" for b
    using advance_interval_counts [OF assms(1), of r b] assms(2) by (simp add: same_counts_def)
  then show ?thesis by (auto simp: interval_step_def interval_record_def Let_def split: prod.splits option.splits)
qed

lemma interval_open_step:
  assumes "counting_histogram G" "interval_open G calls r" "length calls + 1 < 2 ^ 64"
  shows "ir_overflowed (interval_step G c r) \<or> interval_open G (calls @ [c]) (interval_step G c r)"
proof (cases "ir_overflowed (interval_step G c r)")
  case False
  obtain e l d where c: "c = (e, l, d)" by (metis prod_cases3)
  let ?a = "advance_interval G (unat (e div INTERVAL_WIDTH_NS)) r"
  have "length (ir_rows ?a) < ir_maximum_rows ?a"
    using False advance_interval_rows [of r G "unat (e div INTERVAL_WIDTH_NS)"] assms(2)
    by (auto simp: c interval_step_def interval_record_def interval_open_def Let_def split: if_splits)
  moreover have "ir_rows (interval_step G c r) = ir_rows ?a" "ir_maximum_rows (interval_step G c r) = ir_maximum_rows ?a"
    by (auto simp: c interval_step_def interval_record_def Let_def split: option.split)
  moreover have "recorded G calls r" "\<not> ir_finalized r" using assms(2) by (simp_all add: interval_open_def)
  ultimately show ?thesis
    using interval_step_recorded [OF assms(1) _ assms(3) False] False by (simp add: interval_open_def)
qed simp

lemma interval_finalize_population:
  assumes "counting_histogram G" "interval_open G calls r" "elapsed \<noteq> 0" "\<not> ir_overflowed (interval_finalize G elapsed r)"
  shows "sum_list (map iv_latency_count (ir_rows (interval_finalize G elapsed r))) = of_nat (sum_list (map call_latency calls))"
proof -
  let ?r = "r\<lparr>ir_finalized := True\<rparr>" and ?b = "unat (sat_sub elapsed 1 div INTERVAL_WIDTH_NS)"
  let ?adv = "advance_interval G ?b ?r"
  have r: "recorded G calls ?r" "length (ir_rows ?r) < ir_maximum_rows ?r" "\<not> ir_finalized r"
    using assms(2) by (simp_all add: interval_open_def recorded_def rows_aligned_def counted_latencies_def counted_events_def
        counted_unique_def counted_duplicates_def)
  have room: "?b < ir_maximum_rows r" using assms(3,4) r(3) by (auto simp: interval_finalize_def Let_def split: if_splits)
  note adv = advance_interval_counts [OF assms(1), of ?r ?b]
  have "recorded G calls ?adv" using adv r(1) by (intro recorded_same [OF r(1)]) (auto simp: recorded_def)
  moreover have "length (ir_rows ?adv) < ir_maximum_rows ?adv"
  proof (cases "ir_current_bucket ?r \<le> ?b")
    case True
    with adv r(1) room show ?thesis by (auto simp: recorded_def rows_aligned_def same_counts_def)
  next
    case False
    then show ?thesis using r(2) by (simp add: advance_interval.simps [of G ?b ?r])
  qed
  then obtain width where "interval_finalize G elapsed r = finish_current G width ?adv"
    using assms(3) r(3) room by (simp add: interval_finalize_def Let_def)
  ultimately show ?thesis
    using finish_current_counts(1) [OF assms(1), of ?adv width] finish_current_empties(1) [OF assms(1), of width ?adv]
    by (simp add: recorded_def same_counts_def counted_latencies_def)
qed

section \<open>Properties\<close>

text \<open>
  The hot-swap recorder reports exactly the version changes between consecutive observations,
  each with the time between them (zero when the clock stepped back), and reconstructs the last time
  before the latest change from it.
\<close>

theorem hotswap_transitions_exact:
  "let r = observe obs; cs = changes obs in
   hr_transitions r = map transition_of cs \<and>
   pause_duration_ns r = (if cs = [] then None else Some (sx_pause_ns (transition_of (last cs)))) \<and>
   first_v2_ns r = (if cs = [] then None else Some (snd (snd (last cs)))) \<and>
   last_v1_ns r = (if cs = [] then None else Some (min (snd (fst (last cs))) (snd (snd (last cs)))))"
proof -
  have "sat_sub b (sat_sub b a) = min a b" for a b :: u64
    by (simp add: word_unat_eq_iff unat_sat_sub min_def word_le_nat_alt)
  then show ?thesis
    using observe_spec [of obs]
    by (auto simp: Let_def pause_duration_ns_def first_v2_ns_def last_v1_ns_def last_map transition_of_def case_prod_beta)
qed

text \<open>
  The throughput grid has one row for every second from the start to the last arrival, empty
  seconds included, and each row holds exactly the arrivals of its second and their bytes.
\<close>

theorem throughput_rows_exact:
  assumes "arr \<noteq> []" "sorted (map fst arr)" "length arr < 2 ^ 64" "\<forall>a \<in> set arr. second_of a + 1 < 2 ^ 64"
  shows "tg_samples (grid_finish (fold (\<lambda>a. grid_record (fst a) (snd a)) arr grid_default)) =
    map (grid_row arr) [0..<second_of (last arr) + 1]"
  by (rule grid_finished [OF assms])

theorem throughput_rows_exact_witness:
  "map (\<lambda>t. unat (tp_msg_count t)) (tg_samples (grid_finish
     (fold (\<lambda>a. grid_record (fst a) (snd a)) [(5, 10), (7, 20), (2000000001, 30)] grid_default))) = [2, 0, 1]"
proof -
  let ?arr = "[(5, 10), (7, 20), (2000000001, 30)] :: arrival list"
  have "tg_samples (grid_finish (fold (\<lambda>a. grid_record (fst a) (snd a)) ?arr grid_default)) =
    map (grid_row ?arr) [0..<second_of (last ?arr) + 1]"
    by (rule throughput_rows_exact) (simp_all add: second_of_def)
  then show ?thesis by (simp add: second_of_def grid_row_def in_second_def upt_rec)
qed

text \<open>
  The interval rows partition what was recorded. When nothing overflowed, the rows of a
  finalized recorder together hold every recorded latency and every event once, split into first
  arrivals and duplicates, and the check made before the artifact is written accepts exactly that
  number of latencies.
\<close>

theorem interval_rows_partition:
  assumes "counting_histogram G" "length calls < 2 ^ 64" "\<forall>c \<in> set calls. fst c < elapsed"
    "\<not> ir_overflowed (fold (interval_step G) calls (interval_new G start secs))"
    "\<not> ir_overflowed (interval_finalize G elapsed (fold (interval_step G) calls (interval_new G start secs)))"
  defines "r \<equiv> interval_finalize G elapsed (fold (interval_step G) calls (interval_new G start secs))"
  shows "sum_list (map iv_latency_count (ir_rows r)) = of_nat (sum_list (map call_latency calls)) \<and>
    sum_list (map (\<lambda>v. unat (iv_received_events v)) (ir_rows r)) = length calls \<and>
    sum_list (map (\<lambda>v. unat (iv_duplicates v)) (ir_rows r)) = sum_list (map call_duplicate calls) \<and>
    sum_list (map (\<lambda>v. unat (iv_throughput_messages v)) (ir_rows r)) + sum_list (map call_duplicate calls) = length calls \<and>
    (interval_check n r = Inr () \<longleftrightarrow> n = of_nat (sum_list (map call_latency calls)))"
proof -
  let ?run = "fold (interval_step G) calls (interval_new G start secs)"
  note run = interval_run_recorded [OF assms(1,2,4)]
  have "ir_current_bucket ?run \<le> unat (sat_sub elapsed 1 div INTERVAL_WIDTH_NS)"
  proof (cases "calls = []")
    case False
    then have "fst (last calls) < elapsed" using assms(3) by simp
    then have "unat (fst (last calls)) \<le> unat (sat_sub elapsed 1)" by (simp add: unat_sat_sub word_less_nat_alt)
    then show ?thesis using run False by (simp add: unat_div_distrib div_le_mono)
  qed (use run in simp)
  moreover have "elapsed \<noteq> 0 \<or> calls = [] \<and> ir_rows ?run = []"
    using assms(3) by (cases calls) (auto simp: interval_new_def word_less_nat_alt)
  ultimately have closed: "recorded G calls r \<and> hg_len G (ir_histogram r) = 0 \<and> ir_events r = 0 \<and> ir_unique r = 0 \<and> ir_duplicates r = 0
    \<or> calls = [] \<and> ir_rows r = []"
    unfolding r_def using run assms(5) by (intro interval_finalize_closes [OF assms(1)]) auto
  then have sums: "sum_list (map iv_latency_count (ir_rows r)) = of_nat (sum_list (map call_latency calls))"
    "sum_list (map (\<lambda>v. unat (iv_received_events v)) (ir_rows r)) = length calls"
    "sum_list (map (\<lambda>v. unat (iv_duplicates v)) (ir_rows r)) = sum_list (map call_duplicate calls)"
    "sum_list (map (\<lambda>v. unat (iv_throughput_messages v)) (ir_rows r)) + sum_list (map call_duplicate calls) = length calls"
    by (auto simp: recorded_def counted_latencies_def counted_events_def counted_unique_def counted_duplicates_def)
  moreover have "\<not> ir_overflowed r" using assms(5) by (simp add: r_def)
  ultimately show ?thesis by (auto simp: interval_check_def Let_def)
qed

definition list_histogram :: "u64 list histogram_ops" where
  "list_histogram =
     \<lparr>hg_new = [], hg_saturating_record = (\<lambda>v h. v # h), hg_len = (\<lambda>h. of_nat (length h)),
      hg_quantile = (\<lambda>q h. sort h ! (length h * q div 100)), hg_reset = (\<lambda>_. [])\<rparr>"

lemma list_histogram_counts: "counting_histogram list_histogram"
  by (simp add: counting_histogram_def list_histogram_def)

definition interval_sample :: "interval_call list" where
  "interval_sample = [(5, Some 7, False), (6, None, True), (6, Some 9, False)]"

lemma interval_sample_fits:
  "\<not> ir_overflowed (fold (interval_step list_histogram) interval_sample (interval_new list_histogram 0 10))"
  "\<not> ir_overflowed (interval_finalize list_histogram 7
      (fold (interval_step list_histogram) interval_sample (interval_new list_histogram 0 10)))"
proof -
  have first: "unat (5 div INTERVAL_WIDTH_NS) = 0" "unat (6 div INTERVAL_WIDTH_NS) = 0" "unat (sat_sub 7 1 div INTERVAL_WIDTH_NS) = 0"
    by (simp_all add: INTERVAL_WIDTH_NS_def unat_div_distrib unat_sat_sub)
  show "\<not> ir_overflowed (fold (interval_step list_histogram) interval_sample (interval_new list_histogram 0 10))"
    "\<not> ir_overflowed (interval_finalize list_histogram 7
      (fold (interval_step list_histogram) interval_sample (interval_new list_histogram 0 10)))"
    by (simp_all add: interval_sample_def interval_step_def interval_record_def interval_finalize_def first
        advance_interval.simps finish_current_def interval_new_def Let_def)
qed

theorem interval_rows_partition_witness:
  "interval_check 2 (interval_finalize list_histogram 7
      (fold (interval_step list_histogram) interval_sample (interval_new list_histogram 0 10))) = Inr ()"
proof -
  have "sum_list (map call_latency interval_sample) = 2" "\<forall>c \<in> set interval_sample. fst c < 7"
    "length interval_sample < 2 ^ 64"
    by (simp_all add: interval_sample_def call_latency_def)
  then show ?thesis
    using interval_rows_partition [OF list_histogram_counts _ _ interval_sample_fits, of 2] by simp
qed

end
