(* ===== verification/BurstBuckets.thy ===== *)
theory BurstBuckets
  imports Prelude
begin

text \<open>
  The burst observation of the benchmark sink, \<open>wafer-core/src/node/sink/bench.rs\<close>: arrivals counted in
  100 ms buckets over the primary window, a drain window and what comes after, and the 10 ms event
  buckets around the swap. \<open>i64\<close> values are integers with their saturation written out. A receipt is
  the record of the fields read from its JSON file, each present or not; the rates, which are floats
  computed for display, are left out.
\<close>

section \<open>Buckets\<close>

definition BURST_BUCKET_WIDTH_NS :: u64 where "BURST_BUCKET_WIDTH_NS = 100000000"
definition BURST_BUCKET_COUNT :: usize where "BURST_BUCKET_COUNT = 1200"
definition BURST_DRAIN_BUCKET_COUNT :: usize where "BURST_DRAIN_BUCKET_COUNT = 100"
definition BURST_PRIMARY_END_NS :: u64 where "BURST_PRIMARY_END_NS = 120000000000"
definition BURST_DRAIN_END_NS :: u64 where "BURST_DRAIN_END_NS = 130000000000"
definition BURST_SWAP_OFFSET_NS :: u64 where "BURST_SWAP_OFFSET_NS = 60000000000"
definition FINE_EVENT_BUCKET_WIDTH_NS :: int where "FINE_EVENT_BUCKET_WIDTH_NS = 10000000"
definition FINE_EVENT_BUCKET_COUNT :: usize where "FINE_EVENT_BUCKET_COUNT = 400"
definition FINE_EVENT_START_NS :: int where "FINE_EVENT_START_NS = - 2000000000"
definition FINE_EVENT_END_NS :: int where "FINE_EVENT_END_NS = 2000000000"
definition FINE_EVENT_PARENT_WIDTH_NS :: int where "FINE_EVENT_PARENT_WIDTH_NS = 100000000"
definition FINE_EVENT_PARENT_COUNT :: usize where "FINE_EVENT_PARENT_COUNT = 40"
definition FINE_EVENT_ALIGNMENT_TOLERANCE_NS :: u64 where "FINE_EVENT_ALIGNMENT_TOLERANCE_NS = 10000000"
definition FINE_EVENT_SAMPLE_CAPACITY :: usize where "FINE_EVENT_SAMPLE_CAPACITY = 16384"

record burst_bucket =
  bb_received_unique :: u64
  bb_received_events :: u64
  bb_duplicates :: u64

definition burst_bucket_default :: burst_bucket where
  "burst_bucket_default = \<lparr>bb_received_unique = 0, bb_received_events = 0, bb_duplicates = 0\<rparr>"

definition bucket_record :: "bool \<Rightarrow> burst_bucket \<Rightarrow> burst_bucket" where
  "bucket_record duplicate b =
     (let b = b\<lparr>bb_received_events := sat_add (bb_received_events b) 1\<rparr> in
      if duplicate then b\<lparr>bb_duplicates := sat_add (bb_duplicates b) 1\<rparr>
      else b\<lparr>bb_received_unique := sat_add (bb_received_unique b) 1\<rparr>)"

definition burst_bucket_totals :: "burst_bucket list \<Rightarrow> burst_bucket" where
  "burst_bucket_totals buckets =
     fold (\<lambda>b t. t\<lparr>bb_received_unique := sat_add (bb_received_unique t) (bb_received_unique b),
                   bb_received_events := sat_add (bb_received_events t) (bb_received_events b),
                   bb_duplicates := sat_add (bb_duplicates t) (bb_duplicates b)\<rparr>)
       buckets burst_bucket_default"

record fine_event_sample =
  fe_arrival_unix_ns :: u64
  fe_duplicate :: bool

record fine_event_bucket =
  fb_start_offset_ns :: int
  fb_end_offset_ns :: int
  fb_received_unique :: u64
  fb_received_events :: u64
  fb_duplicates :: u64

record burst_observation =
  bu_source_origin_ns :: u64
  bu_origin_mismatch_events :: u64
  bu_primary :: "burst_bucket list"
  bu_drain :: "burst_bucket list"
  bu_primary_last_offset_ns :: "u64 option"
  bu_drain_first_offset_ns :: "u64 option"
  bu_drain_last_offset_ns :: "u64 option"
  bu_after_drain :: burst_bucket
  bu_after_drain_first_offset_ns :: "u64 option"
  bu_after_drain_last_offset_ns :: "u64 option"
  bu_max_arrival_offset_ns :: u64
  bu_fine_samples :: "fine_event_sample list"
  bu_fine_samples_overflowed :: bool

definition burst_observation_new :: "u64 \<Rightarrow> burst_observation" where
  "burst_observation_new origin =
     \<lparr>bu_source_origin_ns = origin, bu_origin_mismatch_events = 0,
      bu_primary = replicate BURST_BUCKET_COUNT burst_bucket_default,
      bu_drain = replicate BURST_DRAIN_BUCKET_COUNT burst_bucket_default,
      bu_primary_last_offset_ns = None, bu_drain_first_offset_ns = None, bu_drain_last_offset_ns = None,
      bu_after_drain = burst_bucket_default, bu_after_drain_first_offset_ns = None, bu_after_drain_last_offset_ns = None,
      bu_max_arrival_offset_ns = 0, bu_fine_samples = [], bu_fine_samples_overflowed = False\<rparr>"

text \<open>\<open>map_or(x, |y| y.max(x))\<close> and its minimum.\<close>

definition opt_max :: "u64 \<Rightarrow> u64 option \<Rightarrow> u64 option" where
  "opt_max x o' = Some (case o' of None \<Rightarrow> x | Some y \<Rightarrow> max y x)"

definition opt_min :: "u64 \<Rightarrow> u64 option \<Rightarrow> u64 option" where
  "opt_min x o' = Some (case o' of None \<Rightarrow> x | Some y \<Rightarrow> min y x)"

definition in_capture_window :: "u64 \<Rightarrow> u64 \<Rightarrow> bool" where
  "in_capture_window scheduled arrival \<longleftrightarrow>
     sat_sub (sat_sub scheduled (of_int \<bar>FINE_EVENT_START_NS\<bar>)) FINE_EVENT_ALIGNMENT_TOLERANCE_NS \<le> arrival \<and>
     arrival < sat_add (sat_add scheduled (of_int \<bar>FINE_EVENT_END_NS\<bar>)) FINE_EVENT_ALIGNMENT_TOLERANCE_NS"

definition capture_fine_sample :: "u64 \<Rightarrow> bool \<Rightarrow> burst_observation \<Rightarrow> burst_observation" where
  "capture_fine_sample arrival_ns duplicate b =
     (if in_capture_window (sat_add (bu_source_origin_ns b) BURST_SWAP_OFFSET_NS) arrival_ns then
        if length (bu_fine_samples b) = FINE_EVENT_SAMPLE_CAPACITY then b\<lparr>bu_fine_samples_overflowed := True\<rparr>
        else b\<lparr>bu_fine_samples := bu_fine_samples b @ [\<lparr>fe_arrival_unix_ns = arrival_ns, fe_duplicate = duplicate\<rparr>]\<rparr>
      else b)"

definition count_arrival :: "u64 \<Rightarrow> bool \<Rightarrow> burst_observation \<Rightarrow> burst_observation" where
  "count_arrival offset_ns duplicate b =
     (if offset_ns < BURST_PRIMARY_END_NS then
        let index = unat (offset_ns div BURST_BUCKET_WIDTH_NS) in
        if index < length (bu_primary b)
        then b\<lparr>bu_primary := (bu_primary b)[index := bucket_record duplicate (bu_primary b ! index)],
               bu_primary_last_offset_ns := opt_max offset_ns (bu_primary_last_offset_ns b)\<rparr>
        else b
      else if offset_ns < BURST_DRAIN_END_NS then
        let index = unat (sat_sub offset_ns BURST_PRIMARY_END_NS div BURST_BUCKET_WIDTH_NS) in
        if index < length (bu_drain b)
        then b\<lparr>bu_drain := (bu_drain b)[index := bucket_record duplicate (bu_drain b ! index)],
               bu_drain_first_offset_ns := opt_min offset_ns (bu_drain_first_offset_ns b),
               bu_drain_last_offset_ns := opt_max offset_ns (bu_drain_last_offset_ns b)\<rparr>
        else b
      else
        b\<lparr>bu_after_drain := bucket_record duplicate (bu_after_drain b),
          bu_after_drain_first_offset_ns := opt_min offset_ns (bu_after_drain_first_offset_ns b),
          bu_after_drain_last_offset_ns := opt_max offset_ns (bu_after_drain_last_offset_ns b)\<rparr>)"

definition burst_record :: "u64 \<Rightarrow> u64 \<Rightarrow> bool \<Rightarrow> burst_observation \<Rightarrow> burst_observation" where
  "burst_record origin_ns arrival_ns duplicate b =
     (let b = (if origin_ns \<noteq> bu_source_origin_ns b \<or> arrival_ns < origin_ns
               then b\<lparr>bu_origin_mismatch_events := sat_add (bu_origin_mismatch_events b) 1\<rparr> else b);
          offset_ns = sat_sub arrival_ns (bu_source_origin_ns b);
          b = b\<lparr>bu_max_arrival_offset_ns := max (bu_max_arrival_offset_ns b) offset_ns\<rparr>;
          b = capture_fine_sample arrival_ns duplicate b
      in count_arrival offset_ns duplicate b)"

section \<open>Fine event buckets\<close>

definition I64_MAX :: int where "I64_MAX = 2 ^ 63 - 1"

definition sat_i64 :: "int \<Rightarrow> int" where
  "sat_i64 x = max (- (2 ^ 63)) (min x I64_MAX)"

definition signed_timestamp_offset :: "u64 \<Rightarrow> u64 \<Rightarrow> int" where
  "signed_timestamp_offset timestamp_ns reference_ns =
     (if reference_ns \<le> timestamp_ns then min (uint (sat_sub timestamp_ns reference_ns)) I64_MAX
      else - min (uint (sat_sub reference_ns timestamp_ns)) I64_MAX)"

text \<open>\<open>get_mut\<close> and a saturating increment.\<close>

definition bump :: "nat \<Rightarrow> u64 list \<Rightarrow> u64 list" where
  "bump i xs = (if i < length xs then xs[i := sat_add (xs ! i) 1] else xs)"

record fine_counts =
  fc_unique :: "u64 list"
  fc_events :: "u64 list"
  fc_duplicates :: "u64 list"

definition fine_count_step :: "u64 \<Rightarrow> int \<Rightarrow> usize \<Rightarrow> fine_event_sample \<Rightarrow> fine_counts \<Rightarrow> fine_counts" where
  "fine_count_step event_ns width_ns count s t =
     (let coverage_end_ns = sat_i64 (FINE_EVENT_START_NS + sat_i64 (min (int count) I64_MAX * width_ns));
          offset_ns = signed_timestamp_offset (fe_arrival_unix_ns s) event_ns
      in
      if \<not> (FINE_EVENT_START_NS \<le> offset_ns \<and> offset_ns < coverage_end_ns) then t
      else
        let q = (if width_ns = 0 then I64_MAX else sat_i64 (offset_ns - FINE_EVENT_START_NS) div width_ns);
            index = (if q < 0 then count else nat q)
        in
        if index < length (fc_events t) \<and> index < length (fc_unique t) \<and> index < length (fc_duplicates t) then
          let t = t\<lparr>fc_events := bump index (fc_events t)\<rparr> in
          if fe_duplicate s then t\<lparr>fc_duplicates := bump index (fc_duplicates t)\<rparr>
          else t\<lparr>fc_unique := bump index (fc_unique t)\<rparr>
        else t)"

definition fine_event_counts :: "fine_event_sample list \<Rightarrow> u64 \<Rightarrow> int \<Rightarrow> usize \<Rightarrow> fine_counts" where
  "fine_event_counts samples event_ns width_ns count =
     fold (fine_count_step event_ns width_ns count) samples
       \<lparr>fc_unique = replicate count 0, fc_events = replicate count 0, fc_duplicates = replicate count 0\<rparr>"

definition fine_event_buckets :: "fine_event_sample list \<Rightarrow> u64 \<Rightarrow> int \<Rightarrow> usize \<Rightarrow> fine_event_bucket list" where
  "fine_event_buckets samples event_ns width_ns count =
     (let t = fine_event_counts samples event_ns width_ns count in
      map (\<lambda>i. let start = sat_i64 (FINE_EVENT_START_NS + sat_i64 (min (int i) I64_MAX * width_ns)) in
        \<lparr>fb_start_offset_ns = start, fb_end_offset_ns = sat_i64 (start + width_ns),
         fb_received_unique = fc_unique t ! i, fb_received_events = fc_events t ! i, fb_duplicates = fc_duplicates t ! i\<rparr>)
        [0..<count])"

definition fine_event_totals :: "fine_event_bucket list \<Rightarrow> u64 \<times> u64 \<times> u64" where
  "fine_event_totals buckets =
     fold (\<lambda>b (u, e, d). (sat_add u (fb_received_unique b), sat_add e (fb_received_events b), sat_add d (fb_duplicates b)))
       buckets (0, 0, 0)"

record fine_receipt =
  fr_event_timestamp_ns :: "u64 option"
  fr_schema_version :: "u64 option"
  fr_clock :: "string option"
  fr_alignment :: "string option"
  fr_source_measurement_start_unix_ns :: "u64 option"
  fr_scheduled_event_timestamp_ns :: "u64 option"

text \<open>An error of reading or parsing the receipt, or one of the checks on it.\<close>

datatype fine_error = ReceiptUnreadable string | FineInvalid string

definition fine_event_evidence ::
    "fine_receipt \<Rightarrow> burst_observation \<Rightarrow> (fine_error, fine_event_bucket list \<times> fine_event_bucket list) result" where
  "fine_event_evidence receipt b =
     (case fr_event_timestamp_ns receipt of
        None \<Rightarrow> Inl (FineInvalid ''actual t0 receipt is malformed'')
      | Some event_ns \<Rightarrow>
          let scheduled = sat_add (bu_source_origin_ns b) BURST_SWAP_OFFSET_NS;
              alignment_error_ns = signed_timestamp_offset event_ns scheduled
          in
          if fr_schema_version receipt \<noteq> Some 1 \<or> fr_clock receipt \<noteq> Some ''unix-epoch'' \<or>
             fr_alignment receipt \<noteq> Some ''actual-t0'' \<or>
             fr_source_measurement_start_unix_ns receipt \<noteq> Some (bu_source_origin_ns b) \<or>
             fr_scheduled_event_timestamp_ns receipt \<noteq> Some scheduled \<or>
             \<bar>alignment_error_ns\<bar> > uint FINE_EVENT_ALIGNMENT_TOLERANCE_NS
          then Inl (FineInvalid ''actual t0 receipt differs from the frozen E-Swap-4 boundary'')
          else
            let buckets = fine_event_buckets (bu_fine_samples b) event_ns FINE_EVENT_BUCKET_WIDTH_NS FINE_EVENT_BUCKET_COUNT;
                parents = fine_event_buckets (bu_fine_samples b) event_ns FINE_EVENT_PARENT_WIDTH_NS FINE_EVENT_PARENT_COUNT
            in
            if fine_event_totals parents \<noteq> fine_event_totals buckets
            then Inl (FineInvalid ''fine and parent event bucket populations differ'')
            else Inr (buckets, parents))"

text \<open>
  \<open>receipt\<close> is absent when no path is configured, and otherwise what reading the file gives. The
  result is the artifact written, if any.
\<close>

definition write_fine_event_buckets ::
    "(string, fine_receipt) result option \<Rightarrow> burst_observation
       \<Rightarrow> (fine_error, (fine_event_bucket list \<times> fine_event_bucket list) option) result" where
  "write_fine_event_buckets receipt b =
     (case receipt of
        None \<Rightarrow> Inr None
      | Some read \<Rightarrow>
          if bu_fine_samples_overflowed b then Inl (FineInvalid ''fine event sample capacity exceeded'')
          else
            case read of
              Inl e \<Rightarrow> Inl (ReceiptUnreadable e)
            | Inr r \<Rightarrow> map_sum id Some (fine_event_evidence r b))"

section \<open>Sums over buckets\<close>

lemma sum_map_update:
  fixes f :: "'a \<Rightarrow> nat"
  assumes "i < length xs"
  shows "sum_list (map f (xs[i := y])) + f (xs ! i) = sum_list (map f xs) + f y"
proof -
  have "f (xs ! i) \<le> sum_list (map f xs)" using elem_le_sum_list [of i "map f xs"] assms by simp
  then show ?thesis using assms by (simp add: map_update sum_list_update)
qed

definition bucket_events :: "burst_bucket \<Rightarrow> nat" where "bucket_events b = unat (bb_received_events b)"
definition bucket_unique :: "burst_bucket \<Rightarrow> nat" where "bucket_unique b = unat (bb_received_unique b)"
definition bucket_duplicates :: "burst_bucket \<Rightarrow> nat" where "bucket_duplicates b = unat (bb_duplicates b)"

lemmas bucket_counts = bucket_events_def bucket_unique_def bucket_duplicates_def

lemma bucket_record_counts:
  assumes "bucket_events b + 1 < 2 ^ 64" "bucket_unique b + 1 < 2 ^ 64" "bucket_duplicates b + 1 < 2 ^ 64"
  shows "bucket_events (bucket_record d b) = bucket_events b + 1"
    "bucket_unique (bucket_record d b) = bucket_unique b + (if d then 0 else 1)"
    "bucket_duplicates (bucket_record d b) = bucket_duplicates b + (if d then 1 else 0)"
  using assms by (simp_all add: bucket_counts bucket_record_def Let_def sat_add_one_less)

text \<open>All buckets of an observation and what is counted in them.\<close>

definition all_buckets :: "burst_observation \<Rightarrow> burst_bucket list" where
  "all_buckets b = bu_primary b @ bu_drain b @ [bu_after_drain b]"

definition observed :: "(burst_bucket \<Rightarrow> nat) \<Rightarrow> burst_observation \<Rightarrow> nat" where
  "observed f b = sum_list (map f (all_buckets b))"

definition windows_ok :: "burst_observation \<Rightarrow> bool" where
  "windows_ok b \<longleftrightarrow> length (bu_primary b) = BURST_BUCKET_COUNT \<and> length (bu_drain b) = BURST_DRAIN_BUCKET_COUNT \<and>
     length (bu_fine_samples b) \<le> FINE_EVENT_SAMPLE_CAPACITY"

lemma bucket_index:
  "x < 100000000 * of_nat n \<Longrightarrow> n \<le> 1200 \<Longrightarrow> unat (x div BURST_BUCKET_WIDTH_NS) < n" for x :: u64
proof -
  assume a: "x < 100000000 * of_nat n" "n \<le> 1200"
  have "unat (100000000 * of_nat n :: u64) = 100000000 * n" using a(2) by (simp add: unat_word_ariths unat_of_nat)
  with a(1) have "unat x < 100000000 * n" by (simp add: word_less_nat_alt)
  then show "unat (x div BURST_BUCKET_WIDTH_NS) < n"
    by (simp add: BURST_BUCKET_WIDTH_NS_def unat_div_distrib div_less_iff_less_mult mult.commute)
qed

lemma count_arrival_bucket:
  assumes "windows_ok b"
  obtains i where "i < length (all_buckets b)"
    "all_buckets (count_arrival offset dup b) = (all_buckets b)[i := bucket_record dup (all_buckets b ! i)]"
    "windows_ok (count_arrival offset dup b)" "bu_fine_samples (count_arrival offset dup b) = bu_fine_samples b"
proof -
  consider "offset < BURST_PRIMARY_END_NS" | "\<not> offset < BURST_PRIMARY_END_NS" "offset < BURST_DRAIN_END_NS"
    | "\<not> offset < BURST_DRAIN_END_NS" "\<not> offset < BURST_PRIMARY_END_NS"
    by (cases "offset < BURST_PRIMARY_END_NS"; cases "offset < BURST_DRAIN_END_NS") blast+
  then show ?thesis
  proof cases
    case 1
    let ?i = "unat (offset div BURST_BUCKET_WIDTH_NS)"
    have "?i < BURST_BUCKET_COUNT"
      using 1 bucket_index [of offset 1200] by (simp add: BURST_PRIMARY_END_NS_def BURST_BUCKET_COUNT_def)
    then show ?thesis using assms 1
      by (intro that [of ?i])
         (auto simp: count_arrival_def all_buckets_def windows_ok_def Let_def nth_append list_update_append1)
  next
    case 2
    let ?i = "unat (sat_sub offset BURST_PRIMARY_END_NS div BURST_BUCKET_WIDTH_NS)"
    have "sat_sub offset BURST_PRIMARY_END_NS < 10000000000"
      using 2 by (simp add: word_less_nat_alt unat_sat_sub BURST_PRIMARY_END_NS_def BURST_DRAIN_END_NS_def)
    then have "?i < BURST_DRAIN_BUCKET_COUNT"
      using bucket_index [of "sat_sub offset BURST_PRIMARY_END_NS" 100] by (simp add: BURST_DRAIN_BUCKET_COUNT_def)
    then show ?thesis using assms 2
      by (intro that [of "BURST_BUCKET_COUNT + ?i"])
         (auto simp: count_arrival_def all_buckets_def windows_ok_def Let_def nth_append list_update_append)
  next
    case 3
    then show ?thesis using assms
      by (intro that [of "BURST_BUCKET_COUNT + BURST_DRAIN_BUCKET_COUNT"])
         (auto simp: count_arrival_def all_buckets_def windows_ok_def Let_def nth_append list_update_append)
  qed
qed

lemma observed_bucket: "x \<in> set (all_buckets b) \<Longrightarrow> f x \<le> observed f b"
  by (simp add: observed_def member_le_sum_list)

lemma count_arrival_counts:
  assumes "windows_ok b" "observed bucket_events b + 1 < 2 ^ 64" "observed bucket_unique b + 1 < 2 ^ 64"
    "observed bucket_duplicates b + 1 < 2 ^ 64"
  shows "windows_ok (count_arrival offset dup b)"
    "observed bucket_events (count_arrival offset dup b) = observed bucket_events b + 1"
    "observed bucket_unique (count_arrival offset dup b) = observed bucket_unique b + (if dup then 0 else 1)"
    "observed bucket_duplicates (count_arrival offset dup b) = observed bucket_duplicates b + (if dup then 1 else 0)"
proof -
  obtain i where i: "i < length (all_buckets b)"
    and all: "all_buckets (count_arrival offset dup b) = (all_buckets b)[i := bucket_record dup (all_buckets b ! i)]"
    and w: "windows_ok (count_arrival offset dup b)"
    using count_arrival_bucket [OF assms(1)] by blast
  let ?x = "all_buckets b ! i"
  have x: "?x \<in> set (all_buckets b)" using i by simp
  note inc = bucket_record_counts [of ?x dup]
  have "bucket_events ?x + 1 < 2 ^ 64" "bucket_unique ?x + 1 < 2 ^ 64" "bucket_duplicates ?x + 1 < 2 ^ 64"
    using observed_bucket [OF x, of bucket_events] observed_bucket [OF x, of bucket_unique]
      observed_bucket [OF x, of bucket_duplicates] assms(2-4) by linarith+
  note inc = bucket_record_counts [OF this, of dup]
  show "windows_ok (count_arrival offset dup b)" by (rule w)
  show "observed bucket_events (count_arrival offset dup b) = observed bucket_events b + 1"
    "observed bucket_unique (count_arrival offset dup b) = observed bucket_unique b + (if dup then 0 else 1)"
    "observed bucket_duplicates (count_arrival offset dup b) = observed bucket_duplicates b + (if dup then 1 else 0)"
    using sum_map_update [OF i, of bucket_events "bucket_record dup ?x"]
      sum_map_update [OF i, of bucket_unique "bucket_record dup ?x"]
      sum_map_update [OF i, of bucket_duplicates "bucket_record dup ?x"]
    by (simp_all add: observed_def all inc)
qed

type_synonym burst_call = "u64 \<times> u64 \<times> bool"

definition burst_step :: "burst_call \<Rightarrow> burst_observation \<Rightarrow> burst_observation" where
  "burst_step = (\<lambda>(origin, arrival, dup). burst_record origin arrival dup)"

lemma burst_step_counts:
  assumes "windows_ok b" "observed bucket_events b + 1 < 2 ^ 64" "observed bucket_unique b + 1 < 2 ^ 64"
    "observed bucket_duplicates b + 1 < 2 ^ 64"
  shows "windows_ok (burst_step c b) \<and>
    observed bucket_events (burst_step c b) = observed bucket_events b + 1 \<and>
    observed bucket_unique (burst_step c b) = observed bucket_unique b + (if snd (snd c) then 0 else 1) \<and>
    observed bucket_duplicates (burst_step c b) = observed bucket_duplicates b + (if snd (snd c) then 1 else 0)"
proof -
  obtain origin arrival dup where c: "c = (origin, arrival, dup)" by (metis prod_cases3)
  define b1 where "b1 = (if origin \<noteq> bu_source_origin_ns b \<or> arrival < origin
      then b\<lparr>bu_origin_mismatch_events := sat_add (bu_origin_mismatch_events b) 1\<rparr> else b)"
  define off where "off = sat_sub arrival (bu_source_origin_ns b1)"
  define b2 where "b2 = capture_fine_sample arrival dup (b1\<lparr>bu_max_arrival_offset_ns := max (bu_max_arrival_offset_ns b1) off\<rparr>)"
  have "all_buckets b2 = all_buckets b" "windows_ok b2"
    using assms(1) by (auto simp: b2_def b1_def capture_fine_sample_def all_buckets_def windows_ok_def)
  then have "observed f b2 = observed f b" "windows_ok b2" for f by (simp_all add: observed_def)
  moreover have "burst_step c b = count_arrival off dup b2"
    by (simp only: c burst_step_def burst_record_def Let_def prod.case b2_def off_def b1_def)
  ultimately show ?thesis using count_arrival_counts [of b2 off dup] assms(2-4) by (simp add: c)
qed

lemma burst_run_counts:
  assumes "length calls < 2 ^ 64"
  shows "windows_ok (fold burst_step calls (burst_observation_new origin)) \<and>
    observed bucket_events (fold burst_step calls (burst_observation_new origin)) = length calls \<and>
    observed bucket_unique (fold burst_step calls (burst_observation_new origin)) = length (filter (\<lambda>c. \<not> snd (snd c)) calls) \<and>
    observed bucket_duplicates (fold burst_step calls (burst_observation_new origin)) = length (filter (\<lambda>c. snd (snd c)) calls)"
  using assms
proof (induction calls rule: rev_induct)
  case Nil
  then show ?case
    by (simp add: windows_ok_def burst_observation_new_def observed_def all_buckets_def bucket_counts
        burst_bucket_default_def sum_list_replicate)
next
  case (snoc c calls)
  have "length (filter P calls) + 1 < 2 ^ 64" for P :: "burst_call \<Rightarrow> bool"
    using snoc.prems le_less_trans [OF length_filter_le [of P calls]] by simp
  with snoc burst_step_counts [of "fold burst_step calls (burst_observation_new origin)" c] show ?case by auto
qed

section \<open>Fine buckets\<close>

definition in_window :: "u64 \<Rightarrow> fine_event_sample \<Rightarrow> bool" where
  "in_window event_ns s \<longleftrightarrow>
     (let x = signed_timestamp_offset (fe_arrival_unix_ns s) event_ns in FINE_EVENT_START_NS \<le> x \<and> x < FINE_EVENT_END_NS)"

definition sum_unat :: "u64 list \<Rightarrow> nat" where
  "sum_unat xs = sum_list (map unat xs)"

lemma bump_sum:
  assumes "i < length xs" "sum_unat xs + 1 < 2 ^ 64"
  shows "sum_unat (bump i xs) = sum_unat xs + 1" "length (bump i xs) = length xs"
proof -
  have "unat (xs ! i) \<le> sum_unat xs" using assms(1) elem_le_sum_list [of i "map unat xs"] by (simp add: sum_unat_def)
  then have "unat (sat_add (xs ! i) 1) = unat (xs ! i) + 1" using assms(2) by (intro sat_add_one_less) simp
  with sum_map_update [OF assms(1), of unat "sat_add (xs ! i) 1"] show "sum_unat (bump i xs) = sum_unat xs + 1"
    using assms(1) by (simp add: bump_def sum_unat_def)
qed (simp add: bump_def)

text \<open>A grid that covers the window exactly, so that every sample in the window has its bucket.\<close>

definition covers :: "int \<Rightarrow> usize \<Rightarrow> bool" where
  "covers width_ns count \<longleftrightarrow> 0 < width_ns \<and> count < 2 ^ 32 \<and> int count * width_ns = FINE_EVENT_END_NS - FINE_EVENT_START_NS"

definition fine_ok :: "u64 \<Rightarrow> usize \<Rightarrow> fine_event_sample list \<Rightarrow> fine_counts \<Rightarrow> bool" where
  "fine_ok event_ns count ss t \<longleftrightarrow>
     length (fc_unique t) = count \<and> length (fc_events t) = count \<and> length (fc_duplicates t) = count \<and>
     sum_unat (fc_events t) = length (filter (in_window event_ns) ss) \<and>
     sum_unat (fc_unique t) = length (filter (\<lambda>s. in_window event_ns s \<and> \<not> fe_duplicate s) ss) \<and>
     sum_unat (fc_duplicates t) = length (filter (\<lambda>s. in_window event_ns s \<and> fe_duplicate s) ss)"

lemma fine_step_window:
  assumes "covers width_ns count"
  shows "sat_i64 (FINE_EVENT_START_NS + sat_i64 (min (int count) I64_MAX * width_ns)) = FINE_EVENT_END_NS"
  using assms by (simp add: covers_def sat_i64_def I64_MAX_def FINE_EVENT_START_NS_def FINE_EVENT_END_NS_def)

lemma int_div_below:
  fixes a :: int
  assumes "0 < w" "a < c * w"
  shows "a div w < c"
proof (rule ccontr)
  assume "\<not> a div w < c"
  then have "c * w \<le> (a div w) * w" using assms(1) by (simp add: mult_right_mono)
  also have "\<dots> \<le> a" using assms(1) pos_mod_sign [of w a] by (simp flip: minus_mod_eq_div_mult)
  finally show False using assms(2) by simp
qed

lemma fine_step_ok:
  assumes "covers width_ns count" "fine_ok event_ns count ss t" "length ss + 1 < 2 ^ 64"
  shows "fine_ok event_ns count (ss @ [s]) (fine_count_step event_ns width_ns count s t)"
proof (cases "in_window event_ns s")
  case False
  then show ?thesis
    using assms(2) by (auto simp: fine_ok_def fine_count_step_def fine_step_window [OF assms(1)] in_window_def Let_def)
next
  case True
  let ?x = "signed_timestamp_offset (fe_arrival_unix_ns s) event_ns"
  let ?q = "sat_i64 (?x - FINE_EVENT_START_NS) div width_ns"
  have win: "FINE_EVENT_START_NS \<le> ?x" "?x < FINE_EVENT_END_NS" using True by (simp_all add: in_window_def Let_def)
  then have sat: "sat_i64 (?x - FINE_EVENT_START_NS) = ?x - FINE_EVENT_START_NS"
    by (simp add: sat_i64_def I64_MAX_def FINE_EVENT_START_NS_def FINE_EVENT_END_NS_def)
  have w: "0 < width_ns" "?x - FINE_EVENT_START_NS < int count * width_ns"
    using assms(1) win by (simp_all add: covers_def)
  then have q: "0 \<le> ?q" "?q < int count"
    using win by (simp_all add: sat pos_imp_zdiv_nonneg_iff int_div_below)
  then have idx: "nat ?q < count" by linarith
  have small: "length (filter P ss) + 1 < 2 ^ 64" for P :: "fine_event_sample \<Rightarrow> bool"
    using assms(3) le_less_trans [OF length_filter_le [of P ss]] by simp
  have step: "fine_count_step event_ns width_ns count s t =
    (let t = t\<lparr>fc_events := bump (nat ?q) (fc_events t)\<rparr> in
     if fe_duplicate s then t\<lparr>fc_duplicates := bump (nat ?q) (fc_duplicates t)\<rparr>
     else t\<lparr>fc_unique := bump (nat ?q) (fc_unique t)\<rparr>)"
    using assms(2) win w(1) q idx
    by (simp add: fine_count_step_def fine_step_window [OF assms(1)] fine_ok_def Let_def)
  show ?thesis
    using assms(2) idx small True unfolding step
    by (auto simp: fine_ok_def Let_def bump_sum)
qed

lemma fine_counts_ok:
  assumes "covers width_ns count" "length ss < 2 ^ 64"
  shows "fine_ok event_ns count ss (fine_event_counts ss event_ns width_ns count)"
  using assms(2)
proof (induction ss rule: rev_induct)
  case Nil
  then show ?case by (simp add: fine_ok_def fine_event_counts_def sum_unat_def sum_list_replicate)
next
  case (snoc s ss)
  then show ?case using fine_step_ok [OF assms(1), of event_ns ss _ s] by (simp add: fine_event_counts_def)
qed

lemma fine_totals_fold:
  assumes "unat u + sum_unat (map fb_received_unique bs) < 2 ^ 64"
    "unat e + sum_unat (map fb_received_events bs) < 2 ^ 64"
    "unat d + sum_unat (map fb_duplicates bs) < 2 ^ 64"
  shows "fold (\<lambda>b (u, e, d). (sat_add u (fb_received_unique b), sat_add e (fb_received_events b), sat_add d (fb_duplicates b)))
       bs (u, e, d) =
     (of_nat (unat u + sum_unat (map fb_received_unique bs)), of_nat (unat e + sum_unat (map fb_received_events bs)),
      of_nat (unat d + sum_unat (map fb_duplicates bs)))"
  using assms
proof (induction bs arbitrary: u e d)
  case Nil
  then show ?case by (simp add: sum_unat_def)
next
  case (Cons b bs)
  have sat: "unat (sat_add x y) = unat x + unat y" if "unat x + (unat y + n) < 2 ^ 64" for x y :: u64 and n
    using that by (simp add: unat_sat_add)
  have "unat (sat_add u (fb_received_unique b)) = unat u + unat (fb_received_unique b)"
    "unat (sat_add e (fb_received_events b)) = unat e + unat (fb_received_events b)"
    "unat (sat_add d (fb_duplicates b)) = unat d + unat (fb_duplicates b)"
    using Cons.prems by (auto simp: sum_unat_def intro: sat)
  with Cons.prems show ?case by (simp add: Cons.IH sum_unat_def add.assoc)
qed

lemma fine_totals:
  assumes "covers width_ns count" "length ss < 2 ^ 64"
  shows "fine_event_totals (fine_event_buckets ss event_ns width_ns count) =
    (of_nat (length (filter (\<lambda>s. in_window event_ns s \<and> \<not> fe_duplicate s) ss)),
     of_nat (length (filter (in_window event_ns) ss)),
     of_nat (length (filter (\<lambda>s. in_window event_ns s \<and> fe_duplicate s) ss)))"
proof -
  let ?t = "fine_event_counts ss event_ns width_ns count"
  let ?bs = "fine_event_buckets ss event_ns width_ns count"
  have ok: "fine_ok event_ns count ss ?t" by (rule fine_counts_ok [OF assms])
  have len: "length (fc_unique ?t) = count" "length (fc_events ?t) = count" "length (fc_duplicates ?t) = count"
    using ok by (simp_all add: fine_ok_def)
  have nth: "map (\<lambda>i. xs ! i) [0..<count] = xs" if "length xs = count" for xs :: "u64 list"
    using that map_nth [of xs] by simp
  have "map fb_received_unique ?bs = fc_unique ?t" "map fb_received_events ?bs = fc_events ?t"
    "map fb_duplicates ?bs = fc_duplicates ?t"
    by (simp_all add: fine_event_buckets_def Let_def comp_def nth len)
  moreover have "length (filter P ss) < 2 ^ 64" for P :: "fine_event_sample \<Rightarrow> bool"
    using assms(2) le_less_trans [OF length_filter_le [of P ss]] by simp
  ultimately show ?thesis
    using ok fine_totals_fold [of 0 ?bs 0 0] by (simp add: fine_event_totals_def fine_ok_def)
qed

section \<open>Properties\<close>

lemma burst_step_fine:
  "length (bu_fine_samples b) \<le> FINE_EVENT_SAMPLE_CAPACITY \<Longrightarrow>
   length (bu_fine_samples (burst_step c b)) \<le> FINE_EVENT_SAMPLE_CAPACITY"
  by (cases c) (auto simp: burst_step_def burst_record_def capture_fine_sample_def count_arrival_def Let_def)

lemma burst_run_fine:
  "length (bu_fine_samples (fold burst_step calls (burst_observation_new origin))) \<le> FINE_EVENT_SAMPLE_CAPACITY"
  by (induction calls rule: rev_induct) (simp_all add: burst_observation_new_def burst_step_fine)

text \<open>
  Every arrival given to a burst observation is counted once, in one bucket of the primary window,
  of the drain window or after it, whatever its offset: over all buckets the events add up to the
  number of calls, and the unique and duplicate counts to the calls of each kind.
\<close>

theorem burst_accounts:
  assumes "length calls < 2 ^ 64"
  shows "let b = fold burst_step calls (burst_observation_new origin) in
    observed bucket_events b = length calls \<and>
    observed bucket_unique b = length (filter (\<lambda>c. \<not> snd (snd c)) calls) \<and>
    observed bucket_duplicates b = length (filter (\<lambda>c. snd (snd c)) calls)"
  using burst_run_counts [OF assms, of origin] by (simp add: Let_def)

theorem burst_accounts_witness:
  "let b = fold burst_step [(5, 100, False), (5, 125000000000, True), (5, 999000000000, False)] (burst_observation_new 5) in
    observed bucket_events b = 3 \<and> observed bucket_unique b = 2 \<and> observed bucket_duplicates b = 1"
  using burst_accounts [of "[(5, 100, False), (5, 125000000000, True), (5, 999000000000, False)]" 5]
  by (simp add: Let_def)

lemma burst_step_captures:
  defines "window \<equiv> \<lambda>b a. in_capture_window (sat_add (bu_source_origin_ns b) BURST_SWAP_OFFSET_NS) a"
  defines "full \<equiv> \<lambda>b. length (bu_fine_samples b) = FINE_EVENT_SAMPLE_CAPACITY"
  shows "bu_source_origin_ns (burst_step c b) = bu_source_origin_ns b"
    "bu_fine_samples (burst_step (origin, a, d) b) = bu_fine_samples b @
       (if window b a \<and> \<not> full b then [\<lparr>fe_arrival_unix_ns = a, fe_duplicate = d\<rparr>] else [])"
    "bu_fine_samples_overflowed (burst_step (origin, a, d) b) \<longleftrightarrow> bu_fine_samples_overflowed b \<or> window b a \<and> full b"
  by (cases c) (auto simp: burst_step_def burst_record_def capture_fine_sample_def count_arrival_def Let_def window_def full_def)

text \<open>The checks on a receipt whose event happened at \<open>t\<close>.\<close>

definition receipt_accepted :: "fine_receipt \<Rightarrow> u64 \<Rightarrow> u64 \<Rightarrow> bool" where
  "receipt_accepted r origin t \<longleftrightarrow>
     (let scheduled = sat_add origin BURST_SWAP_OFFSET_NS in
      r = \<lparr>fr_event_timestamp_ns = Some t, fr_schema_version = Some 1, fr_clock = Some ''unix-epoch'',
           fr_alignment = Some ''actual-t0'', fr_source_measurement_start_unix_ns = Some origin,
           fr_scheduled_event_timestamp_ns = Some scheduled\<rparr> \<and>
      \<bar>signed_timestamp_offset t scheduled\<bar> \<le> 10000000)"

lemma burst_run_origin: "bu_source_origin_ns (fold burst_step calls (burst_observation_new origin)) = origin"
  by (induction calls rule: rev_induct) (simp_all add: burst_step_captures burst_observation_new_def)

text \<open>
  From what a burst observation captured, and a receipt of the swap that passes the checks, the
  10 ms buckets and their 100 ms parents are always written: the comparison between the two grids
  never fails, because both cover the event window exactly and hold every captured sample of the
  window once, with the same unique, event and duplicate totals. The only error left is a full sample
  buffer.
\<close>

theorem fine_evidence_exact:
  fixes calls :: "burst_call list"
  assumes "receipt_accepted receipt origin t"
  defines "b \<equiv> fold burst_step calls (burst_observation_new origin)"
  defines "arrived \<equiv> \<lambda>P. of_nat (length (filter (\<lambda>s. in_window t s \<and> P s) (bu_fine_samples b)))"
  shows "if bu_fine_samples_overflowed b
    then write_fine_event_buckets (Some (Inr receipt)) b = Inl (FineInvalid ''fine event sample capacity exceeded'')
    else \<exists>buckets parents. write_fine_event_buckets (Some (Inr receipt)) b = Inr (Some (buckets, parents)) \<and>
      fine_event_totals buckets = (arrived (\<lambda>s. \<not> fe_duplicate s), arrived (\<lambda>_. True), arrived fe_duplicate) \<and>
      fine_event_totals parents = fine_event_totals buckets"
proof -
  have small: "length (bu_fine_samples b) < 2 ^ 64"
    using burst_run_fine [of calls origin] by (simp add: b_def FINE_EVENT_SAMPLE_CAPACITY_def)
  have grids: "covers FINE_EVENT_BUCKET_WIDTH_NS FINE_EVENT_BUCKET_COUNT" "covers FINE_EVENT_PARENT_WIDTH_NS FINE_EVENT_PARENT_COUNT"
    by (simp_all add: covers_def FINE_EVENT_BUCKET_WIDTH_NS_def FINE_EVENT_BUCKET_COUNT_def FINE_EVENT_PARENT_WIDTH_NS_def
        FINE_EVENT_PARENT_COUNT_def FINE_EVENT_START_NS_def FINE_EVENT_END_NS_def)
  note totals = fine_totals [OF grids(1) small, of t] fine_totals [OF grids(2) small, of t]
  have "bu_source_origin_ns b = origin" by (simp add: b_def burst_run_origin)
  with assms(1) show ?thesis
    by (simp add: write_fine_event_buckets_def fine_event_evidence_def receipt_accepted_def totals arrived_def
        FINE_EVENT_ALIGNMENT_TOLERANCE_NS_def Let_def)
qed

definition sample_receipt :: fine_receipt where
  "sample_receipt =
     \<lparr>fr_event_timestamp_ns = Some 60000000007, fr_schema_version = Some 1, fr_clock = Some ''unix-epoch'',
      fr_alignment = Some ''actual-t0'', fr_source_measurement_start_unix_ns = Some 0,
      fr_scheduled_event_timestamp_ns = Some 60000000000\<rparr>"

theorem fine_evidence_exact_witness:
  "let b = fold burst_step [(0, 60000000000, False), (0, 60000000001, True)] (burst_observation_new 0) in
   \<exists>buckets parents. write_fine_event_buckets (Some (Inr sample_receipt)) b = Inr (Some (buckets, parents)) \<and>
     fine_event_totals buckets = (1, 2, 1)"
proof -
  let ?calls = "[(0, 60000000000, False), (0, 60000000001, True)] :: burst_call list"
  let ?b = "fold burst_step ?calls (burst_observation_new 0)"
  have "bu_fine_samples ?b = [\<lparr>fe_arrival_unix_ns = 60000000000, fe_duplicate = False\<rparr>,
      \<lparr>fe_arrival_unix_ns = 60000000001, fe_duplicate = True\<rparr>] \<and> \<not> bu_fine_samples_overflowed ?b"
    by (simp add: burst_step_captures in_capture_window_def burst_observation_new_def BURST_SWAP_OFFSET_NS_def FINE_EVENT_SAMPLE_CAPACITY_def FINE_EVENT_START_NS_def
        FINE_EVENT_END_NS_def FINE_EVENT_ALIGNMENT_TOLERANCE_NS_def sat_add_def sat_sub_def Let_def)
  moreover have "receipt_accepted sample_receipt 0 60000000007"
    by (simp add: receipt_accepted_def sample_receipt_def signed_timestamp_offset_def BURST_SWAP_OFFSET_NS_def
        sat_add_def sat_sub_def I64_MAX_def Let_def)
  moreover have "in_window 60000000007 \<lparr>fe_arrival_unix_ns = 60000000000, fe_duplicate = d\<rparr>"
    "in_window 60000000007 \<lparr>fe_arrival_unix_ns = 60000000001, fe_duplicate = d\<rparr>" for d
    by (simp_all add: in_window_def signed_timestamp_offset_def sat_sub_def I64_MAX_def FINE_EVENT_START_NS_def
        FINE_EVENT_END_NS_def Let_def)
  ultimately show ?thesis using fine_evidence_exact [of sample_receipt 0 60000000007 ?calls] by (auto simp: Let_def)
qed

end
