(* ===== verification/BenchSink.thy ===== *)
theory BenchSink
  imports Host ErrorTypes Sequence CoreUtil BenchRecorders BurstBuckets
begin

text \<open>
  The measurement sink, \<open>BenchSink\<close> in \<open>wafer-core/src/node/sink/bench.rs\<close>: what one collected
  message does to the latency histograms, the sequence tracker, the throughput grid, the interval rows, the burst buckets and the hot-swap recorder, closing, and the
  export of the artifacts. The latency histogram is a parameter (\<open>histogram_ops\<close>); artifacts are the
  values they render, except the small text files, which are rendered.
\<close>

section \<open>Data\<close>

record bench_sink_settings =
  bg_warmup_secs :: u64
  bg_track_sequences :: bool
  bg_track_hotswap :: bool
  bg_output_dir :: "string option"

definition sink_settings_default :: bench_sink_settings where
  "sink_settings_default =
     \<lparr>bg_warmup_secs = 30, bg_track_sequences = True, bg_track_hotswap = False, bg_output_dir = None\<rparr>"

definition settings_for_test :: bench_sink_settings where
  "settings_for_test =
     \<lparr>bg_warmup_secs = 0, bg_track_sequences = True, bg_track_hotswap = False, bg_output_dir = None\<rparr>"

definition with_output_dir :: "string \<Rightarrow> bench_sink_settings \<Rightarrow> bench_sink_settings" where
  "with_output_dir dir c = c\<lparr>bg_output_dir := Some dir\<rparr>"

definition latency_clamps_default :: latency_clamps where
  "latency_clamps_default = \<lparr>lc_negative = 0, lc_above_highest = 0\<rparr>"

record 'g bench_sink =
  bk_id :: string
  bk_config :: bench_sink_settings
  bk_histogram :: 'g
  bk_service_histogram :: 'g
  bk_source_lag_histogram :: 'g
  bk_latency_clamps :: latency_clamps
  bk_service_clamps :: latency_clamps
  bk_source_lag_clamps :: latency_clamps
  bk_warmup_until :: "instant option"
  bk_sequence_tracker :: "sequence_tracker option"
  bk_sequence_population_read :: bool
  bk_hotswap_recorder :: "hot_swap_recorder option"
  bk_message_count :: u64
  bk_started :: bool
  bk_start_wall_time :: "systime option"
  bk_measurement_start :: "instant option"
  bk_throughput :: throughput_grid
  bk_interval_recorder :: "'g interval_recorder option"
  bk_interval_uses_source_origin :: bool
  bk_burst_observation :: "burst_observation option"
  bk_burst_missing_origin_events :: u64
  bk_burst_phase_received :: "u64 list"

definition bench_sink_new :: "'g histogram_ops \<Rightarrow> bench_sink_settings \<Rightarrow> 'g bench_sink" where
  "bench_sink_new G c =
     \<lparr>bk_id = ''bench-sink'', bk_config = c, bk_histogram = hg_new G, bk_service_histogram = hg_new G,
      bk_source_lag_histogram = hg_new G, bk_latency_clamps = latency_clamps_default,
      bk_service_clamps = latency_clamps_default, bk_source_lag_clamps = latency_clamps_default, bk_warmup_until = None,
      bk_sequence_tracker = (if bg_track_sequences c then Some (with_max_examples 0 unanchored) else None),
      bk_sequence_population_read = False,
      bk_hotswap_recorder = (if bg_track_hotswap c then Some recorder_new else None), bk_message_count = 0,
      bk_started = False, bk_start_wall_time = None, bk_measurement_start = None, bk_throughput = grid_default,
      bk_interval_recorder = None, bk_interval_uses_source_origin = False, bk_burst_observation = None,
      bk_burst_missing_origin_events = 0, bk_burst_phase_received = [0, 0, 0]\<rparr>"

section \<open>The host\<close>

text \<open>The parsed \<open>WAFER_MEASUREMENT_SECS\<close>, the files, and the receipt of the fine evidence.\<close>

datatype 'g artifact =
    ArtText string
  | ArtHistogram 'g string string
  | ArtWindow u64 u64 int latency_clamps latency_clamps latency_clamps
  | ArtBurst burst_observation burst_bucket u64 "u64 list"
  | ArtFineBuckets "fine_event_bucket list \<times> fine_event_bucket list"
  | ArtIntervals "interval_latency_row list" u64
  | ArtErrors "(string \<times> string) list"

record ('g, 'w) bench_host = "'w anchored_host" +
  bh_measurement_secs :: "u64 option"
  bh_create_dir :: "string \<Rightarrow> 'w \<Rightarrow> (string, unit) result \<times> 'w"
  bh_files :: "('g artifact, 'w) file_ops"
  bh_receipt :: "'w \<Rightarrow> (string, fine_receipt) result option"
  bh_fine_error :: "fine_error \<Rightarrow> string"

definition wall_clock_ns :: "('g, 'w, 'h) bench_host_scheme \<Rightarrow> 'w \<Rightarrow> u64 \<times> 'w" where
  "wall_clock_ns H w = (let (t, w) = h_system_now H w in (unix_epoch_nanos t, w))"

definition configured_measurement_secs :: "('g, 'w, 'h) bench_host_scheme \<Rightarrow> u64" where
  "configured_measurement_secs H =
     (case bh_measurement_secs H of Some n \<Rightarrow> if n > 0 then n else 300 | None \<Rightarrow> 300)"

section \<open>Collecting\<close>

definition record_elapsed ::
    "'g histogram_ops \<Rightarrow> u64 \<Rightarrow> u64 \<Rightarrow> 'g \<Rightarrow> latency_clamps \<Rightarrow> u64 \<times> 'g \<times> latency_clamps" where
  "record_elapsed G from to h clamps =
     (let (clamps, value) = bound from to clamps in (value, hg_saturating_record G value h, clamps))"

definition record_sequence :: "bench_stamps option \<Rightarrow> 'g bench_sink \<Rightarrow> bool \<times> 'g bench_sink" where
  "record_sequence stamps s =
     (case (bk_sequence_tracker s, stamps) of
        (Some tracker, Some b) \<Rightarrow>
          let tracker = (if bk_sequence_population_read s then tracker
                         else let tracker = anchor_start (bs_measurement_start_seq b) tracker
                              in case bs_sequence_end b of None \<Rightarrow> tracker | Some e \<Rightarrow> anchor_end e tracker);
              (tracker, oc) = record_seq (bs_sequence b) tracker
          in (is_duplicate oc, s\<lparr>bk_sequence_tracker := Some tracker, bk_sequence_population_read := True\<rparr>)
      | _ \<Rightarrow> (False, s))"

definition record_burst_bucket :: "bench_stamps option \<Rightarrow> u64 \<Rightarrow> bool \<Rightarrow> 'g bench_sink \<Rightarrow> 'g bench_sink" where
  "record_burst_bucket stamps arrival_unix_ns duplicate s =
     (case Option.bind stamps bs_burst of
        None \<Rightarrow> s
      | Some burst \<Rightarrow>
          let s = (case bu_measurement_start_unix_ns burst of
                     Some origin \<Rightarrow>
                       let b = (case bk_burst_observation s of Some b \<Rightarrow> b | None \<Rightarrow> burst_observation_new origin)
                       in s\<lparr>bk_burst_observation := Some (burst_record origin arrival_unix_ns duplicate b)\<rparr>
                   | None \<Rightarrow> s\<lparr>bk_burst_missing_origin_events := sat_add (bk_burst_missing_origin_events s) 1\<rparr>)
          in s\<lparr>bk_burst_phase_received := bump (burst_index (bu_phase burst)) (bk_burst_phase_received s)\<rparr>)"

text \<open>The first message arms the warm-up timer.\<close>

definition start_warmup :: "instant \<Rightarrow> 'g bench_sink \<Rightarrow> 'g bench_sink" where
  "start_warmup now s =
     (if bk_started s then s
      else
        let s = s\<lparr>bk_started := True\<rparr> in
        if bg_warmup_secs (bk_config s) > 0
        then s\<lparr>bk_warmup_until := Some (now + unat (bg_warmup_secs (bk_config s)) * 1000000000)\<rparr>
        else s)"

definition in_warmup :: "bench_stamps option \<Rightarrow> instant \<Rightarrow> 'g bench_sink \<Rightarrow> bool" where
  "in_warmup stamps now s =
     (case stamps of
        None \<Rightarrow> (case bk_warmup_until s of None \<Rightarrow> False | Some until \<Rightarrow> now < until)
      | Some b \<Rightarrow> bs_warmup b)"

text \<open>The first message after the warm-up opens the measurement window.\<close>

definition start_measurement ::
    "'g histogram_ops \<Rightarrow> ('g, 'w, 'h) bench_host_scheme \<Rightarrow> instant \<Rightarrow> u64 option \<Rightarrow> 'g bench_sink \<Rightarrow> 'w
       \<Rightarrow> 'g bench_sink \<times> 'w" where
  "start_measurement G H now source_origin_ns s w =
     (if bk_measurement_start s \<noteq> None then (s, w)
      else
        let (start_wall_time, w) = h_system_now H w;
            start_unix_ns = (case source_origin_ns of Some n \<Rightarrow> n | None \<Rightarrow> unix_epoch_nanos start_wall_time)
        in (s\<lparr>bk_measurement_start := Some now, bk_start_wall_time := Some start_wall_time,
              bk_interval_uses_source_origin := (source_origin_ns \<noteq> None),
              bk_interval_recorder := Some (interval_new G start_unix_ns (configured_measurement_secs H))\<rparr>, w))"

definition record_latencies ::
    "'g histogram_ops \<Rightarrow> u64 \<Rightarrow> bench_stamps option \<Rightarrow> 'g bench_sink \<Rightarrow> u64 option \<times> 'g bench_sink" where
  "record_latencies G arrival_unix_ns stamps s =
     (case stamps of
        None \<Rightarrow> (None, s)
      | Some b \<Rightarrow>
          let (latency, h, c) = record_elapsed G (bs_intended_ns b) arrival_unix_ns (bk_histogram s) (bk_latency_clamps s);
              (_, sh, sc) = record_elapsed G (bs_emit_ns b) arrival_unix_ns (bk_service_histogram s) (bk_service_clamps s);
              (_, lh, lc) = record_elapsed G (bs_intended_ns b) (bs_emit_ns b) (bk_source_lag_histogram s) (bk_source_lag_clamps s)
          in (Some latency,
              s\<lparr>bk_histogram := h, bk_latency_clamps := c, bk_service_histogram := sh, bk_service_clamps := sc,
                bk_source_lag_histogram := lh, bk_source_lag_clamps := lc\<rparr>))"

definition interval_elapsed :: "instant \<Rightarrow> instant \<Rightarrow> u64 option \<Rightarrow> bench_stamps option \<Rightarrow> u64" where
  "interval_elapsed now start source_origin_ns stamps =
     (case Option.bind source_origin_ns (\<lambda>origin. Option.bind stamps (\<lambda>b. checked_sub (bs_intended_ns b) origin)) of
        Some n \<Rightarrow> n
      | None \<Rightarrow> duration_ns_saturating (now - start))"

definition record_version :: "runtime_envelope \<Rightarrow> u64 \<Rightarrow> 'g bench_sink \<Rightarrow> 'g bench_sink" where
  "record_version env arrival_unix_ns s =
     (case (bk_hotswap_recorder s, List.find (\<lambda>(key, _). key = ''plugin.version'') (eh_metadata (re_header env))) of
        (Some r, Some (_, version)) \<Rightarrow> s\<lparr>bk_hotswap_recorder := Some (recorder_record version arrival_unix_ns r)\<rparr>
      | _ \<Rightarrow> s)"

definition measure_message ::
    "'g histogram_ops \<Rightarrow> ('g, 'w, 'h) bench_host_scheme \<Rightarrow> runtime_envelope \<Rightarrow> u64 \<Rightarrow> instant \<Rightarrow> 'g bench_sink \<Rightarrow> 'w
       \<Rightarrow> 'g bench_sink \<times> 'w" where
  "measure_message G H env arrival_unix_ns now s w =
     (let stamps = eh_bench (re_header env);
          source_origin_ns = Option.bind (Option.bind stamps bs_burst) bu_measurement_start_unix_ns;
          (s, w) = start_measurement G H now source_origin_ns s w;
          (duplicate, s) = record_sequence stamps s;
          s = record_burst_bucket stamps arrival_unix_ns duplicate s;
          since_start = (case bk_measurement_start s of None \<Rightarrow> 0 | Some start \<Rightarrow> now - start);
          s = s\<lparr>bk_throughput := grid_record since_start (u64_saturating (length (re_payload env))) (bk_throughput s)\<rparr>;
          (latency_ns, s) = record_latencies G arrival_unix_ns stamps s;
          s = (case (bk_measurement_start s, bk_interval_recorder s) of
                 (Some start, Some r) \<Rightarrow>
                   s\<lparr>bk_interval_recorder :=
                       Some (interval_record G (interval_elapsed now start source_origin_ns stamps) latency_ns duplicate r)\<rparr>
               | _ \<Rightarrow> s)
      in (record_version env arrival_unix_ns s, w))"

definition bench_collect ::
    "'g histogram_ops \<Rightarrow> ('g, 'w, 'h) bench_host_scheme \<Rightarrow> runtime_envelope \<Rightarrow> 'g bench_sink \<Rightarrow> 'w \<Rightarrow> 'g bench_sink \<times> 'w" where
  "bench_collect G H env s w =
     (let (arrival_unix_ns, w) = monotonic_unix_ns H w;
          (now, w) = h_now H w;
          s = start_warmup now s;
          s = s\<lparr>bk_message_count := sat_add (bk_message_count s) 1\<rparr>
      in
      if in_warmup (eh_bench (re_header env)) now s then (s, w)
      else measure_message G H env arrival_unix_ns now s w)"

section \<open>Lifecycle and export\<close>

definition bench_init :: "'g histogram_ops \<Rightarrow> ('g, 'w, 'h) bench_host_scheme \<Rightarrow> 'g bench_sink \<Rightarrow> 'w \<Rightarrow> 'g bench_sink \<times> 'w" where
  "bench_init G H s w =
     (if bg_output_dir (bk_config s) = None then (s, w)
      else let (ns, w) = wall_clock_ns H w
           in (s\<lparr>bk_interval_recorder := Some (interval_new G ns (configured_measurement_secs H))\<rparr>, w))"

definition throughput_csv :: "throughput_grid \<Rightarrow> string" where
  "throughput_csv g =
     ''elapsed_secs,msg_count,bytes'' @ [CHR 0x0A] @
     concat (map (\<lambda>t. show_nat (unat (tp_elapsed_secs t)) @ ''.000,'' @ show_nat (unat (tp_msg_count t)) @ '','' @
                      show_nat (unat (tp_bytes t)) @ [CHR 0x0A]) (tg_samples g))"

definition sequence_csv :: "sequence_tracker \<Rightarrow> string" where
  "sequence_csv t =
     ''total_expected,total_received,received_unique,gap_ranges,gap_msgs,duplicates_count,out_of_order,out_of_range''
     @ [CHR 0x0A] @
     concat (map (\<lambda>n. show_nat (unat n) @ '','')
       [expected t, st_received t, st_unique t, mr_total (missing_ranges_of t), missing t, st_duplicates t, st_out_of_order t])
     @ show_nat (unat (st_out_of_range t)) @ [CHR 0x0A]"

text \<open>\<open>replace('"', "\\\"")\<close> on a version.\<close>

definition escape_quotes :: "string \<Rightarrow> string" where
  "escape_quotes s = concat (map (\<lambda>c. if c = CHR 0x22 then [CHR 0x5C, CHR 0x22] else [c]) s)"

definition json_string :: "string \<Rightarrow> string" where
  "json_string s = [CHR 0x22] @ s @ [CHR 0x22]"

definition opt_number :: "u64 option \<Rightarrow> string" where
  "opt_number v = (case v of None \<Rightarrow> ''null'' | Some n \<Rightarrow> show_nat (unat n))"

definition swap_timeline_json :: "hot_swap_recorder \<Rightarrow> string" where
  "swap_timeline_json r =
     ''{'' @ json_string ''transitions'' @ '':['' @
     join '','' (map (\<lambda>t. ''{'' @ json_string ''from'' @ '':'' @ json_string (escape_quotes (sx_from t)) @ '','' @
         json_string ''to'' @ '':'' @ json_string (escape_quotes (sx_to t)) @ '','' @ json_string ''pause_ns'' @ '':'' @
         show_nat (unat (sx_pause_ns t)) @ ''}'') (hr_transitions r)) @
     ''],'' @ json_string ''first_v2_ns'' @ '':'' @ opt_number (first_v2_ns r) @ '','' @ json_string ''last_v1_ns'' @ '':'' @
     opt_number (last_v1_ns r) @ ''}'' @ [CHR 0x0A]"

type_synonym 'w writer = "'w \<Rightarrow> (string, unit) result \<times> 'w"

definition skip_artifact :: "'w writer" where
  "skip_artifact w = (Inr (), w)"

definition write_sequence :: "('g, 'w, 'h) bench_host_scheme \<Rightarrow> string \<Rightarrow> 'g bench_sink \<Rightarrow> 'w writer" where
  "write_sequence H dir s =
     (case bk_sequence_tracker s of
        None \<Rightarrow> skip_artifact
      | Some t \<Rightarrow> write_atomic (bh_files H) (Path dir ''sequence.csv'') (ArtText (sequence_csv t)))"

definition write_measurement_window :: "('g, 'w, 'h) bench_host_scheme \<Rightarrow> string \<Rightarrow> 'g bench_sink \<Rightarrow> 'w writer" where
  "write_measurement_window H dir s w =
     (case bk_start_wall_time s of
        None \<Rightarrow> skip_artifact w
      | Some started \<Rightarrow>
          let (finished_ns, w) = wall_clock_ns H w; (step, w) = wall_clock_step_ns H w
          in write_atomic (bh_files H) (Path dir ''measurement-window.json'')
               (ArtWindow (unix_epoch_nanos started) finished_ns step (bk_latency_clamps s) (bk_service_clamps s)
                  (bk_source_lag_clamps s)) w)"

definition write_swap_timeline :: "('g, 'w, 'h) bench_host_scheme \<Rightarrow> string \<Rightarrow> 'g bench_sink \<Rightarrow> 'w writer" where
  "write_swap_timeline H dir s =
     (case bk_hotswap_recorder s of
        None \<Rightarrow> skip_artifact
      | Some r \<Rightarrow>
          if hr_transitions r = [] then skip_artifact
          else write_atomic (bh_files H) (Path dir ''swap_timeline.json'') (ArtText (swap_timeline_json r)))"

definition write_component_hdr ::
    "'g histogram_ops \<Rightarrow> ('g, 'w, 'h) bench_host_scheme \<Rightarrow> string \<Rightarrow> string \<Rightarrow> 'g \<Rightarrow> string \<Rightarrow> string \<Rightarrow> 'w writer" where
  "write_component_hdr G H dir name h title tag =
     (if hg_len G h = 0 then skip_artifact else write_atomic (bh_files H) (Path dir name) (ArtHistogram h title tag))"

definition burst_artifact :: "'g bench_sink \<Rightarrow> burst_observation \<Rightarrow> 'g artifact" where
  "burst_artifact s b =
     (let primary = burst_bucket_totals (bu_primary b); drain = burst_bucket_totals (bu_drain b);
          total = (\<lambda>f. sat_add (sat_add (f primary) (f drain)) (f (bu_after_drain b)))
      in ArtBurst b \<lparr>bb_received_unique = total bb_received_unique, bb_received_events = total bb_received_events,
                     bb_duplicates = total bb_duplicates\<rparr>
           (bk_burst_missing_origin_events s) (bk_burst_phase_received s))"

definition write_burst_evidence :: "('g, 'w, 'h) bench_host_scheme \<Rightarrow> string \<Rightarrow> 'g bench_sink \<Rightarrow> 'w writer" where
  "write_burst_evidence H dir s =
     (case bk_burst_observation s of
        None \<Rightarrow> skip_artifact
      | Some b \<Rightarrow> write_atomic (bh_files H) (Path dir ''throughput-buckets.json'') (burst_artifact s b))"

definition write_fine_evidence :: "('g, 'w, 'h) bench_host_scheme \<Rightarrow> string \<Rightarrow> 'g bench_sink \<Rightarrow> 'w writer" where
  "write_fine_evidence H dir s w =
     (case bk_burst_observation s of
        None \<Rightarrow> skip_artifact w
      | Some b \<Rightarrow>
          (case write_fine_event_buckets (bh_receipt H w) b of
             Inl e \<Rightarrow> (Inl (bh_fine_error H e), w)
           | Inr None \<Rightarrow> skip_artifact w
           | Inr (Some a) \<Rightarrow> write_atomic (bh_files H) (Path dir ''throughput-buckets-10ms.json'') (ArtFineBuckets a) w))"

definition write_intervals ::
    "'g histogram_ops \<Rightarrow> ('g, 'w, 'h) bench_host_scheme \<Rightarrow> string \<Rightarrow> 'g bench_sink \<Rightarrow> 'w writer" where
  "write_intervals G H dir s w =
     (case bk_interval_recorder s of
        None \<Rightarrow> skip_artifact w
      | Some r \<Rightarrow>
          if \<not> ir_finalized r then skip_artifact w
          else
            let n = hg_len G (bk_histogram s) in
            case interval_check n r of
              Inl e \<Rightarrow> (Inl e, w)
            | Inr _ \<Rightarrow> write_atomic (bh_files H) (Path dir ''interval-latency.json'') (ArtIntervals (ir_rows r) n) w)"

definition artifact_writers ::
    "'g histogram_ops \<Rightarrow> ('g, 'w, 'h) bench_host_scheme \<Rightarrow> string \<Rightarrow> 'g bench_sink \<Rightarrow> (string \<times> 'w writer) list" where
  "artifact_writers G H dir s =
     [(''sequence.csv'', write_sequence H dir s),
      (''measurement-window.json'', write_measurement_window H dir s),
      (''swap_timeline.json'', write_swap_timeline H dir s),
      (''latency.hdr'', write_atomic (bh_files H) (Path dir ''latency.hdr'')
         (ArtHistogram (bk_histogram s) ''WAFER BenchSink latency histogram (nanoseconds)'' ''latency_ns'')),
      (''service.hdr'', write_component_hdr G H dir ''service.hdr'' (bk_service_histogram s)
         ''WAFER BenchSink service time histogram: arrival minus source emit (nanoseconds)'' ''service_ns''),
      (''source-lag.hdr'', write_component_hdr G H dir ''source-lag.hdr'' (bk_source_lag_histogram s)
         ''WAFER BenchSink source lag histogram: source emit minus scheduled send (nanoseconds)'' ''source_lag_ns''),
      (''throughput.csv'', write_atomic (bh_files H) (Path dir ''throughput.csv'') (ArtText (throughput_csv (bk_throughput s)))),
      (''throughput-buckets.json'', write_burst_evidence H dir s),
      (''throughput-buckets-10ms.json'', write_fine_evidence H dir s),
      (''interval-latency.json'', write_intervals G H dir s)]"

fun run_writers :: "(string \<times> 'w writer) list \<Rightarrow> 'w \<Rightarrow> (string \<times> string) list \<times> 'w" where
  "run_writers [] w = ([], w)"
| "run_writers ((name, f) # fs) w =
     (let (r, w) = f w; (es, w) = run_writers fs w
      in ((case r of Inl e \<Rightarrow> [(name, e)] | Inr _ \<Rightarrow> []) @ es, w))"

definition export_to_dir ::
    "'g histogram_ops \<Rightarrow> ('g, 'w, 'h) bench_host_scheme \<Rightarrow> string \<Rightarrow> 'g bench_sink \<Rightarrow> 'w writer" where
  "export_to_dir G H dir s w =
     (let (r, w) = bh_create_dir H dir w in
      case r of
        Inl e \<Rightarrow> (Inl e, w)
      | Inr _ \<Rightarrow>
          let (errors, w) = run_writers (artifact_writers G H dir s) w in
          if errors = [] then (Inr (), w)
          else
            let summary = map (\<lambda>(name, e). name @ '': '' @ e) errors;
                (r, w) = write_atomic (bh_files H) (Path dir ''export-errors.json'') (ArtErrors errors) w;
                summary = (case r of Inl e \<Rightarrow> summary @ [''export-errors.json: '' @ e] | Inr _ \<Rightarrow> summary)
            in (Inl (''bench export incomplete: '' @ join ''; '' summary), w))"

definition close_intervals ::
    "'g histogram_ops \<Rightarrow> ('g, 'w, 'h) bench_host_scheme \<Rightarrow> 'g bench_sink \<Rightarrow> 'w \<Rightarrow> 'g bench_sink \<times> 'w" where
  "close_intervals G H s w =
     (case bk_interval_recorder s of
        None \<Rightarrow> (s, w)
      | Some r \<Rightarrow>
          let (elapsed_ns, w) =
                (case bk_measurement_start s of
                   Some start \<Rightarrow>
                     if bk_interval_uses_source_origin s then (ir_declared_measurement_duration_ns r, w)
                     else let (el, w) = elapsed H start w in (duration_ns_saturating el, w)
                 | None \<Rightarrow> (ir_declared_measurement_duration_ns r, w));
              s = s\<lparr>bk_interval_recorder := Some (interval_finalize G elapsed_ns r)\<rparr>
          in (if bk_start_wall_time s = None
              then s\<lparr>bk_start_wall_time := Some (int (unat (ir_measurement_start_unix_epoch_ns r)))\<rparr> else s, w))"

definition bench_close ::
    "'g histogram_ops \<Rightarrow> ('g, 'w, 'h) bench_host_scheme \<Rightarrow> 'g bench_sink \<Rightarrow> 'w \<Rightarrow> (wafer_error, unit) result \<times> 'g bench_sink \<times> 'w" where
  "bench_close G H s w =
     (let s = s\<lparr>bk_throughput := grid_finish (bk_throughput s)\<rparr>;
          (s, w) = close_intervals G H s w
      in
      case bg_output_dir (bk_config s) of
        None \<Rightarrow> (Inr (), s, w)
      | Some dir \<Rightarrow> let (r, w) = export_to_dir G H dir s w in (map_sum Io id r, s, w))"

section \<open>Populations\<close>

lemma record_sequence_keeps [simp]:
  "bk_histogram (snd (record_sequence b s)) = bk_histogram s"
  "bk_interval_recorder (snd (record_sequence b s)) = bk_interval_recorder s"
  "bk_measurement_start (snd (record_sequence b s)) = bk_measurement_start s"
  "bk_message_count (snd (record_sequence b s)) = bk_message_count s"
  "bk_config (snd (record_sequence b s)) = bk_config s"
  "bk_interval_uses_source_origin (snd (record_sequence b s)) = bk_interval_uses_source_origin s"
  by (auto simp: record_sequence_def Let_def split: option.split prod.split)

lemma record_burst_bucket_keeps [simp]:
  "bk_histogram (record_burst_bucket b a d s) = bk_histogram s"
  "bk_interval_recorder (record_burst_bucket b a d s) = bk_interval_recorder s"
  "bk_measurement_start (record_burst_bucket b a d s) = bk_measurement_start s"
  "bk_message_count (record_burst_bucket b a d s) = bk_message_count s"
  "bk_config (record_burst_bucket b a d s) = bk_config s"
  "bk_interval_uses_source_origin (record_burst_bucket b a d s) = bk_interval_uses_source_origin s"
  by (auto simp: record_burst_bucket_def Let_def split: option.split)

lemma record_version_keeps [simp]:
  "bk_histogram (record_version env a s) = bk_histogram s"
  "bk_interval_recorder (record_version env a s) = bk_interval_recorder s"
  "bk_measurement_start (record_version env a s) = bk_measurement_start s"
  "bk_message_count (record_version env a s) = bk_message_count s"
  "bk_config (record_version env a s) = bk_config s"
  "bk_interval_uses_source_origin (record_version env a s) = bk_interval_uses_source_origin s"
  by (auto simp: record_version_def split: option.split)

lemma record_latencies_keeps [simp]:
  "bk_interval_recorder (snd (record_latencies G a b s)) = bk_interval_recorder s"
  "bk_measurement_start (snd (record_latencies G a b s)) = bk_measurement_start s"
  "bk_message_count (snd (record_latencies G a b s)) = bk_message_count s"
  "bk_config (snd (record_latencies G a b s)) = bk_config s"
  "bk_interval_uses_source_origin (snd (record_latencies G a b s)) = bk_interval_uses_source_origin s"
  by (auto simp: record_latencies_def Let_def case_prod_beta split: option.split)

lemma record_latencies_len:
  assumes "counting_histogram G"
  shows "hg_len G (bk_histogram (snd (record_latencies G a b s))) =
    hg_len G (bk_histogram s) + of_nat (if fst (record_latencies G a b s) = None then 0 else 1)"
  using assms by (simp add: record_latencies_def record_elapsed_def counting_histogram_def case_prod_beta Let_def split: option.split)

text \<open>
  \<open>calls\<close> are the calls the interval recorder got since the measurement started: the latency histogram
  holds as many values as they had latencies.
\<close>

definition population_of :: "'g histogram_ops \<Rightarrow> interval_call list \<Rightarrow> 'g bench_sink \<Rightarrow> bool" where
  "population_of G calls s \<longleftrightarrow>
     hg_len G (bk_histogram s) = of_nat (sum_list (map call_latency calls)) \<and>
     (bk_measurement_start s = None \<longrightarrow> calls = []) \<and>
     (case bk_interval_recorder s of
        None \<Rightarrow> bk_measurement_start s = None
      | Some r \<Rightarrow> ir_declared_measurement_duration_ns r \<noteq> 0 \<and> (ir_overflowed r \<or> interval_open G calls r))"

lemma declared_nonzero: "ir_declared_measurement_duration_ns (interval_new G start (configured_measurement_secs H)) \<noteq> 0"
proof -
  have "unat (configured_measurement_secs H) \<noteq> 0"
    by (auto simp: configured_measurement_secs_def unat_eq_0 split: option.split)
  then have "unat (sat_mul (configured_measurement_secs H) INTERVAL_WIDTH_NS) \<noteq> 0"
    by (simp add: sat_arith INTERVAL_WIDTH_NS_def)
  then show ?thesis by (auto simp: interval_new_def)
qed

lemma advance_interval_declared:
  "ir_declared_measurement_duration_ns (advance_interval G b r) = ir_declared_measurement_duration_ns r"
proof (induction G b r rule: advance_interval.induct)
  case (1 G b r)
  then show ?case by (simp add: advance_interval.simps [of G b r] finish_current_def Let_def)
qed

lemma interval_step_declared:
  "ir_declared_measurement_duration_ns (interval_step G c r) = ir_declared_measurement_duration_ns r"
  by (auto simp: interval_step_def interval_record_def Let_def advance_interval_declared split: prod.splits option.splits)

lemma start_measurement_population:
  assumes "counting_histogram G" "population_of G calls s" "start_measurement G H now origin s w = (s', w')"
  shows "population_of G calls s'" "\<exists>start r. bk_measurement_start s' = Some start \<and> bk_interval_recorder s' = Some r"
    "bk_message_count s' = bk_message_count s" "bk_config s' = bk_config s"
  using assms by (auto simp: interval_open_new declared_nonzero start_measurement_def population_of_def Let_def case_prod_beta split: if_splits option.splits)

lemma measure_population:
  assumes "counting_histogram G" "population_of G calls s" "length calls + 1 < 2 ^ 64"
    "measure_message G H env a now s w = (s', w')"
  shows "\<exists>c. population_of G (calls @ [c]) s'" "bk_message_count s' = bk_message_count s" "bk_config s' = bk_config s"
proof -
  let ?b = "eh_bench (re_header env)"
  let ?origin = "Option.bind (Option.bind ?b bs_burst) bu_measurement_start_unix_ns"
  obtain s1 w1 where m: "start_measurement G H now ?origin s w = (s1, w1)" by fastforce
  note st = start_measurement_population [OF assms(1,2) m]
  obtain start r where sr: "bk_measurement_start s1 = Some start" "bk_interval_recorder s1 = Some r" using st(2) by blast
  obtain d s2 where d: "record_sequence ?b s1 = (d, s2)" by fastforce
  define s3 where "s3 = record_burst_bucket ?b a d s2"
  define s4 where "s4 = s3\<lparr>bk_throughput := grid_record (now - start) (u64_saturating (length (re_payload env))) (bk_throughput s3)\<rparr>"
  obtain l s5 where l: "record_latencies G a ?b s4 = (l, s5)" by fastforce
  let ?c = "(interval_elapsed now start ?origin ?b, l, d)"
  have s2: "bk_histogram s2 = bk_histogram s1" "bk_interval_recorder s2 = Some r" "bk_measurement_start s2 = Some start"
    "bk_message_count s2 = bk_message_count s1" "bk_config s2 = bk_config s1"
    using record_sequence_keeps [of ?b s1] d sr by simp_all
  have s4: "bk_histogram s4 = bk_histogram s1" "bk_interval_recorder s4 = Some r" "bk_measurement_start s4 = Some start"
    "bk_message_count s4 = bk_message_count s1" "bk_config s4 = bk_config s1"
    using s2 by (simp_all add: s4_def s3_def)
  have s5: "bk_interval_recorder s5 = Some r" "bk_measurement_start s5 = Some start" "bk_message_count s5 = bk_message_count s1"
    "bk_config s5 = bk_config s1" "hg_len G (bk_histogram s5) = hg_len G (bk_histogram s1) + of_nat (call_latency ?c)"
    using record_latencies_keeps [of G a ?b s4] record_latencies_len [OF assms(1), of a ?b s4] l s4
    by (simp_all add: call_latency_def)
  have s': "s' = record_version env a (s5\<lparr>bk_interval_recorder := Some (interval_step G ?c r)\<rparr>)"
    using assms(4) m d l s2 s5 by (simp add: measure_message_def Let_def s3_def s4_def interval_step_def)
  have "ir_overflowed (interval_step G ?c r) \<or> interval_open G (calls @ [?c]) (interval_step G ?c r)"
    using st(1) sr interval_overflow_stays [OF assms(1)] interval_open_step [OF assms(1) _ assms(3), of r ?c]
    by (auto simp: population_of_def)
  then show "\<exists>c. population_of G (calls @ [c]) s'"
    using st(1) sr s5 interval_step_declared [of G ?c r] by (intro exI [of _ ?c]) (simp add: population_of_def s')
  show "bk_message_count s' = bk_message_count s" "bk_config s' = bk_config s" using s5 st by (simp_all add: s')
qed

lemma start_warmup_keeps [simp]:
  "bk_histogram (start_warmup now s) = bk_histogram s"
  "bk_interval_recorder (start_warmup now s) = bk_interval_recorder s"
  "bk_measurement_start (start_warmup now s) = bk_measurement_start s"
  "bk_message_count (start_warmup now s) = bk_message_count s"
  "bk_config (start_warmup now s) = bk_config s"
  by (simp_all add: start_warmup_def Let_def)

lemma collect_population:
  assumes "counting_histogram G" "population_of G calls s" "length calls + 1 < 2 ^ 64" "bench_collect G H env s w = (s', w')"
  shows "\<exists>cs. length cs \<le> 1 \<and> population_of G (calls @ cs) s'"
    "bk_message_count s' = sat_add (bk_message_count s) 1" "bk_config s' = bk_config s"
proof -
  obtain a w1 where a: "monotonic_unix_ns H w = (a, w1)" by fastforce
  obtain now w2 where now: "h_now H w1 = (now, w2)" by fastforce
  let ?s = "(start_warmup now s)\<lparr>bk_message_count := sat_add (bk_message_count (start_warmup now s)) 1\<rparr>"
  have s: "population_of G calls ?s" "bk_message_count ?s = sat_add (bk_message_count s) 1" "bk_config ?s = bk_config s"
    using assms(2) by (simp_all add: population_of_def split: option.splits)
  have "(\<exists>cs. length cs \<le> 1 \<and> population_of G (calls @ cs) s') \<and>
    bk_message_count s' = sat_add (bk_message_count s) 1 \<and> bk_config s' = bk_config s"
  proof (cases "in_warmup (eh_bench (re_header env)) now ?s")
    case True
    then have "s' = ?s" using assms(4) a now by (simp add: bench_collect_def Let_def)
    then show ?thesis using s by (intro conjI exI [of _ "[]"]) simp_all
  next
    case False
    then have m: "measure_message G H env a now ?s w2 = (s', w')" using assms(4) a now by (simp add: bench_collect_def Let_def)
    from measure_population [OF assms(1) s(1) assms(3) m] s(2,3) obtain c where
      "population_of G (calls @ [c]) s'" "bk_message_count s' = sat_add (bk_message_count s) 1" "bk_config s' = bk_config s" by auto
    then show ?thesis by (intro conjI exI [of _ "[c]"]) simp_all
  qed
  then show "\<exists>cs. length cs \<le> 1 \<and> population_of G (calls @ cs) s'"
    "bk_message_count s' = sat_add (bk_message_count s) 1" "bk_config s' = bk_config s" by blast+
qed

fun collect_all ::
    "'g histogram_ops \<Rightarrow> ('g, 'w, 'h) bench_host_scheme \<Rightarrow> runtime_envelope list \<Rightarrow> 'g bench_sink \<Rightarrow> 'w \<Rightarrow> 'g bench_sink \<times> 'w" where
  "collect_all G H [] s w = (s, w)"
| "collect_all G H (env # envs) s w = (let (s, w) = bench_collect G H env s w in collect_all G H envs s w)"

lemma collect_all_population:
  assumes "counting_histogram G" "population_of G calls s" "length calls + length envs < 2 ^ 64"
    "bk_message_count s = of_nat n" "n + length envs < 2 ^ 64" "collect_all G H envs s w = (s', w')"
  shows "\<exists>cs. length cs \<le> length calls + length envs \<and> population_of G cs s'"
    "bk_message_count s' = of_nat (n + length envs)" "bk_config s' = bk_config s"
proof -
  have "(\<exists>cs. length cs \<le> length calls + length envs \<and> population_of G cs s') \<and>
    bk_message_count s' = of_nat (n + length envs) \<and> bk_config s' = bk_config s"
    using assms(2-)
  proof (induction envs arbitrary: calls s w n)
    case Nil
    then show ?case by auto
  next
    case (Cons env envs)
    obtain s1 w1 where c: "bench_collect G H env s w = (s1, w1)" by fastforce
    have "length calls + 1 < 2 ^ 64" using Cons.prems(2) by simp
    note step = collect_population [OF assms(1) Cons.prems(1) this c]
    then obtain cs where cs: "length cs \<le> 1" "population_of G (calls @ cs) s1" by blast
    have "bk_message_count s1 = of_nat (n + 1)" using step(2) Cons.prems(3,4) sat_add_of_nat [of n, where 'a = 64] by simp
    moreover have "collect_all G H envs s1 w1 = (s', w')" using Cons.prems(5) c by simp
    ultimately have "(\<exists>ds. length ds \<le> length (calls @ cs) + length envs \<and> population_of G ds s') \<and>
        bk_message_count s' = of_nat (n + 1 + length envs) \<and> bk_config s' = bk_config s1"
      using cs Cons.prems(2,4) by (intro Cons.IH) auto
    moreover from this obtain ds where ds: "length ds \<le> length (calls @ cs) + length envs" "population_of G ds s'" by blast
    moreover have "length ds \<le> length calls + length (env # envs)" using ds(1) cs(1) by simp
    ultimately show ?case using step(3) by auto
  qed
  then show "\<exists>cs. length cs \<le> length calls + length envs \<and> population_of G cs s'"
    "bk_message_count s' = of_nat (n + length envs)" "bk_config s' = bk_config s" by blast+
qed

lemma init_population:
  assumes "counting_histogram G" "bench_init G H (bench_sink_new G c) w = (s, w')"
  shows "population_of G [] s" "bk_message_count s = of_nat 0" "bk_config s = c"
  using assms interval_open_new [OF assms(1)]
  by (auto simp: declared_nonzero bench_init_def bench_sink_new_def population_of_def Let_def case_prod_beta
      counting_histogram_def split: if_splits)

lemma finalize_flags: "ir_finalized (interval_finalize G e r)" "ir_overflowed r \<Longrightarrow> counting_histogram G \<Longrightarrow> ir_overflowed (interval_finalize G e r)"
proof -
  have fin: "ir_finalized r' \<Longrightarrow> ir_finalized (advance_interval G b r')" for b r'
    by (induction G b r' rule: advance_interval.induct) (subst advance_interval.simps, simp add: finish_current_def Let_def)
  show "ir_finalized (interval_finalize G e r)"
    by (simp add: interval_finalize_def Let_def fin finish_current_def)
  assume "ir_overflowed r" and G: "counting_histogram G"
  moreover have "ir_overflowed r' \<Longrightarrow> ir_overflowed (advance_interval G b r')" for b r'
    using advance_interval_counts [OF G, of r' b] by (simp add: same_counts_def)
  ultimately show "ir_overflowed (interval_finalize G e r)"
    by (simp add: interval_finalize_def Let_def finish_current_def)
qed

lemma close_intervals_population:
  assumes "counting_histogram G" "population_of G calls s" "close_intervals G H s w = (s', w')"
    "bk_measurement_start s \<noteq> None \<longrightarrow> the (bk_measurement_start s) < fst (h_now H w)"
    "bk_interval_recorder s' = Some r"
  shows "ir_finalized r" "ir_overflowed r \<or> interval_check (hg_len G (bk_histogram s')) r = Inr ()"
    "bk_message_count s' = bk_message_count s"
proof -
  obtain r0 where r0: "bk_interval_recorder s = Some r0"
    using assms(3,5) by (auto simp: close_intervals_def split: option.splits)
  then have decl: "ir_declared_measurement_duration_ns r0 \<noteq> 0" using assms(2) by (simp add: population_of_def)
  have tick: "duration_ns_saturating (fst (h_now H w) - start) \<noteq> 0" if "bk_measurement_start s = Some start" for start
  proof -
    have "unat (duration_ns_saturating (fst (h_now H w) - start)) \<noteq> 0" using assms(4) that by (simp add: sat_arith)
    then show ?thesis by auto
  qed
  obtain e where e: "e \<noteq> 0" "r = interval_finalize G e r0" "bk_histogram s' = bk_histogram s" "bk_message_count s' = bk_message_count s"
    using assms(3,5) r0 decl tick
    by (auto simp: close_intervals_def Let_def elapsed_eq split: option.splits if_splits)
  then show "ir_finalized r" "bk_message_count s' = bk_message_count s" by (simp_all add: finalize_flags)
  show "ir_overflowed r \<or> interval_check (hg_len G (bk_histogram s')) r = Inr ()"
  proof (cases "ir_overflowed r")
    case False
    then have "interval_open G calls r0" using assms(1,2) r0 e(2) finalize_flags(2) by (auto simp: population_of_def)
    from interval_finalize_population [OF assms(1) this e(1)] False assms(2) e show ?thesis
      by (simp add: interval_check_def Let_def population_of_def)
  qed simp
qed

section \<open>The artifacts of an export\<close>

text \<open>
  The files of the host: those of \<open>write_atomic\<close>, which neither the clocks nor the creation of the directory
  touch. The temporary files, whose names start with a dot, are not artifacts.
\<close>

definition atomic_files :: "('w \<Rightarrow> path \<Rightarrow> 'g artifact option) \<Rightarrow> ('g, 'w, 'h) bench_host_scheme \<Rightarrow> bool" where
  "atomic_files files H \<longleftrightarrow>
     file_laws files (bh_files H) \<and>
     (\<forall>w. files (snd (h_now H w)) = files w \<and> files (snd (h_system_now H w)) = files w) \<and>
     (\<forall>d w. files (snd (bh_create_dir H d w)) = files w)"

definition visible :: "path \<Rightarrow> bool" where
  "visible p \<longleftrightarrow> path_name p \<noteq> [] \<and> hd (path_name p) \<noteq> CHR ''.''"

text \<open>
  What an export owes under a name: nothing, then the file stays as it was, or an artifact as described.
\<close>

type_synonym 'g owed = "('g artifact \<Rightarrow> bool) option"

definition meets :: "'g owed \<Rightarrow> 'g artifact option \<Rightarrow> 'g artifact option \<Rightarrow> bool" where
  "meets due before after = (case due of None \<Rightarrow> after = before | Some P \<Rightarrow> \<exists>a. after = Some a \<and> P a)"

lemma meets_simps [simp]:
  "meets None before after \<longleftrightarrow> after = before"
  "meets (Some P) before after \<longleftrightarrow> (\<exists>a. after = Some a \<and> P a)"
  by (simp_all add: meets_def)

text \<open>A writer that touches one artifact, and leaves there what is owed when it succeeds.\<close>

definition writes :: "('w \<Rightarrow> path \<Rightarrow> 'g artifact option) \<Rightarrow> path \<Rightarrow> 'g owed \<Rightarrow> 'w writer \<Rightarrow> bool" where
  "writes files path due f \<longleftrightarrow>
     (\<forall>w r w'. f w = (r, w') \<longrightarrow>
        (\<forall>p. p \<noteq> path \<and> visible p \<longrightarrow> files w' p = files w p) \<and>
        (r = Inr () \<longrightarrow> meets due (files w path) (files w' path)))"

lemma writesD:
  assumes "writes files path due f" "f w = (r, w')"
  shows "p \<noteq> path \<Longrightarrow> visible p \<Longrightarrow> files w' p = files w p" "r = Inr () \<Longrightarrow> meets due (files w path) (files w' path)"
  using assms by (auto simp: writes_def)

lemma writes_skip: "writes files path None skip_artifact"
  by (simp add: writes_def skip_artifact_def)

lemma writes_atomic:
  assumes "atomic_files files H" "path_name path \<noteq> []" "P a"
  shows "writes files path (Some P) (write_atomic (bh_files H) path a)"
  unfolding writes_def
proof (intro allI impI)
  fix w r w' assume w: "write_atomic (bh_files H) path a w = (r, w')"
  have "file_laws files (bh_files H)" using assms(1) by (simp add: atomic_files_def)
  note wf = write_atomic_files [OF this assms(2) w]
  have "\<not> visible (temporary_of path)" by (simp add: visible_def temporary_of_def with_file_name_def)
  then show "(\<forall>p. p \<noteq> path \<and> visible p \<longrightarrow> files w' p = files w p) \<and>
      (r = Inr () \<longrightarrow> meets (Some P) (files w path) (files w' path))"
    using wf assms(3) by auto
qed

lemma run_writers_files:
  assumes "\<forall>(name, f, due) \<in> set ts. writes files (path name) due f" "distinct (map (path \<circ> fst) ts)" "\<forall>t \<in> set ts. visible (path (fst t))"
    "run_writers (map (\<lambda>(name, f, due). (name, f)) ts) w = (es, w')"
  shows "(\<forall>p. visible p \<and> p \<notin> set (map (path \<circ> fst) ts) \<longrightarrow> files w' p = files w p) \<and>
    (\<forall>(name, f, due) \<in> set ts. meets due (files w (path name)) (files w' (path name)) \<or> name \<in> fst ` set es) \<and>
    fst ` set es \<subseteq> fst ` set ts"
  using assms
proof (induction ts arbitrary: w es)
  case (Cons t ts)
  obtain name f due where t: "t = (name, f, due)" by (metis prod_cases3)
  obtain r w1 where f: "f w = (r, w1)" by fastforce
  obtain es1 where es1: "run_writers (map (\<lambda>(name, f, due). (name, f)) ts) w1 = (es1, w')" "set es1 \<subseteq> set es"
    and es: "es = (case r of Inl e \<Rightarrow> [(name, e)] | Inr _ \<Rightarrow> []) @ es1"
    using Cons.prems(4) t f by (auto split: prod.splits)
  have IH: "(\<forall>p. visible p \<and> p \<notin> set (map (path \<circ> fst) ts) \<longrightarrow> files w' p = files w1 p) \<and>
    (\<forall>(name, f, due) \<in> set ts. meets due (files w1 (path name)) (files w' (path name)) \<or> name \<in> fst ` set es1) \<and>
    fst ` set es1 \<subseteq> fst ` set ts"
    using Cons.prems(1,2,3) es1(1) by (intro Cons.IH) auto
  have own: "writes files (path name) due f" "path name \<notin> set (map (path \<circ> fst) ts)" "visible (path name)"
    using Cons.prems(1,2,3) t by auto
  have "meets due (files w (path name)) (files w' (path name)) \<or> name \<in> fst ` set es"
    using writesD(2) [OF own(1) f] IH [THEN conjunct1] own(2,3) es by (cases r) auto
  moreover have "\<forall>(name, f, due) \<in> set ts. meets due (files w (path name)) (files w' (path name)) \<or> name \<in> fst ` set es"
  proof
    fix q assume q: "q \<in> set ts"
    then have before: "files w1 (path (fst q)) = files w (path (fst q))"
    proof -
      have "path (fst q) \<noteq> path name" using own(2) q by force
      moreover have "visible (path (fst q))" using Cons.prems(3) q by simp
      ultimately show ?thesis using writesD(1) [OF own(1) f] by simp
    qed
    from IH [THEN conjunct2, THEN conjunct1] q
    have "case q of (name, f, due) \<Rightarrow> meets due (files w1 (path name)) (files w' (path name)) \<or> name \<in> fst ` set es1" by (rule bspec)
    with before show "case q of (name, f, due) \<Rightarrow> meets due (files w (path name)) (files w' (path name)) \<or> name \<in> fst ` set es"
      using image_mono [OF es1(2), of fst] by (cases q) auto
  qed
  moreover have "\<forall>p. visible p \<and> p \<notin> set (map (path \<circ> fst) (t # ts)) \<longrightarrow> files w' p = files w p"
    using IH [THEN conjunct1] writesD(1) [OF own(1) f] t by auto
  moreover have "fst ` set es \<subseteq> fst ` set (t # ts)" using IH [THEN conjunct2, THEN conjunct2] es t by (cases r) auto
  ultimately show ?case by (simp add: t)
qed simp

text \<open>
  The artifacts an export owes, \<open>receipt\<close> being what \<open>WAFER_SWAP_ACTUAL_T0_RECEIPT\<close> names, when it is set.
  The measurement window is owed once the measurement has started; of its contents the end and the
  step of the wall clock are read while it is written. The fine buckets are owed when there is a receipt;
  where they cannot be derived no artifact will do.
\<close>

definition due_artifacts ::
    "'g histogram_ops \<Rightarrow> (string, fine_receipt) result option \<Rightarrow> 'g bench_sink \<Rightarrow> (string \<times> 'g owed) list" where
  "due_artifacts G receipt s =
     [(''sequence.csv'', map_option (\<lambda>t a. a = ArtText (sequence_csv t)) (bk_sequence_tracker s)),
      (''measurement-window.json'', map_option (\<lambda>started a. \<exists>finished_ns step.
         a = ArtWindow (unix_epoch_nanos started) finished_ns step (bk_latency_clamps s) (bk_service_clamps s)
               (bk_source_lag_clamps s)) (bk_start_wall_time s)),
      (''swap_timeline.json'',
         Option.bind (bk_hotswap_recorder s)
           (\<lambda>r. if hr_transitions r = [] then None else Some (\<lambda>a. a = ArtText (swap_timeline_json r)))),
      (''latency.hdr'',
         Some (\<lambda>a. a = ArtHistogram (bk_histogram s) ''WAFER BenchSink latency histogram (nanoseconds)'' ''latency_ns'')),
      (''service.hdr'', if hg_len G (bk_service_histogram s) = 0 then None
         else Some (\<lambda>a. a = ArtHistogram (bk_service_histogram s)
           ''WAFER BenchSink service time histogram: arrival minus source emit (nanoseconds)'' ''service_ns'')),
      (''source-lag.hdr'', if hg_len G (bk_source_lag_histogram s) = 0 then None
         else Some (\<lambda>a. a = ArtHistogram (bk_source_lag_histogram s)
           ''WAFER BenchSink source lag histogram: source emit minus scheduled send (nanoseconds)'' ''source_lag_ns'')),
      (''throughput.csv'', Some (\<lambda>a. a = ArtText (throughput_csv (bk_throughput s)))),
      (''throughput-buckets.json'', map_option (\<lambda>b a. a = burst_artifact s b) (bk_burst_observation s)),
      (''throughput-buckets-10ms.json'', Option.bind (bk_burst_observation s)
         (\<lambda>b. case write_fine_event_buckets receipt b of
                 Inl _ \<Rightarrow> Some (\<lambda>_. False)
               | Inr None \<Rightarrow> None
               | Inr (Some buckets) \<Rightarrow> Some (\<lambda>a. a = ArtFineBuckets buckets))),
      (''interval-latency.json'', Option.bind (bk_interval_recorder s)
         (\<lambda>r. if ir_finalized r then Some (\<lambda>a. a = ArtIntervals (ir_rows r) (hg_len G (bk_histogram s))) else None))]"

lemma writes_window:
  assumes "atomic_files files H"
  shows "writes files (Path dir ''measurement-window.json'') (map_option (\<lambda>started a. \<exists>finished_ns step.
       a = ArtWindow (unix_epoch_nanos started) finished_ns step (bk_latency_clamps s) (bk_service_clamps s)
             (bk_source_lag_clamps s)) (bk_start_wall_time s)) (write_measurement_window H dir s)"
  unfolding writes_def
proof (intro allI impI)
  let ?p = "Path dir ''measurement-window.json''"
  fix w r w' assume m: "write_measurement_window H dir s w = (r, w')"
  have clocks: "files (snd (wall_clock_ns H w)) = files w" "files (snd (wall_clock_step_ns H w)) = files w" for w
    using assms
    by (simp_all add: atomic_files_def wall_clock_ns_def wall_clock_step_ns_def monotonic_unix_ns_def elapsed_eq Let_def case_prod_beta)
  let ?due = "map_option (\<lambda>started a. \<exists>finished_ns step. a = ArtWindow (unix_epoch_nanos started) finished_ns step
       (bk_latency_clamps s) (bk_service_clamps s) (bk_source_lag_clamps s)) (bk_start_wall_time s)"
  show "(\<forall>p. p \<noteq> ?p \<and> visible p \<longrightarrow> files w' p = files w p) \<and> (r = Inr () \<longrightarrow> meets ?due (files w ?p) (files w' ?p))"
  proof (cases "bk_start_wall_time s")
    case None
    then show ?thesis using m by (simp add: write_measurement_window_def skip_artifact_def)
  next
    case (Some started)
    let ?P = "\<lambda>a. \<exists>finished_ns step. a = ArtWindow (unix_epoch_nanos started) finished_ns step
       (bk_latency_clamps s) (bk_service_clamps s) (bk_source_lag_clamps s)"
    obtain a w0 where a: "write_atomic (bh_files H) ?p a w0 = (r, w')" "files w0 = files w" "?P a"
      using m clocks Some by (simp add: write_measurement_window_def Let_def case_prod_beta)
    have "writes files ?p (Some ?P) (write_atomic (bh_files H) ?p a)" by (rule writes_atomic [where P = ?P, OF assms _ a(3)]) simp
    from writesD [OF this a(1)] a(2) Some show ?thesis by simp
  qed
qed

lemma writes_fine:
  assumes "atomic_files files H" "\<And>w. bh_receipt H w = receipt"
  shows "writes files (Path dir ''throughput-buckets-10ms.json'') (Option.bind (bk_burst_observation s)
     (\<lambda>b. case write_fine_event_buckets receipt b of
             Inl _ \<Rightarrow> Some (\<lambda>_. False)
           | Inr None \<Rightarrow> None
           | Inr (Some buckets) \<Rightarrow> Some (\<lambda>a. a = ArtFineBuckets buckets))) (write_fine_evidence H dir s)"
  using writesD [OF writes_atomic [OF assms(1), of "Path dir ''throughput-buckets-10ms.json''" "\<lambda>a. a = x" x for x]] assms(2)
  by (auto simp: writes_def write_fine_evidence_def skip_artifact_def split: option.splits sum.splits)

lemma writes_intervals:
  assumes "atomic_files files H"
  shows "writes files (Path dir ''interval-latency.json'') (Option.bind (bk_interval_recorder s)
     (\<lambda>r. if ir_finalized r then Some (\<lambda>a. a = ArtIntervals (ir_rows r) (hg_len G (bk_histogram s))) else None))
     (write_intervals G H dir s)"
  using writesD [OF writes_atomic [OF assms, of "Path dir ''interval-latency.json''" "\<lambda>a. a = x" x for x]]
  by (auto simp: writes_def write_intervals_def skip_artifact_def Let_def split: option.splits sum.splits if_splits)

lemma artifact_writers_due:
  assumes "atomic_files files H" "\<And>w. bh_receipt H w = receipt"
  shows "\<exists>ts. map (\<lambda>(name, f, due). (name, f)) ts = artifact_writers G H dir s \<and>
    map (\<lambda>(name, f, due). (name, due)) ts = due_artifacts G receipt s \<and>
    (\<forall>(name, f, due) \<in> set ts. writes files (Path dir name) due f)"
proof (intro exI conjI)
  let ?ts = "map (\<lambda>((name, f), (_, due)). (name, f, due)) (zip (artifact_writers G H dir s) (due_artifacts G receipt s))"
  show "map (\<lambda>(name, f, due). (name, f)) ?ts = artifact_writers G H dir s"
    "map (\<lambda>(name, f, due). (name, due)) ?ts = due_artifacts G receipt s"
    by (simp_all add: artifact_writers_def due_artifacts_def)
  show "\<forall>(name, f, due) \<in> set ?ts. writes files (Path dir name) due f"
    using writes_atomic [OF assms(1)] writes_window [OF assms(1)] writes_fine [OF assms] writes_intervals [OF assms(1)]
    by (simp add: artifact_writers_def due_artifacts_def write_sequence_def write_swap_timeline_def
        write_component_hdr_def write_burst_evidence_def writes_skip split: option.split)
qed

lemma export_paths_distinct:
  "distinct (map (Path dir \<circ> fst) (due_artifacts G receipt s))"
  "Path dir ''export-errors.json'' \<notin> set (map (Path dir \<circ> fst) (due_artifacts G receipt s))"
  by (simp_all add: due_artifacts_def)

text \<open>
  C38: The export of a measurement sink, over files that are replaced atomically and with a swap receipt
  nobody changes meanwhile: when it succeeds, each of the ten artifacts that the sink owes (sequence
  accounting, measurement window, swap timeline, the three histograms, throughput, burst buckets, fine
  buckets, interval latencies) is in the directory with the sink's contents, and one it does not owe is as
  it was; when it fails, either the directory could not be made, or the error names every artifact for
  which that does not hold, and one failed artifact does not stop the others from being written.
\<close>

theorem export_complete_or_named:
  assumes "atomic_files files H" "\<forall>w. bh_receipt H w = receipt" "export_to_dir G H dir s w = (r, w')"
  shows "(r = Inr () \<longrightarrow> (\<forall>(name, due) \<in> set (due_artifacts G receipt s).
       meets due (files w (Path dir name)) (files w' (Path dir name)))) \<and>
    (\<forall>msg. r = Inl msg \<longrightarrow> fst (bh_create_dir H dir w) = Inl msg \<or>
       (\<exists>errors rest. errors \<noteq> [] \<and>
          msg = ''bench export incomplete: '' @ join ''; '' (map (\<lambda>(name, e). name @ '': '' @ e) errors @ rest) \<and>
          fst ` set errors \<subseteq> fst ` set (due_artifacts G receipt s) \<and>
          (\<forall>(name, due) \<in> set (due_artifacts G receipt s).
             meets due (files w (Path dir name)) (files w' (Path dir name)) \<or> name \<in> fst ` set errors)))"
proof -
  let ?due = "due_artifacts G receipt s"
  obtain d w0 where d: "bh_create_dir H dir w = (d, w0)" by fastforce
  have w0: "files w0 = files w" using assms(1) d unfolding atomic_files_def by (metis snd_conv)
  obtain es w1 where run: "run_writers (artifact_writers G H dir s) w0 = (es, w1)" by fastforce
  obtain ts where ts: "map (\<lambda>(name, f, due). (name, f)) ts = artifact_writers G H dir s"
    "map (\<lambda>(name, f, due). (name, due)) ts = ?due"
    "\<forall>(name, f, due) \<in> set ts. writes files (Path dir name) due f"
    using artifact_writers_due [OF assms(1) spec [OF assms(2)]] by blast
  have names: "map fst ts = map fst ?due" unfolding ts(2) [symmetric] by (simp add: case_prod_beta comp_def)
  then have paths: "map (Path dir \<circ> fst) ts = map (Path dir \<circ> fst) ?due"
    by (metis map_map)
  have run_ts: "run_writers (map (\<lambda>(name, f, due). (name, f)) ts) w0 = (es, w1)" using run ts(1) by simp
  have visible: "\<forall>t \<in> set ts. visible (Path dir (fst t))"
  proof
    fix t assume "t \<in> set ts"
    then have "fst t \<in> set (map fst ?due)" unfolding names [symmetric] by simp
    then show "visible (Path dir (fst t))" by (auto simp: due_artifacts_def visible_def)
  qed
  note wrote = run_writers_files [OF ts(3), unfolded paths, OF export_paths_distinct(1) visible run_ts, THEN conjunct2]
  have all: "\<forall>(name, due) \<in> set ?due. meets due (files w (Path dir name)) (files w1 (Path dir name)) \<or> name \<in> fst ` set es"
    using wrote [THEN conjunct1] unfolding ts(2) [symmetric] w0 by auto
  have names_es: "fst ` set es \<subseteq> fst ` set ?due" using wrote [THEN conjunct2] names by (metis list.set_map)
  show ?thesis
  proof (cases d)
    case (Inl e)
    then show ?thesis using assms(3) d by (auto simp: export_to_dir_def)
  next
    case ok: (Inr u)
    show ?thesis
    proof (cases "es = []")
      case True
      then show ?thesis using assms(3) d ok run all by (auto simp: export_to_dir_def)
    next
      case False
      obtain q w2 where q: "write_atomic (bh_files H) (Path dir ''export-errors.json'') (ArtErrors es) w1 = (q, w2)" by fastforce
      have same: "\<forall>(name, due) \<in> set ?due. files w2 (Path dir name) = files w1 (Path dir name)"
        using writesD(1) [OF writes_atomic [OF assms(1), of _ "\<lambda>_. True"] q] by (simp add: due_artifacts_def visible_def)
      obtain rest where "r = Inl (''bench export incomplete: '' @ join ''; '' (map (\<lambda>(name, e). name @ '': '' @ e) es @ rest))" "w' = w2"
        using assms(3) d ok run False q that [of "case q of Inl e \<Rightarrow> [''export-errors.json: '' @ e] | Inr _ \<Rightarrow> []"]
        by (cases q) (auto simp: export_to_dir_def)
      moreover have "\<forall>(name, due) \<in> set ?due.
          meets due (files w (Path dir name)) (files w2 (Path dir name)) \<or> name \<in> fst ` set es"
        by (rule ballI) (use all same in \<open>force split: prod.splits\<close>)
      ultimately show ?thesis using False names_es by blast
    qed
  qed
qed

text \<open>
  C37: The population check of the interval latencies never fails for a sink that was driven from its
  construction to its close: after any messages (fewer than 2^64), warm-up or not, with or without a source
  origin, the sink counted them all, the recorder is finalised, and either the rows overflowed, which the
  export reports, or their latency counts add up to the aggregate histogram. The hypotheses are that the
  histogram counts what is recorded and that the clock has moved since the measurement started.
\<close>

theorem interval_population_agrees:
  assumes "counting_histogram G" "length envs < 2 ^ 64"
    "bench_init G H (bench_sink_new G c) w0 = (s0, w1)" "collect_all G H envs s0 w1 = (s1, w2)"
    "bk_measurement_start s1 \<noteq> None \<longrightarrow> the (bk_measurement_start s1) < fst (h_now H w2)"
    "bench_close G H s1 w2 = (r, s2, w3)"
  shows "bk_message_count s2 = of_nat (length envs) \<and>
    (\<forall>ir. bk_interval_recorder s2 = Some ir \<longrightarrow>
       ir_finalized ir \<and> (ir_overflowed ir \<or> interval_check (hg_len G (bk_histogram s2)) ir = Inr ()))"
proof -
  note init = init_population [OF assms(1,3)]
  have "length [] + length envs < 2 ^ 64" "0 + length envs < 2 ^ 64" using assms(2) by simp_all
  note run = collect_all_population [OF assms(1) init(1) this(1) init(2) this(2) assms(4)]
  then obtain calls where calls: "population_of G calls s1" by blast
  let ?s = "s1\<lparr>bk_throughput := grid_finish (bk_throughput s1)\<rparr>"
  have pop: "population_of G calls ?s" using calls by (simp add: population_of_def split: option.splits)
  obtain w where close: "close_intervals G H ?s w2 = (s2, w)"
    using assms(6) by (auto simp: bench_close_def Let_def split: prod.splits option.splits)
  have tick: "bk_measurement_start ?s \<noteq> None \<longrightarrow> the (bk_measurement_start ?s) < fst (h_now H w2)" using assms(5) by simp
  have "bk_message_count s2 = of_nat (length envs)"
    using close run(2) by (auto simp: close_intervals_def Let_def split: option.splits prod.splits if_splits)
  then show ?thesis using close_intervals_population [OF assms(1) pop close tick] by blast
qed

section \<open>A concrete sink\<close>

text \<open>A host with a ticking clock and a map of files, on which writing fails for one name.\<close>

definition timed :: "('w \<Rightarrow> 'r \<times> 'w) \<Rightarrow> nat \<times> 'w \<Rightarrow> 'r \<times> nat \<times> 'w" where
  "timed f = (\<lambda>(t, w). let (r, w) = f w in (r, t, w))"

definition timed_files :: "('a, 'w) file_ops \<Rightarrow> ('a, nat \<times> 'w) file_ops" where
  "timed_files F =
     \<lparr>fs_create = (\<lambda>p. timed (fs_create F p)), fs_write_all = (\<lambda>p a. timed (fs_write_all F p a)),
      fs_sync_all = (\<lambda>p. timed (fs_sync_all F p)), fs_rename = (\<lambda>p q. timed (fs_rename F p q)),
      fs_remove = (\<lambda>p. timed (fs_remove F p))\<rparr>"

definition file_host :: "string \<Rightarrow> (u64 list, nat \<times> (path \<Rightarrow> u64 list artifact option)) bench_host" where
  "file_host bad =
     \<lparr>h_now = (\<lambda>(t, f). (t, (t + 1, f))), h_system_now = (\<lambda>(t, f). (int t, (t + 1, f))), ah_anchor = (0, 0),
      bh_measurement_secs = None, bh_create_dir = (\<lambda>d w. (Inr (), w)),
      bh_files = timed_files (map_files (\<lambda>p. path_name p = bad)), bh_receipt = (\<lambda>_. None), bh_fine_error = (\<lambda>_. [])\<rparr>"

lemma file_host_atomic: "atomic_files snd (file_host bad)"
  by (simp add: atomic_files_def file_laws_def file_host_def map_files_def timed_files_def timed_def)

definition bench_sample :: runtime_envelope where
  "bench_sample =
     \<lparr>re_header = \<lparr>eh_id = ''m'', eh_timestamp = 0, eh_source = ''src'', eh_content_type = [], eh_metadata = [],
        eh_bench = Some \<lparr>bs_sequence = 0, bs_intended_ns = 1, bs_emit_ns = 2, bs_warmup = False, bs_measurement_start_seq = 0,
          bs_sequence_end = None, bs_burst = None\<rparr>\<rparr>,
      re_payload = [], re_lineage = lineage_default, re_retry_count = 0\<rparr>"

theorem export_complete_or_named_witness:
  "atomic_files snd (file_host ''.service.hdr.tmp'') \<and>
   (let s = (bench_sink_new list_histogram settings_for_test)\<lparr>bk_start_wall_time := Some 0\<rparr>;
        (r, w') = export_to_dir list_histogram (file_host ''.service.hdr.tmp'') ''out'' s (0, \<lambda>_. None)
    in r = Inr () \<and> snd w' (Path ''out'' ''latency.hdr'') = Some (ArtHistogram (bk_histogram s)
         ''WAFER BenchSink latency histogram (nanoseconds)'' ''latency_ns'') \<and>
       (\<exists>finished_ns step. snd w' (Path ''out'' ''measurement-window.json'') = Some (ArtWindow (unix_epoch_nanos 0) finished_ns step
         (bk_latency_clamps s) (bk_service_clamps s) (bk_source_lag_clamps s))))"
proof -
  let ?s = "(bench_sink_new list_histogram settings_for_test)\<lparr>bk_start_wall_time := Some 0\<rparr>"
  obtain r w' where e: "export_to_dir list_histogram (file_host ''.service.hdr.tmp'') ''out'' ?s (0, \<lambda>_. None) = (r, w')" by (metis surj_pair)
  have "fst (export_to_dir list_histogram (file_host ''.service.hdr.tmp'') ''out'' ?s (0, \<lambda>_. None)) = Inr ()"
    by (simp add: export_to_dir_def artifact_writers_def file_host_def timed_files_def timed_def map_files_def
        write_atomic_def file_name_def and_then_def temporary_of_def with_file_name_def write_sequence_def write_measurement_window_def
        write_swap_timeline_def write_component_hdr_def write_burst_evidence_def write_fine_evidence_def write_intervals_def
        wall_clock_ns_def wall_clock_step_ns_def monotonic_unix_ns_def elapsed_eq
        skip_artifact_def bench_sink_new_def settings_for_test_def list_histogram_def Let_def case_prod_beta)
  then have "r = Inr ()" using e by simp
  have "\<forall>w. bh_receipt (file_host ''.service.hdr.tmp'') w = None" by (simp add: file_host_def)
  from export_complete_or_named [OF file_host_atomic this e] \<open>r = Inr ()\<close> have
    "\<forall>(name, due) \<in> set (due_artifacts list_histogram None ?s). meets due None (snd w' (Path ''out'' name))" by simp
  then show ?thesis using e \<open>r = Inr ()\<close> file_host_atomic by (auto simp: due_artifacts_def)
qed

lemma sample_collected:
  assumes "bench_collect list_histogram (file_host []) bench_sample (bench_sink_new list_histogram settings_for_test) (5, f) = (s1, w2)"
  shows "bk_measurement_start s1 = Some 6" "w2 = (8, f)" "bk_config s1 = settings_for_test"
    "\<exists>l d. bk_interval_recorder s1 = Some (interval_record list_histogram 0 l d (interval_new list_histogram (unix_epoch_nanos 7) 300))"
    "\<not> bk_interval_uses_source_origin s1"
proof -
  note unfold = bench_collect_def measure_message_def Let_def case_prod_beta start_measurement_def start_warmup_def in_warmup_def
    file_host_def bench_sample_def settings_for_test_def bench_sink_new_def monotonic_unix_ns_def elapsed_eq
    configured_measurement_secs_def interval_elapsed_def duration_ns_saturating_def u64_saturating_def
  show "bk_measurement_start s1 = Some 6" "w2 = (8, f)" "bk_config s1 = settings_for_test" "\<not> bk_interval_uses_source_origin s1"
    using assms by (auto simp: unfold)
  obtain r where r: "bk_interval_recorder s1 = Some r" using assms by (auto simp: unfold)
  then have "\<exists>l d. r = interval_record list_histogram 0 l d (interval_new list_histogram (unix_epoch_nanos 7) 300)"
    using assms by (auto simp: unfold simp del: ex_simps) blast
  with r show "\<exists>l d. bk_interval_recorder s1 = Some (interval_record list_histogram 0 l d (interval_new list_histogram (unix_epoch_nanos 7) 300))"
    by blast
qed

theorem interval_population_agrees_witness:
  "\<exists>s2 ir w3. bk_message_count s2 = 1 \<and> bk_interval_recorder s2 = Some ir \<and>
     interval_check (hg_len list_histogram (bk_histogram s2)) ir = Inr () \<and> ir_finalized ir \<and>
     (let (s0, w1) = bench_init list_histogram (file_host []) (bench_sink_new list_histogram settings_for_test) (5, \<lambda>_. None);
          (s1, w2) = collect_all list_histogram (file_host []) [bench_sample] s0 w1
      in bench_close list_histogram (file_host []) s1 w2 = (Inr (), s2, w3))"
proof -
  let ?H = "file_host []" and ?G = list_histogram
  obtain s0 w1 where i: "bench_init ?G ?H (bench_sink_new ?G settings_for_test) (5, \<lambda>_. None) = (s0, w1)" by (metis surj_pair)
  obtain s1 w2 where c: "collect_all ?G ?H [bench_sample] s0 w1 = (s1, w2)" by (metis surj_pair)
  obtain r s2 w3 where b: "bench_close ?G ?H s1 w2 = (r, s2, w3)" by (metis prod_cases3)
  have s0: "s0 = bench_sink_new ?G settings_for_test" "w1 = (5, \<lambda>_. None)"
    using i by (simp_all add: bench_init_def bench_sink_new_def settings_for_test_def)
  have "bench_collect ?G ?H bench_sample (bench_sink_new ?G settings_for_test) (5, \<lambda>_. None) = (s1, w2)"
    using c s0 by (simp split: prod.splits)
  note s1 = sample_collected [OF this]
  then obtain l d where r1: "bk_interval_recorder s1 = Some (interval_record ?G 0 l d (interval_new ?G (unix_epoch_nanos 7) 300))" by blast
  have "r = Inr () \<and> bk_interval_recorder s2 = Some (interval_finalize ?G 2 (interval_record ?G 0 l d (interval_new ?G (unix_epoch_nanos 7) 300)))"
    using b s1 r1 by (auto simp: bench_close_def close_intervals_def Let_def elapsed_eq file_host_def settings_for_test_def
        duration_ns_saturating_def u64_saturating_def split: if_splits)
  moreover have "\<not> ir_overflowed (interval_finalize ?G 2 (interval_record ?G 0 l d (interval_new ?G (unix_epoch_nanos 7) 300)))"
    by (cases l; cases d) (simp_all add: interval_finalize_def interval_record_def interval_new_def advance_interval.simps
        Let_def finish_current_def sat_sub_def INTERVAL_WIDTH_NS_def)
  moreover have "bk_measurement_start s1 \<noteq> None \<longrightarrow> the (bk_measurement_start s1) < fst (h_now ?H w2)"
    using s1 by (simp add: file_host_def)
  ultimately show ?thesis
    using interval_population_agrees [OF list_histogram_counts _ i c _ b] i c b by auto
qed

end
