(* ===== verification/BenchSource.thy ===== *)
theory BenchSource
  imports Doubles BenchSink
begin

text \<open>
  The rate-controlled source of \<open>wafer-core/src/node/source/bench.rs\<close>: its open-loop schedule, the pacer, what
  each poll emits, validation, and the evidence it writes about a burst. The pacer thread sends the numbers
  below the total in order over a bounded channel, each once it is due, so its state is the next number to
  arrive. Rates are IEEE doubles, kept as their bits: the two functions that compute with them round the
  exact quotient and product to 53 bits, ties to even.
\<close>

section \<open>Rates\<close>

definition interval_ns :: "f64_bits \<Rightarrow> u64 option" where
  "interval_ns rate =
     (let (m, e) = f64_magnitude rate in
      if \<not> f64_finite rate \<or> f64_negative rate \<or> m = 0 then None
      else
        let interval = f64_as_u64 (round_f64 (scaled (1000000000, m) (- e)))
        in if interval > 0 then Some interval else None)"

definition messages_for :: "f64_bits \<Rightarrow> u64 \<Rightarrow> u64 option" where
  "messages_for rate seconds =
     (let (m, e) = f64_magnitude rate; (s, k) = round_f64 (unat seconds, 1);
          messages = round_f64 (scaled (m * s, 1) (e + k))
      in if \<not> f64_finite rate \<or> f64_overflows messages \<or> (f64_negative rate \<and> fst messages \<noteq> 0) \<or> f64_has_fract messages
         then None else Some (f64_as_u64 messages))"

section \<open>Schedule\<close>

record bench_burst_schedule =
  bz_rate_per_sec :: f64_bits
  bz_start_secs :: u64
  bz_end_secs :: u64

record bench_source_settings =
  sc_rate_per_sec :: f64_bits
  sc_total_messages :: u64
  sc_warmup_messages :: u64
  sc_payload_size :: usize
  sc_burst :: "bench_burst_schedule option"
  sc_evidence_dir :: "string option"

definition source_settings_new :: "f64_bits \<Rightarrow> u64 \<Rightarrow> bench_source_settings" where
  "source_settings_new rate total_messages =
     \<lparr>sc_rate_per_sec = rate, sc_total_messages = total_messages, sc_warmup_messages = 0, sc_payload_size = 128, sc_burst = None,
      sc_evidence_dir = None\<rparr>"

definition burst_phase_counts :: "bench_source_settings \<Rightarrow> (u64 \<times> u64 \<times> u64) option" where
  "burst_phase_counts c =
     (case sc_burst c of
        None \<Rightarrow> None
      | Some burst \<Rightarrow>
          (case messages_for (sc_rate_per_sec c) (bz_start_secs burst) of
             None \<Rightarrow> None
           | Some before \<Rightarrow>
               (case messages_for (bz_rate_per_sec burst) (sat_sub (bz_end_secs burst) (bz_start_secs burst)) of
                  None \<Rightarrow> None
                | Some during \<Rightarrow>
                    (case checked_sub (sc_total_messages c) (sc_warmup_messages c) of
                       None \<Rightarrow> None
                     | Some measured \<Rightarrow>
                         map_option (\<lambda>after. (before, during, after)) (checked_sub measured (sat_add before during))))))"

definition measurement_offset_ns :: "bench_source_settings \<Rightarrow> u64 \<Rightarrow> u64 option" where
  "measurement_offset_ns c sequence =
     (case sc_burst c of
        None \<Rightarrow> None
      | Some burst \<Rightarrow>
          (case (checked_sub sequence (sc_warmup_messages c), burst_phase_counts c, interval_ns (sc_rate_per_sec c),
                 interval_ns (bz_rate_per_sec burst)) of
             (Some measurement_index, Some (before, during, _), Some base_interval, Some burst_interval) \<Rightarrow>
               Some (if measurement_index < before then sat_mul measurement_index base_interval
                     else if measurement_index < sat_add before during
                     then sat_add (sat_mul (bz_start_secs burst) 1000000000)
                            (sat_mul (sat_sub measurement_index before) burst_interval)
                     else sat_add (sat_mul (bz_end_secs burst) 1000000000)
                            (sat_mul (sat_sub measurement_index (sat_add before during)) base_interval))
           | _ \<Rightarrow> None))"

definition schedule_offset_ns :: "bench_source_settings \<Rightarrow> u64 \<Rightarrow> u64" where
  "schedule_offset_ns c sequence =
     (let base_interval = (case interval_ns (sc_rate_per_sec c) of None \<Rightarrow> 0 | Some n \<Rightarrow> n) in
      case measurement_offset_ns c sequence of
        None \<Rightarrow> sat_mul sequence base_interval
      | Some offset \<Rightarrow> sat_add (sat_mul (sc_warmup_messages c) base_interval) offset)"

definition burst_phase_of :: "bench_source_settings \<Rightarrow> u64 \<Rightarrow> burst_phase option" where
  "burst_phase_of c sequence =
     (case (checked_sub sequence (sc_warmup_messages c), burst_phase_counts c) of
        (Some measurement_index, Some (before, during, _)) \<Rightarrow>
          Some (if measurement_index < before then Before
                else if measurement_index < sat_add before during then Burst else After)
      | _ \<Rightarrow> None)"

definition source_validate :: "bench_source_settings \<Rightarrow> (string, unit) result" where
  "source_validate c =
     (if interval_ns (sc_rate_per_sec c) = None then Inl ''bench source rate must be positive and finite''
      else
        case sc_burst c of
          None \<Rightarrow> Inr ()
        | Some burst \<Rightarrow>
            if interval_ns (bz_rate_per_sec burst) = None \<or> bz_start_secs burst \<ge> bz_end_secs burst \<or> burst_phase_counts c = None
            then Inl ''bench source burst schedule is invalid for the configured population'' else Inr ())"

section \<open>The source\<close>

record pacer =
  pa_origin :: instant
  pa_origin_unix_ns :: u64
  pa_next :: u64

record bench_source =
  bq_id :: string
  bq_config :: bench_source_settings
  bq_sequence :: u64
  bq_pacer :: "pacer option"
  bq_measurement_start_unix_ns :: "u64 option"
  bq_measurement_completed_offset_ns :: "u64 option"
  bq_payload :: bytes
  bq_emitted_phase_counts :: "u64 list"

definition bench_source_new :: "bench_source_settings \<Rightarrow> bench_source" where
  "bench_source_new c =
     \<lparr>bq_id = ''bench-source'', bq_config = c, bq_sequence = 0, bq_pacer = None, bq_measurement_start_unix_ns = None,
      bq_measurement_completed_offset_ns = None, bq_payload = replicate (sc_payload_size c) 0x42,
      bq_emitted_phase_counts = [0, 0, 0]\<rparr>"

datatype source_artifact =
    BurstTiming u64 u64 u64 u64 u64
  | BurstSummary u64 u64 u64 "f64_bits list" "u64 list" u64 "u64 list" "u64 list" u64 u64 u64

record 'w source_host = "'w anchored_host" +
  so_spawn_pacer :: "'w \<Rightarrow> (string, unit) result \<times> 'w"
  so_await_due :: "instant \<Rightarrow> 'w \<Rightarrow> 'w"
  so_new_uuid :: "'w \<Rightarrow> string \<times> 'w"
  so_create_dir :: "string \<Rightarrow> 'w \<Rightarrow> (string, unit) result \<times> 'w"
  so_files :: "(source_artifact, 'w) file_ops"

definition SECOND_NS :: u64 where
  "SECOND_NS = 1000000000"

definition write_burst_timing :: "('w, 'h) source_host_scheme \<Rightarrow> u64 \<Rightarrow> bench_source \<Rightarrow> 'w \<Rightarrow> (string, unit) result \<times> 'w" where
  "write_burst_timing H measurement_start_ns s w =
     (case (sc_evidence_dir (bq_config s), sc_burst (bq_config s)) of
        (Some dir, Some burst) \<Rightarrow>
          let (r, w) = so_create_dir H dir w in
          (case r of
             Inl e \<Rightarrow> (Inl e, w)
           | Inr _ \<Rightarrow>
               write_atomic (so_files H) (Path dir ''burst-source-timing.json'')
                 (BurstTiming measurement_start_ns
                    (sat_add measurement_start_ns (sat_mul (bz_start_secs burst) SECOND_NS))
                    (sat_add measurement_start_ns 60000000000)
                    (sat_add measurement_start_ns (sat_mul (bz_end_secs burst) SECOND_NS))
                    (sat_add measurement_start_ns 120000000000)) w)
      | _ \<Rightarrow> (Inr (), w))"

definition pacer_start :: "('w, 'h) source_host_scheme \<Rightarrow> 'w \<Rightarrow> (string, pacer) result \<times> 'w" where
  "pacer_start H w =
     (let (origin, w) = h_now H w; (origin_unix_ns, w) = monotonic_unix_ns H w; (r, w) = so_spawn_pacer H w
      in (map_sum id (\<lambda>_. \<lparr>pa_origin = origin, pa_origin_unix_ns = origin_unix_ns, pa_next = 0\<rparr>) r, w))"

definition start_pacer :: "('w, 'h) source_host_scheme \<Rightarrow> bench_source \<Rightarrow> 'w \<Rightarrow> (string, unit) result \<times> bench_source \<times> 'w" where
  "start_pacer H s w =
     (let (r, w) = pacer_start H w in
      case r of
        Inl e \<Rightarrow> (Inl e, s, w)
      | Inr p \<Rightarrow>
          let measurement_start =
                sat_add (pa_origin_unix_ns p) (schedule_offset_ns (bq_config s) (sc_warmup_messages (bq_config s)));
              s = s\<lparr>bq_pacer := Some p\<rparr>
          in if sc_burst (bq_config s) = None then (Inr (), s, w)
             else
               let s = s\<lparr>bq_measurement_start_unix_ns := Some measurement_start\<rparr>;
                   (r, w) = write_burst_timing H measurement_start s w
               in (r, s, w))"

text \<open>One tick of the pacer: it waits until the tick is due; the channel closes after the last one.\<close>

definition pacer_recv :: "('w, 'h) source_host_scheme \<Rightarrow> bench_source_settings \<Rightarrow> pacer \<Rightarrow> 'w \<Rightarrow> (u64 \<times> u64) option \<times> pacer \<times> 'w" where
  "pacer_recv H c p w =
     (if pa_next p < sc_total_messages c then
        let offset_ns = schedule_offset_ns c (pa_next p); w = so_await_due H (pa_origin p + unat offset_ns) w
        in (Some (pa_next p, offset_ns), p\<lparr>pa_next := pa_next p + 1\<rparr>, w)
      else (None, p, w))"

definition next_due :: "('w, 'h) source_host_scheme \<Rightarrow> bench_source \<Rightarrow> 'w \<Rightarrow> (string, u64 \<times> u64) result \<times> bench_source \<times> 'w" where
  "next_due H s w =
     (let (r, s, w) = (if bq_pacer s = None then start_pacer H s w else (Inr (), s, w)) in
      case (r, bq_pacer s) of
        (Inl e, _) \<Rightarrow> (Inl e, s, w)
      | (Inr _, None) \<Rightarrow> (Inl ''bench source pacer stopped early'', s, w)
      | (Inr _, Some p) \<Rightarrow>
          let (tick, p, w) = pacer_recv H (bq_config s) p w; s = s\<lparr>bq_pacer := Some p\<rparr> in
          (case tick of
             None \<Rightarrow> (Inl ''bench source pacer stopped early'', s, w)
           | Some (sequence, offset_ns) \<Rightarrow> (Inr (sequence, sat_add (pa_origin_unix_ns p) offset_ns), s, w)))"

definition complete_measurement :: "('w, 'h) source_host_scheme \<Rightarrow> bench_source \<Rightarrow> 'w \<Rightarrow> bench_source \<times> 'w" where
  "complete_measurement H s w =
     (case bq_pacer s of
        Some p \<Rightarrow>
          if bq_measurement_completed_offset_ns s = None \<and> sc_burst (bq_config s) \<noteq> None then
            let (el, w) = elapsed H (pa_origin p) w
            in (s\<lparr>bq_measurement_completed_offset_ns := Some (sat_sub (duration_ns_saturating el)
                   (schedule_offset_ns (bq_config s) (sc_warmup_messages (bq_config s))))\<rparr>, w)
          else (s, w)
      | None \<Rightarrow> (s, w))"

definition count_phase :: "burst_phase option \<Rightarrow> bench_source \<Rightarrow> bench_source" where
  "count_phase phase s =
     (case phase of
        None \<Rightarrow> s
      | Some p \<Rightarrow> s\<lparr>bq_emitted_phase_counts := bump (burst_index p) (bq_emitted_phase_counts s)\<rparr>)"

definition bench_poll ::
    "('w, 'h) source_host_scheme \<Rightarrow> bench_source \<Rightarrow> 'w \<Rightarrow> (wafer_error, runtime_envelope option) result \<times> bench_source \<times> 'w" where
  "bench_poll H s w =
     (if bq_sequence s \<ge> sc_total_messages (bq_config s) then
        let (s, w) = complete_measurement H s w in (Inr None, s, w)
      else
        let (r, s, w) = next_due H s w in
        case r of
          Inl e \<Rightarrow> (Inl (Io e), s, w)
        | Inr (seq, intended_ns) \<Rightarrow>
            let phase = burst_phase_of (bq_config s) seq;
                s = count_phase phase (s\<lparr>bq_sequence := sat_add seq 1\<rparr>);
                burst = map_option (\<lambda>p. \<lparr>bu_phase = p, bu_measurement_start_unix_ns = bq_measurement_start_unix_ns s\<rparr>) phase;
                (uuid, w) = so_new_uuid H w; (now, w) = h_system_now H w; (emit_ns, w) = monotonic_unix_ns H w
            in (Inr (Some (with_bench_stamps
                  \<lparr>bs_sequence = seq, bs_intended_ns = intended_ns, bs_emit_ns = emit_ns,
                   bs_warmup = (seq < sc_warmup_messages (bq_config s)), bs_measurement_start_seq = sc_warmup_messages (bq_config s),
                   bs_sequence_end = Some (sc_total_messages (bq_config s)), bs_burst = burst\<rparr>
                  (envelope_new uuid now (bq_id s) (bq_payload s)))), s, w))"

definition write_burst_summary :: "('w, 'h) source_host_scheme \<Rightarrow> bench_source \<Rightarrow> 'w \<Rightarrow> (string, unit) result \<times> 'w" where
  "write_burst_summary H s w =
     (let c = bq_config s in
      case (sc_evidence_dir c, sc_burst c, burst_phase_counts c) of
        (Some dir, Some burst, Some (before, during, after)) \<Rightarrow>
          let start = (case bq_measurement_start_unix_ns s of None \<Rightarrow> 0 | Some n \<Rightarrow> n);
              (finish, w) = monotonic_unix_ns H w
          in write_atomic (so_files H) (Path dir ''burst-source-summary.json'')
               (BurstSummary start finish
                  (case bq_measurement_completed_offset_ns s of None \<Rightarrow> - 1 | Some n \<Rightarrow> n)
                  [sc_rate_per_sec c, bz_rate_per_sec burst, sc_rate_per_sec c]
                  [0, sat_mul (bz_start_secs burst) SECOND_NS, sat_mul (bz_end_secs burst) SECOND_NS, 120000000000]
                  (sc_warmup_messages c) [before, during, after] (bq_emitted_phase_counts s)
                  (sum_list [before, during, after]) (sum_list (bq_emitted_phase_counts s)) (bq_sequence s)) w
      | _ \<Rightarrow> (Inr (), w))"

definition source_close :: "('w, 'h) source_host_scheme \<Rightarrow> bench_source \<Rightarrow> 'w \<Rightarrow> (wafer_error, unit) result \<times> bench_source \<times> 'w" where
  "source_close H s w = (let (r, w) = write_burst_summary H s w in (map_sum Io id r, s, w))"

text \<open>1000 messages a second: a message each millisecond, and 60000 of them in a minute.\<close>

lemma magnitude_thousand: "f64_magnitude 0x408F400000000000 = (8796093022208000, - 43)" "f64_finite 0x408F400000000000"
    "\<not> f64_negative 0x408F400000000000"
  by (simp_all add: f64_magnitude_def f64_exponent_def f64_fraction_def f64_finite_def f64_negative_def)

lemma interval_thousand: "interval_ns 0x408F400000000000 = Some 1000000"
proof -
  have b: "bit_length 8796093022208000000000 = 73" "bit_length 8796093022208000 = 53" by simp_all
  have "round_f64 (8796093022208000000000, 8796093022208000) = (8589934592000000, - 33)"
    unfolding round_f64_def Let_def fst_conv snd_conv b by (simp add: scaled_def half_even_def)
  then show ?thesis
    by (simp add: interval_ns_def magnitude_thousand scaled_def f64_as_u64_def u64_saturating_def)
qed

lemma messages_thousand: "messages_for 0x408F400000000000 60 = Some 60000"
proof -
  let ?m = "8796093022208000 * 8444249301319680 :: nat" and ?d = "2 ^ 90 :: nat"
  have b: "bit_length 60 = 6" "bit_length 1 = 1" "bit_length ?m = 106" "bit_length ?d = 91" by simp_all
  have s: "round_f64 (60, 1) = (8444249301319680, - 47)"
    unfolding round_f64_def Let_def fst_conv snd_conv b by (simp add: scaled_def half_even_def)
  have "round_f64 (?m, ?d) = (8246337208320000, - 37)"
    unfolding round_f64_def Let_def fst_conv snd_conv b by (simp add: scaled_def half_even_def)
  moreover have "scaled (?m, 1) (- 90) = (?m, ?d)" by (simp add: scaled_def)
  ultimately have "round_f64 (scaled (?m, 1) (- 90)) = (8246337208320000, - 37)" by (simp only:)
  with s show ?thesis
    by (simp add: messages_for_def magnitude_thousand f64_overflows_def f64_has_fract_def f64_as_u64_def u64_saturating_def)
qed

section \<open>What is emitted\<close>

text \<open>The stamps of message \<open>i\<close>, and how many of the first \<open>k\<close> messages lie in each phase.\<close>

definition stamps_of :: "bench_source_settings \<Rightarrow> u64 \<Rightarrow> nat \<Rightarrow> u64 \<Rightarrow> bench_stamps" where
  "stamps_of c origin i emit_ns =
     \<lparr>bs_sequence = of_nat i, bs_intended_ns = sat_add origin (schedule_offset_ns c (of_nat i)), bs_emit_ns = emit_ns,
      bs_warmup = (i < unat (sc_warmup_messages c)), bs_measurement_start_seq = sc_warmup_messages c,
      bs_sequence_end = Some (sc_total_messages c),
      bs_burst = map_option (\<lambda>p. \<lparr>bu_phase = p, bu_measurement_start_unix_ns =
          (if sc_burst c = None then None else Some (sat_add origin (schedule_offset_ns c (sc_warmup_messages c))))\<rparr>)
        (burst_phase_of c (of_nat i))\<rparr>"

definition phase_count :: "bench_source_settings \<Rightarrow> nat \<Rightarrow> burst_phase \<Rightarrow> nat" where
  "phase_count c k p = length (filter (\<lambda>i. burst_phase_of c (of_nat i) = Some p) [0..<k])"

lemma phase_count_Suc: "phase_count c (Suc k) p = phase_count c k p + (if burst_phase_of c (of_nat k) = Some p then 1 else 0)"
  by (simp add: phase_count_def)

lemma phase_count_le: "phase_count c k p \<le> k"
  using length_filter_le [of _ "[0..<k]"] by (simp add: phase_count_def)

definition source_at :: "bench_source_settings \<Rightarrow> nat \<Rightarrow> bench_source \<Rightarrow> bool" where
  "source_at c k s \<longleftrightarrow>
     bq_config s = c \<and> k \<le> unat (sc_total_messages c) \<and> bq_sequence s = of_nat k \<and>
     (case bq_pacer s of
        None \<Rightarrow> k = 0 \<and> bq_measurement_start_unix_ns s = None
      | Some p \<Rightarrow> pa_next p = of_nat k \<and> bq_measurement_start_unix_ns s =
          (if sc_burst c = None then None
           else Some (sat_add (pa_origin_unix_ns p) (schedule_offset_ns c (sc_warmup_messages c))))) \<and>
     bq_emitted_phase_counts s = map (\<lambda>p. of_nat (phase_count c k p)) [Before, Burst, After]"

definition origin_of :: "bench_source \<Rightarrow> u64 option" where
  "origin_of s = map_option pa_origin_unix_ns (bq_pacer s)"

lemma source_at_new: "source_at c 0 (bench_source_new c)"
  by (simp add: source_at_def bench_source_new_def phase_count_def)

lemma start_pacer_at:
  assumes "source_at c k s" "bq_pacer s = None" "start_pacer H s w = (r, s', w')"
  shows "source_at c k s'" "r = Inr () \<Longrightarrow> bq_pacer s' \<noteq> None"
  using assms
  by (auto simp: start_pacer_def pacer_start_def source_at_def Let_def map_sum_def split: prod.splits sum.splits if_splits)

text \<open>With a pacer running, a message below the total arrives; only starting the pacer can fail.\<close>

lemma unat_bound: "unat (t :: u64) < 2 ^ 64"
proof -
  have "unat t < 2 ^ LENGTH(64)" by (rule unsigned_less)
  then show ?thesis by simp
qed

lemma unat_below: "k < unat (t :: u64) \<Longrightarrow> unat (of_nat k :: u64) = k"
  using unat_bound [of t] by (simp add: unat_of_nat)

lemma of_nat_less_total: "k < unat t \<Longrightarrow> (of_nat k :: u64) < t"
  by (simp add: word_less_nat_alt unat_below)

lemma next_due_at:
  assumes "source_at c k s" "k < unat (sc_total_messages c)" "next_due H s w = (r, s', w')"
  shows "(\<exists>e. r = Inl e \<and> bq_pacer s = None \<and> source_at c k s') \<or>
    (\<exists>p. r = Inr (of_nat k, sat_add (pa_origin_unix_ns p) (schedule_offset_ns c (of_nat k))) \<and>
       bq_pacer s' = Some (p\<lparr>pa_next := of_nat k + 1\<rparr>) \<and> source_at c k (s'\<lparr>bq_pacer := Some p\<rparr>) \<and>
       (bq_pacer s \<noteq> None \<longrightarrow> origin_of s = Some (pa_origin_unix_ns p)))"
proof -
  obtain r0 s0 w0 where st: "(if bq_pacer s = None then start_pacer H s w else (Inr (), s, w)) = (r0, s0, w0)" by (metis prod_cases3)
  have s0: "source_at c k s0" "r0 = Inr () \<Longrightarrow> bq_pacer s0 \<noteq> None" "bq_pacer s \<noteq> None \<Longrightarrow> s0 = s \<and> r0 = Inr ()"
    using st start_pacer_at [OF assms(1)] assms(1) by (auto split: if_splits)
  show ?thesis
  proof (cases r0)
    case (Inl e)
    then show ?thesis using assms(3) st s0 by (auto simp: next_due_def)
  next
    case (Inr u)
    then obtain p where p: "bq_pacer s0 = Some p" using s0(2) by auto
    have cfg: "bq_config s0 = c" "pa_next p = of_nat k" using s0(1) p by (auto simp: source_at_def)
    have "r = Inr (of_nat k, sat_add (pa_origin_unix_ns p) (schedule_offset_ns c (of_nat k)))"
      "s' = s0\<lparr>bq_pacer := Some (p\<lparr>pa_next := of_nat k + 1\<rparr>)\<rparr>"
      using assms(3) st Inr p cfg of_nat_less_total [OF assms(2)] by (simp_all add: next_due_def pacer_recv_def Let_def)
    moreover have "source_at c k (s0\<lparr>bq_pacer := Some p\<rparr>)" using s0(1) p by (simp add: source_at_def)
    moreover have "bq_pacer s \<noteq> None \<longrightarrow> origin_of s = Some (pa_origin_unix_ns p)"
      using s0(3) p by (auto simp: origin_of_def)
    ultimately show ?thesis by auto
  qed
qed

lemma count_phase_at:
  assumes "k < unat (sc_total_messages c)"
    "bq_emitted_phase_counts s = map (\<lambda>p. of_nat (phase_count c k p)) [Before, Burst, After]"
  shows "bq_emitted_phase_counts (count_phase (burst_phase_of c (of_nat k)) s) =
    map (\<lambda>p. of_nat (phase_count c (Suc k) p)) [Before, Burst, After]"
proof -
  have "phase_count c k p + 1 < 2 ^ 64" for p
    using phase_count_le [of c k p] assms(1) unat_bound [of "sc_total_messages c"] by simp
  then have "sat_add (of_nat (phase_count c k p)) 1 = (of_nat (phase_count c k p + 1) :: u64)" for p
    using sat_add_of_nat [of "phase_count c k p", where 'a = 64] by simp
  then show ?thesis
    using assms(2) by (cases "burst_phase_of c (of_nat k)"; cases "the (burst_phase_of c (of_nat k))")
      (auto simp: count_phase_def bump_def burst_index_def phase_count_Suc)
qed

lemma count_phase_keeps [simp]:
  "bq_config (count_phase p s) = bq_config s" "bq_sequence (count_phase p s) = bq_sequence s"
  "bq_pacer (count_phase p s) = bq_pacer s" "bq_measurement_start_unix_ns (count_phase p s) = bq_measurement_start_unix_ns s"
  by (simp_all add: count_phase_def split: option.split)

lemma poll_at:
  assumes "source_at c k s" "bench_poll H s w = (r, s', w')"
  shows "k = unat (sc_total_messages c) \<and> r = Inr None \<and> source_at c k s' \<and> bq_pacer s' = bq_pacer s \<or>
    k < unat (sc_total_messages c) \<and>
      ((\<exists>e. r = Inl (Io e) \<and> bq_pacer s = None \<and> source_at c k s') \<or>
       (\<exists>env origin emit_ns. r = Inr (Some env) \<and> eh_bench (re_header env) = Some (stamps_of c origin k emit_ns) \<and>
          source_at c (Suc k) s' \<and> origin_of s' = Some origin \<and> (bq_pacer s \<noteq> None \<longrightarrow> origin_of s = Some origin)))"
proof (cases "k < unat (sc_total_messages c)")
  case False
  then have k: "k = unat (sc_total_messages c)" "bq_sequence s = sc_total_messages c" "bq_config s = c"
    using assms(1) by (auto simp: source_at_def)
  then have "r = Inr None \<and> (s', w') = complete_measurement H s w"
    using assms(2) by (auto simp: bench_poll_def split: prod.splits)
  then show ?thesis using assms(1) k(1)
    by (auto simp: complete_measurement_def source_at_def split: option.splits prod.splits if_splits)
next
  case True
  then have run: "\<not> bq_sequence s \<ge> sc_total_messages (bq_config s)"
    using assms(1) of_nat_less_total [OF True] by (auto simp: source_at_def)
  obtain d s1 w1 where d: "next_due H s w = (d, s1, w1)" by (metis prod_cases3)
  from next_due_at [OF assms(1) True d] show ?thesis
  proof (elim disjE exE conjE)
    fix e assume "d = Inl e" "bq_pacer s = None" "source_at c k s1"
    then show ?thesis using assms(2) run d True by (auto simp: bench_poll_def)
  next
    fix p assume p: "d = Inr (of_nat k, sat_add (pa_origin_unix_ns p) (schedule_offset_ns c (of_nat k)))"
      "bq_pacer s1 = Some (p\<lparr>pa_next := of_nat k + 1\<rparr>)" "source_at c k (s1\<lparr>bq_pacer := Some p\<rparr>)"
      "bq_pacer s \<noteq> None \<longrightarrow> origin_of s = Some (pa_origin_unix_ns p)"
    then have s1: "bq_config s1 = c" "bq_measurement_start_unix_ns s1 = (if sc_burst c = None then None
           else Some (sat_add (pa_origin_unix_ns p) (schedule_offset_ns c (sc_warmup_messages c))))"
      "bq_emitted_phase_counts s1 = map (\<lambda>p. of_nat (phase_count c k p)) [Before, Burst, After]"
      by (auto simp: source_at_def)
    define s2 where "s2 = count_phase (burst_phase_of c (of_nat k)) (s1\<lparr>bq_sequence := sat_add (of_nat k) 1\<rparr>)"
    have "unat (of_nat k :: u64) = k" by (rule unat_below [OF True])
    then have warm: "(of_nat k < sc_warmup_messages c) = (k < unat (sc_warmup_messages c))" by (simp add: word_less_nat_alt)
    have "k + 1 < 2 ^ 64" using True unat_bound [of "sc_total_messages c"] by simp
    then have seq: "sat_add (of_nat k) 1 = (of_nat (k + 1) :: u64)" using sat_add_of_nat [of k, where 'a = 64] by simp
    obtain env emit where r: "r = Inr (Some env)" "s' = s2" "eh_bench (re_header env) = Some (stamps_of c (pa_origin_unix_ns p) k emit)"
      using assms(2) run d p(1) s1(1,2) warm
      by (auto simp: bench_poll_def Let_def with_bench_stamps_def stamps_of_def s2_def split: prod.splits)
    have "bq_emitted_phase_counts s2 = map (\<lambda>p. of_nat (phase_count c (Suc k) p)) [Before, Burst, After]"
      unfolding s2_def by (rule count_phase_at [OF True]) (simp add: s1(3))
    then have "source_at c (Suc k) s2" "origin_of s2 = Some (pa_origin_unix_ns p)"
      using s1(1,2) p(2) True seq by (auto simp: source_at_def s2_def origin_of_def)
    then show ?thesis using r p(4) True by auto
  qed
qed

fun poll_times ::
    "('w, 'h) source_host_scheme \<Rightarrow> nat \<Rightarrow> bench_source \<Rightarrow> 'w \<Rightarrow> (wafer_error, runtime_envelope option) result list \<times> bench_source \<times> 'w" where
  "poll_times H 0 s w = ([], s, w)"
| "poll_times H (Suc n) s w =
     (let (r, s, w) = bench_poll H s w; (rs, s, w) = poll_times H n s w in (r # rs, s, w))"

definition emission :: "(wafer_error, runtime_envelope option) result \<Rightarrow> bench_stamps list" where
  "emission r =
     (case r of Inr (Some env) \<Rightarrow> (case eh_bench (re_header env) of None \<Rightarrow> [] | Some b \<Rightarrow> [b]) | _ \<Rightarrow> [])"

lemma poll_times_at:
  assumes "source_at c k s" "poll_times H n s w = (rs, s', w')"
  shows "\<exists>k' origin emit_ns. k' = min (unat (sc_total_messages c)) (k + length (filter is_ok rs)) \<and> source_at c k' s' \<and>
    concat (map emission rs) = map (\<lambda>i. stamps_of c origin i (emit_ns i)) [k..<k'] \<and>
    (bq_pacer s \<noteq> None \<longrightarrow> origin_of s = Some origin)"
  using assms
proof (induction n arbitrary: k s w rs)
  case 0
  then have "k \<le> unat (sc_total_messages c)" by (simp add: source_at_def)
  then show ?case using 0 by (cases "bq_pacer s") (auto simp: origin_of_def min_def)
next
  case (Suc n)
  let ?total = "unat (sc_total_messages c)"
  obtain r s1 w1 where r: "bench_poll H s w = (r, s1, w1)" by (metis prod_cases3)
  obtain rs1 where rs: "poll_times H n s1 w1 = (rs1, s', w')" "rs = r # rs1" using Suc.prems(2) r by (auto split: prod.splits)
  have le: "k \<le> ?total" using Suc.prems(1) by (simp add: source_at_def)
  from poll_at [OF Suc.prems(1) r] consider
      (stop) "k = ?total" "r = Inr None" "source_at c k s1" "bq_pacer s1 = bq_pacer s"
    | (fail) e where "r = Inl (Io e)" "bq_pacer s = None" "source_at c k s1"
    | (emit) env origin emit where "k < ?total" "r = Inr (Some env)" "eh_bench (re_header env) = Some (stamps_of c origin k emit)"
        "source_at c (Suc k) s1" "origin_of s1 = Some origin" "bq_pacer s \<noteq> None \<longrightarrow> origin_of s = Some origin"
    by blast
  then show ?case
  proof cases
    case stop
    with Suc.IH [OF stop(3) rs(1)] show ?thesis by (auto simp: rs(2) emission_def is_ok_def origin_of_def)
  next
    case fail
    with Suc.IH [OF fail(3) rs(1)] show ?thesis by (auto simp: rs(2) emission_def is_ok_def)
  next
    case emit
    have "bq_pacer s1 \<noteq> None" using emit(5) by (auto simp: origin_of_def)
    with Suc.IH [OF emit(4) rs(1)] emit(5) obtain k' emits where
      IH: "k' = min ?total (Suc k + length (filter is_ok rs1))" "source_at c k' s'"
        "concat (map emission rs1) = map (\<lambda>i. stamps_of c origin i (emits i)) [Suc k..<k']"
      by (metis option.inject)
    have "k < k'" using IH(1) emit(1) by simp
    then have "map (\<lambda>i. stamps_of c origin i ((emits(k := emit)) i)) [k..<k'] =
        stamps_of c origin k emit # map (\<lambda>i. stamps_of c origin i (emits i)) [Suc k..<k']"
      by (simp add: upt_conv_Cons)
    then have "concat (map emission rs) = map (\<lambda>i. stamps_of c origin i ((emits(k := emit)) i)) [k..<k']"
      by (simp add: rs(2) emission_def emit(2,3) IH(3))
    moreover have "k' = min ?total (k + length (filter is_ok rs))" by (simp add: IH(1) rs(2) emit(2) is_ok_def)
    ultimately show ?thesis using IH(2) emit(6) by blast
  qed
qed

text \<open>
  C32: The measurement source follows its schedule exactly. However often it is polled and whatever fails in
  starting it, its messages carry the numbers 0, 1, 2, ... without gap or repetition, one for each poll that
  did not fail, up to the configured total and none beyond; each is stamped with the due time of its number
  from one origin, is marked as warm-up exactly below the warm-up count, declares the same measured
  population, and names its burst phase.
\<close>

theorem source_follows_schedule:
  "case poll_times H n (bench_source_new c) w of (rs, s, w') \<Rightarrow>
     let k = min (unat (sc_total_messages c)) (length (filter is_ok rs)) in
     (\<exists>origin emit_ns. concat (map emission rs) = map (\<lambda>i. stamps_of c origin i (emit_ns i)) [0..<k]) \<and>
     bq_sequence s = of_nat k \<and> bq_emitted_phase_counts s = map (\<lambda>p. of_nat (phase_count c k p)) [Before, Burst, After]"
proof -
  obtain rs s w' where p: "poll_times H n (bench_source_new c) w = (rs, s, w')" by (metis prod_cases3)
  from poll_times_at [OF source_at_new p] show ?thesis by (auto simp: p Let_def source_at_def)
qed

end
