(* ===== verification/BenchRun.thy ===== *)
theory BenchRun
  imports BenchSource
begin

text \<open>
  A measured run: the source of \<open>source/bench.rs\<close> and the sink of \<open>sink/bench.rs\<close> together. Whatever the
  pipeline between them loses, repeats or reorders, the sink's sequence accounting is about the population
  the source emits; and the phases the source counts are those of its schedule.
\<close>

section \<open>The phases of a burst\<close>

lemma phase_counts_bounds:
  assumes "burst_phase_counts c = Some (before, during, after)" "sc_total_messages c \<noteq> - 1"
  shows "sat_add before during = before + during" "unat (before + during) = unat before + unat during"
    "unat (sc_warmup_messages c) + unat before + unat during + unat after = unat (sc_total_messages c)"
proof -
  let ?t = "sc_total_messages c" and ?w = "sc_warmup_messages c"
  obtain measured where m: "checked_sub ?t ?w = Some measured" "checked_sub measured (sat_add before during) = Some after"
    using assms(1) by (auto simp: burst_phase_counts_def split: option.splits)
  have le: "?w \<le> ?t" "measured = ?t - ?w" "sat_add before during \<le> measured" "after = measured - sat_add before during"
    using m by (auto simp: checked_sub_def split: if_splits)
  have "unat ?t < 2 ^ 64 - 1"
  proof -
    have "unat ?t \<noteq> unat (- 1 :: u64)" using assms(2) by (metis unsigned_word_eqI)
    then show ?thesis using unat_bound [of ?t] by (simp add: unat_max)
  qed
  then have meas: "unat measured = unat ?t - unat ?w" "unat measured < 2 ^ 64 - 1"
    using le(1,2) by (simp_all add: unat_sub_if_size word_le_nat_alt)
  then have sum: "unat before + unat during < 2 ^ 64"
    using le(3) by (simp add: word_le_nat_alt sat_arith split: if_splits)
  then show s: "sat_add before during = before + during" by (simp add: sat_add_def le_diff_max)
  show u: "unat (before + during) = unat before + unat during" using sum by (simp add: unat_word_ariths)
  have "unat after = unat measured - (unat before + unat during)" "unat before + unat during \<le> unat measured"
    using le(3,4) s u by (simp_all add: unat_sub word_le_nat_alt)
  then show "unat ?w + unat before + unat during + unat after = unat ?t" using meas(1) le(1) by (simp add: word_le_nat_alt)
qed

lemma burst_phase_at:
  assumes "burst_phase_counts c = Some (before, during, after)" "sc_total_messages c \<noteq> - 1" "k < unat (sc_total_messages c)"
  shows "burst_phase_of c (of_nat k) =
    (if k < unat (sc_warmup_messages c) then None
     else if k < unat (sc_warmup_messages c) + unat before then Some Before
     else if k < unat (sc_warmup_messages c) + unat before + unat during then Some Burst else Some After)"
proof -
  note b = phase_counts_bounds [OF assms(1,2)]
  have k: "unat (of_nat k :: u64) = k" by (rule unat_below [OF assms(3)])
  show ?thesis
  proof (cases "k < unat (sc_warmup_messages c)")
    case True
    then have "checked_sub (of_nat k) (sc_warmup_messages c) = None" using k by (simp add: checked_sub_def word_le_nat_alt)
    then show ?thesis using True by (simp add: burst_phase_of_def)
  next
    case False
    then have le: "sc_warmup_messages c \<le> of_nat k" using k by (simp add: word_le_nat_alt)
    then have "unat (of_nat k - sc_warmup_messages c) = k - unat (sc_warmup_messages c)" using k by (simp add: unat_sub)
    then show ?thesis using False le assms(1) b by (auto simp: burst_phase_of_def checked_sub_def word_less_nat_alt)
  qed
qed

lemma phase_count_at:
  assumes "burst_phase_counts c = Some (before, during, after)" "sc_total_messages c \<noteq> - 1" "k \<le> unat (sc_total_messages c)"
  defines "m \<equiv> k - unat (sc_warmup_messages c)"
  shows "phase_count c k Before = min m (unat before)" "phase_count c k Burst = min (m - unat before) (unat during)"
    "phase_count c k After = m - unat before - unat during"
proof -
  let ?w = "unat (sc_warmup_messages c)"
  have "phase_count c k Before = min (k - ?w) (unat before) \<and> phase_count c k Burst = min (k - ?w - unat before) (unat during) \<and>
    phase_count c k After = k - ?w - unat before - unat during"
    using assms(3)
  proof (induction k)
    case (Suc k)
    then show ?case using burst_phase_at [OF assms(1,2), of k] by (auto simp: phase_count_Suc)
  qed (simp add: phase_count_def)
  then show "phase_count c k Before = min m (unat before)" "phase_count c k Burst = min (m - unat before) (unat during)"
    "phase_count c k After = m - unat before - unat during" by (simp_all add: m_def)
qed

text \<open>
  A burst that validation accepts is emitted as declared: once as many polls succeeded as the source has
  messages, the numbers it counted before, during and after the burst, which its summary reports as emitted,
  are those its schedule intends, and together with the warm-up they are all its messages.
\<close>

theorem burst_phases_emitted:
  assumes "burst_phase_counts c = Some (before, during, after)" "sc_total_messages c \<noteq> - 1"
    "poll_times H n (bench_source_new c) w = (rs, s, w')" "unat (sc_total_messages c) \<le> length (filter is_ok rs)"
  shows "bq_emitted_phase_counts s = [before, during, after] \<and> bq_sequence s = sc_total_messages c \<and>
    unat (sc_warmup_messages c) + unat before + unat during + unat after = unat (sc_total_messages c)"
proof -
  let ?t = "unat (sc_total_messages c)"
  have "source_at c ?t s" using poll_times_at [OF source_at_new assms(3)] assms(4) by (auto simp: min_def split: if_splits)
  then have s: "bq_sequence s = sc_total_messages c"
      "bq_emitted_phase_counts s = map (\<lambda>p. of_nat (phase_count c ?t p)) [Before, Burst, After]"
    by (simp_all add: source_at_def)
  note bounds = phase_counts_bounds(3) [OF assms(1,2)]
  then have "?t - unat (sc_warmup_messages c) = unat before + unat during + unat after" by simp
  with phase_count_at [OF assms(1,2), of ?t] have "phase_count c ?t Before = unat before"
    "phase_count c ?t Burst = unat during" "phase_count c ?t After = unat after" by simp_all
  then show ?thesis using s bounds by simp
qed

section \<open>The sink's accounting\<close>

text \<open>The part of the sink that counts sequence numbers, and that only \<open>record_sequence\<close> changes.\<close>

definition sequence_state :: "'g bench_sink \<Rightarrow> sequence_tracker option \<times> bool" where
  "sequence_state s = (bk_sequence_tracker s, bk_sequence_population_read s)"

lemma sequence_state_keeps [simp]:
  "sequence_state (record_burst_bucket b a d s) = sequence_state s"
  "sequence_state (record_version env a s) = sequence_state s"
  "sequence_state (snd (record_latencies G a b s)) = sequence_state s"
  "sequence_state (start_warmup now s) = sequence_state s"
  "sequence_state (fst (start_measurement G H now origin s w)) = sequence_state s"
  "sequence_state (s\<lparr>bk_throughput := g\<rparr>) = sequence_state s"
  "sequence_state (s\<lparr>bk_interval_recorder := ir\<rparr>) = sequence_state s"
  "sequence_state (s\<lparr>bk_message_count := m\<rparr>) = sequence_state s"
  by (auto simp: sequence_state_def record_burst_bucket_def record_version_def record_latencies_def start_warmup_def
      start_measurement_def Let_def case_prod_beta split: option.split)

lemma measure_sequence_state:
  "sequence_state (fst (measure_message G H env a now s w)) =
     sequence_state (snd (record_sequence (eh_bench (re_header env))
       (fst (start_measurement G H now (Option.bind (Option.bind (eh_bench (re_header env)) bs_burst) bu_measurement_start_unix_ns) s w))))"
  by (simp add: measure_message_def Let_def case_prod_beta split: option.split)

text \<open>The numbers of the measured messages, and what the sink knows after them.\<close>

definition measured_numbers :: "runtime_envelope list \<Rightarrow> u64 list" where
  "measured_numbers envs =
     concat (map (\<lambda>env. case eh_bench (re_header env) of None \<Rightarrow> [] | Some b \<Rightarrow> if bs_warmup b then [] else [bs_sequence b]) envs)"

definition tracks :: "bench_source_settings \<Rightarrow> u64 list \<Rightarrow> 'g bench_sink \<Rightarrow> bool" where
  "tracks c h s \<longleftrightarrow>
     sequence_state s =
       (if h = [] then (Some (with_max_examples 0 unanchored), False)
        else (Some (record_all h (population_tracker (sc_warmup_messages c) (Some (sc_total_messages c)) (Some 0))), True))"

lemma record_sequence_tracks:
  assumes "tracks c h s" "bs_measurement_start_seq b = sc_warmup_messages c" "bs_sequence_end b = Some (sc_total_messages c)"
  shows "tracks c (h @ [bs_sequence b]) (snd (record_sequence (Some b) s))"
  using assms
  by (cases "h = []") (auto simp: tracks_def sequence_state_def record_sequence_def population_tracker_def record_all_def
      Let_def case_prod_beta)

lemma collect_tracks:
  assumes "tracks c h s" "bench_collect G H env s w = (s', w')" "eh_bench (re_header env) = Some (stamps_of c origin i e)"
  shows "tracks c (h @ measured_numbers [env]) s'"
proof -
  let ?b = "stamps_of c origin i e"
  obtain a w1 where a: "monotonic_unix_ns H w = (a, w1)" by fastforce
  obtain now w2 where now: "h_now H w1 = (now, w2)" by fastforce
  let ?s = "(start_warmup now s)\<lparr>bk_message_count := sat_add (bk_message_count (start_warmup now s)) 1\<rparr>"
  have s: "tracks c h ?s" using assms(1) by (simp add: tracks_def)
  show ?thesis
  proof (cases "bs_warmup ?b")
    case True
    then have "s' = ?s" using assms(2,3) a now by (simp add: bench_collect_def in_warmup_def Let_def)
    then show ?thesis using s True assms(3) by (simp add: measured_numbers_def)
  next
    case False
    then have m: "measure_message G H env a now ?s w2 = (s', w')"
      using assms(2,3) a now by (simp add: bench_collect_def in_warmup_def Let_def)
    let ?s1 = "fst (start_measurement G H now (Option.bind (Option.bind (eh_bench (re_header env)) bs_burst) bu_measurement_start_unix_ns) ?s w2)"
    have "tracks c h ?s1" using s by (simp add: tracks_def)
    then have "tracks c (h @ [bs_sequence ?b]) (snd (record_sequence (Some ?b) ?s1))"
      by (rule record_sequence_tracks) (simp_all add: stamps_of_def)
    moreover have "sequence_state s' = sequence_state (snd (record_sequence (Some ?b) ?s1))"
      using measure_sequence_state [of G H env a now ?s w2] m assms(3) by simp
    ultimately show ?thesis using False assms(3) by (simp add: tracks_def measured_numbers_def)
  qed
qed

lemma collect_all_tracks:
  assumes "tracks c h s" "collect_all G H envs s w = (s', w')"
    "\<forall>env \<in> set envs. \<exists>i e. eh_bench (re_header env) = Some (stamps_of c origin i e)"
  shows "tracks c (h @ measured_numbers envs) s'"
  using assms
proof (induction envs arbitrary: h s w)
  case Nil
  then show ?case by (simp add: measured_numbers_def)
next
  case (Cons env envs)
  obtain s1 w1 where b: "bench_collect G H env s w = (s1, w1)" by fastforce
  obtain i e where "eh_bench (re_header env) = Some (stamps_of c origin i e)" using Cons.prems(3) by auto
  from collect_tracks [OF Cons.prems(1) b this] have "tracks c (h @ measured_numbers [env]) s1" .
  from Cons.IH [OF this] Cons.prems(2,3) b show ?case by (simp add: measured_numbers_def)
qed

lemma measured_in_population:
  assumes "\<forall>env \<in> set envs. \<exists>i e. i < unat (sc_total_messages c) \<and> eh_bench (re_header env) = Some (stamps_of c origin i e)"
    "unat (sc_total_messages c) - unat (sc_warmup_messages c) \<le> unat MAX_TRACKED_SEQUENCES" "q \<in> set (measured_numbers envs)"
  shows "in_population (sc_warmup_messages c) (Some (sc_total_messages c)) q"
proof -
  let ?s = "sc_warmup_messages c" and ?e = "sc_total_messages c"
  obtain env where in_envs: "env \<in> set envs" "q \<in> set (case eh_bench (re_header env) of None \<Rightarrow> []
      | Some b \<Rightarrow> if bs_warmup b then [] else [bs_sequence b])"
    using assms(3) by (auto simp: measured_numbers_def)
  then obtain b where env: "env \<in> set envs" "eh_bench (re_header env) = Some b" "\<not> bs_warmup b" "q = bs_sequence b"
    by (cases "eh_bench (re_header env)") (auto split: if_splits)
  then obtain i e where i: "i < unat ?e" "b = stamps_of c origin i e" using assms(1) in_envs(1) by (metis option.inject)
  have q: "unat q = i" "unat ?s \<le> i" using env(3,4) i unat_below [OF i(1)] by (simp_all add: stamps_of_def)
  then have le: "?s \<le> q" "q < ?e" using i(1) by (simp_all add: word_le_nat_alt word_less_nat_alt)
  then have "unat (q - ?s) = i - unat ?s" using q by (simp add: unat_sub)
  then show ?thesis using le q i(1) assms(2) by (simp add: in_population_def word_less_nat_alt)
qed

text \<open>
  C9: Loss, repetition and reordering between the source and the sink are accounted for exactly. When the
  messages a sink collects are any of those a source emitted, in any order and multiplicity, and at least one
  measured message got through, the sink expects the whole measured population, counts the distinct messages
  that arrived, the further copies as duplicates and the first arrivals after a higher number as out of order,
  nothing as out of range, and reports as missing precisely the measured messages that never arrived. (The
  population must fit the tracking cap; warm-up messages are not counted.)
\<close>

theorem loss_accounting_exact:
  assumes "poll_times HS n (bench_source_new c) w = (rs, src, w')"
    "\<forall>env \<in> set delivered. \<exists>b \<in> set (concat (map emission rs)). eh_bench (re_header env) = Some b"
    "length delivered < 2 ^ 64" "measured_numbers delivered \<noteq> []"
    "unat (sc_total_messages c) - unat (sc_warmup_messages c) \<le> unat MAX_TRACKED_SEQUENCES"
    "bg_track_sequences k" "bench_init G H (bench_sink_new G k) v = (s0, v0)" "collect_all G H delivered s0 v0 = (s, v')"
  shows "\<exists>t. bk_sequence_tracker s = Some t \<and>
    unat (expected t) = unat (sc_total_messages c) - unat (sc_warmup_messages c) \<and>
    unat (st_unique t) = card (set (measured_numbers delivered)) \<and>
    unat (st_unique t) + unat (st_duplicates t) = length (measured_numbers delivered) \<and>
    unat (st_out_of_order t) = late_firsts (measured_numbers delivered) \<and> st_out_of_range t = 0 \<and>
    unat (missing t) = unat (expected t) - card (set (measured_numbers delivered))"
proof -
  let ?h = "measured_numbers delivered" and ?s = "sc_warmup_messages c" and ?e = "Some (sc_total_messages c)"
  let ?t = "record_all ?h (population_tracker ?s ?e (Some 0))"
  from poll_times_at [OF source_at_new assms(1)] obtain m origin emit_ns where
    "m \<le> unat (sc_total_messages c)" "concat (map emission rs) = map (\<lambda>i. stamps_of c origin i (emit_ns i)) [0..<m]"
    by (metis min.cobounded1)
  note em = this
  have stamped:
    "\<forall>env \<in> set delivered. \<exists>i e. i < unat (sc_total_messages c) \<and> eh_bench (re_header env) = Some (stamps_of c origin i e)"
  proof
    fix env assume "env \<in> set delivered"
    then obtain b where b: "b \<in> set (concat (map emission rs))" "eh_bench (re_header env) = Some b" using assms(2) by blast
    then obtain i where "i < m" "b = stamps_of c origin i (emit_ns i)" unfolding em(2) by auto
    then show "\<exists>i e. i < unat (sc_total_messages c) \<and> eh_bench (re_header env) = Some (stamps_of c origin i e)"
      using b(2) em(1) by (intro exI [of _ i] exI [of _ "emit_ns i"]) simp
  qed
  have "tracks c [] s0"
    using assms(6,7) by (auto simp: tracks_def sequence_state_def bench_init_def bench_sink_new_def Let_def split: if_splits prod.splits)
  from collect_all_tracks [OF this assms(8)] stamped have "tracks c ?h s" by fastforce
  then have t: "bk_sequence_tracker s = Some ?t" using assms(4) by (simp add: tracks_def sequence_state_def)
  have pop: "\<forall>q \<in> set ?h. in_population ?s ?e q" using measured_in_population [OF stamped assms(5)] by blast
  then have arr: "filter (in_population ?s ?e) ?h = ?h" "arrived ?s ?e ?h = set ?h" "filter (\<lambda>q. \<not> in_population ?s ?e q) ?h = []"
    by (auto simp: arrived_def filter_id_conv)
  have "length ?h \<le> length delivered"
    by (induction delivered) (auto simp: measured_numbers_def split: option.split)
  then have inv: "tracker_inv ?s ?e ?h ?t" using assms(3) by (intro tracker_inv_run) simp
  then have st: "st_start ?t = Some ?s" "st_end ?t = ?e" "unat (st_unique ?t) = card (set ?h)" "unat (st_out_of_range ?t) = 0"
    "unat (st_duplicates ?t) + card (set ?h) = length ?h" "unat (st_out_of_order ?t) = late_firsts ?h"
    using arr by (simp_all add: tracker_inv_def)
  have ex: "unat (expected ?t) = unat (sc_total_messages c) - unat ?s"
    using st(1,2) assms(5) by (simp add: expected_def min_def sat_arith word_le_nat_alt)
  moreover have "unat (missing ?t) = unat (expected ?t) - card (set ?h)" using st(3) by (simp add: missing_def sat_arith)
  ultimately show ?thesis using t st by (auto simp: unat_eq_0)
qed

section \<open>A concrete run\<close>

text \<open>One message a second for one second, all of it the burst.\<close>

definition one_burst :: bench_source_settings where
  "one_burst =
     \<lparr>sc_rate_per_sec = 0x3FF0000000000000, sc_total_messages = 1, sc_warmup_messages = 0, sc_payload_size = 1,
      sc_burst = Some \<lparr>bz_rate_per_sec = 0x3FF0000000000000, bz_start_secs = 0, bz_end_secs = 1\<rparr>, sc_evidence_dir = None\<rparr>"

lemma magnitude_one: "f64_magnitude 0x3FF0000000000000 = (4503599627370496, - 52)" "f64_finite 0x3FF0000000000000"
    "\<not> f64_negative 0x3FF0000000000000"
  by (simp_all add: f64_magnitude_def f64_exponent_def f64_fraction_def f64_finite_def f64_negative_def)

lemma round_zero: "round_f64 (0, d) = (0, 0)" "round_f64 (scaled (0, d) e) = (0, 0)"
  by (simp_all add: round_f64_def scaled_def)

lemma messages_one: "messages_for 0x3FF0000000000000 1 = Some 1" "messages_for 0x3FF0000000000000 0 = Some 0"
proof -
  let ?m = "20282409603651670423947251286016 :: nat"
  have b: "bit_length 1 = 1" "bit_length ?m = 105" by simp_all
  have s: "round_f64 (1, 1) = (4503599627370496, - 52)"
    unfolding round_f64_def Let_def fst_conv snd_conv b by (simp add: scaled_def half_even_def)
  have "round_f64 (?m, ?m) = (4503599627370496, - 52)"
    unfolding round_f64_def Let_def fst_conv snd_conv b by (simp add: scaled_def half_even_def)
  moreover have "scaled (?m, 1) (- 104) = (?m, ?m)" by (simp add: scaled_def)
  ultimately have "round_f64 (scaled (?m, 1) (- 104)) = (4503599627370496, - 52)" by (simp only:)
  with s show "messages_for 0x3FF0000000000000 1 = Some 1"
    by (simp add: messages_for_def magnitude_one f64_overflows_def f64_has_fract_def f64_as_u64_def u64_saturating_def)
  show "messages_for 0x3FF0000000000000 0 = Some 0"
    by (simp add: messages_for_def magnitude_one round_zero f64_overflows_def f64_has_fract_def f64_as_u64_def u64_saturating_def)
qed

lemma one_burst_counts: "burst_phase_counts one_burst = Some (0, 1, 0)"
  by (simp add: burst_phase_counts_def one_burst_def messages_one sat_sub_def checked_sub_def sat_add_def)

definition free_host :: "nat source_host" where
  "free_host =
     \<lparr>h_now = (\<lambda>w. (w, Suc w)), h_system_now = (\<lambda>w. (int w, Suc w)), ah_anchor = (0, 0), so_spawn_pacer = (\<lambda>w. (Inr (), w)),
      so_await_due = (\<lambda>due w. max due w), so_new_uuid = (\<lambda>w. (''id'', w)), so_create_dir = (\<lambda>d w. (Inr (), w)),
      so_files = \<lparr>fs_create = (\<lambda>p w. (Inr (), w)), fs_write_all = (\<lambda>p a w. (Inr (), w)), fs_sync_all = (\<lambda>p w. (Inr (), w)),
        fs_rename = (\<lambda>p q w. (Inr (), w)), fs_remove = (\<lambda>p w. (Inr (), w))\<rparr>\<rparr>"

text \<open>On this host starting the pacer never fails, so the first poll emits.\<close>

lemma free_host_polls:
  assumes "poll_times free_host 1 (bench_source_new one_burst) w = (rs, s, w')"
  shows "length (filter is_ok rs) = 1"
proof -
  obtain r where r: "rs = [r]" "bench_poll free_host (bench_source_new one_burst) w = (r, s, w')"
    using assms by (auto split: prod.splits)
  have "is_ok r"
    using r(2) by (auto simp: bench_poll_def bench_source_new_def next_due_def start_pacer_def pacer_start_def pacer_recv_def
        write_burst_timing_def one_burst_def free_host_def monotonic_unix_ns_def elapsed_eq Let_def split: prod.splits)
  then show ?thesis using r(1) by simp
qed

theorem burst_phases_emitted_witness:
  "\<exists>rs s w'. poll_times free_host 1 (bench_source_new one_burst) 5 = (rs, s, w') \<and> bq_emitted_phase_counts s = [0, 1, 0]"
proof -
  obtain rs s w' where p: "poll_times free_host 1 (bench_source_new one_burst) 5 = (rs, s, w')" by (metis prod_cases3)
  have "unat (sc_total_messages one_burst) \<le> length (filter is_ok rs)" "sc_total_messages one_burst \<noteq> - 1"
    using free_host_polls [OF p] by (simp_all add: one_burst_def)
  from burst_phases_emitted [OF one_burst_counts this(2) p this(1)] p show ?thesis by blast
qed

theorem loss_accounting_exact_witness:
  "\<exists>env s t v'. collect_all list_histogram (file_host []) [env, env] (bench_sink_new list_histogram settings_for_test) (9, \<lambda>_. None) = (s, v') \<and>
     bk_sequence_tracker s = Some t \<and> unat (expected t) = 1 \<and> unat (st_duplicates t) = 1 \<and> unat (missing t) = 0"
proof -
  obtain rs s w' where p: "poll_times free_host 1 (bench_source_new one_burst) 5 = (rs, s, w')" by (metis prod_cases3)
  have total: "unat (sc_total_messages one_burst) = 1" "sc_warmup_messages one_burst = 0" by (simp_all add: one_burst_def)
  from poll_times_at [OF source_at_new p] free_host_polls [OF p] total obtain origin emit_ns where
    em: "concat (map emission rs) = [stamps_of one_burst origin 0 (emit_ns 0)]" by auto
  then obtain env :: runtime_envelope where env: "eh_bench (re_header env) = Some (stamps_of one_burst origin 0 (emit_ns 0))"
    using that [of "with_bench_stamps (stamps_of one_burst origin 0 (emit_ns 0)) (envelope_new [] 0 [] [])"]
    by (simp add: with_bench_stamps_def)
  have h: "measured_numbers [env, env] = [0, 0]" using env total by (simp add: measured_numbers_def stamps_of_def)
  obtain s1 v1 where c: "collect_all list_histogram (file_host []) [env, env] (bench_sink_new list_histogram settings_for_test) (9, \<lambda>_. None) = (s1, v1)"
    by (metis surj_pair)
  have "bench_init list_histogram (file_host []) (bench_sink_new list_histogram settings_for_test) (9, \<lambda>_. None) =
      (bench_sink_new list_histogram settings_for_test, (9, \<lambda>_. None))" "bg_track_sequences settings_for_test"
    by (simp_all add: bench_init_def bench_sink_new_def settings_for_test_def)
  from loss_accounting_exact [OF p _ _ _ _ this(2,1) c] em env h total c show ?thesis
    by (fastforce simp: MAX_TRACKED_SEQUENCES_def)
qed

end
