(* ===== verification/BatchSinks.thy ===== *)
theory BatchSinks
  imports SinkLoop
begin

text \<open>
  The sinks with optional batching: \<open>node/sink/batch.rs\<close>, \<open>file.rs\<close>, \<open>stdout.rs\<close> and \<open>http.rs\<close>. The buffered
  writer of a line sink and the HTTP client are parameters. The three sinks share one contract, the locale
  \<open>batch_sink\<close>: what was delivered and what is still buffered together are what was collected. The locale
  holds of each of them on every host that writes what it reports to have written.
\<close>

section \<open>The batch buffer\<close>

record 'a batch_buffer =
  ba_buffer :: "'a list"
  ba_batch_size :: usize
  ba_timeout :: duration
  ba_last_flush :: instant

text \<open>\<open>new\<close> panics on size 0: \<open>None\<close>.\<close>

definition batch_new :: "('w, 'h) host_scheme \<Rightarrow> usize \<Rightarrow> duration \<Rightarrow> 'w \<Rightarrow> ('a batch_buffer \<times> 'w) option" where
  "batch_new H batch_size timeout w =
     (if batch_size > 0 then
        let (now, w) = h_now H w
        in Some (\<lparr>ba_buffer = [], ba_batch_size = batch_size, ba_timeout = timeout, ba_last_flush = now\<rparr>, w)
      else None)"

definition batch_take :: "('w, 'h) host_scheme \<Rightarrow> 'a batch_buffer \<Rightarrow> 'w \<Rightarrow> 'a list \<times> 'a batch_buffer \<times> 'w" where
  "batch_take H b w =
     (let (now, w) = h_now H w in (ba_buffer b, b\<lparr>ba_last_flush := now, ba_buffer := []\<rparr>, w))"

definition batch_push :: "('w, 'h) host_scheme \<Rightarrow> 'a \<Rightarrow> 'a batch_buffer \<Rightarrow> 'w \<Rightarrow> 'a list option \<times> 'a batch_buffer \<times> 'w" where
  "batch_push H item b w =
     (let b = b\<lparr>ba_buffer := ba_buffer b @ [item]\<rparr> in
      if length (ba_buffer b) \<ge> ba_batch_size b
      then let (batch, b, w) = batch_take H b w in (Some batch, b, w)
      else (None, b, w))"

definition should_flush :: "('w, 'h) host_scheme \<Rightarrow> 'a batch_buffer \<Rightarrow> 'w \<Rightarrow> bool \<times> 'w" where
  "should_flush H b w =
     (if ba_buffer b = [] then (False, w)
      else let (el, w) = elapsed H (ba_last_flush b) w in (el \<ge> ba_timeout b, w))"

definition time_until_timeout :: "('w, 'h) host_scheme \<Rightarrow> 'a batch_buffer \<Rightarrow> 'w \<Rightarrow> duration \<times> 'w" where
  "time_until_timeout H b w = (let (el, w) = elapsed H (ba_last_flush b) w in (ba_timeout b - el, w))"

record batch_stats =
  bt_flushes_since_last_check :: u64
  bt_last_flush_size :: u64
  bt_current_buffer_size :: u64

definition batch_stats_default :: batch_stats where
  "batch_stats_default = \<lparr>bt_flushes_since_last_check = 0, bt_last_flush_size = 0, bt_current_buffer_size = 0\<rparr>"

definition count_flush :: "usize \<Rightarrow> batch_stats \<Rightarrow> batch_stats" where
  "count_flush n t =
     t\<lparr>bt_flushes_since_last_check := sat_add (bt_flushes_since_last_check t) 1, bt_last_flush_size := u64_saturating n\<rparr>"

section \<open>Line sinks\<close>

record batch_config =
  bf_batch_size :: "usize option"
  bf_batch_timeout_ms :: "u64 option"

definition batch_timeout_of :: "batch_config \<Rightarrow> duration" where
  "batch_timeout_of c = duration_from_millis (case bf_batch_timeout_ms c of None \<Rightarrow> 1000 | Some ms \<Rightarrow> ms)"

record 'b sink_core =
  kk_id :: string
  kk_batch_config :: batch_config
  kk_batch_buffer :: "runtime_envelope batch_buffer option"
  kk_batch_stats :: batch_stats
  kk_open :: bool
  kk_target :: 'b

text \<open>The buffered writer a line sink owns.\<close>

record 'w line_host = "'w host" +
  lh_create :: "string \<Rightarrow> 'w \<Rightarrow> (string, unit) result \<times> 'w"
  lh_missing_parent :: "string \<Rightarrow> 'w \<Rightarrow> string option"
  lh_write_all :: "bytes \<Rightarrow> 'w \<Rightarrow> (string, unit) result \<times> 'w"
  lh_flush :: "'w \<Rightarrow> (string, unit) result \<times> 'w"

definition sink_core_new :: "string \<Rightarrow> 'b \<Rightarrow> batch_config \<Rightarrow> 'b sink_core" where
  "sink_core_new i t c =
     \<lparr>kk_id = i, kk_batch_config = c, kk_batch_buffer = None, kk_batch_stats = batch_stats_default, kk_open = False, kk_target = t\<rparr>"

definition zero_batch_size :: wafer_error where
  "zero_batch_size = ConfigErr (CfgMessage ''batch_size must be greater than 0'')"

definition not_initialized :: "string \<Rightarrow> wafer_error" where
  "not_initialized name = PluginInit (name @ '' not initialized - call init() first'')"

type_synonym ('s, 'w) sink_step = "'s \<Rightarrow> 'w \<Rightarrow> (wafer_error, unit) result \<times> 's \<times> 'w"

text \<open>The buffering every batching sink has: \<open>send\<close> is its \<open>write_batch\<close> or \<open>send_batch\<close>.\<close>

definition start_buffer :: "('w, 'h) host_scheme \<Rightarrow> 'b sink_core \<Rightarrow> 'w \<Rightarrow> ('b sink_core \<times> 'w) option" where
  "start_buffer H s w =
     (case bf_batch_size (kk_batch_config s) of
        None \<Rightarrow> Some (s, w)
      | Some n \<Rightarrow>
          map_option (\<lambda>(b, w). (s\<lparr>kk_batch_buffer := Some b\<rparr>, w)) (batch_new H n (batch_timeout_of (kk_batch_config s)) w))"

definition push_and_send ::
    "('w, 'h) host_scheme \<Rightarrow> (runtime_envelope list \<Rightarrow> ('b sink_core, 'w) sink_step) \<Rightarrow> runtime_envelope
       \<Rightarrow> runtime_envelope batch_buffer \<Rightarrow> ('b sink_core, 'w) sink_step" where
  "push_and_send H send env b s w =
     (let (full, b, w) = batch_push H env b w; s = s\<lparr>kk_batch_buffer := Some b\<rparr> in
      case full of None \<Rightarrow> (Inr (), s, w) | Some batch \<Rightarrow> send batch s w)"

definition take_and_send ::
    "('w, 'h) host_scheme \<Rightarrow> (runtime_envelope list \<Rightarrow> ('b sink_core, 'w) sink_step) \<Rightarrow> ('b sink_core, 'w) sink_step" where
  "take_and_send H send s w =
     (case kk_batch_buffer s of
        None \<Rightarrow> (Inr (), s, w)
      | Some b \<Rightarrow>
          let (batch, b, w) = batch_take H b w; s = s\<lparr>kk_batch_buffer := Some b\<rparr>
          in if batch = [] then (Inr (), s, w) else send batch s w)"

definition take_batch_stats :: "'b sink_core \<Rightarrow> batch_stats option \<times> 'b sink_core" where
  "take_batch_stats s =
     (case kk_batch_buffer s of
        None \<Rightarrow> (None, s)
      | Some b \<Rightarrow>
          let t = (kk_batch_stats s)\<lparr>bt_current_buffer_size := u64_saturating (length (ba_buffer b))\<rparr>
          in (Some t, s\<lparr>kk_batch_stats := t\<lparr>bt_flushes_since_last_check := 0\<rparr>\<rparr>))"

definition sink_batch_timeout :: "'b sink_core \<Rightarrow> duration option" where
  "sink_batch_timeout s = map_option (\<lambda>_. batch_timeout_of (kk_batch_config s)) (bf_batch_size (kk_batch_config s))"

definition write_line :: "('w, 'h) line_host_scheme \<Rightarrow> runtime_envelope \<Rightarrow> 'w \<Rightarrow> (string, unit) result \<times> 'w" where
  "write_line H env w =
     (let (r, w) = lh_write_all H (re_payload env) w in
      case r of Inl e \<Rightarrow> (Inl e, w) | Inr _ \<Rightarrow> lh_write_all H [0x0A] w)"

fun write_lines :: "('w, 'h) line_host_scheme \<Rightarrow> runtime_envelope list \<Rightarrow> 'w \<Rightarrow> (string, unit) result \<times> 'w" where
  "write_lines H [] w = (Inr (), w)"
| "write_lines H (env # envs) w =
     (let (r, w) = write_line H env w in case r of Inl e \<Rightarrow> (Inl e, w) | Inr _ \<Rightarrow> write_lines H envs w)"

definition write_batch :: "string \<Rightarrow> ('w, 'h) line_host_scheme \<Rightarrow> runtime_envelope list \<Rightarrow> ('b sink_core, 'w) sink_step" where
  "write_batch name H batch s w =
     (if \<not> kk_open s then (Inl (not_initialized name), s, w)
      else
        let (r, w) = write_lines H batch w in
        case r of
          Inl e \<Rightarrow> (Inl (Io e), s, w)
        | Inr _ \<Rightarrow>
            let (r, w) = lh_flush H w in
            (case r of
               Inl e \<Rightarrow> (Inl (Io e), s, w)
             | Inr _ \<Rightarrow> (Inr (), s\<lparr>kk_batch_stats := count_flush (length batch) (kk_batch_stats s)\<rparr>, w)))"

definition flush_writer :: "('w, 'h) line_host_scheme \<Rightarrow> ('b sink_core, 'w) sink_step" where
  "flush_writer H s w =
     (if kk_open s then let (r, w) = lh_flush H w in (map_sum Io id r, s, w) else (Inr (), s, w))"

definition line_close :: "string \<Rightarrow> ('w, 'h) line_host_scheme \<Rightarrow> ('b sink_core, 'w) sink_step" where
  "line_close name H s w =
     (let (r, s, w) = take_and_send H (write_batch name H) s w in
      case r of
        Inl e \<Rightarrow> (Inl e, s, w)
      | Inr _ \<Rightarrow>
          let (r, s, w) = flush_writer H s w in
          (case r of
             Inl e \<Rightarrow> (Inl e, s, w)
           | Inr _ \<Rightarrow> (Inr (), s\<lparr>kk_open := False, kk_batch_buffer := None\<rparr>, w)))"

definition line_flush :: "string \<Rightarrow> ('w, 'h) line_host_scheme \<Rightarrow> ('b sink_core, 'w) sink_step" where
  "line_flush name H s w =
     (let (r, s, w) = take_and_send H (write_batch name H) s w in
      case r of Inl e \<Rightarrow> (Inl e, s, w) | Inr _ \<Rightarrow> flush_writer H s w)"

subsection \<open>The file sink\<close>

definition file_validate :: "('w, 'h) line_host_scheme \<Rightarrow> string sink_core \<Rightarrow> 'w \<Rightarrow> (wafer_error, unit) result" where
  "file_validate H s w =
     (case lh_missing_parent H (kk_target s) w of
        Some parent \<Rightarrow> Inl (ConfigErr (CfgMessage (''Parent directory does not exist: '' @ parent)))
      | None \<Rightarrow> if bf_batch_size (kk_batch_config s) = Some 0 then Inl zero_batch_size else Inr ())"

definition file_init :: "('w, 'h) line_host_scheme \<Rightarrow> string sink_core \<Rightarrow> 'w
       \<Rightarrow> ((wafer_error, unit) result \<times> string sink_core \<times> 'w) option" where
  "file_init H s w =
     (let (r, w) = lh_create H (kk_target s) w in
      case r of
        Inl e \<Rightarrow> Some (Inl (Io e), s, w)
      | Inr _ \<Rightarrow> map_option (\<lambda>(s, w). (Inr (), s, w)) (start_buffer H (s\<lparr>kk_open := True\<rparr>) w))"

definition file_collect :: "('w, 'h) line_host_scheme \<Rightarrow> runtime_envelope \<Rightarrow> (string sink_core, 'w) sink_step" where
  "file_collect H env s w =
     (case kk_batch_buffer s of
        Some b \<Rightarrow> push_and_send H (write_batch ''FileSink'' H) env b s w
      | None \<Rightarrow>
          if \<not> kk_open s then (Inl (not_initialized ''FileSink''), s, w)
          else let (r, w) = write_line H env w in (map_sum Io id r, s, w))"

definition file_flush :: "('w, 'h) line_host_scheme \<Rightarrow> (string sink_core, 'w) sink_step" where
  "file_flush H = line_flush ''FileSink'' H"

definition file_close :: "('w, 'h) line_host_scheme \<Rightarrow> (string sink_core, 'w) sink_step" where
  "file_close H = line_close ''FileSink'' H"

subsection \<open>The standard-output sink\<close>

definition stdout_validate :: "unit sink_core \<Rightarrow> (wafer_error, unit) result" where
  "stdout_validate s = (if bf_batch_size (kk_batch_config s) = Some 0 then Inl zero_batch_size else Inr ())"

definition stdout_init :: "('w, 'h) line_host_scheme \<Rightarrow> unit sink_core \<Rightarrow> 'w
       \<Rightarrow> ((wafer_error, unit) result \<times> unit sink_core \<times> 'w) option" where
  "stdout_init H s w = map_option (\<lambda>(s, w). (Inr (), s, w)) (start_buffer H (s\<lparr>kk_open := True\<rparr>) w)"

definition stdout_collect :: "('w, 'h) line_host_scheme \<Rightarrow> runtime_envelope \<Rightarrow> (unit sink_core, 'w) sink_step" where
  "stdout_collect H env s w =
     (case kk_batch_buffer s of
        Some b \<Rightarrow> push_and_send H (write_batch ''StdoutSink'' H) env b s w
      | None \<Rightarrow>
          if \<not> kk_open s then (Inl (not_initialized ''StdoutSink''), s, w)
          else
            let (r, w) = write_line H env w in
            case r of
              Inl e \<Rightarrow> (Inl (Io e), s, w)
            | Inr _ \<Rightarrow> let (r, w) = lh_flush H w in (map_sum Io id r, s, w))"

definition stdout_flush :: "('w, 'h) line_host_scheme \<Rightarrow> (unit sink_core, 'w) sink_step" where
  "stdout_flush H = line_flush ''StdoutSink'' H"

definition stdout_close :: "('w, 'h) line_host_scheme \<Rightarrow> (unit sink_core, 'w) sink_step" where
  "stdout_close H = line_close ''StdoutSink'' H"

subsection \<open>The HTTP sink\<close>

record http_target =
  ht_url :: string
  ht_timeout :: duration
  ht_headers :: "(string \<times> string) list"

text \<open>
  The client: \<open>post\<close> sends a body with headers and yields the status; \<open>json_batch\<close> is the JSON array of the
  base64 texts of payloads.
\<close>

record 'w http_host = "'w host" +
  ch_build :: "duration \<Rightarrow> (string, unit) result"
  ch_post :: "string \<Rightarrow> (string \<times> string) list \<Rightarrow> bytes \<Rightarrow> 'w \<Rightarrow> (string, nat) result \<times> 'w"
  ch_json_batch :: "bytes list \<Rightarrow> (string, bytes) result"
  ch_status :: "nat \<Rightarrow> string"

definition is_success :: "nat \<Rightarrow> bool" where
  "is_success status \<longleftrightarrow> 200 \<le> status \<and> status < 300"

definition starts_with :: "string \<Rightarrow> string \<Rightarrow> bool" where
  "starts_with p s \<longleftrightarrow> take (length p) s = p"

definition post_checked ::
    "('w, 'h) http_host_scheme \<Rightarrow> string \<Rightarrow> string \<Rightarrow> (string \<times> string) list \<Rightarrow> bytes \<Rightarrow> 'w \<Rightarrow> (wafer_error, unit) result \<times> 'w" where
  "post_checked H what url headers body w =
     (let (r, w) = ch_post H url headers body w in
      case r of
        Inl e \<Rightarrow> (Inl (Io (what @ '' failed: '' @ e)), w)
      | Inr status \<Rightarrow>
          if is_success status then (Inr (), w)
          else (Inl (Io (what @ '' failed with status: '' @ ch_status H status)), w))"

definition send_message :: "('w, 'h) http_host_scheme \<Rightarrow> runtime_envelope \<Rightarrow> (http_target sink_core, 'w) sink_step" where
  "send_message H env s w =
     (if \<not> kk_open s then (Inl (not_initialized ''HttpSink''), s, w)
      else
        let (r, w) = post_checked H ''HTTP request'' (ht_url (kk_target s)) (ht_headers (kk_target s)) (re_payload env) w
        in (r, s, w))"

definition send_batch :: "('w, 'h) http_host_scheme \<Rightarrow> runtime_envelope list \<Rightarrow> (http_target sink_core, 'w) sink_step" where
  "send_batch H batch s w =
     (if \<not> kk_open s then (Inl (not_initialized ''HttpSink''), s, w)
      else
        case ch_json_batch H (map re_payload batch) of
          Inl e \<Rightarrow> (Inl (Io (''Failed to serialize batch: '' @ e)), s, w)
        | Inr body \<Rightarrow>
            let (r, w) = post_checked H ''HTTP batch request'' (ht_url (kk_target s))
                  ((''Content-Type'', ''application/json'') # ht_headers (kk_target s)) body w
            in (case r of
                  Inl e \<Rightarrow> (Inl e, s, w)
                | Inr _ \<Rightarrow> (Inr (), s\<lparr>kk_batch_stats := count_flush (length batch) (kk_batch_stats s)\<rparr>, w)))"

definition http_validate :: "http_target sink_core \<Rightarrow> (wafer_error, unit) result" where
  "http_validate s =
     (let url = ht_url (kk_target s) in
      if url = [] then Inl (ConfigErr (CfgMessage ''HTTP URL cannot be empty''))
      else if \<not> starts_with ''http://'' url \<and> \<not> starts_with ''https://'' url
      then Inl (ConfigErr (CfgMessage ''HTTP URL must start with http:// or https://''))
      else if bf_batch_size (kk_batch_config s) = Some 0 then Inl zero_batch_size else Inr ())"

definition http_init :: "('w, 'h) http_host_scheme \<Rightarrow> http_target sink_core \<Rightarrow> 'w
       \<Rightarrow> ((wafer_error, unit) result \<times> http_target sink_core \<times> 'w) option" where
  "http_init H s w =
     (case ch_build H (ht_timeout (kk_target s)) of
        Inl e \<Rightarrow> Some (Inl (PluginInit (''Failed to create HTTP client: '' @ e)), s, w)
      | Inr _ \<Rightarrow> map_option (\<lambda>(s, w). (Inr (), s, w)) (start_buffer H (s\<lparr>kk_open := True\<rparr>) w))"

definition http_collect :: "('w, 'h) http_host_scheme \<Rightarrow> runtime_envelope \<Rightarrow> (http_target sink_core, 'w) sink_step" where
  "http_collect H env s w =
     (case kk_batch_buffer s of
        Some b \<Rightarrow> push_and_send H (send_batch H) env b s w
      | None \<Rightarrow> send_message H env s w)"

definition http_flush :: "('w, 'h) http_host_scheme \<Rightarrow> (http_target sink_core, 'w) sink_step" where
  "http_flush H = take_and_send H (send_batch H)"

definition http_close :: "('w, 'h) http_host_scheme \<Rightarrow> (http_target sink_core, 'w) sink_step" where
  "http_close H s w =
     (let (r, s, w) = take_and_send H (send_batch H) s w in
      case r of Inl e \<Rightarrow> (Inl e, s, w) | Inr _ \<Rightarrow> (Inr (), s\<lparr>kk_open := False, kk_batch_buffer := None\<rparr>, w))"

section \<open>The contract of a batching sink\<close>

datatype sink_call = CallCollect runtime_envelope | CallFlush

fun run_calls ::
    "(runtime_envelope \<Rightarrow> ('s, 'w) sink_step) \<Rightarrow> ('s, 'w) sink_step \<Rightarrow> sink_call list \<Rightarrow> 's \<Rightarrow> 'w \<Rightarrow> bool \<times> 's \<times> 'w" where
  "run_calls collect flush [] s w = (True, s, w)"
| "run_calls collect flush (c # cs) s w =
     (let (r, s, w) = (case c of CallCollect env \<Rightarrow> collect env s w | CallFlush \<Rightarrow> flush s w);
          (ok, s, w) = run_calls collect flush cs s w
      in (is_ok r \<and> ok, s, w))"

definition collected :: "sink_call list \<Rightarrow> runtime_envelope list" where
  "collected cs = concat (map (\<lambda>c. case c of CallCollect env \<Rightarrow> [env] | CallFlush \<Rightarrow> []) cs)"

text \<open>
  \<open>sent\<close> is what the sink handed to its writer or client, \<open>stored\<close> what has reached the file or endpoint,
  \<open>pending\<close> what it still buffers; \<open>render\<close> is one message as it is written.
\<close>

locale batch_sink =
  fixes collect :: "runtime_envelope \<Rightarrow> ('s, 'w) sink_step" and flush :: "('s, 'w) sink_step"
    and close :: "('s, 'w) sink_step" and ready :: "'s \<Rightarrow> bool" and pending :: "'s \<Rightarrow> runtime_envelope list"
    and sent :: "'w \<Rightarrow> 'o list" and stored :: "'w \<Rightarrow> 'o list" and render :: "runtime_envelope \<Rightarrow> 'o list"
  assumes collect_ok: "ready s \<Longrightarrow> collect env s w = (Inr (), s', w') \<Longrightarrow> ready s' \<and>
      sent w' @ concat (map render (pending s')) = sent w @ concat (map render (pending s)) @ render env"
    and flush_ok: "ready s \<Longrightarrow> flush s w = (Inr (), s', w') \<Longrightarrow>
      ready s' \<and> sent w' = sent w @ concat (map render (pending s)) \<and> pending s' = [] \<and> stored w' = sent w'"
    and close_ok: "ready s \<Longrightarrow> close s w = (Inr (), s', w') \<Longrightarrow> stored w' = sent w @ concat (map render (pending s))"
begin

lemma run_sent:
  assumes "ready s" "run_calls collect flush cs s w = (True, s', w')"
  shows "ready s' \<and> sent w' @ concat (map render (pending s')) =
    sent w @ concat (map render (pending s)) @ concat (map render (collected cs))"
  using assms
proof (induction cs arbitrary: s w)
  case Nil
  then show ?case by (simp add: collected_def)
next
  case (Cons c cs)
  obtain r s1 w1 where step: "(case c of CallCollect env \<Rightarrow> collect env s w | CallFlush \<Rightarrow> flush s w) = (r, s1, w1)"
    by (metis prod_cases3)
  obtain ok where rest: "run_calls collect flush cs s1 w1 = (ok, s', w')" "is_ok r" "ok"
    using Cons.prems(2) step by (auto simp: Let_def split: prod.splits)
  then have r: "r = Inr ()" by (cases r) simp_all
  have "ready s1 \<and> sent w1 @ concat (map render (pending s1)) =
      sent w @ concat (map render (pending s)) @ concat (map render (collected [c]))"
    using step r collect_ok [OF Cons.prems(1)] flush_ok [OF Cons.prems(1)]
    by (cases c) (simp_all add: collected_def)
  moreover have "collected (c # cs) = collected [c] @ collected cs" by (simp add: collected_def)
  ultimately show ?case using Cons.IH [of s1 w1] rest by auto
qed

lemma close_delivers:
  assumes "ready s" "run_calls collect flush cs s w = (True, s', w')" "close s' w' = (Inr (), s'', w'')"
  shows "stored w'' = sent w @ concat (map render (pending s)) @ concat (map render (collected cs))"
  using run_sent [OF assms(1,2)] close_ok [OF _ assms(3)] by simp

lemma flush_delivers:
  assumes "ready s" "run_calls collect flush cs s w = (True, s', w')" "flush s' w' = (Inr (), s'', w'')"
  shows "stored w'' = sent w @ concat (map render (pending s)) @ concat (map render (collected cs))"
  using run_sent [OF assms(1,2)] flush_ok [OF _ assms(3)] by simp

end

section \<open>The three sinks keep it\<close>

definition buffered :: "'b sink_core \<Rightarrow> runtime_envelope list" where
  "buffered s = (case kk_batch_buffer s of None \<Rightarrow> [] | Some b \<Rightarrow> ba_buffer b)"

definition line_of :: "runtime_envelope \<Rightarrow> bytes" where
  "line_of env = re_payload env @ [0x0A]"

text \<open>
  A buffered writer accepts the bytes it reports as written, and a successful flush leaves everything it
  accepted in the file; a created file is empty, and the clock writes nothing.
\<close>

definition line_laws :: "('w \<Rightarrow> bytes) \<Rightarrow> ('w \<Rightarrow> bytes) \<Rightarrow> ('w, 'h) line_host_scheme \<Rightarrow> bool" where
  "line_laws sent stored H \<longleftrightarrow>
     (\<forall>bs w w'. lh_write_all H bs w = (Inr (), w') \<longrightarrow> sent w' = sent w @ bs) \<and>
     (\<forall>w w'. lh_flush H w = (Inr (), w') \<longrightarrow> sent w' = sent w \<and> stored w' = sent w) \<and>
     (\<forall>p w w'. lh_create H p w = (Inr (), w') \<longrightarrow> sent w' = []) \<and>
     (\<forall>w. sent (snd (h_now H w)) = sent w)"

lemma line_lawsD:
  assumes "line_laws sent stored H"
  shows "lh_write_all H bs w = (Inr (), w') \<Longrightarrow> sent w' = sent w @ bs"
    "lh_flush H w = (Inr (), w') \<Longrightarrow> sent w' = sent w" "lh_flush H w = (Inr (), w') \<Longrightarrow> stored w' = sent w"
    "lh_create H p w = (Inr (), w') \<Longrightarrow> sent w' = []"
  using assms unfolding line_laws_def by simp_all

lemma write_line_sent:
  assumes "line_laws sent stored H" "write_line H env w = (Inr (), w')"
  shows "sent w' = sent w @ line_of env"
  using assms(2) line_lawsD(1) [OF assms(1)]
  by (fastforce simp: write_line_def line_of_def split: prod.splits sum.splits)

lemma write_lines_sent:
  assumes "line_laws sent stored H"
  shows "write_lines H envs w = (Inr (), w') \<Longrightarrow> sent w' = sent w @ concat (map line_of envs)"
proof (induction envs arbitrary: w)
  case (Cons env envs)
  obtain r w1 where l: "write_line H env w = (r, w1)" by fastforce
  then have "r = Inr ()" using Cons.prems by (cases r) auto
  then show ?case using Cons l write_line_sent [OF assms] by simp
qed simp

lemma write_batch_sent:
  assumes "line_laws sent stored H" "write_batch name H batch s w = (Inr (), s', w')"
  shows "kk_open s" "sent w' = sent w @ concat (map line_of batch)" "stored w' = sent w'"
    "\<exists>t. s' = s\<lparr>kk_batch_stats := t\<rparr>"
proof -
  obtain r1 w1 where l: "write_lines H batch w = (r1, w1)" by fastforce
  obtain r2 w2 where f: "lh_flush H w1 = (r2, w2)" by fastforce
  show "kk_open s" "\<exists>t. s' = s\<lparr>kk_batch_stats := t\<rparr>"
    using assms(2) by (auto simp: write_batch_def Let_def split: if_splits prod.splits sum.splits)
  then have ok: "r1 = Inr ()" "r2 = Inr ()" "w' = w2"
    using assms(2) l f by (auto simp: write_batch_def split: sum.splits)
  then show "sent w' = sent w @ concat (map line_of batch)" "stored w' = sent w'"
    using write_lines_sent [OF assms(1)] line_lawsD(2,3) [OF assms(1)] l f by simp_all
qed

text \<open>Buffering over a \<open>send\<close> that delivers a whole batch when it succeeds.\<close>

definition sends ::
    "('b sink_core \<Rightarrow> bool) \<Rightarrow> ('w \<Rightarrow> 'o list) \<Rightarrow> ('w \<Rightarrow> 'o list) \<Rightarrow> (runtime_envelope \<Rightarrow> 'o list)
       \<Rightarrow> (runtime_envelope list \<Rightarrow> ('b sink_core, 'w) sink_step) \<Rightarrow> bool" where
  "sends ready sent stored render send \<longleftrightarrow>
     (\<forall>batch s w s' w'. ready s \<longrightarrow> send batch s w = (Inr (), s', w') \<longrightarrow>
        sent w' = sent w @ concat (map render batch) \<and> stored w' = sent w' \<and> (\<exists>t. s' = s\<lparr>kk_batch_stats := t\<rparr>))"

definition stable :: "('b sink_core \<Rightarrow> bool) \<Rightarrow> bool" where
  "stable ready \<longleftrightarrow>
     (\<forall>s b. ready (s\<lparr>kk_batch_buffer := b\<rparr>) = ready s) \<and> (\<forall>s t. ready (s\<lparr>kk_batch_stats := t\<rparr>) = ready s)"

lemma stableD:
  assumes "stable ready" "ready s"
  shows "ready (s\<lparr>kk_batch_buffer := b\<rparr>)" "ready (s\<lparr>kk_batch_buffer := b, kk_batch_stats := t\<rparr>)"
  using assms by (simp_all add: stable_def)

lemma push_and_send_sent:
  assumes "sends ready sent stored render send" "stable ready" "\<And>w. sent (snd (h_now H w)) = sent w" "ready s"
    "kk_batch_buffer s = Some b" "push_and_send H send env b s w = (Inr (), s', w')"
  shows "ready s'" "sent w' @ concat (map render (buffered s')) = sent w @ concat (map render (buffered s)) @ render env"
proof -
  let ?b = "b\<lparr>ba_buffer := ba_buffer b @ [env]\<rparr>" and ?b' = "b\<lparr>ba_last_flush := fst (h_now H w), ba_buffer := []\<rparr>"
  have "ready s' \<and> sent w' @ concat (map render (buffered s')) = sent w @ concat (map render (buffered s)) @ render env"
  proof (cases "length (ba_buffer ?b) \<ge> ba_batch_size ?b")
    case True
    then have send: "send (ba_buffer ?b) (s\<lparr>kk_batch_buffer := Some ?b'\<rparr>) (snd (h_now H w)) = (Inr (), s', w')"
      using assms(6) by (simp add: push_and_send_def batch_push_def batch_take_def Let_def case_prod_beta)
    have "ready (s\<lparr>kk_batch_buffer := Some ?b'\<rparr>)" using stableD(1) [OF assms(2,4)] .
    then obtain t where "sent w' = sent w @ concat (map render (ba_buffer ?b))" "s' = s\<lparr>kk_batch_buffer := Some ?b', kk_batch_stats := t\<rparr>"
      using assms(1,3) send unfolding sends_def by metis
    then show ?thesis using stableD(2) [OF assms(2,4)] assms(5) by (simp add: buffered_def)
  next
    case False
    then have "s' = s\<lparr>kk_batch_buffer := Some ?b\<rparr>" "w' = w"
      using assms(6) by (simp_all add: push_and_send_def batch_push_def Let_def)
    then show ?thesis using stableD(1) [OF assms(2,4)] assms(5) by (simp add: buffered_def)
  qed
  then show "ready s'" "sent w' @ concat (map render (buffered s')) = sent w @ concat (map render (buffered s)) @ render env"
    by blast+
qed

lemma take_and_send_sent:
  assumes "sends ready sent stored render send" "stable ready" "\<And>w. sent (snd (h_now H w)) = sent w" "ready s"
    "take_and_send H send s w = (Inr (), s', w')"
  shows "ready s'" "sent w' = sent w @ concat (map render (buffered s))" "buffered s' = []" "kk_open s' = kk_open s"
proof -
  have "ready s' \<and> sent w' = sent w @ concat (map render (buffered s)) \<and> buffered s' = [] \<and> kk_open s' = kk_open s"
  proof (cases "kk_batch_buffer s")
    case None
    then show ?thesis using assms(4,5) by (simp add: take_and_send_def buffered_def)
  next
    case (Some b)
    let ?b' = "b\<lparr>ba_last_flush := fst (h_now H w), ba_buffer := []\<rparr>"
    have rd: "ready (s\<lparr>kk_batch_buffer := Some ?b'\<rparr>)" using stableD(1) [OF assms(2,4)] .
    show ?thesis
    proof (cases "ba_buffer b = []")
      case True
      then show ?thesis using Some rd assms(3,5) by (auto simp: take_and_send_def batch_take_def buffered_def Let_def case_prod_beta)
    next
      case False
      then have "send (ba_buffer b) (s\<lparr>kk_batch_buffer := Some ?b'\<rparr>) (snd (h_now H w)) = (Inr (), s', w')"
        using assms(5) Some by (simp add: take_and_send_def batch_take_def Let_def case_prod_beta)
      then obtain t where "sent w' = sent w @ concat (map render (ba_buffer b))" "s' = s\<lparr>kk_batch_buffer := Some ?b', kk_batch_stats := t\<rparr>"
        using assms(1,3) rd unfolding sends_def by metis
      then show ?thesis using stableD(2) [OF assms(2,4)] Some by (simp add: buffered_def)
    qed
  qed
  then show "ready s'" "sent w' = sent w @ concat (map render (buffered s))" "buffered s' = []" "kk_open s' = kk_open s" by blast+
qed

lemma write_batch_sends: "line_laws sent stored H \<Longrightarrow> sends kk_open sent stored line_of (write_batch name H)"
  unfolding sends_def using write_batch_sent(2-4) [of sent stored H name] by (intro allI impI conjI) simp_all

lemma kk_open_stable: "stable kk_open"
  by (simp add: stable_def)

lemma flush_writer_sent:
  assumes "line_laws sent stored H" "kk_open s" "flush_writer H s w = (Inr (), s', w')"
  shows "s' = s" "sent w' = sent w" "stored w' = sent w"
proof -
  obtain r w1 where f: "lh_flush H w = (r, w1)" by fastforce
  then have "r = Inr ()" "s' = s" "w' = w1" using assms(2,3) by (auto simp: flush_writer_def map_sum_def split: sum.splits)
  then show "s' = s" "sent w' = sent w" "stored w' = sent w" using line_lawsD(2,3) [OF assms(1)] f by simp_all
qed

lemma line_clock: "line_laws sent stored H \<Longrightarrow> sent (snd (h_now H w)) = sent w"
  by (simp add: line_laws_def)

lemma line_drain:
  assumes "line_laws sent stored H" "kk_open s" "line_flush name H s w = (Inr (), s', w')"
  shows "kk_open s'" "sent w' = sent w @ concat (map line_of (buffered s))" "buffered s' = []" "stored w' = sent w'"
proof -
  obtain r s1 w1 where t: "take_and_send H (write_batch name H) s w = (r, s1, w1)" by (metis prod_cases3)
  then have "r = Inr ()" "flush_writer H s1 w1 = (Inr (), s', w')" using assms(3) by (auto simp: line_flush_def split: sum.splits)
  with take_and_send_sent [OF write_batch_sends [OF assms(1)] kk_open_stable line_clock [OF assms(1)] assms(2)] t
    flush_writer_sent [OF assms(1)]
  show "kk_open s'" "sent w' = sent w @ concat (map line_of (buffered s))" "buffered s' = []" "stored w' = sent w'"
    by (metis)+
qed

lemma line_close_flush:
  "line_close name H s w = (Inr (), s', w') \<Longrightarrow> \<exists>s1. line_flush name H s w = (Inr (), s1, w')"
  by (auto simp: line_close_def line_flush_def Let_def split: prod.splits sum.splits)

lemma file_batch_sink:
  assumes "line_laws sent stored H"
  shows "batch_sink (file_collect H) (file_flush H) (file_close H) kk_open buffered sent stored line_of"
proof
  fix s :: "string sink_core" and env w s' w' assume s: "kk_open s" and c: "file_collect H env s w = (Inr (), s', w')"
  show "kk_open s' \<and> sent w' @ concat (map line_of (buffered s')) = sent w @ concat (map line_of (buffered s)) @ line_of env"
  proof (cases "kk_batch_buffer s")
    case None
    obtain r w1 where l: "write_line H env w = (r, w1)" by fastforce
    then have "r = Inr ()" "s' = s" "w' = w1" using c s None by (auto simp: file_collect_def map_sum_def split: sum.splits)
    then show ?thesis using write_line_sent [OF assms] l s None by (simp add: buffered_def)
  next
    case (Some b)
    then have "push_and_send H (write_batch ''FileSink'' H) env b s w = (Inr (), s', w')" using c by (simp add: file_collect_def)
    from push_and_send_sent [OF write_batch_sends [OF assms] kk_open_stable line_clock [OF assms] s Some this] show ?thesis by simp
  qed
next
  fix s :: "string sink_core" and w s' w' assume s: "kk_open s"
  show "kk_open s' \<and> sent w' = sent w @ concat (map line_of (buffered s)) \<and> buffered s' = [] \<and> stored w' = sent w'"
    if "file_flush H s w = (Inr (), s', w')"
    using line_drain [OF assms s] that by (simp add: file_flush_def)
  show "stored w' = sent w @ concat (map line_of (buffered s))" if "file_close H s w = (Inr (), s', w')"
    using line_close_flush [OF that [unfolded file_close_def]] line_drain [OF assms s] by metis
qed

lemma stdout_batch_sink:
  assumes "line_laws sent stored H"
  shows "batch_sink (stdout_collect H) (stdout_flush H) (stdout_close H) kk_open buffered sent stored line_of"
proof
  fix s :: "unit sink_core" and env w s' w' assume s: "kk_open s" and c: "stdout_collect H env s w = (Inr (), s', w')"
  show "kk_open s' \<and> sent w' @ concat (map line_of (buffered s')) = sent w @ concat (map line_of (buffered s)) @ line_of env"
  proof (cases "kk_batch_buffer s")
    case None
    obtain r w1 where l: "write_line H env w = (r, w1)" by fastforce
    obtain q w2 where f: "lh_flush H w1 = (q, w2)" by fastforce
    have "r = Inr ()" "q = Inr ()" "s' = s" "w' = w2"
      using c s None l f by (auto simp: stdout_collect_def map_sum_def split: sum.splits)
    then show ?thesis using write_line_sent [OF assms] line_lawsD(2) [OF assms] l f s None by (simp add: buffered_def)
  next
    case (Some b)
    then have "push_and_send H (write_batch ''StdoutSink'' H) env b s w = (Inr (), s', w')" using c by (simp add: stdout_collect_def)
    from push_and_send_sent [OF write_batch_sends [OF assms] kk_open_stable line_clock [OF assms] s Some this] show ?thesis by simp
  qed
next
  fix s :: "unit sink_core" and w s' w' assume s: "kk_open s"
  show "kk_open s' \<and> sent w' = sent w @ concat (map line_of (buffered s)) \<and> buffered s' = [] \<and> stored w' = sent w'"
    if "stdout_flush H s w = (Inr (), s', w')"
    using line_drain [OF assms s] that by (simp add: stdout_flush_def)
  show "stored w' = sent w @ concat (map line_of (buffered s))" if "stdout_close H s w = (Inr (), s', w')"
    using line_close_flush [OF that [unfolded stdout_close_def]] line_drain [OF assms s] by metis
qed

text \<open>
  An endpoint that answers with success has received the payload, or the payloads of the batch that the body
  encodes.
\<close>

definition http_laws :: "(string \<times> string) list \<Rightarrow> ('w \<Rightarrow> bytes list) \<Rightarrow> ('w, 'h) http_host_scheme \<Rightarrow> bool" where
  "http_laws headers sent H \<longleftrightarrow>
     (\<forall>url body w w' status. ch_post H url headers body w = (Inr status, w') \<and> is_success status \<longrightarrow> sent w' = sent w @ [body]) \<and>
     (\<forall>url payloads body w w' status. ch_json_batch H payloads = Inr body \<and>
        ch_post H url ((''Content-Type'', ''application/json'') # headers) body w = (Inr status, w') \<and> is_success status \<longrightarrow>
        sent w' = sent w @ payloads) \<and>
     (\<forall>w. sent (snd (h_now H w)) = sent w)"

definition http_ready :: "(string \<times> string) list \<Rightarrow> http_target sink_core \<Rightarrow> bool" where
  "http_ready headers s \<longleftrightarrow> kk_open s \<and> ht_headers (kk_target s) = headers"

lemma http_ready_stable: "stable (http_ready headers)"
  by (simp add: stable_def http_ready_def)

lemma post_checked_ok:
  "post_checked H what url headers body w = (Inr (), w') \<Longrightarrow>
     \<exists>status. ch_post H url headers body w = (Inr status, w') \<and> is_success status"
  by (auto simp: post_checked_def split: prod.splits sum.splits if_splits)

lemma send_batch_sends:
  assumes "http_laws headers sent H"
  shows "sends (http_ready headers) sent sent (\<lambda>env. [re_payload env]) (send_batch H)"
  unfolding sends_def
proof (intro allI impI)
  fix batch s w s' w' assume rd: "http_ready headers s" and send: "send_batch H batch s w = (Inr (), s', w')"
  obtain body where body: "ch_json_batch H (map re_payload batch) = Inr body"
    and post: "post_checked H ''HTTP batch request'' (ht_url (kk_target s)) ((''Content-Type'', ''application/json'') # headers) body w = (Inr (), w')"
    and s': "s' = s\<lparr>kk_batch_stats := count_flush (length batch) (kk_batch_stats s)\<rparr>"
    using rd send by (auto simp: send_batch_def http_ready_def split: sum.splits prod.splits)
  then have "sent w' = sent w @ map re_payload batch"
    using post_checked_ok [OF post] assms by (auto simp: http_laws_def)
  moreover have "concat (map (\<lambda>env. [re_payload env]) batch) = map re_payload batch" by (induction batch) simp_all
  ultimately show "sent w' = sent w @ concat (map (\<lambda>env. [re_payload env]) batch) \<and> sent w' = sent w' \<and> (\<exists>t. s' = s\<lparr>kk_batch_stats := t\<rparr>)"
    using s' by auto
qed

lemma http_batch_sink:
  assumes "http_laws headers sent H"
  shows "batch_sink (http_collect H) (http_flush H) (http_close H) (http_ready headers) buffered sent sent (\<lambda>env. [re_payload env])"
proof -
  have clock: "sent (snd (h_now H w)) = sent w" for w using assms by (simp add: http_laws_def)
  note take = take_and_send_sent [OF send_batch_sends [OF assms] http_ready_stable clock]
  show ?thesis
  proof
    fix s :: "http_target sink_core" and env w s' w'
    assume s: "http_ready headers s" and c: "http_collect H env s w = (Inr (), s', w')"
    show "http_ready headers s' \<and> sent w' @ concat (map (\<lambda>env. [re_payload env]) (buffered s')) =
        sent w @ concat (map (\<lambda>env. [re_payload env]) (buffered s)) @ [re_payload env]"
    proof (cases "kk_batch_buffer s")
      case None
      then have "post_checked H ''HTTP request'' (ht_url (kk_target s)) headers (re_payload env) w = (Inr (), w')" "s' = s"
        using c s by (auto simp: http_collect_def send_message_def http_ready_def split: prod.splits)
      then show ?thesis using post_checked_ok assms s None by (fastforce simp: http_laws_def buffered_def)
    next
      case (Some b)
      then have "push_and_send H (send_batch H) env b s w = (Inr (), s', w')" using c by (simp add: http_collect_def)
      from push_and_send_sent [OF send_batch_sends [OF assms] http_ready_stable clock s Some this] show ?thesis by simp
    qed
  next
    fix s :: "http_target sink_core" and w s' w' assume s: "http_ready headers s"
    show "http_ready headers s' \<and> sent w' = sent w @ concat (map (\<lambda>env. [re_payload env]) (buffered s)) \<and> buffered s' = [] \<and> sent w' = sent w'"
      if "http_flush H s w = (Inr (), s', w')" using take [OF s] that by (simp add: http_flush_def)
    show "sent w' = sent w @ concat (map (\<lambda>env. [re_payload env]) (buffered s))" if close: "http_close H s w = (Inr (), s', w')"
    proof -
      obtain s1 where "take_and_send H (send_batch H) s w = (Inr (), s1, w')"
        using close by (auto simp: http_close_def split: prod.splits sum.splits)
      then show ?thesis using take [OF s] by blast
    qed
  qed
qed

section \<open>Hosts in memory\<close>

text \<open>A writer whose world is a clock, the bytes it accepted and the file; an endpoint whose world is its payloads.\<close>

definition memory_lines :: "(nat \<times> bytes \<times> bytes) line_host" where
  "memory_lines =
     \<lparr>h_now = (\<lambda>(t, a, f). (t, (t + 1, a, f))), h_system_now = (\<lambda>(t, a, f). (int t, (t + 1, a, f))),
      lh_create = (\<lambda>p (t, a, f). (Inr (), (t, [], []))), lh_missing_parent = (\<lambda>p w. None),
      lh_write_all = (\<lambda>bs (t, a, f). (Inr (), (t, a @ bs, f))), lh_flush = (\<lambda>(t, a, f). (Inr (), (t, a, a)))\<rparr>"

definition memory_posts :: "(nat \<times> bytes list) http_host" where
  "memory_posts =
     \<lparr>h_now = (\<lambda>(t, ps). (t, (t + 1, ps))), h_system_now = (\<lambda>(t, ps). (int t, (t + 1, ps))), ch_build = (\<lambda>_. Inr ()),
      ch_post = (\<lambda>url hs body (t, ps). (Inr 200, (t, ps @ (if hs = [] then [body] else map (\<lambda>b. [b]) body)))),
      ch_json_batch = (\<lambda>ps. if \<forall>p \<in> set ps. length p = 1 then Inr (concat ps) else Inl ''not a byte''),
      ch_status = (\<lambda>_. [])\<rparr>"

lemma memory_lines_laws: "line_laws (\<lambda>w. fst (snd w)) (\<lambda>w. snd (snd w)) memory_lines"
  by (auto simp: line_laws_def memory_lines_def)

lemma bytes_of_concat: "\<forall>p \<in> set ps. length p = Suc 0 \<Longrightarrow> map (\<lambda>b. [b]) (concat ps) = ps"
proof (induction ps)
  case (Cons p ps)
  then obtain b where "p = [b]" by (auto simp: length_Suc_conv)
  then show ?case using Cons by simp
qed simp

lemma memory_posts_laws: "http_laws [] snd memory_posts"
  by (auto simp: http_laws_def memory_posts_def bytes_of_concat split: if_splits)

interpretation file_lines: batch_sink "file_collect memory_lines" "file_flush memory_lines" "file_close memory_lines"
    kk_open buffered "\<lambda>w. fst (snd w)" "\<lambda>w. snd (snd w)" line_of
  by (rule file_batch_sink [OF memory_lines_laws])

interpretation stdout_lines: batch_sink "stdout_collect memory_lines" "stdout_flush memory_lines" "stdout_close memory_lines"
    kk_open buffered "\<lambda>w. fst (snd w)" "\<lambda>w. snd (snd w)" line_of
  by (rule stdout_batch_sink [OF memory_lines_laws])

interpretation http_posts: batch_sink "http_collect memory_posts" "http_flush memory_posts" "http_close memory_posts"
    "http_ready []" buffered snd snd "\<lambda>env. [re_payload env]"
  by (rule http_batch_sink [OF memory_posts_laws])

section \<open>Properties\<close>

lemma start_buffer_opens:
  assumes "start_buffer H (s\<lparr>kk_open := True\<rparr>) w = Some (s', w')" "\<And>w. sent (snd (h_now H w)) = sent w" "kk_batch_buffer s = None"
  shows "kk_open s'" "kk_target s' = kk_target s" "buffered s' = []" "sent w' = sent w"
  using assms by (auto simp: start_buffer_def batch_new_def buffered_def Let_def case_prod_beta split: option.splits if_splits)

text \<open>
  C14: A file sink writes every message it collects as one line, in order, whatever its batch size: when it was
  initialised, every collect and flush succeeded, and it was closed, the file holds exactly the payloads of
  the collected messages, each followed by a newline.
\<close>

theorem file_lines_exact:
  assumes "line_laws sent stored H" "file_init H (sink_core_new i p c) w = Some (Inr (), s0, w0)"
    "run_calls (file_collect H) (file_flush H) cs s0 w0 = (True, s1, w1)" "file_close H s1 w1 = (Inr (), s2, w2)"
  shows "stored w2 = concat (map line_of (collected cs))"
proof -
  let ?s = "sink_core_new i p c"
  obtain v where v: "lh_create H p w = (Inr (), v)" "start_buffer H (?s\<lparr>kk_open := True\<rparr>) v = Some (s0, w0)"
    using assms(2) by (auto simp: file_init_def sink_core_new_def split: prod.splits sum.splits)
  have "kk_open s0" "buffered s0 = []" "sent w0 = sent v"
    using start_buffer_opens [where sent = sent, OF v(2) line_clock [OF assms(1)]] by (simp_all add: sink_core_new_def)
  then show ?thesis
    using batch_sink.close_delivers [OF file_batch_sink [OF assms(1)] _ assms(3,4)] line_lawsD(4) [OF assms(1) v(1)] by simp
qed

theorem file_lines_exact_witness:
  "\<exists>s0 w0 s1 w1 s2 w2.
     file_init memory_lines (sink_core_new ''f'' ''out'' \<lparr>bf_batch_size = Some 2, bf_batch_timeout_ms = None\<rparr>) (0, [], []) = Some (Inr (), s0, w0) \<and>
     run_calls (file_collect memory_lines) (file_flush memory_lines) [CallCollect sample_envelope] s0 w0 = (True, s1, w1) \<and>
     file_close memory_lines s1 w1 = (Inr (), s2, w2) \<and> snd (snd w2) = [1, 2, 3, 10]"
proof -
  let ?init = "file_init memory_lines (sink_core_new ''f'' ''out'' \<lparr>bf_batch_size = Some 2, bf_batch_timeout_ms = None\<rparr>) (0, [], [])"
  obtain s0 w0 where i: "?init = Some (Inr (), s0, w0)"
    by (simp add: file_init_def memory_lines_def sink_core_new_def start_buffer_def batch_new_def)
  obtain ok s1 w1 where r: "run_calls (file_collect memory_lines) (file_flush memory_lines) [CallCollect sample_envelope] s0 w0 = (ok, s1, w1)"
    by (metis prod_cases3)
  have "ok" using i r by (auto simp: file_init_def memory_lines_def sink_core_new_def start_buffer_def batch_new_def
        file_collect_def push_and_send_def batch_push_def split: prod.splits)
  obtain q s2 w2 where c: "file_close memory_lines s1 w1 = (q, s2, w2)" by (metis prod_cases3)
  have "q = Inr ()" using i r c by (auto simp: file_init_def memory_lines_def sink_core_new_def start_buffer_def batch_new_def
        file_collect_def push_and_send_def batch_push_def file_close_def line_close_def take_and_send_def batch_take_def
        write_batch_def write_line_def flush_writer_def split: prod.splits)
  with r c \<open>ok\<close> have "run_calls (file_collect memory_lines) (file_flush memory_lines) [CallCollect sample_envelope] s0 w0 = (True, s1, w1)"
    "file_close memory_lines s1 w1 = (Inr (), s2, w2)" by simp_all
  note run = this
  have "snd (snd w2) = [1, 2, 3, 10]" using file_lines_exact [OF memory_lines_laws i run]
    by (simp add: collected_def line_of_def sample_envelope_def envelope_new_def)
  with i run show ?thesis by blast
qed

text \<open>
  An HTTP sink delivers the payloads it collects in order, one request each or in JSON batches: when it was
  initialised, every collect and flush succeeded, and it was closed, the endpoint has received exactly the
  payloads of the collected messages, whatever the batch size.
\<close>

theorem http_payloads_exact:
  assumes "http_laws (ht_headers target) sent H" "http_init H (sink_core_new i target c) w = Some (Inr (), s0, w0)"
    "run_calls (http_collect H) (http_flush H) cs s0 w0 = (True, s1, w1)" "http_close H s1 w1 = (Inr (), s2, w2)"
  shows "sent w2 = sent w @ map re_payload (collected cs)"
proof -
  let ?s = "sink_core_new i target c"
  have v: "start_buffer H (?s\<lparr>kk_open := True\<rparr>) w = Some (s0, w0)"
    using assms(2) by (auto simp: http_init_def sink_core_new_def split: sum.splits)
  have clock: "sent (snd (h_now H w)) = sent w" for w using assms(1) by (simp add: http_laws_def)
  have s0: "http_ready (ht_headers target) s0" "buffered s0 = []" "sent w0 = sent w"
    using start_buffer_opens [where sent = sent, OF v clock] by (simp_all add: sink_core_new_def http_ready_def)
  have "concat (map (\<lambda>env. [re_payload env]) es) = map re_payload es" for es by (induction es) simp_all
  then show ?thesis
    using batch_sink.close_delivers [OF http_batch_sink [OF assms(1)] s0(1) assms(3,4)] s0(2,3) by simp
qed

lemma memory_posts_init:
  "http_init memory_posts (sink_core_new ''h'' \<lparr>ht_url = ''http://x'', ht_timeout = 30, ht_headers = []\<rparr>
     \<lparr>bf_batch_size = None, bf_batch_timeout_ms = None\<rparr>) (0, []) =
   Some (Inr (), (sink_core_new ''h'' \<lparr>ht_url = ''http://x'', ht_timeout = 30, ht_headers = []\<rparr>
     \<lparr>bf_batch_size = None, bf_batch_timeout_ms = None\<rparr>)\<lparr>kk_open := True\<rparr>, (0, []))"
  by (simp add: http_init_def memory_posts_def start_buffer_def sink_core_new_def)

theorem http_payloads_exact_witness:
  "\<exists>s1 w1 s2 w2. run_calls (http_collect memory_posts) (http_flush memory_posts) [CallCollect sample_envelope]
      ((sink_core_new ''h'' \<lparr>ht_url = ''http://x'', ht_timeout = 30, ht_headers = []\<rparr>
         \<lparr>bf_batch_size = None, bf_batch_timeout_ms = None\<rparr>)\<lparr>kk_open := True\<rparr>) (0, []) = (True, s1, w1) \<and>
     http_close memory_posts s1 w1 = (Inr (), s2, w2) \<and> snd w2 = [[1, 2, 3]]"
proof -
  let ?target = "\<lparr>ht_url = ''http://x'', ht_timeout = 30, ht_headers = []\<rparr>"
  let ?s = "(sink_core_new ''h'' ?target \<lparr>bf_batch_size = None, bf_batch_timeout_ms = None\<rparr>)\<lparr>kk_open := True\<rparr>"
  obtain ok s1 w1 where r: "run_calls (http_collect memory_posts) (http_flush memory_posts) [CallCollect sample_envelope] ?s (0, []) = (ok, s1, w1)"
    by (metis prod_cases3)
  obtain q s2 w2 where c: "http_close memory_posts s1 w1 = (q, s2, w2)" by (metis prod_cases3)
  have "ok" using r by (auto simp: http_collect_def send_message_def post_checked_def memory_posts_def sink_core_new_def is_success_def)
  moreover have "q = Inr ()"
    using r c by (auto simp: http_collect_def send_message_def post_checked_def memory_posts_def sink_core_new_def is_success_def
        http_close_def take_and_send_def)
  ultimately have run: "run_calls (http_collect memory_posts) (http_flush memory_posts) [CallCollect sample_envelope] ?s (0, []) = (True, s1, w1)"
    "http_close memory_posts s1 w1 = (Inr (), s2, w2)" using r c by simp_all
  have "snd w2 = [[1, 2, 3]]"
    using http_payloads_exact [of ?target snd, OF _ memory_posts_init run] memory_posts_laws
    by (simp add: collected_def sample_envelope_def envelope_new_def)
  with run show ?thesis by blast
qed

text \<open>
  C20: A batch whose write fails is dropped as a whole: the collect that filled the batch reports an error and
  leaves the buffer empty, although the earlier messages of the batch were acknowledged when they were
  collected, and none of them will be written again.
\<close>

theorem failed_batch_dropped:
  assumes "kk_batch_buffer s = Some b" "file_collect H env s w = (Inl e, s', w')"
  shows "buffered s' = [] \<and> ba_batch_size b \<le> length (buffered s) + 1"
proof -
  have keeps: "kk_batch_buffer s2 = kk_batch_buffer s1" if "write_batch name H batch s1 w1 = (Inl e', s2, w2)"
    for name batch and s1 s2 :: "string sink_core" and w1 e' w2
    using that by (auto simp: write_batch_def Let_def split: if_splits prod.splits sum.splits)
  then show ?thesis
    using assms by (auto simp: file_collect_def push_and_send_def batch_push_def batch_take_def buffered_def Let_def case_prod_beta
        split: if_splits)
qed

definition full_disk :: "(nat \<times> bytes \<times> bytes) line_host" where
  "full_disk = memory_lines\<lparr>lh_write_all := (\<lambda>_ w. (Inl ''disk full'', w))\<rparr>"

theorem failed_batch_dropped_witness:
  "let s = (sink_core_new ''f'' ''out'' \<lparr>bf_batch_size = Some 2, bf_batch_timeout_ms = None\<rparr>)\<lparr>kk_open := True,
         kk_batch_buffer := Some \<lparr>ba_buffer = [sample_envelope], ba_batch_size = 2, ba_timeout = 1, ba_last_flush = 0\<rparr>\<rparr>;
       (r, s', w') = file_collect full_disk sample_envelope s (0, [], [])
   in r = Inl (Io ''disk full'') \<and> buffered s = [sample_envelope] \<and> buffered s' = []"
proof -
  let ?s = "(sink_core_new ''f'' ''out'' \<lparr>bf_batch_size = Some 2, bf_batch_timeout_ms = None\<rparr>)\<lparr>kk_open := True,
         kk_batch_buffer := Some \<lparr>ba_buffer = [sample_envelope], ba_batch_size = 2, ba_timeout = 1, ba_last_flush = 0\<rparr>\<rparr>"
  obtain r s' w' where c: "file_collect full_disk sample_envelope ?s (0, [], []) = (r, s', w')" by (metis prod_cases3)
  then have "r = Inl (Io ''disk full'')"
    by (auto simp: file_collect_def push_and_send_def batch_push_def batch_take_def full_disk_def memory_lines_def write_batch_def
        write_line_def Let_def)
  with c failed_batch_dropped [of ?s _ full_disk sample_envelope "(0, [], [])" "Io ''disk full''" s' w']
  show ?thesis by (simp add: buffered_def)
qed

end
