(* ===== verification/DlqWriter.thy ===== *)
theory DlqWriter
  imports Config ErrorTypes Host
begin

text \<open>
  The dead-letter writer of \<open>wafer-core/src/orchestrator/pipeline.rs\<close>: the task that drains dead-letter records
  until every node has dropped its sender and writes them to a file, one JSON line each, or publishes them to
  an MQTT topic. The channel, the buffered writer, the JSON text of a record and the MQTT client are
  parameters. Draining an open channel may go on, so the loops take fuel.
\<close>

section \<open>The host\<close>

record 'w dlq_writer_host = "'w host" +
  dw_recv :: "'w \<Rightarrow> dlq_envelope option \<times> 'w"
  dw_is_empty :: "'w \<Rightarrow> bool"
  dw_json :: "dlq_envelope \<Rightarrow> (string, bytes) result"
  dw_open_append :: "string \<Rightarrow> 'w \<Rightarrow> (string, unit) result \<times> 'w"
  dw_write_all :: "bytes \<Rightarrow> 'w \<Rightarrow> (string, unit) result \<times> 'w"
  dw_flush :: "'w \<Rightarrow> (string, unit) result \<times> 'w"
  dw_sync_data :: "'w \<Rightarrow> (string, unit) result \<times> 'w"
  dw_sync_all :: "'w \<Rightarrow> (string, unit) result \<times> 'w"
  dw_read_file :: "string \<Rightarrow> 'w \<Rightarrow> (string, bytes) result"
  dw_connect :: "string \<Rightarrow> u16 \<Rightarrow> auth_config option \<Rightarrow> (bytes option \<times> (bytes \<times> bytes) option) option \<Rightarrow> 'w \<Rightarrow> 'w"
  dw_publish :: "string \<Rightarrow> bytes \<Rightarrow> 'w \<Rightarrow> (string, unit) result \<times> 'w"
  dw_disconnect :: "'w \<Rightarrow> (string, unit) result \<times> 'w"
  dw_join_event_loop :: "'w \<Rightarrow> (string, (string, unit) result) result \<times> 'w"

definition DLQ_SYNC_INTERVAL :: duration where
  "DLQ_SYNC_INTERVAL = 1000000000"

section \<open>Writing to a file\<close>

definition serialize_error :: "string \<Rightarrow> wafer_error" where
  "serialize_error e = Runtime (''failed to serialize DLQ record: '' @ e)"

text \<open>The syncs of one iteration: a flush when no record is waiting, and a sync once a second.\<close>

definition flush_if_idle :: "('w, 'h) dlq_writer_host_scheme \<Rightarrow> 'w \<Rightarrow> (string, unit) result \<times> 'w" where
  "flush_if_idle H w = (if dw_is_empty H w then dw_flush H w else (Inr (), w))"

definition sync_if_due ::
    "('w, 'h) dlq_writer_host_scheme \<Rightarrow> instant \<Rightarrow> 'w \<Rightarrow> (string, instant) result \<times> 'w" where
  "sync_if_due H last_sync w =
     (let (el, w) = elapsed H last_sync w in
      if el < DLQ_SYNC_INTERVAL then (Inr last_sync, w)
      else
        let (r, w) = dw_flush H w in
        case r of
          Inl e \<Rightarrow> (Inl e, w)
        | Inr _ \<Rightarrow>
            let (r, w) = dw_sync_data H w in
            (case r of
               Inl e \<Rightarrow> (Inl e, w)
             | Inr _ \<Rightarrow> let (now, w) = h_now H w in (Inr now, w)))"

definition write_record ::
    "('w, 'h) dlq_writer_host_scheme \<Rightarrow> instant \<Rightarrow> dlq_envelope \<Rightarrow> 'w \<Rightarrow> (wafer_error, instant) result \<times> 'w" where
  "write_record H last_sync env w =
     (case dw_json H env of
        Inl e \<Rightarrow> (Inl (serialize_error e), w)
      | Inr line \<Rightarrow>
          let (r, w) = dw_write_all H (line @ [0x0A]) w in
          (case r of
             Inl e \<Rightarrow> (Inl (Io e), w)
           | Inr _ \<Rightarrow>
               let (r, w) = flush_if_idle H w in
               (case r of
                  Inl e \<Rightarrow> (Inl (Io e), w)
                | Inr _ \<Rightarrow> let (r, w) = sync_if_due H last_sync w in (map_sum Io id r, w))))"

fun write_records ::
    "('w, 'h) dlq_writer_host_scheme \<Rightarrow> nat \<Rightarrow> instant \<Rightarrow> 'w \<Rightarrow> ((wafer_error, unit) result \<times> 'w) option" where
  "write_records H 0 last_sync w = None"
| "write_records H (Suc k) last_sync w =
     (let (m, w) = dw_recv H w in
      case m of
        None \<Rightarrow> Some (Inr (), w)
      | Some env \<Rightarrow>
          let (r, w) = write_record H last_sync env w in
          (case r of Inl e \<Rightarrow> Some (Inl e, w) | Inr last_sync \<Rightarrow> write_records H k last_sync w))"

definition write_dlq_file ::
    "('w, 'h) dlq_writer_host_scheme \<Rightarrow> nat \<Rightarrow> string \<Rightarrow> 'w \<Rightarrow> ((wafer_error, unit) result \<times> 'w) option" where
  "write_dlq_file H k path w =
     (let (r, w) = dw_open_append H path w in
      case r of
        Inl e \<Rightarrow> Some (Inl (Io e), w)
      | Inr _ \<Rightarrow>
          let (last_sync, w) = h_now H w in
          (case write_records H k last_sync w of
             None \<Rightarrow> None
           | Some (Inl e, w) \<Rightarrow> Some (Inl e, w)
           | Some (Inr _, w) \<Rightarrow>
               let (r, w) = dw_flush H w in
               (case r of
                  Inl e \<Rightarrow> Some (Inl (Io e), w)
                | Inr _ \<Rightarrow> let (r, w) = dw_sync_all H w in Some (map_sum Io id r, w))))"

section \<open>Publishing to MQTT\<close>

definition client_auth :: "('w, 'h) dlq_writer_host_scheme \<Rightarrow> tls_config \<Rightarrow> 'w \<Rightarrow> (wafer_error, (bytes \<times> bytes) option) result" where
  "client_auth H tls w =
     (case (tls_cert tls, tls_key tls) of
        (Some cert, Some key) \<Rightarrow>
          (case dw_read_file H cert w of
             Inl e \<Rightarrow> Inl (Io e)
           | Inr c \<Rightarrow> (case dw_read_file H key w of Inl e \<Rightarrow> Inl (Io e) | Inr k \<Rightarrow> Inr (Some (c, k))))
      | (None, None) \<Rightarrow> Inr None
      | _ \<Rightarrow> Inl (ConfigErr (CfgMessage ''dead_letter TLS cert and key must be configured together'')))"

definition tls_transport ::
    "('w, 'h) dlq_writer_host_scheme \<Rightarrow> tls_config \<Rightarrow> 'w \<Rightarrow> (wafer_error, bytes option \<times> (bytes \<times> bytes) option) result" where
  "tls_transport H tls w =
     (case tls_ca tls of
        None \<Rightarrow> Inr (None, None)
      | Some ca_path \<Rightarrow>
          (case dw_read_file H ca_path w of
             Inl e \<Rightarrow> Inl (Io e)
           | Inr ca \<Rightarrow> map_sum id (\<lambda>auth. (Some ca, auth)) (client_auth H tls w)))"

fun publish_records ::
    "('w, 'h) dlq_writer_host_scheme \<Rightarrow> nat \<Rightarrow> string \<Rightarrow> 'w \<Rightarrow> ((wafer_error, unit) result \<times> 'w) option" where
  "publish_records H 0 topic w = None"
| "publish_records H (Suc k) topic w =
     (let (m, w) = dw_recv H w in
      case m of
        None \<Rightarrow> Some (Inr (), w)
      | Some env \<Rightarrow>
          (case dw_json H env of
             Inl e \<Rightarrow> Some (Inl (serialize_error e), w)
           | Inr body \<Rightarrow>
               let (r, w) = dw_publish H topic body w in
               (case r of
                  Inl e \<Rightarrow> Some (Inl (Runtime (''DLQ MQTT publish failed: '' @ e)), w)
                | Inr _ \<Rightarrow> publish_records H k topic w)))"

definition finish_mqtt :: "('w, 'h) dlq_writer_host_scheme \<Rightarrow> 'w \<Rightarrow> (wafer_error, unit) result \<times> 'w" where
  "finish_mqtt H w =
     (let (r, w) = dw_disconnect H w in
      case r of
        Inl e \<Rightarrow> (Inl (Runtime (''DLQ MQTT disconnect failed: '' @ e)), w)
      | Inr _ \<Rightarrow>
          let (j, w) = dw_join_event_loop H w in
          (case j of
             Inl e \<Rightarrow> (Inl (Runtime (''DLQ MQTT event loop panicked: '' @ e)), w)
           | Inr (Inl e) \<Rightarrow> (Inl (Runtime (''DLQ MQTT event loop failed: '' @ e)), w)
           | Inr (Inr _) \<Rightarrow> (Inr (), w)))"

definition publish_dlq ::
    "('w, 'h) dlq_writer_host_scheme \<Rightarrow> nat \<Rightarrow> string \<Rightarrow> u16 \<Rightarrow> string \<Rightarrow> tls_config option \<Rightarrow> auth_config option \<Rightarrow> 'w
       \<Rightarrow> ((wafer_error, unit) result \<times> 'w) option" where
  "publish_dlq H k broker port topic tls auth w =
     (case (case tls of None \<Rightarrow> Inr None | Some t \<Rightarrow> map_sum id Some (tls_transport H t w)) of
        Inl e \<Rightarrow> Some (Inl e, w)
      | Inr transport \<Rightarrow>
          (case publish_records H k topic (dw_connect H broker port auth transport w) of
             None \<Rightarrow> None
           | Some (Inl e, w) \<Rightarrow> Some (Inl e, w)
           | Some (Inr _, w) \<Rightarrow> Some (finish_mqtt H w)))"

definition run_dlq_sink ::
    "('w, 'h) dlq_writer_host_scheme \<Rightarrow> nat \<Rightarrow> dead_letter_config \<Rightarrow> 'w \<Rightarrow> ((wafer_error, unit) result \<times> 'w) option" where
  "run_dlq_sink H k c w =
     (case c of
        DlFile path _ \<Rightarrow> write_dlq_file H k path w
      | DlMqtt broker port topic _ tls auth \<Rightarrow> publish_dlq H k broker port topic tls auth w)"

section \<open>Nothing taken is lost\<close>

text \<open>
  \<open>taken\<close> lists the records received from the channel, \<open>out\<close> what the writer or client accepted, \<open>kept\<close> what
  reached the file or broker; \<open>render\<close> is a record as it is written.
\<close>

definition drains ::
    "('w \<Rightarrow> dlq_envelope list) \<Rightarrow> ('w \<Rightarrow> 'o list) \<Rightarrow> ('w, 'h) dlq_writer_host_scheme \<Rightarrow> bool" where
  "drains taken out H \<longleftrightarrow>
     (\<forall>w. taken (snd (dw_recv H w)) = taken w @ (case fst (dw_recv H w) of None \<Rightarrow> [] | Some e \<Rightarrow> [e]) \<and> out (snd (dw_recv H w)) = out w) \<and>
     (\<forall>w. taken (snd (h_now H w)) = taken w \<and> out (snd (h_now H w)) = out w)"

definition file_writer_laws ::
    "('w \<Rightarrow> dlq_envelope list) \<Rightarrow> ('w \<Rightarrow> bytes) \<Rightarrow> ('w \<Rightarrow> bytes) \<Rightarrow> ('w, 'h) dlq_writer_host_scheme \<Rightarrow> bool" where
  "file_writer_laws taken out kept H \<longleftrightarrow>
     drains taken out H \<and>
     (\<forall>bs w w'. dw_write_all H bs w = (Inr (), w') \<longrightarrow> taken w' = taken w \<and> out w' = out w @ bs) \<and>
     (\<forall>w w'. dw_flush H w = (Inr (), w') \<longrightarrow> taken w' = taken w \<and> out w' = out w \<and> kept w' = out w) \<and>
     (\<forall>w w'. dw_sync_data H w = (Inr (), w') \<longrightarrow> taken w' = taken w \<and> out w' = out w \<and> kept w' = kept w) \<and>
     (\<forall>w w'. dw_sync_all H w = (Inr (), w') \<longrightarrow> taken w' = taken w \<and> out w' = out w \<and> kept w' = kept w) \<and>
     (\<forall>p w w'. dw_open_append H p w = (Inr (), w') \<longrightarrow> taken w' = taken w \<and> out w' = kept w)"

lemma drainsD:
  assumes "drains taken out H"
  shows "dw_recv H w = (m, w') \<Longrightarrow> taken w' = taken w @ (case m of None \<Rightarrow> [] | Some e \<Rightarrow> [e])"
    "dw_recv H w = (m, w') \<Longrightarrow> out w' = out w" "taken (snd (h_now H w)) = taken w" "out (snd (h_now H w)) = out w"
  using assms unfolding drains_def by (metis fst_conv snd_conv)+

lemma file_writer_lawsD:
  assumes "file_writer_laws taken out kept H"
  shows "drains taken out H"
    "dw_write_all H bs w = (Inr (), w') \<Longrightarrow> taken w' = taken w \<and> out w' = out w @ bs"
    "dw_flush H w = (Inr (), w') \<Longrightarrow> taken w' = taken w \<and> out w' = out w \<and> kept w' = out w"
    "dw_sync_data H w = (Inr (), w') \<Longrightarrow> taken w' = taken w \<and> out w' = out w"
    "dw_sync_all H w = (Inr (), w') \<Longrightarrow> taken w' = taken w \<and> out w' = out w \<and> kept w' = kept w"
    "dw_open_append H p w = (Inr (), w') \<Longrightarrow> taken w' = taken w \<and> out w' = kept w"
  using assms unfolding file_writer_laws_def by simp_all

definition record_line :: "('w, 'h) dlq_writer_host_scheme \<Rightarrow> dlq_envelope \<Rightarrow> bytes" where
  "record_line H env = (case dw_json H env of Inl _ \<Rightarrow> [] | Inr line \<Rightarrow> line @ [0x0A])"

lemma sync_if_due_keeps:
  assumes "file_writer_laws taken out kept H" "sync_if_due H lst w = (Inr l, w')"
  shows "taken w' = taken w \<and> out w' = out w"
proof -
  let ?w1 = "snd (h_now H w)"
  have clock: "taken (snd (h_now H v)) = taken v \<and> out (snd (h_now H v)) = out v" for v
    using drainsD(3,4) [OF file_writer_lawsD(1) [OF assms(1)]] by simp
  show ?thesis
  proof (cases "fst (h_now H w) - lst < DLQ_SYNC_INTERVAL")
    case True
    then show ?thesis using assms(2) clock [of w] by (auto simp: sync_if_due_def elapsed_eq)
  next
    case False
    obtain r2 w2 where f: "dw_flush H ?w1 = (r2, w2)" by fastforce
    obtain r3 w3 where s: "dw_sync_data H w2 = (r3, w3)" by fastforce
    have ok: "r2 = Inr ()" "r3 = Inr ()" "w' = snd (h_now H w3)"
      using assms(2) False f s by (auto simp: sync_if_due_def elapsed_eq case_prod_beta split: sum.splits)
    then show ?thesis
      using file_writer_lawsD(3,4) [OF assms(1)] f s clock by metis
  qed
qed

lemma write_record_out:
  assumes "file_writer_laws taken out kept H" "write_record H lst env w = (Inr l, w')"
  shows "taken w' = taken w \<and> out w' = out w @ record_line H env"
proof -
  obtain line where line: "dw_json H env = Inr line" using assms(2) by (auto simp: write_record_def split: sum.splits)
  obtain r1 w1 where wr: "dw_write_all H (line @ [0x0A]) w = (r1, w1)" by fastforce
  obtain r2 w2 where f: "flush_if_idle H w1 = (r2, w2)" by fastforce
  obtain r3 w3 where s: "sync_if_due H lst w2 = (r3, w3)" by fastforce
  have ok: "r1 = Inr ()" "r2 = Inr ()" "r3 = Inr l" "w' = w3"
    using assms(2) line wr f s by (auto simp: write_record_def map_sum_def split: sum.splits)
  have "taken w2 = taken w1 \<and> out w2 = out w1"
    using f ok(2) file_writer_lawsD(3) [OF assms(1)] by (auto simp: flush_if_idle_def split: if_splits)
  then show ?thesis
    using file_writer_lawsD(2) [OF assms(1)] wr ok sync_if_due_keeps [OF assms(1)] s line by (simp add: record_line_def)
qed

lemma write_records_out:
  assumes "file_writer_laws taken out kept H"
  shows "write_records H k lst w = Some (Inr (), w') \<Longrightarrow>
    \<exists>es. taken w' = taken w @ es \<and> out w' = out w @ concat (map (record_line H) es)"
proof (induction k arbitrary: lst w)
  case (Suc k)
  obtain m w1 where m: "dw_recv H w = (m, w1)" by fastforce
  note recv = drainsD(1,2) [OF file_writer_lawsD(1) [OF assms] m]
  show ?case
  proof (cases m)
    case None
    then show ?thesis using Suc.prems m recv by (intro exI [of _ "[]"]) simp
  next
    case (Some env)
    obtain r w2 where r: "write_record H lst env w1 = (r, w2)" by fastforce
    then obtain l where l: "r = Inr l" "write_records H k l w2 = Some (Inr (), w')"
      using Suc.prems m Some by (auto split: sum.splits)
    from Suc.IH [OF l(2)] write_record_out [OF assms] r l(1) recv Some show ?thesis
      by (fastforce intro: exI [of _ "env # _"])
  qed
qed simp

text \<open>Each reception brings the end of a channel nearer whose senders are about to be dropped.\<close>

definition winding_down :: "('w \<Rightarrow> nat) \<Rightarrow> ('w, 'h) dlq_writer_host_scheme \<Rightarrow> bool" where
  "winding_down left H \<longleftrightarrow>
     (\<forall>w. fst (dw_recv H w) \<noteq> None \<longrightarrow> left (snd (dw_recv H w)) < left w) \<and>
     (\<forall>w. left (snd (h_now H w)) \<le> left w) \<and> (\<forall>p w. left (snd (dw_open_append H p w)) \<le> left w) \<and>
     (\<forall>bs w. left (snd (dw_write_all H bs w)) \<le> left w) \<and> (\<forall>w. left (snd (dw_flush H w)) \<le> left w) \<and>
     (\<forall>w. left (snd (dw_sync_data H w)) \<le> left w) \<and> (\<forall>t bs w. left (snd (dw_publish H t bs w)) \<le> left w) \<and>
     (\<forall>b p a t w. left (dw_connect H b p a t w) \<le> left w)"

lemma winding_downD:
  assumes "winding_down left H"
  shows "dw_recv H w = (Some e, w') \<Longrightarrow> left w' < left w" "left (snd (h_now H w)) \<le> left w"
    "dw_open_append H p w = (r, w') \<Longrightarrow> left w' \<le> left w" "dw_write_all H bs w = (r, w') \<Longrightarrow> left w' \<le> left w"
    "dw_flush H w = (r, w') \<Longrightarrow> left w' \<le> left w" "dw_sync_data H w = (r, w') \<Longrightarrow> left w' \<le> left w"
    "dw_publish H t bs w = (r, w') \<Longrightarrow> left w' \<le> left w" "left (dw_connect H b po a tr w) \<le> left w"
  using assms unfolding winding_down_def by (metis fst_conv snd_conv option.distinct(1))+

lemma sync_if_due_left:
  assumes "winding_down left H" "sync_if_due H lst w = (r, w')"
  shows "left w' \<le> left w"
proof -
  let ?w1 = "snd (h_now H w)"
  obtain r2 w2 where f: "dw_flush H ?w1 = (r2, w2)" by fastforce
  obtain r3 w3 where s: "dw_sync_data H w2 = (r3, w3)" by fastforce
  have "w' \<in> {?w1, w2, w3, snd (h_now H w3)}"
    using assms(2) f s by (auto simp: sync_if_due_def elapsed_eq case_prod_beta split: sum.splits if_splits)
  then show ?thesis
    using winding_downD(2) [OF assms(1), of w] winding_downD(2) [OF assms(1), of w3] winding_downD(5) [OF assms(1) f]
      winding_downD(6) [OF assms(1) s] by auto
qed

lemma write_record_left:
  assumes "winding_down left H" "write_record H lst env w = (r, w')"
  shows "left w' \<le> left w"
proof (cases "dw_json H env")
  case (Inl e)
  then show ?thesis using assms(2) by (simp add: write_record_def)
next
  case (Inr line)
  obtain r1 w1 where wr: "dw_write_all H (line @ [0x0A]) w = (r1, w1)" by fastforce
  obtain r2 w2 where f: "flush_if_idle H w1 = (r2, w2)" by fastforce
  obtain r3 w3 where s: "sync_if_due H lst w2 = (r3, w3)" by fastforce
  have "w' \<in> {w1, w2, w3}" using assms(2) Inr wr f s by (auto simp: write_record_def split: sum.splits)
  moreover have "left w2 \<le> left w1" using f winding_downD(5) [OF assms(1)] by (auto simp: flush_if_idle_def split: if_splits)
  ultimately show ?thesis using winding_downD(4) [OF assms(1) wr] sync_if_due_left [OF assms(1) s] by auto
qed

lemma write_records_returns:
  assumes "winding_down left H"
  shows "left w < k \<Longrightarrow> write_records H k lst w \<noteq> None"
proof (induction k arbitrary: lst w)
  case (Suc k)
  obtain m w1 where m: "dw_recv H w = (m, w1)" by fastforce
  show ?case
  proof (cases m)
    case (Some env)
    obtain r w2 where r: "write_record H lst env w1 = (r, w2)" by fastforce
    have "left w2 < k" using write_record_left [OF assms r] winding_downD(1) [OF assms] m Some Suc.prems by fastforce
    then show ?thesis using Suc.IH m Some r by (auto split: sum.split)
  qed (simp add: m)
qed simp

lemma publish_records_returns:
  assumes "winding_down left H"
  shows "left w < k \<Longrightarrow> publish_records H k topic w \<noteq> None"
proof (induction k arbitrary: w)
  case (Suc k)
  obtain m w1 where m: "dw_recv H w = (m, w1)" by fastforce
  show ?case
  proof (cases m)
    case (Some env)
    have "left w1 < k" using winding_downD(1) [OF assms] m Some Suc.prems by fastforce
    then have "publish_records H k topic w2 \<noteq> None" if "dw_publish H topic body w1 = (r, w2)" for body r w2
      using Suc.IH [of w2] winding_downD(7) [OF assms that] by simp
    then show ?thesis using m Some by (auto split: sum.split prod.split)
  qed (simp add: m)
qed simp

section \<open>Properties\<close>

text \<open>
  C15: The dead-letter file is complete. When the file writer ends well, the file holds what it held before
  followed by one JSON line for each record taken from the channel, in order; records that nodes flush while
  they shut down are therefore not lost.
\<close>

theorem dead_letter_file_complete:
  assumes "file_writer_laws taken out kept H" "run_dlq_sink H k (DlFile path n) w = Some (Inr (), w')"
  shows "\<exists>es. taken w' = taken w @ es \<and> kept w' = kept w @ concat (map (record_line H) es)"
proof -
  note laws = file_writer_lawsD [OF assms(1)]
  obtain r1 w1 where ap: "dw_open_append H path w = (r1, w1)" by fastforce
  obtain t w2 where now: "h_now H w1 = (t, w2)" by fastforce
  have "r1 = Inr ()" using assms(2) ap by (auto simp: run_dlq_sink_def write_dlq_file_def split: sum.splits)
  then obtain w3 where ws: "write_records H k t w2 = Some (Inr (), w3)"
    using assms(2) ap now by (auto simp: run_dlq_sink_def write_dlq_file_def split: sum.splits option.splits)
  obtain r4 w4 where f: "dw_flush H w3 = (r4, w4)" by fastforce
  obtain r5 w5 where s: "dw_sync_all H w4 = (r5, w5)" by fastforce
  have ok: "r4 = Inr ()" "r5 = Inr ()" "w' = w5"
    using assms(2) ap now ws f s \<open>r1 = Inr ()\<close> by (auto simp: run_dlq_sink_def write_dlq_file_def map_sum_def split: sum.splits)
  have "taken w2 = taken w \<and> out w2 = kept w"
    using laws(6) ap \<open>r1 = Inr ()\<close> drainsD(3,4) [OF laws(1), of w1] now by simp
  moreover obtain es where "taken w3 = taken w2 @ es" "out w3 = out w2 @ concat (map (record_line H) es)"
    using write_records_out [OF assms(1) ws] by blast
  ultimately show ?thesis using laws(3) [of w3 w4] laws(5) [of w4 w5] f s ok by auto
qed

text \<open>
  The dead-letter task returns, whether it writes a file or publishes: when the nodes drop their senders,
  so that only finitely many more records can be received, fuel beyond that number gives a result.
\<close>

theorem dead_letter_task_returns:
  assumes "winding_down left H" "left w < k"
  shows "run_dlq_sink H k c w \<noteq> None"
proof (cases c)
  case (DlFile path n)
  obtain r1 w1 where ap: "dw_open_append H path w = (r1, w1)" by fastforce
  have "left (snd (h_now H w1)) < k"
    using winding_downD(2) [OF assms(1), of w1] winding_downD(3) [OF assms(1) ap] assms(2) by simp
  then have "write_records H k (fst (h_now H w1)) (snd (h_now H w1)) \<noteq> None" by (rule write_records_returns [OF assms(1)])
  then show ?thesis using DlFile ap by (auto simp: run_dlq_sink_def write_dlq_file_def case_prod_beta split: sum.split)
next
  case (DlMqtt b p t n tls auth)
  have "publish_records H k t (dw_connect H b p auth tr w) \<noteq> None" for tr
    using winding_downD(8) [OF assms(1), of b p auth tr w] assms(2) by (intro publish_records_returns [OF assms(1)]) simp
  note publishes = this
  show ?thesis
  proof (cases "case tls of None \<Rightarrow> Inr None | Some t \<Rightarrow> map_sum id Some (tls_transport H t w)")
    case (Inl e)
    then show ?thesis using DlMqtt by (simp add: run_dlq_sink_def publish_dlq_def)
  next
    case (Inr tr)
    obtain r w1 where "publish_records H k t (dw_connect H b p auth tr w) = Some (r, w1)" using publishes [of tr] by auto
    then show ?thesis using DlMqtt Inr by (cases r) (simp_all add: run_dlq_sink_def publish_dlq_def)
  qed
qed

section \<open>A channel and a file in memory\<close>

record memory_dlq =
  mq_clock :: nat
  mq_queue :: "dlq_envelope list"
  mq_taken :: "dlq_envelope list"
  mq_out :: bytes
  mq_kept :: bytes

definition memory_take :: "memory_dlq \<Rightarrow> dlq_envelope option \<times> memory_dlq" where
  "memory_take w =
     (case mq_queue w of
        [] \<Rightarrow> (None, w)
      | e # q \<Rightarrow> (Some e, w\<lparr>mq_queue := q, mq_taken := mq_taken w @ [e]\<rparr>))"

definition memory_dlq_host :: "memory_dlq dlq_writer_host" where
  "memory_dlq_host =
     \<lparr>h_now = (\<lambda>w. (mq_clock w, w\<lparr>mq_clock := mq_clock w + 600000000\<rparr>)), h_system_now = (\<lambda>w. (0, w)), dw_recv = memory_take,
      dw_is_empty = (\<lambda>w. mq_queue w = []), dw_json = (\<lambda>e. Inr [word_of_nat (unat (de_retry_count e))]),
      dw_open_append = (\<lambda>p w. (Inr (), w\<lparr>mq_out := mq_kept w\<rparr>)), dw_write_all = (\<lambda>bs w. (Inr (), w\<lparr>mq_out := mq_out w @ bs\<rparr>)),
      dw_flush = (\<lambda>w. (Inr (), w\<lparr>mq_kept := mq_out w\<rparr>)), dw_sync_data = (\<lambda>w. (Inr (), w)), dw_sync_all = (\<lambda>w. (Inr (), w)),
      dw_read_file = (\<lambda>p w. Inl ''no file''), dw_connect = (\<lambda>b p a t w. w), dw_publish = (\<lambda>t bs w. (Inr (), w)),
      dw_disconnect = (\<lambda>w. (Inr (), w)), dw_join_event_loop = (\<lambda>w. (Inr (Inr ()), w))\<rparr>"

lemma memory_dlq_laws: "file_writer_laws mq_taken mq_out mq_kept memory_dlq_host"
  by (auto simp: file_writer_laws_def drains_def memory_dlq_host_def memory_take_def split: list.split)

lemma memory_dlq_winds_down: "winding_down (\<lambda>w. length (mq_queue w)) memory_dlq_host"
  by (auto simp: winding_down_def memory_dlq_host_def memory_take_def split: list.split)

definition two_letters :: "memory_dlq" where
  "two_letters =
     (let e = \<lparr>de_timestamp = 0, de_source_node = ''n'', de_error_category = None, de_error_message = [], de_retry_count = 1,
               de_reason = RQueueFull ''e'', de_original = envelope_new ''id'' 0 ''src'' [], de_trace_id = None, de_parent_id = None\<rparr>
      in \<lparr>mq_clock = 0, mq_queue = [e, e\<lparr>de_retry_count := 2\<rparr>], mq_taken = [], mq_out = [], mq_kept = [9]\<rparr>)"

theorem dead_letter_task_returns_witness:
  "length (mq_queue two_letters) < 3 \<and> run_dlq_sink memory_dlq_host 3 (DlFile ''dlq'' 8) two_letters \<noteq> None"
  using dead_letter_task_returns [OF memory_dlq_winds_down, of two_letters 3] by (simp add: two_letters_def Let_def)

theorem dead_letter_file_complete_witness:
  "\<exists>w'. run_dlq_sink memory_dlq_host 3 (DlFile ''dlq'' 8) two_letters = Some (Inr (), w') \<and> mq_kept w' = [9, 1, 10, 2, 10]"
proof -
  obtain w' where w': "run_dlq_sink memory_dlq_host 3 (DlFile ''dlq'' 8) two_letters = Some (Inr (), w')"
    "mq_taken w' = mq_queue two_letters"
    by (simp add: run_dlq_sink_def write_dlq_file_def numeral_3_eq_3 write_record_def flush_if_idle_def sync_if_due_def
        memory_dlq_host_def memory_take_def two_letters_def elapsed_eq DLQ_SYNC_INTERVAL_def Let_def)
  from dead_letter_file_complete [OF memory_dlq_laws w'(1)] obtain es where
    "mq_taken w' = mq_taken two_letters @ es" "mq_kept w' = mq_kept two_letters @ concat (map (record_line memory_dlq_host) es)" by blast
  with w' show ?thesis by (auto simp: two_letters_def record_line_def memory_dlq_host_def Let_def)
qed

end
