(* ===== verification/ThresholdFilter.thy ===== *)
theory ThresholdFilter
  imports Doubles WasmNode
begin

text \<open>
  The threshold filter in its three forms: the guest plugins \<open>plugins/threshold-filter\<close> and
  \<open>plugins/threshold-filter-v2\<close>, and the native baseline \<open>NativeFilter::range\<close> with the other JSON built-ins of
  \<open>wafer-core/src/node/native/mod.rs\<close>. Text is the list of its bytes, as characters; the string operations of
  the standard library work on the bytes, which for valid UTF-8 and ASCII patterns is the same. The native
  filter is documented to match the plugin: the theorems say where it does and where it does not.
\<close>

section \<open>Text\<close>

definition text_of :: "bytes \<Rightarrow> string" where
  "text_of bs = map (\<lambda>b. char_of (unat b)) bs"

definition continuation :: "nat \<Rightarrow> bool" where
  "continuation b \<longleftrightarrow> 0x80 \<le> b \<and> b \<le> 0xBF"

text \<open>The range of the second byte of a sequence of three or four.\<close>

definition second_ok :: "nat \<Rightarrow> nat \<Rightarrow> bool" where
  "second_ok b c \<longleftrightarrow>
     (if b = 0xE0 then 0xA0 \<le> c \<and> c \<le> 0xBF else if b = 0xED then 0x80 \<le> c \<and> c \<le> 0x9F
      else if b = 0xF0 then 0x90 \<le> c \<and> c \<le> 0xBF else if b = 0xF4 then 0x80 \<le> c \<and> c \<le> 0x8F else continuation c)"

fun utf8_valid :: "nat list \<Rightarrow> bool" where
  "utf8_valid [] = True"
| "utf8_valid (b # r) =
     (if b < 0x80 then utf8_valid r
      else if 0xC2 \<le> b \<and> b \<le> 0xDF then (case r of c # r' \<Rightarrow> continuation c \<and> utf8_valid r' | [] \<Rightarrow> False)
      else if 0xE0 \<le> b \<and> b \<le> 0xEF
      then (case r of c # d # r' \<Rightarrow> second_ok b c \<and> continuation d \<and> utf8_valid r' | _ \<Rightarrow> False)
      else if 0xF0 \<le> b \<and> b \<le> 0xF4
      then (case r of c # d # e # r' \<Rightarrow> second_ok b c \<and> continuation d \<and> continuation e \<and> utf8_valid r' | _ \<Rightarrow> False)
      else False)"

definition from_utf8 :: "bytes \<Rightarrow> string option" where
  "from_utf8 bs = (if utf8_valid (map unat bs) then Some (text_of bs) else None)"

text \<open>\<open>str::find\<close> for a substring and for a character class: the byte index.\<close>

fun find_str :: "string \<Rightarrow> string \<Rightarrow> nat option" where
  "find_str needle [] = (if needle = [] then Some 0 else None)"
| "find_str needle (c # s) =
     (if take (length needle) (c # s) = needle then Some 0 else map_option Suc (find_str needle s))"

fun find_char :: "(char \<Rightarrow> bool) \<Rightarrow> string \<Rightarrow> nat option" where
  "find_char P [] = None"
| "find_char P (c # s) = (if P c then Some 0 else map_option Suc (find_char P s))"

text \<open>The encodings of the characters with the Unicode property White_Space.\<close>

definition whitespace :: "string list" where
  "whitespace =
     [[CHR 0x09], [CHR 0x0A], [CHR 0x0B], [CHR 0x0C], [CHR 0x0D], [CHR 0x20]] @
     map (map (\<lambda>n. char_of (n :: nat)))
       ([[0xC2, 0x85], [0xC2, 0xA0], [0xE1, 0x9A, 0x80], [0xE2, 0x80, 0xA8], [0xE2, 0x80, 0xA9], [0xE2, 0x80, 0xAF],
         [0xE2, 0x81, 0x9F], [0xE3, 0x80, 0x80]] @ map (\<lambda>n. [0xE2, 0x80, n]) [0x80..<0x8B])"

definition leading :: "string list \<Rightarrow> string \<Rightarrow> string option" where
  "leading ws s = List.find (\<lambda>c. c \<noteq> [] \<and> take (length c) s = c) ws"

function strip_leading :: "string list \<Rightarrow> string \<Rightarrow> string" where
  "strip_leading ws s = (case leading ws s of None \<Rightarrow> s | Some c \<Rightarrow> strip_leading ws (drop (length c) s))"
  by auto
termination
proof (relation "measure (\<lambda>(ws, s). length s)")
  fix ws s c assume "leading ws s = Some c"
  then have c: "c \<noteq> []" "take (length c) s = c" by (simp_all add: leading_def find_Some_iff) (elim exE conjE; simp)+
  have "0 < length c" using c(1) by simp
  moreover have "length c \<le> length s" using c(2) by (metis length_take min.cobounded1)
  ultimately have "length (drop (length c) s) < length s" by (simp only: length_drop)
  then show "((ws, drop (length c) s), ws, s) \<in> measure (\<lambda>(ws, s). length s)" by simp
qed simp

declare strip_leading.simps [simp del]

definition trim_start :: "string \<Rightarrow> string" where
  "trim_start s = strip_leading whitespace s"

definition trim :: "string \<Rightarrow> string" where
  "trim s = rev (strip_leading (map rev whitespace) (rev (trim_start s)))"

definition is_ascii_whitespace :: "char \<Rightarrow> bool" where
  "is_ascii_whitespace c \<longleftrightarrow> (of_char c :: nat) \<in> {9, 10, 12, 13, 32}"

definition needle_of :: "string \<Rightarrow> string" where
  "needle_of key = [CHR 0x22] @ key @ [CHR 0x22]"

text \<open>The text after the first occurrence of a pattern.\<close>

definition after_str :: "string \<Rightarrow> string \<Rightarrow> string option" where
  "after_str needle s = map_option (\<lambda>i. drop (i + length needle) s) (find_str needle s)"

section \<open>The native functions\<close>

definition numeric_char :: "char \<Rightarrow> bool" where
  "numeric_char c \<longleftrightarrow> is_digit c \<or> c = CHR ''.'' \<or> c = CHR ''-''"

definition extract_json_number :: "string \<Rightarrow> string \<Rightarrow> f64 option" where
  "extract_json_number json field =
     (case after_str (needle_of field) json of
        None \<Rightarrow> None
      | Some after_key \<Rightarrow>
          (case trim_start after_key of
             c # after_colon \<Rightarrow>
               if c = CHR '':'' then
                 let value_str = trim_start after_colon;
                     n = (case find_char (\<lambda>c. \<not> numeric_char c) value_str of None \<Rightarrow> length value_str | Some n \<Rightarrow> n)
                 in parse_f64 (take n value_str)
               else None
           | [] \<Rightarrow> None))"

definition range_filter :: "string \<Rightarrow> f64 \<Rightarrow> f64 \<Rightarrow> runtime_envelope \<Rightarrow> bool" where
  "range_filter field lo hi env =
     (case from_utf8 (re_payload env) of
        None \<Rightarrow> False
      | Some s \<Rightarrow> (case extract_json_number s field of None \<Rightarrow> False | Some v \<Rightarrow> f64_le lo v \<and> f64_le v hi))"

definition threshold_filter :: "f64 \<Rightarrow> runtime_envelope \<Rightarrow> bool" where
  "threshold_filter threshold env =
     (case from_utf8 (re_payload env) of
        None \<Rightarrow> False
      | Some s \<Rightarrow> (case extract_json_number s ''temperature'' of None \<Rightarrow> False | Some t \<Rightarrow> f64_less threshold t))"

definition native_content_route :: "f64 \<Rightarrow> string \<Rightarrow> string \<Rightarrow> runtime_envelope \<Rightarrow> string list" where
  "native_content_route threshold high low env =
     (case from_utf8 (re_payload env) of
        None \<Rightarrow> []
      | Some s \<Rightarrow>
          (case extract_json_number s ''level'' of
             Some v \<Rightarrow> if f64_le threshold v then [high] else [low]
           | None \<Rightarrow> []))"

definition native_route_by_first_byte :: "(u8 \<times> string) list \<Rightarrow> runtime_envelope \<Rightarrow> string list" where
  "native_route_by_first_byte rules env =
     (case re_payload env of
        [] \<Rightarrow> []
      | first # _ \<Rightarrow> map snd (filter (\<lambda>(b, _). b = first) rules))"

section \<open>The plugin\<close>

record filter_config =
  fc_field :: string
  fc_min :: f64
  fc_max :: f64

function find_quote_from :: "string \<Rightarrow> nat \<Rightarrow> nat option" where
  "find_quote_from s i =
     (if i < length s then
        if s ! i = CHR 0x5C then find_quote_from s (i + 2)
        else if s ! i = CHR 0x22 then Some i else find_quote_from s (i + 1)
      else None)"
  by auto
termination by (relation "measure (\<lambda>(s, i). length s - i)") auto

declare find_quote_from.simps [simp del]

definition find_unescaped_quote :: "string \<Rightarrow> nat option" where
  "find_unescaped_quote s = find_quote_from s 0"

definition quoted_value :: "string \<Rightarrow> string option" where
  "quoted_value trimmed =
     (case trimmed of
        c # value_start \<Rightarrow>
          if c = CHR 0x22 then map_option (\<lambda>n. take n value_start) (find_unescaped_quote value_start) else None
      | [] \<Rightarrow> None)"

definition plugin_extract_string :: "string \<Rightarrow> string \<Rightarrow> string option" where
  "plugin_extract_string json key =
     (case after_str (needle_of key) json of
        None \<Rightarrow> None
      | Some after_key \<Rightarrow>
          (case after_key of
             c # after_colon \<Rightarrow>
               if is_ascii_whitespace c \<or> c = CHR '':'' then quoted_value (trim_start after_colon) else None
           | [] \<Rightarrow> None))"

definition number_end :: "char \<Rightarrow> bool" where
  "number_end c \<longleftrightarrow> c \<in> {CHR '','', CHR ''}'', CHR '']'', CHR 0x0A, CHR 0x0D}"

definition plugin_extract_number :: "string \<Rightarrow> string \<Rightarrow> f64 option" where
  "plugin_extract_number json key =
     (case after_str (needle_of key) json of
        None \<Rightarrow> None
      | Some after_key \<Rightarrow>
          (case find_char (\<lambda>c. c = CHR '':'') after_key of
             None \<Rightarrow> None
           | Some colon_pos \<Rightarrow>
               let trimmed = trim_start (drop (colon_pos + 1) after_key);
                   n = (case find_char number_end trimmed of None \<Rightarrow> length trimmed | Some n \<Rightarrow> n)
               in parse_f64 (trim (take n trimmed))))"

definition single_quoted :: "string \<Rightarrow> string" where
  "single_quoted s = [CHR 0x27] @ s @ [CHR 0x27]"

definition parse_filter_config :: "string \<Rightarrow> (string, filter_config) result" where
  "parse_filter_config json =
     (case plugin_extract_string json ''field'' of
        None \<Rightarrow> Inl (''missing or invalid '' @ single_quoted ''field'' @ '' in config'')
      | Some field \<Rightarrow>
          (case plugin_extract_number json ''min'' of
             None \<Rightarrow> Inl (''missing or invalid '' @ single_quoted ''min'' @ '' in config'')
           | Some lo \<Rightarrow>
               (case plugin_extract_number json ''max'' of
                  None \<Rightarrow> Inl (''missing or invalid '' @ single_quoted ''max'' @ '' in config'')
                | Some hi \<Rightarrow>
                    if f64_less hi lo then Inl (single_quoted ''min'' @ '' must be <= '' @ single_quoted ''max'')
                    else Inr \<lparr>fc_field = field, fc_min = lo, fc_max = hi\<rparr>)))"

text \<open>
  The guest's state is the configuration its \<open>init\<close> stored; \<open>with_state!\<close> panics, \<open>None\<close>, when there is none.
  \<open>accept\<close> is the comparison, the one place where the two versions of the plugin differ.
\<close>

definition filter_validate :: "string \<Rightarrow> string option" where
  "filter_validate config = (case parse_filter_config config of Inl e \<Rightarrow> Some e | Inr _ \<Rightarrow> None)"

definition filter_init :: "string \<Rightarrow> filter_config option \<Rightarrow> (wasm_process_error, unit) result \<times> filter_config option" where
  "filter_init config st =
     (case parse_filter_config config of Inl e \<Rightarrow> (Inl (BadInput e), st) | Inr cfg \<Rightarrow> (Inr (), Some cfg))"

definition payload_as_str :: "bytes \<Rightarrow> (wasm_process_error, string) result" where
  "payload_as_str p = (case from_utf8 p of None \<Rightarrow> Inl (BadInput ''payload is not valid UTF-8'') | Some s \<Rightarrow> Inr s)"

definition accept_v1 :: "filter_config \<Rightarrow> f64 \<Rightarrow> bool" where
  "accept_v1 cfg v \<longleftrightarrow> f64_le (fc_min cfg) v \<and> f64_le v (fc_max cfg)"

definition MIN_FLOOR :: f64 where
  "MIN_FLOOR = decimal_f64 False 60 0"

definition accept_v2 :: "filter_config \<Rightarrow> f64 \<Rightarrow> bool" where
  "accept_v2 cfg v \<longleftrightarrow> f64_le (f64_max (fc_min cfg) MIN_FLOOR) v \<and> f64_le v (fc_max cfg)"

definition evaluate_with ::
  "(filter_config \<Rightarrow> f64 \<Rightarrow> bool) \<Rightarrow> filter_config option \<Rightarrow> bytes \<Rightarrow> (wasm_process_error, bool) result option" where
  "evaluate_with accept st p =
     (case payload_as_str p of
        Inl e \<Rightarrow> Some (Inl e)
      | Inr s \<Rightarrow>
          (case st of
             None \<Rightarrow> None
           | Some cfg \<Rightarrow>
               (case plugin_extract_number s (fc_field cfg) of
                  None \<Rightarrow> Some (Inl (BadInput ''field not found''))
                | Some v \<Rightarrow> Some (Inr (accept cfg v)))))"

definition filter_evaluate :: "filter_config option \<Rightarrow> bytes \<Rightarrow> (wasm_process_error, bool) result option" where
  "filter_evaluate = evaluate_with accept_v1"

definition filter_evaluate_v2 :: "filter_config option \<Rightarrow> bytes \<Rightarrow> (wasm_process_error, bool) result option" where
  "filter_evaluate_v2 = evaluate_with accept_v2"

section \<open>White space and numbers\<close>

definition json_space :: "char \<Rightarrow> bool" where
  "json_space c \<longleftrightarrow> c \<in> {CHR 0x09, CHR 0x0A, CHR 0x0D, CHR 0x20}"

text \<open>A character of one byte that no white space starts or ends with.\<close>

definition plain :: "char \<Rightarrow> bool" where
  "plain c \<longleftrightarrow> 33 \<le> (of_char c :: nat) \<and> (of_char c :: nat) < 128"

lemma whitespace_bounds:
  "\<forall>w \<in> set whitespace. (of_char (hd w) :: nat) \<notin> {33..<128} \<and> (of_char (hd (rev w)) :: nat) \<notin> {33..<128}"
  by (simp add: whitespace_def upt_conv_Cons char_of_eq_iff)

lemma leading_plain:
  assumes "plain c"
  shows "leading whitespace (c # s) = None" "leading (map rev whitespace) (c # s) = None"
proof -
  have none: "leading ws (c # s) = None" if "\<forall>w \<in> set ws. (of_char (hd w) :: nat) \<notin> {33..<128}" for ws
  proof -
    have "\<not> (w \<noteq> [] \<and> take (length w) (c # s) = w)" if "w \<in> set ws" for w
    proof
      assume "w \<noteq> [] \<and> take (length w) (c # s) = w"
      then have "hd w = c" by (cases w) auto
      then show False using \<open>\<forall>w \<in> set ws. _\<close> \<open>w \<in> set ws\<close> assms by (auto simp: plain_def)
    qed
    then show ?thesis by (simp add: leading_def find_None_iff)
  qed
  show "leading whitespace (c # s) = None" using whitespace_bounds by (intro none) simp
  show "leading (map rev whitespace) (c # s) = None" using whitespace_bounds by (intro none) simp
qed

lemma whitespace_ascii:
  "whitespace = [[CHR 0x09], [CHR 0x0A], [CHR 0x0B], [CHR 0x0C], [CHR 0x0D], [CHR 0x20]] @ drop 6 whitespace"
  by (simp add: whitespace_def)

lemma leading_space:
  assumes "json_space c"
  shows "leading whitespace (c # s) = Some [c]" "leading (map rev whitespace) (c # s) = Some [c]"
proof -
  have *: "leading (map f whitespace) (c # s) = Some [c]" if "\<And>c. f [c] = [c]" for f
    using assms that unfolding leading_def json_space_def
    by (subst whitespace_ascii) (elim insertE; simp)
  from * [of "\<lambda>w. w"] show "leading whitespace (c # s) = Some [c]" by simp
  from * [of rev] show "leading (map rev whitespace) (c # s) = Some [c]" by simp
qed

lemma strip_leading_plain [simp]:
  "plain c \<Longrightarrow> strip_leading whitespace (c # s) = c # s"
  "plain c \<Longrightarrow> strip_leading (map rev whitespace) (c # s) = c # s"
  by (simp_all add: strip_leading.simps leading_plain)

lemma strip_leading_spaces:
  assumes "list_all json_space sp"
  shows "strip_leading whitespace (sp @ s) = strip_leading whitespace s"
    "strip_leading (map rev whitespace) (sp @ s) = strip_leading (map rev whitespace) s"
  using assms by (induction sp) (simp_all add: strip_leading.simps [of _ "_ # _"] leading_space)

lemma trim_start_spaces: "list_all json_space sp \<Longrightarrow> plain c \<Longrightarrow> trim_start (sp @ c # s) = c # s"
  by (simp add: trim_start_def strip_leading_spaces)

lemma trim_plain:
  assumes "s \<noteq> []" "plain (hd s)" "plain (last s)" "list_all json_space sp"
  shows "trim (s @ sp) = s"
proof -
  obtain c r where s: "s = c # r" using assms(1) by (cases s) auto
  obtain r' d where s': "s = r' @ [d]" using assms(1) by (cases s rule: rev_cases) auto
  have "trim_start (s @ sp) = s @ sp" using trim_start_spaces [of "[]" c "r @ sp"] assms(2) s by simp
  moreover have "strip_leading (map rev whitespace) (rev sp @ rev s) = rev s"
    using assms(3,4) s' by (simp add: strip_leading_spaces list_all_rev)
  ultimately show ?thesis by (simp add: trim_def)
qed

lemma take_find_char:
  "take (case find_char P s of None \<Rightarrow> length s | Some n \<Rightarrow> n) s = takeWhile (\<lambda>c. \<not> P c) s"
proof (induction s)
  case (Cons c s)
  then show ?case by (cases "find_char P s") auto
qed simp

lemma drop_find_char:
  "list_all (\<lambda>c. \<not> P c) xs \<Longrightarrow> P c \<Longrightarrow> find_char P (xs @ c # s) = Some (length xs)"
  by (induction xs) auto

lemma numeric_plain: "numeric_char c \<Longrightarrow> plain c"
  by (auto simp: numeric_char_def is_digit_def plain_def)

lemma numeric_no_end: "numeric_char c \<Longrightarrow> \<not> number_end c"
  by (auto simp: numeric_char_def is_digit_def number_end_def of_char_def)

lemma space_not_colon: "json_space c \<Longrightarrow> c \<noteq> CHR '':''"
  by (auto simp: json_space_def)

lemma space_not_numeric: "json_space c \<Longrightarrow> \<not> numeric_char c"
  by (auto simp: json_space_def numeric_char_def is_digit_def of_char_def)

lemma number_end_not_numeric: "number_end c \<Longrightarrow> \<not> numeric_char c"
  using numeric_no_end by blast

text \<open>
  A member of a flat JSON object as the two scanners see it: the text after the key is a colon and a number,
  with spaces around them, up to the end of the member. The number is the digits, points and signs \<open>num\<close>, and
  what other text \<open>ext\<close> belongs to it, an exponent.
\<close>

definition member_text :: "string \<Rightarrow> string \<Rightarrow> string \<Rightarrow> string \<Rightarrow> bool" where
  "member_text after_key num ext tail \<longleftrightarrow>
     (let body = dropWhile json_space after_key; v = dropWhile json_space (tl body);
          rest = dropWhile json_space tail in
      body \<noteq> [] \<and> hd body = CHR '':'' \<and> v = num @ ext @ tail \<and>
      num \<noteq> [] \<and> list_all numeric_char num \<and>
      (ext = [] \<or> \<not> numeric_char (hd ext) \<and> plain (last ext) \<and> list_all (\<lambda>c. \<not> number_end c) ext) \<and>
      (rest = [] \<or> number_end (hd rest)))"

lemma list_all_takeWhile: "list_all P (takeWhile P xs)"
  by (induction xs) auto

lemma takeWhile_run: "list_all P xs \<Longrightarrow> ys = [] \<or> \<not> P (hd ys) \<Longrightarrow> takeWhile P (xs @ ys) = xs"
  by (cases ys) (auto simp: list_all_iff takeWhile_append)

lemma member_tail:
  assumes "member_text after_key num ext tail"
  shows "ext @ tail = [] \<or> \<not> numeric_char (hd (ext @ tail))"
proof (cases ext)
  case Nil
  then show ?thesis using assms space_not_numeric number_end_not_numeric
    by (cases tail) (auto simp: member_text_def Let_def split: if_splits)
next
  case (Cons c r)
  then show ?thesis using assms by (simp add: member_text_def Let_def)
qed

lemma member_parts:
  assumes "member_text after_key num ext tail"
  obtains sp body d r where "after_key = sp @ CHR '':'' # body" "list_all json_space sp"
    "trim_start after_key = CHR '':'' # body" "trim_start body = num @ ext @ tail"
    "num = d # r" "plain d"
proof -
  obtain body where after_key: "after_key = takeWhile json_space after_key @ CHR '':'' # body"
    and val: "dropWhile json_space body = num @ ext @ tail"
    using assms by (metis Let_def list.collapse member_text_def takeWhile_dropWhile_id)
  have "plain (CHR '':'')" by (simp add: plain_def of_char_def)
  then have colon: "trim_start after_key = CHR '':'' # body"
    by (metis after_key list_all_takeWhile trim_start_spaces)
  obtain d r where num: "num = d # r" "plain d" using assms numeric_plain
    by (cases num) (auto simp: member_text_def Let_def)
  have "trim_start body = num @ ext @ tail"
    by (metis append_Cons list_all_takeWhile num takeWhile_dropWhile_id trim_start_spaces val)
  then show ?thesis using that [OF after_key list_all_takeWhile colon _ num] by blast
qed

lemma member_native:
  assumes m: "member_text after_key num ext tail" and a: "after_str (needle_of field) json = Some after_key"
  shows "extract_json_number json field = parse_f64 num"
proof -
  obtain sp body d r where "trim_start after_key = CHR '':'' # body" "trim_start body = num @ ext @ tail"
    using member_parts [OF m] by metis
  moreover have "takeWhile (\<lambda>c. \<not> \<not> numeric_char c) (num @ ext @ tail) = num"
    using m member_tail [OF m] by (simp add: takeWhile_run member_text_def Let_def)
  ultimately show ?thesis using a by (simp add: extract_json_number_def take_find_char)
qed

lemma takeWhile_tail:
  assumes "dropWhile P tail = [] \<or> \<not> Q (hd (dropWhile P tail))"
  shows "takeWhile Q tail = takeWhile Q (takeWhile P tail)"
  using assms by (induction tail) auto

lemma member_plugin:
  assumes m: "member_text after_key num ext tail" and a: "after_str (needle_of field) json = Some after_key"
  shows "plugin_extract_number json field = parse_f64 (num @ ext)"
proof -
  obtain sp body d r where p: "after_key = sp @ CHR '':'' # body" "list_all json_space sp"
    "trim_start body = num @ ext @ tail" "num = d # r" "plain d"
    using member_parts [OF m] by metis
  have "list_all (\<lambda>c. \<not> c = CHR '':'') sp" using p(2) space_not_colon by (auto simp: list_all_iff)
  then have colon: "find_char (\<lambda>c. c = CHR '':'') after_key = Some (length sp)"
    unfolding p(1) by (intro drop_find_char) simp_all
  define sp' where "sp' = takeWhile (\<lambda>c. \<not> number_end c) (takeWhile json_space tail)"
  have "takeWhile (\<lambda>c. \<not> number_end c) tail = sp'"
    unfolding sp'_def using m by (intro takeWhile_tail) (auto simp: member_text_def Let_def)
  moreover have "list_all (\<lambda>c. \<not> number_end c) (num @ ext)"
    using m numeric_no_end by (auto simp: member_text_def Let_def list_all_iff)
  ultimately have "takeWhile (\<lambda>c. \<not> number_end c) (num @ ext @ tail) = (num @ ext) @ sp'"
    by (auto simp: takeWhile_append list_all_iff)
  moreover have "list_all json_space sp'"
    unfolding sp'_def list_all_iff by (meson set_takeWhileD)
  moreover have "plain (last (num @ ext))"
    using m numeric_plain by (auto simp: member_text_def Let_def list_all_iff last_append)
  ultimately have "trim (takeWhile (\<lambda>c. \<not> number_end c) (num @ ext @ tail)) = num @ ext"
    using p(4,5) trim_plain [of "num @ ext" sp'] by simp
  then show ?thesis
    using a colon p(1,3) by (simp add: plugin_extract_number_def take_find_char del: takeWhile.simps)
qed

section \<open>The native filter and the plugin\<close>

lemma utf8_text: "from_utf8 p = Some s \<Longrightarrow> payload_as_str p = Inr s"
  by (simp add: payload_as_str_def)

text \<open>
  C34: On every payload whose configured member is a plain decimal number, spaces around it or not, the native
  filter takes the decision of the plugin; where the number does not parse the native filter drops the message
  and the plugin reports a bad input.
\<close>

theorem native_filter_agrees:
  assumes "from_utf8 (re_payload env) = Some s" "after_str (needle_of (fc_field cfg)) s = Some after_key"
    "member_text after_key num [] tail"
  shows "filter_evaluate (Some cfg) (re_payload env) =
           Some (case parse_f64 num of
                   None \<Rightarrow> Inl (BadInput ''field not found'')
                 | Some v \<Rightarrow> Inr (range_filter (fc_field cfg) (fc_min cfg) (fc_max cfg) env))
         \<and> (parse_f64 num = None \<longrightarrow> \<not> range_filter (fc_field cfg) (fc_min cfg) (fc_max cfg) env)"
  using assms member_native [OF assms(3,2)] member_plugin [OF assms(3,2)]
  by (simp add: filter_evaluate_def evaluate_with_def utf8_text range_filter_def accept_v1_def split: option.splits)

lemma utf8_ascii: "list_all (\<lambda>c. (of_char c :: nat) < 128) s \<Longrightarrow> utf8_valid (map of_char s)"
  by (induction s) auto

lemma byte_of_char: "unat (of_char c :: u8) = of_char c"
proof -
  have "unat (of_nat (of_char c :: nat) :: u8) = of_char c" by (subst unat_of_nat) simp
  then show ?thesis by (simp only: of_nat_of_char)
qed

lemma text_of_chars: "text_of (map of_char s) = s"
  by (simp add: text_of_def comp_def map_idI byte_of_char)

lemma from_utf8_ascii:
  assumes "list_all (\<lambda>c. (of_char c :: nat) < 128) s"
  shows "from_utf8 (map of_char s) = Some s"
proof -
  have "map unat (map (of_char :: char \<Rightarrow> u8) s) = map of_char s" by (simp add: byte_of_char)
  then show ?thesis using utf8_ascii [OF assms] by (simp add: from_utf8_def text_of_chars del: map_map)
qed

definition reading_text :: "string \<Rightarrow> string" where
  "reading_text number = ''{'' @ needle_of ''temperature'' @ '': '' @ number @ ''}''"

definition reading :: "string \<Rightarrow> runtime_envelope" where
  "reading number = from_string ''m1'' 0 ''sensor'' (reading_text number)"

lemma reading_utf8:
  assumes "list_all (\<lambda>c. (of_char c :: nat) < 128) number"
  shows "from_utf8 (re_payload (reading number)) = Some (reading_text number)"
proof -
  have "list_all (\<lambda>c. (of_char c :: nat) < 128) (reading_text number)"
    using assms by (simp add: reading_text_def needle_of_def)
  from from_utf8_ascii [OF this] show ?thesis
    by (simp only: reading_def from_string_def envelope_new_def runtime_envelope.select_convs)
qed

definition fifty_up :: filter_config where
  "fifty_up = \<lparr>fc_field = ''temperature'', fc_min = decimal_f64 False 50 0, fc_max = decimal_f64 False 100 0\<rparr>"

lemmas decimal_eval = decimal_f64_def round_f64_def scaled_def half_even_def f64_overflows_def Let_def

lemmas number_eval = parse_f64_def parse_number_def split_sign_def parse_exponent_def digits_value_def is_digit_def
  to_ascii_lower_def Let_def

lemmas member_eval = member_text_def json_space_def numeric_char_def is_digit_def number_end_def plain_def

lemma decimals:
  "decimal_f64 False 5 0 = F64Fin False (5 * 2 ^ 50, - 50)"
  "decimal_f64 False 5 1 = F64Fin False (50 * 2 ^ 47, - 47)"
  "decimal_f64 False 50 0 = F64Fin False (50 * 2 ^ 47, - 47)"
  "decimal_f64 False 60 0 = F64Fin False (60 * 2 ^ 47, - 47)"
  "decimal_f64 False 100 0 = F64Fin False (100 * 2 ^ 46, - 46)"
  by (simp_all add: decimal_eval)

lemma fifty_up_field: "fc_field fifty_up = ''temperature''"
  by (simp add: fifty_up_def)

theorem native_filter_agrees_witness:
  "filter_evaluate (Some fifty_up) (re_payload (reading ''72.5'')) =
     Some (Inr (range_filter (fc_field fifty_up) (fc_min fifty_up) (fc_max fifty_up) (reading ''72.5'')))"
proof -
  have 1: "from_utf8 (re_payload (reading ''72.5'')) = Some (reading_text ''72.5'')" by (rule reading_utf8) simp
  have 2: "after_str (needle_of (fc_field fifty_up)) (reading_text ''72.5'') = Some '': 72.5}''"
    by (simp add: after_str_def reading_text_def needle_of_def fifty_up_field)
  have 3: "member_text '': 72.5}'' ''72.5'' [] ''}''" by (simp add: member_eval)
  have "parse_f64 ''72.5'' = Some (decimal_f64 False 725 (-1))" by (simp add: number_eval)
  with native_filter_agrees [OF 1 2 3] show ?thesis by simp
qed

lemma scientific_reading:
  "from_utf8 (re_payload (reading ''5e1'')) = Some (reading_text ''5e1'')"
  "after_str (needle_of ''temperature'') (reading_text ''5e1'') = Some '': 5e1}''"
  "member_text '': 5e1}'' ''5'' ''e1'' ''}''"
  "parse_f64 ''5e1'' = Some (decimal_f64 False 5 1)"
proof -
  show "from_utf8 (re_payload (reading ''5e1'')) = Some (reading_text ''5e1'')" by (rule reading_utf8) simp
qed (simp_all add: after_str_def reading_text_def needle_of_def member_eval number_eval)

lemmas scientific_numbers = member_native [OF scientific_reading(3,2)] member_plugin [OF scientific_reading(3,2)]

text \<open>
  A number written with an exponent separates them: the native filter stops reading at the exponent. On the
  reading \<open>5e1\<close> with the range 50 to 100 the plugin forwards the message, which is in range, and the native
  filter drops it, having read 5.
\<close>

theorem native_filter_ignores_exponent:
  "filter_evaluate (Some fifty_up) (re_payload (reading ''5e1'')) = Some (Inr True)
   \<and> \<not> range_filter (fc_field fifty_up) (fc_min fifty_up) (fc_max fifty_up) (reading ''5e1'')"
proof -
  have "parse_f64 ''5'' = Some (decimal_f64 False 5 0)" by (simp add: number_eval)
  moreover have "\<not> f64_le (fc_min fifty_up) (decimal_f64 False 5 0)"
    by (simp add: fifty_up_def decimals signed_at_def)
  moreover have "accept_v1 fifty_up (decimal_f64 False 5 1)"
    by (simp add: fifty_up_def accept_v1_def decimals signed_at_def)
  ultimately show ?thesis
    using scientific_numbers scientific_reading(1,4)
    by (simp add: filter_evaluate_def evaluate_with_def utf8_text range_filter_def fifty_up_field)
qed

section \<open>The second version\<close>

lemma signed_at_lower:
  assumes "k \<le> k'" "k' \<le> snd v"
  shows "signed_at k s v = signed_at k' s v * 2 ^ nat (k' - k)"
proof -
  have "nat (snd v - k) = nat (snd v - k') + nat (k' - k)" using assms by simp
  then show ?thesis by (simp add: signed_at_def Let_def power_add)
qed

lemma f64_le_at:
  assumes "k \<le> snd v" "k \<le> snd u"
  shows "f64_le (F64Fin s v) (F64Fin t u) \<longleftrightarrow> signed_at k s v \<le> signed_at k t u"
  using assms signed_at_lower [of k "min (snd v) (snd u)"] by (simp add: Let_def)

lemma f64_le_trans:
  assumes "f64_le x y" "f64_le y z"
  shows "f64_le x z"
proof (cases "\<exists>s v t u r w. x = F64Fin s v \<and> y = F64Fin t u \<and> z = F64Fin r w")
  case True
  then obtain s v t u r w where e: "x = F64Fin s v" "y = F64Fin t u" "z = F64Fin r w" by blast
  define k where "k = min (snd v) (min (snd u) (snd w))"
  have "k \<le> snd v" "k \<le> snd u" "k \<le> snd w" by (auto simp: k_def)
  then show ?thesis using assms by (simp add: e f64_le_at del: f64_le.simps)
next
  case False
  then show ?thesis using assms by (cases x; cases y; cases z) auto
qed

text \<open>
  Replacing the first version by the second never lets through a message the first one drops, and only drops
  readings below the floor: where the configured minimum is a number, the second version forwards exactly the
  messages the first one forwards whose value is at least \<open>MIN_FLOOR\<close>.
\<close>

theorem second_version_floor:
  assumes "fc_min cfg \<noteq> F64Nan"
  shows "filter_evaluate_v2 (Some cfg) p = Some (Inr True) \<longleftrightarrow>
         filter_evaluate (Some cfg) p = Some (Inr True) \<and>
         (\<exists>s v. from_utf8 p = Some s \<and> plugin_extract_number s (fc_field cfg) = Some v \<and> f64_le MIN_FLOOR v)"
proof -
  have floor: "MIN_FLOOR \<noteq> F64Nan" by (simp add: MIN_FLOOR_def decimal_f64_def Let_def)
  have total: "f64_le x y \<or> f64_le y x" if "x \<noteq> F64Nan" "y \<noteq> F64Nan" for x y
    using that by (cases x; cases y) (auto simp: Let_def min.commute)
  have "f64_le (f64_max (fc_min cfg) MIN_FLOOR) v \<longleftrightarrow> f64_le (fc_min cfg) v \<and> f64_le MIN_FLOOR v" for v
    using assms floor total [OF assms floor] by (auto simp: f64_max_def dest: f64_le_trans)
  then show ?thesis
    by (auto simp: filter_evaluate_v2_def filter_evaluate_def evaluate_with_def payload_as_str_def accept_v1_def
        accept_v2_def split: option.splits sum.splits)
qed

theorem second_version_floor_witness:
  "filter_evaluate_v2 (Some fifty_up) (re_payload (reading ''5e1'')) \<noteq> Some (Inr True)"
proof -
  have n: "fc_min fifty_up \<noteq> F64Nan" by (simp add: fifty_up_def decimal_f64_def Let_def)
  have "\<not> f64_le MIN_FLOOR (decimal_f64 False 5 1)" by (simp add: MIN_FLOOR_def decimals signed_at_def)
  then show ?thesis
    using scientific_numbers scientific_reading(1,4) by (simp add: second_version_floor [OF n] fifty_up_field)
qed

end
