(* ===== verification/JsonParse.thy ===== *)
theory JsonParse
  imports ThresholdFilter
begin

text \<open>
  The transform plugin \<open>plugins/json-parse\<close>: a JSON validator and pretty-printer written by hand. A position in
  the bytes is the text that is left there, and what a function appends to \<open>out\<close> is the text it returns;
  \<open>None\<close> is \<open>Err(())\<close>. The text that is read is bytes, each as the character of its number; the text that is
  returned is code points, each the byte that was pushed \<open>as char\<close> and so below 256, and \<open>into_bytes\<close> gives the
  UTF-8 bytes of the \<open>String\<close> they make: a byte above 127 comes out as two. The recursion of the values and the
  loops take fuel, whose end is the outer \<open>None\<close>: every nested value and every round of a loop starts at a
  shorter text, so a fuel above the length of the text is enough for every input.
\<close>

section \<open>The printer\<close>

type_synonym byte_text = string
type_synonym code_points = string

definition skip_ws :: "string \<Rightarrow> string" where
  "skip_ws s = dropWhile json_space s"

definition push_indent :: "nat \<Rightarrow> string" where
  "push_indent n = replicate n (CHR '' '')"

definition new_line :: "nat \<Rightarrow> string" where
  "new_line indent = CHR 0x0A # push_indent indent"

fun string_body :: "string \<Rightarrow> (string \<times> string) option" where
  "string_body [] = None"
| "string_body (c # s) =
     (if c = CHR 0x22 then Some ([c], s)
      else if c = CHR 0x5C then
        (case s of [] \<Rightarrow> None | d # s' \<Rightarrow> map_option (apfst (\<lambda>t. c # d # t)) (string_body s'))
      else map_option (apfst (\<lambda>t. c # t)) (string_body s))"

definition format_string :: "string \<Rightarrow> (string \<times> string) option" where
  "format_string s =
     (case s of
        [] \<Rightarrow> None
      | c # s' \<Rightarrow> if c \<noteq> CHR 0x22 then None else map_option (apfst (\<lambda>t. c # t)) (string_body s'))"

definition format_literal :: "string \<Rightarrow> string \<Rightarrow> (string \<times> string) option" where
  "format_literal expected s =
     (if take (length expected) s \<noteq> expected then None else Some (expected, drop (length expected) s))"

definition digits_required :: "string \<Rightarrow> string option" where
  "digits_required s = (if s = [] \<or> \<not> is_digit (hd s) then None else Some (dropWhile is_digit s))"

definition skip_minus :: "string \<Rightarrow> string" where
  "skip_minus s = (if s \<noteq> [] \<and> hd s = CHR ''-'' then tl s else s)"

definition integer_part :: "string \<Rightarrow> string option" where
  "integer_part s =
     (case s of [] \<Rightarrow> None | c # s' \<Rightarrow> if c = CHR ''0'' then Some s' else digits_required s)"

definition fraction_part :: "string \<Rightarrow> string option" where
  "fraction_part s = (if s \<noteq> [] \<and> hd s = CHR ''.'' then digits_required (tl s) else Some s)"

definition exponent_part :: "string \<Rightarrow> string option" where
  "exponent_part s =
     (if s \<noteq> [] \<and> (hd s = CHR ''e'' \<or> hd s = CHR ''E'') then
        let s' = tl s
        in digits_required (if s' \<noteq> [] \<and> (hd s' = CHR ''+'' \<or> hd s' = CHR ''-'') then tl s' else s')
      else Some s)"

definition number_rest :: "string \<Rightarrow> string option" where
  "number_rest s =
     Option.bind (integer_part (skip_minus s)) (\<lambda>s. Option.bind (fraction_part s) exponent_part)"

definition format_number :: "string \<Rightarrow> (string \<times> string) option" where
  "format_number s =
     (case number_rest s of
        None \<Rightarrow> None
      | Some r \<Rightarrow>
          let num_str = take (length s - length r) s
          in if num_str = [] \<or> num_str = ''-'' then None else Some (num_str, r))"

text \<open>The members of an object and the elements of an array, the loops of \<open>format_object\<close> and \<open>format_array\<close>.\<close>

definition separator :: "bool \<Rightarrow> string" where
  "separator fst_one = (if fst_one then [] else '','')"

primrec members_loop ::
  "(string \<Rightarrow> (string \<times> string) option option) \<Rightarrow> nat \<Rightarrow> bool \<Rightarrow> nat \<Rightarrow> string \<Rightarrow> (string \<times> string) option option" where
  "members_loop format_val indent fst_one 0 s = None"
| "members_loop format_val indent fst_one (Suc n) s =
     (case format_string (skip_ws s) of
        None \<Rightarrow> Some None
      | Some (key, s) \<Rightarrow>
          (case skip_ws s of
             [] \<Rightarrow> Some None
           | c # s \<Rightarrow>
               if c \<noteq> CHR '':'' then Some None
               else
                 (case format_val s of
                    None \<Rightarrow> None
                  | Some None \<Rightarrow> Some None
                  | Some (Some (v, s)) \<Rightarrow>
                      let t = separator fst_one @ new_line indent @ key @ '': '' @ v
                      in (case skip_ws s of
                            [] \<Rightarrow> Some None
                          | c # s \<Rightarrow>
                              if c = CHR '','' then
                                map_option (map_option (apfst (\<lambda>u. t @ u))) (members_loop format_val indent False n s)
                              else if c = CHR ''}'' then Some (Some (t, s))
                              else Some None))))"

primrec elements_loop ::
  "(string \<Rightarrow> (string \<times> string) option option) \<Rightarrow> nat \<Rightarrow> bool \<Rightarrow> nat \<Rightarrow> string \<Rightarrow> (string \<times> string) option option" where
  "elements_loop format_val indent fst_one 0 s = None"
| "elements_loop format_val indent fst_one (Suc n) s =
     (case format_val s of
        None \<Rightarrow> None
      | Some None \<Rightarrow> Some None
      | Some (Some (v, s)) \<Rightarrow>
          let t = separator fst_one @ new_line indent @ v
          in (case skip_ws s of
                [] \<Rightarrow> Some None
              | c # s \<Rightarrow>
                  if c = CHR '','' then
                    map_option (map_option (apfst (\<lambda>u. t @ u))) (elements_loop format_val indent False n s)
                  else if c = CHR '']'' then Some (Some (t, s))
                  else Some None))"

definition format_object ::
  "(string \<Rightarrow> (string \<times> string) option option) \<Rightarrow> nat \<Rightarrow> nat \<Rightarrow> string \<Rightarrow> (string \<times> string) option option" where
  "format_object format_val n indent s =
     (case skip_ws s of
        [] \<Rightarrow> Some None
      | c # s' \<Rightarrow>
          if c = CHR ''}'' then Some (Some (''{}'', s'))
          else map_option (map_option (apfst (\<lambda>t. ''{'' @ t @ new_line indent @ ''}'')))
                 (members_loop format_val (indent + 2) True n (c # s')))"

definition format_array ::
  "(string \<Rightarrow> (string \<times> string) option option) \<Rightarrow> nat \<Rightarrow> nat \<Rightarrow> string \<Rightarrow> (string \<times> string) option option" where
  "format_array format_val n indent s =
     (case skip_ws s of
        [] \<Rightarrow> Some None
      | c # s' \<Rightarrow>
          if c = CHR '']'' then Some (Some (''[]'', s'))
          else map_option (map_option (apfst (\<lambda>t. ''['' @ t @ new_line indent @ '']'')))
                 (elements_loop format_val (indent + 2) True n (c # s')))"

primrec format_value :: "nat \<Rightarrow> nat \<Rightarrow> string \<Rightarrow> (string \<times> string) option option" where
  "format_value 0 indent s = None"
| "format_value (Suc n) indent s =
     (case skip_ws s of
        [] \<Rightarrow> Some None
      | c # s' \<Rightarrow>
          if c = CHR ''{'' then format_object (format_value n (indent + 2)) n indent s'
          else if c = CHR ''['' then format_array (format_value n (indent + 2)) n indent s'
          else if c = CHR 0x22 then Some (format_string (c # s'))
          else if c = CHR ''t'' then Some (format_literal ''true'' (c # s'))
          else if c = CHR ''f'' then Some (format_literal ''false'' (c # s'))
          else if c = CHR ''n'' then Some (format_literal ''null'' (c # s'))
          else if c = CHR ''-'' \<or> is_digit c then Some (format_number (c # s'))
          else Some None)"

definition json_pretty_print :: "byte_text \<Rightarrow> code_points option option" where
  "json_pretty_print input =
     (let s = skip_ws input
      in if s = [] then Some None
         else map_option
                (\<lambda>r. case r of None \<Rightarrow> None | Some (out, s) \<Rightarrow> if skip_ws s = [] then Some out else None)
                (format_value (length s + 1) 0 s))"

text \<open>\<open>String::into_bytes\<close> of the characters below 256: every byte pushed \<open>as char\<close> is one.\<close>

definition char_utf8 :: "char \<Rightarrow> bytes" where
  "char_utf8 c =
     (let n = of_char c :: nat
      in if n < 128 then [of_nat n] else [of_nat (0xC0 + n div 64), of_nat (0x80 + n mod 64)])"

definition into_bytes :: "code_points \<Rightarrow> bytes" where
  "into_bytes s = concat (map char_utf8 s)"

definition json_process :: "bytes \<Rightarrow> (wasm_process_error, bytes) result option" where
  "json_process p =
     (case payload_as_str p of
        Inl e \<Rightarrow> Some (Inl e)
      | Inr s \<Rightarrow>
          if s = [] then Some (Inl (BadInput ''empty payload''))
          else map_option
                 (\<lambda>r. case r of
                        None \<Rightarrow> Inl (BadInput ''payload is not valid JSON'')
                      | Some formatted \<Rightarrow> Inr (into_bytes formatted))
                 (json_pretty_print s))"

section \<open>The text of the tokens\<close>

text \<open>
  The text without the white space between the tokens; the flag says whether the text starts inside a string.
\<close>

fun compact :: "bool \<Rightarrow> string \<Rightarrow> string" where
  "compact _ [] = []"
| "compact False (c # s) = (if json_space c then compact False s else c # compact (c = CHR 0x22) s)"
| "compact True (c # s) =
     (if c = CHR 0x5C then c # (case s of [] \<Rightarrow> [] | d # s' \<Rightarrow> d # compact True s')
      else c # compact (c \<noteq> CHR 0x22) s)"

text \<open>A text of whole tokens, and the step of the printer from a text over one or more of them.\<close>

definition whole :: "string \<Rightarrow> bool" where
  "whole t \<longleftrightarrow> (\<forall>x. compact False (t @ x) = compact False t @ compact False x)"

definition prints :: "string \<Rightarrow> string \<Rightarrow> string \<Rightarrow> bool" where
  "prints s t r \<longleftrightarrow> length r < length s \<and> whole t \<and> compact False s = compact False t @ compact False r"

lemma whole_append: "whole t \<Longrightarrow> whole u \<Longrightarrow> whole (t @ u)"
  by (simp add: whole_def)

lemma compact_whole: "whole t \<Longrightarrow> compact False (t @ x) = compact False t @ compact False x"
  by (simp add: whole_def)

lemma whole_outside: "CHR 0x22 \<notin> set t \<Longrightarrow> whole t"
  unfolding whole_def by (induction t) auto

lemma prints_prefix: "s = t @ r \<Longrightarrow> t \<noteq> [] \<Longrightarrow> whole t \<Longrightarrow> prints s t r"
  by (simp add: prints_def compact_whole)

lemma compact_skip_ws [simp]: "compact False (skip_ws s) = compact False s"
  unfolding skip_ws_def by (induction s) auto

lemma length_skip_ws: "length (skip_ws s) \<le> length s"
  by (simp add: skip_ws_def length_dropWhile_le)

lemma skip_ws_Cons:
  assumes "skip_ws s = c # s'"
  shows "\<not> json_space c" "length s' < length s" "compact False s = compact False (c # s')"
proof -
  show "\<not> json_space c" using assms by (simp add: skip_ws_def dropWhile_eq_Cons_conv)
  show "length s' < length s" using assms length_skip_ws [of s] by simp
  show "compact False s = compact False (c # s')" using assms compact_skip_ws [of s] by simp
qed

lemma whole_layout [simp]: "whole (new_line n)" "whole (separator b)" "compact False (new_line n) = []"
proof -
  show "compact False (new_line n) = []"
    by (simp add: new_line_def push_indent_def json_space_def) (induction n; simp add: json_space_def)
qed (auto intro!: whole_outside simp: new_line_def push_indent_def separator_def)

lemma string_body_parts:
  "string_body s = Some (t, r) \<Longrightarrow>
   s = t @ r \<and> t \<noteq> [] \<and> (\<forall>x. compact True (t @ x) = compact True t @ compact False x)"
proof (induction s arbitrary: t r rule: string_body.induct)
  case (2 c s)
  then show ?case by (auto split: if_splits list.splits)
qed simp

lemma format_string_prints: "format_string s = Some (t, r) \<Longrightarrow> prints s t r"
  by (rule prints_prefix)
    (auto simp: format_string_def whole_def json_space_def split: list.splits if_splits dest: string_body_parts)

lemma format_literal_prints:
  assumes "format_literal e s = Some (t, r)" "e \<noteq> []" "CHR 0x22 \<notin> set e"
  shows "prints s t r"
  using assms by (intro prints_prefix whole_outside)
    (auto simp: format_literal_def split: if_splits, metis append_take_drop_id)

lemma digits_required_suffix: "digits_required s = Some r \<Longrightarrow> \<exists>t. s = t @ r \<and> list_all is_digit t"
  by (metis digits_required_def list_all_takeWhile option.distinct(1) option.inject takeWhile_dropWhile_id)

text \<open>The characters of a number.\<close>

definition number_char :: "char \<Rightarrow> bool" where
  "number_char c \<longleftrightarrow> is_digit c \<or> c \<in> set ''-+.eE''"

definition number_step :: "string \<Rightarrow> string \<Rightarrow> bool" where
  "number_step s r \<longleftrightarrow> (\<exists>t. s = t @ r \<and> list_all number_char t)"

lemma number_step_refl: "number_step s s"
  by (simp add: number_step_def)

lemma number_step_trans: "number_step s r \<Longrightarrow> number_step r q \<Longrightarrow> number_step s q"
  by (fastforce simp: number_step_def)

lemma number_step_Cons: "number_char c \<Longrightarrow> number_step s r \<Longrightarrow> number_step (c # s) r"
  unfolding number_step_def by (metis append_Cons list.pred_inject(2))

lemma digits_step: "digits_required s = Some r \<Longrightarrow> number_step s r"
  unfolding number_step_def by (drule digits_required_suffix) (auto simp: number_char_def list_all_iff)

lemma tl_step: "s \<noteq> [] \<Longrightarrow> number_char (hd s) \<Longrightarrow> number_step (tl s) r \<Longrightarrow> number_step s r"
  by (cases s) (auto intro: number_step_Cons)

lemma minus_step: "number_step s (skip_minus s)"
  by (auto simp: skip_minus_def number_char_def intro: tl_step number_step_refl)

lemma integer_step: "integer_part s = Some a \<Longrightarrow> number_step s a"
  by (auto simp: integer_part_def number_char_def is_digit_def split: list.splits if_splits
      intro: digits_step number_step_Cons [OF _ number_step_refl])

lemma fraction_step: "fraction_part s = Some a \<Longrightarrow> number_step s a"
  by (cases s) (auto simp: fraction_part_def number_char_def split: if_splits
      intro: digits_step number_step_Cons number_step_refl)

lemma sign_step:
  "number_step (if s \<noteq> [] \<and> (hd s = CHR ''+'' \<or> hd s = CHR ''-'') then tl s else s) r \<Longrightarrow> number_step s r"
  by (cases s) (auto simp: number_char_def split: if_splits intro: number_step_Cons)

lemma exponent_step: "exponent_part s = Some a \<Longrightarrow> number_step s a"
  unfolding exponent_part_def Let_def
  by (cases s) (auto simp: number_char_def split: if_splits
      dest!: digits_step intro!: number_step_Cons number_step_refl intro: sign_step)

lemma number_rest_step: "number_rest s = Some r \<Longrightarrow> number_step s r"
  using minus_step integer_step fraction_step exponent_step number_step_trans
  unfolding number_rest_def bind_eq_Some_conv by meson

lemma format_number_prints:
  assumes "format_number s = Some (t, r)"
  shows "prints s t r"
proof -
  have n: "number_rest s = Some r" "t = take (length s - length r) s" "t \<noteq> []"
    using assms by (auto simp: format_number_def Let_def split: option.splits if_splits)
  obtain u where "s = u @ r" "list_all number_char u" using number_rest_step [OF n(1)] by (auto simp: number_step_def)
  moreover from this have "CHR 0x22 \<notin> set u" by (auto simp: list_all_iff number_char_def is_digit_def)
  ultimately show ?thesis using n(2,3) by (intro prints_prefix whole_outside) auto
qed

section \<open>One value\<close>

text \<open>
  What a loop returns has passed the closing bracket \<open>b\<close> and not printed it, and starts with the separator the
  text before it calls for.
\<close>

definition loop_prints :: "char \<Rightarrow> bool \<Rightarrow> string \<Rightarrow> string \<Rightarrow> string \<Rightarrow> bool" where
  "loop_prints b fst_one s t r \<longleftrightarrow>
     length r < length s \<and> whole t \<and>
     compact False (separator fst_one @ s) = compact False t @ b # compact False r"

lemma compact_step [simp]: "\<not> json_space c \<Longrightarrow> c \<noteq> CHR 0x22 \<Longrightarrow> compact False (c # s) = c # compact False s"
  by simp

lemma separator_compact: "compact False (separator b @ s) = separator b @ compact False s"
  by (simp add: separator_def json_space_def)

lemma punctuation [simp]:
  "\<not> json_space (CHR '','')" "\<not> json_space (CHR '':'')" "\<not> json_space (CHR ''{'')" "\<not> json_space (CHR ''}'')"
  "\<not> json_space (CHR ''['')" "\<not> json_space (CHR '']'')" "json_space (CHR '' '')"
  by (simp_all add: json_space_def)

lemma prints_skip: "prints (skip_ws s) t r \<Longrightarrow> prints s t r"
  using length_skip_ws [of s] by (simp add: prints_def)

lemma prints_compact: "prints s t r \<Longrightarrow> compact False s = compact False t @ compact False r"
  and prints_shorter: "prints s t r \<Longrightarrow> length r < length s"
  and prints_whole: "prints s t r \<Longrightarrow> whole t"
  by (simp_all add: prints_def)

text \<open>A round of either loop: an item printed as \<open>item\<close>, then the end or a comma and the other rounds.\<close>

lemma round_last:
  assumes "prints s item s1" "skip_ws s1 = b # r" "b \<noteq> CHR 0x22"
  shows "loop_prints b fst_one s (separator fst_one @ new_line n @ item) r"
  using assms skip_ws_Cons [OF assms(2)]
  by (simp add: loop_prints_def prints_def separator_compact whole_append compact_whole)

lemma round_more:
  assumes "prints s item s1" "skip_ws s1 = CHR '','' # s2" "loop_prints b False s2 t r"
  shows "loop_prints b fst_one s ((separator fst_one @ new_line n @ item) @ t) r"
proof -
  have "compact False t @ b # compact False r = CHR '','' # compact False s2"
    using assms(3) by (simp add: loop_prints_def separator_def)
  then show ?thesis
    using assms skip_ws_Cons [OF assms(2)]
    by (simp add: loop_prints_def prints_def separator_compact whole_append compact_whole)
qed

lemma member_prints:
  assumes "prints s key s1" "skip_ws s1 = CHR '':'' # s2" "prints s2 v s3"
  shows "prints s (key @ '': '' @ v) s3"
proof -
  have colon: "whole '': ''" by (rule whole_outside) simp
  then have "whole (key @ '': '' @ v)" using assms(1,3) by (blast intro: whole_append dest: prints_whole)
  moreover have "compact False (key @ '': '' @ v) = compact False key @ compact False '': '' @ compact False v"
    by (simp only: compact_whole [OF prints_whole [OF assms(1)]] compact_whole [OF colon])
  ultimately show ?thesis
    using assms skip_ws_Cons [OF assms(2)] by (simp add: prints_def)
qed

lemma elements_loop_prints:
  assumes "\<And>s t r. format_val s = Some (Some (t, r)) \<Longrightarrow> prints s t r"
  shows "elements_loop format_val n fst_one m s = Some (Some (t, r)) \<Longrightarrow> loop_prints (CHR '']'') fst_one s t r"
proof (induction m arbitrary: fst_one s t)
  case (Suc m)
  then obtain v s1 c s2 where v: "format_val s = Some (Some (v, s1))" "skip_ws s1 = c # s2"
    by (auto simp: Let_def split: option.splits list.splits)
  show ?case
  proof (cases "c = CHR '',''")
    case True
    then obtain u where u: "elements_loop format_val n False m s2 = Some (Some (u, r))"
      "t = (separator fst_one @ new_line n @ v) @ u"
      using Suc.prems v by (auto simp: Let_def)
    show ?thesis unfolding u(2) using v True Suc.IH [OF u(1)] by (intro round_more assms) auto
  next
    case False
    then have "c = CHR '']''" "t = separator fst_one @ new_line n @ v" "r = s2"
      using Suc.prems v by (auto simp: Let_def split: if_splits)
    then show ?thesis using v by (auto intro: round_last assms)
  qed
qed simp

lemma members_loop_prints:
  assumes "\<And>s t r. format_val s = Some (Some (t, r)) \<Longrightarrow> prints s t r"
  shows "members_loop format_val n fst_one m s = Some (Some (t, r)) \<Longrightarrow> loop_prints (CHR ''}'') fst_one s t r"
proof (induction m arbitrary: fst_one s t)
  case (Suc m)
  then obtain key s1 s2 v s3 c s4 where m: "format_string (skip_ws s) = Some (key, s1)"
    "skip_ws s1 = CHR '':'' # s2" "format_val s2 = Some (Some (v, s3))" "skip_ws s3 = c # s4"
    by (auto simp: Let_def split: option.splits list.splits if_splits)
  have item: "prints s (key @ '': '' @ v) s3"
    by (rule member_prints [OF prints_skip [OF format_string_prints [OF m(1)]] m(2) assms [OF m(3)]])
  show ?case
  proof (cases "c = CHR '',''")
    case True
    then obtain u where u: "members_loop format_val n False m s4 = Some (Some (u, r))"
      "t = (separator fst_one @ new_line n @ key @ '': '' @ v) @ u"
      using Suc.prems m by (auto simp: Let_def)
    show ?thesis unfolding u(2) using m True Suc.IH [OF u(1)] item by (intro round_more) auto
  next
    case False
    then have "c = CHR ''}''" "t = separator fst_one @ new_line n @ key @ '': '' @ v" "r = s4"
      using Suc.prems m by (auto simp: Let_def split: if_splits)
    then show ?thesis using m item by (auto intro: round_last)
  qed
qed simp

text \<open>A list in brackets: the loop starts where the text after the opening bracket has its first token.\<close>

lemma bracket_prints:
  assumes "skip_ws s = a # s'" "a \<noteq> CHR 0x22" "b \<noteq> CHR 0x22" "\<not> json_space b" "loop_prints b True s' t r"
  shows "prints s (a # t @ new_line n @ [b]) r"
proof -
  have w: "whole [a]" "whole [b]" using assms(2,3) by (auto intro!: whole_outside)
  have t: "whole t" using assms(5) by (simp add: loop_prints_def)
  have "whole ([a] @ t @ new_line n @ [b])" using w t by (intro whole_append whole_layout)
  moreover have "compact False (a # t @ new_line n @ [b]) = a # compact False t @ [b]"
    using skip_ws_Cons(1) [OF assms(1)] assms(2-4) t by (simp add: compact_whole)
  ultimately show ?thesis
    using assms skip_ws_Cons [OF assms(1)] by (simp add: prints_def loop_prints_def separator_def)
qed

lemma empty_prints:
  assumes "skip_ws s = a # s'" "skip_ws s' = b # r" "a \<noteq> CHR 0x22" "b \<noteq> CHR 0x22"
  shows "prints s [a, b] r"
  using assms skip_ws_Cons [OF assms(1)] skip_ws_Cons [OF assms(2)]
  by (auto simp: prints_def intro!: whole_outside)

lemma loop_prints_skip: "loop_prints b f (skip_ws s) t r \<Longrightarrow> loop_prints b f s t r"
  using length_skip_ws [of s] by (simp add: loop_prints_def separator_compact)

lemma format_object_prints:
  assumes "\<And>s t r. format_val s = Some (Some (t, r)) \<Longrightarrow> prints s t r"
    "skip_ws s = CHR ''{'' # s'" "format_object format_val n indent s' = Some (Some (t, r))"
  shows "prints s t r"
proof -
  obtain c s2 where c: "skip_ws s' = c # s2" using assms(3) by (auto simp: format_object_def split: list.splits)
  show ?thesis
  proof (cases "c = CHR ''}''")
    case True
    then show ?thesis using assms(2,3) c by (auto simp: format_object_def intro!: empty_prints)
  next
    case False
    then obtain u where u: "members_loop format_val (indent + 2) True n (skip_ws s') = Some (Some (u, r))"
      "t = CHR ''{'' # u @ new_line indent @ [CHR ''}'']"
      using assms(3) c by (auto simp: format_object_def)
    show ?thesis unfolding u(2)
      using assms(2) by (intro bracket_prints [OF _ _ _ _ loop_prints_skip [OF members_loop_prints [OF assms(1) u(1)]]]) simp_all
  qed
qed

lemma format_array_prints:
  assumes "\<And>s t r. format_val s = Some (Some (t, r)) \<Longrightarrow> prints s t r"
    "skip_ws s = CHR ''['' # s'" "format_array format_val n indent s' = Some (Some (t, r))"
  shows "prints s t r"
proof -
  obtain c s2 where c: "skip_ws s' = c # s2" using assms(3) by (auto simp: format_array_def split: list.splits)
  show ?thesis
  proof (cases "c = CHR '']''")
    case True
    then show ?thesis using assms(2,3) c by (auto simp: format_array_def intro!: empty_prints)
  next
    case False
    then obtain u where u: "elements_loop format_val (indent + 2) True n (skip_ws s') = Some (Some (u, r))"
      "t = CHR ''['' # u @ new_line indent @ [CHR '']'']"
      using assms(3) c by (auto simp: format_array_def)
    show ?thesis unfolding u(2)
      using assms(2) by (intro bracket_prints [OF _ _ _ _ loop_prints_skip [OF elements_loop_prints [OF assms(1) u(1)]]]) simp_all
  qed
qed

lemma scalar_prints:
  assumes "Some (t, r) \<in> {format_string s, format_literal ''true'' s, format_literal ''false'' s,
      format_literal ''null'' s, format_number s}"
  shows "prints s t r"
proof -
  have "prints s t r" if "Some (t, r) = format_literal e s" "e \<in> {''true'', ''false'', ''null''}" for e
    using format_literal_prints [OF that(1) [symmetric]] that(2) by auto
  then show ?thesis
    using assms by (elim insertE emptyE) (metis format_string_prints format_number_prints insertI1 insertI2)+
qed

lemma format_value_prints: "format_value n indent s = Some (Some (t, r)) \<Longrightarrow> prints s t r"
proof (induction n arbitrary: indent s t r)
  case (Suc n)
  have ih: "format_value n (indent + 2) s = Some (Some (t, r)) \<Longrightarrow> prints s t r" for s t r by (rule Suc.IH)
  obtain c s' where c: "skip_ws s = c # s'" using Suc.prems by (auto split: list.splits)
  consider "c = CHR ''{''" | "c = CHR ''[''" | "c \<noteq> CHR ''{''" "c \<noteq> CHR ''[''" by blast
  then show ?case
  proof cases
    case 1
    then have "format_object (format_value n (indent + 2)) n indent s' = Some (Some (t, r))" using Suc.prems c by simp
    with 1 show ?thesis 
      using format_object_prints [OF ih] c by blast
  next
    case 2
    then have "format_array (format_value n (indent + 2)) n indent s' = Some (Some (t, r))" using Suc.prems c by simp
    with 2 show ?thesis 
      using format_array_prints [OF ih] c by blast
  next
    case 3
    have "Some (t, r) \<in> {format_string (c # s'), format_literal ''true'' (c # s'), format_literal ''false'' (c # s'),
        format_literal ''null'' (c # s'), format_number (c # s')}"
      using Suc.prems 3 unfolding format_value.simps c list.case by (simp only: if_False option.inject split: if_splits) simp_all
    then show ?thesis by (metis c prints_skip scalar_prints)
  qed
qed simp

section \<open>The fuel\<close>

lemma members_loop_returns:
  assumes "\<And>s. length s < k \<Longrightarrow> format_val s \<noteq> None"
    "\<And>s t r. format_val s = Some (Some (t, r)) \<Longrightarrow> length r < length s"
  shows "length s < m \<Longrightarrow> length s \<le> k \<Longrightarrow> members_loop format_val n fst_one m s \<noteq> None"
proof (induction m arbitrary: fst_one s)
  case (Suc m)
  have val: "format_val s2 \<noteq> None" "format_val s2 = Some (Some (v, s3)) \<Longrightarrow> skip_ws s3 = c # s4 \<Longrightarrow>
      members_loop format_val n False m s4 \<noteq> None"
    if "format_string (skip_ws s) = Some (key, s1)" "skip_ws s1 = d # s2" for key s1 d s2 v s3 c s4
  proof -
    have s2: "length s2 < length s"
      using that(1) prints_shorter [OF format_string_prints [OF that(1)]] length_skip_ws [of s]
        skip_ws_Cons(2) [OF that(2)] by simp
    then show "format_val s2 \<noteq> None" using Suc.prems by (intro assms(1)) simp
    assume "format_val s2 = Some (Some (v, s3))" "skip_ws s3 = c # s4"
    then have "length s4 < length s" using assms(2) skip_ws_Cons(2) s2 by (meson order.strict_trans)
    then show "members_loop format_val n False m s4 \<noteq> None" using Suc.prems by (intro Suc.IH) simp_all
  qed
  show ?case
    by (auto simp: Let_def split: option.splits list.splits dest: val)
qed simp

lemma elements_loop_returns:
  assumes "\<And>s. length s < k \<Longrightarrow> format_val s \<noteq> None"
    "\<And>s t r. format_val s = Some (Some (t, r)) \<Longrightarrow> length r < length s"
  shows "length s < m \<Longrightarrow> length s < k \<Longrightarrow> elements_loop format_val n fst_one m s \<noteq> None"
proof (induction m arbitrary: fst_one s)
  case (Suc m)
  have "elements_loop format_val n False m s2 \<noteq> None"
    if "format_val s = Some (Some (v, s1))" "skip_ws s1 = c # s2" for v s1 c s2
  proof -
    have "length s2 < length s" using assms(2) [OF that(1)] skip_ws_Cons(2) [OF that(2)] by simp
    then show ?thesis using Suc.prems by (intro Suc.IH) simp_all
  qed
  moreover have "format_val s \<noteq> None" using Suc.prems assms(1) by simp
  ultimately show ?case by (auto simp: Let_def split: option.splits list.splits)
qed simp

lemma format_value_returns: "length s < n \<Longrightarrow> format_value n indent s \<noteq> None"
proof (induction n arbitrary: indent s)
  case (Suc n)
  have shorter: "format_value n (indent + 2) s = Some (Some (t, r)) \<Longrightarrow> length r < length s" for s t r
    by (rule prints_shorter [OF format_value_prints])
  have "format_object (format_value n (indent + 2)) n indent s' \<noteq> None \<and>
        format_array (format_value n (indent + 2)) n indent s' \<noteq> None" if "skip_ws s = c # s'" for c s'
  proof -
    have "length s' < n" using skip_ws_Cons(2) [OF that] Suc.prems by simp
    then have "length (skip_ws s') < n" using length_skip_ws [of s'] by simp
    then show ?thesis
      using members_loop_returns [OF Suc.IH shorter, where s = "skip_ws s'" and m = n]
        elements_loop_returns [OF Suc.IH shorter, where s = "skip_ws s'" and m = n]
      by (auto simp: format_object_def format_array_def split: list.splits)
  qed
  then show ?case by (auto split: list.splits)
qed simp

section \<open>The plugin\<close>

lemma json_pretty_print_cases:
  assumes "json_pretty_print s = Some (Some out)"
  obtains r where "prints (skip_ws s) out r" "skip_ws r = []"
proof -
  define s' where "s' = skip_ws s"
  have "\<exists>r. format_value (length s' + 1) 0 s' = Some (Some (out, r)) \<and> skip_ws r = []"
    using assms unfolding json_pretty_print_def Let_def s'_def [symmetric]
    by (cases "format_value (length s' + 1) 0 s'") (auto split: if_splits option.splits simp del: format_value.simps)
  then show ?thesis using that format_value_prints s'_def by blast
qed

text \<open>
  The printer is total: on every payload the plugin returns, with an output or an error.
\<close>

theorem json_parse_returns: "\<exists>r. json_process p = Some r"
proof -
  have "json_pretty_print s \<noteq> None" for s
    using format_value_returns [of "skip_ws s" "length (skip_ws s) + 1"] by (simp add: json_pretty_print_def Let_def)
  then show ?thesis by (auto simp: json_process_def split: sum.splits)
qed

definition ascii :: "string \<Rightarrow> bool" where
  "ascii s \<longleftrightarrow> list_all (\<lambda>c. (of_char c :: nat) < 128) s"

lemma compact_spaces: "skip_ws r = [] \<Longrightarrow> compact False r = []"
  by (metis compact.simps(1) compact_skip_ws)

lemma into_bytes_ascii: "ascii s \<Longrightarrow> into_bytes s = map of_char s"
  by (induction s) (auto simp: ascii_def into_bytes_def char_utf8_def of_nat_of_char)

lemma compact_characters:
  "set s \<subseteq> set (compact b s) \<union> {c. json_space c}" "set (compact b s) \<subseteq> set s"
proof (atomize (full), induction b s rule: compact.induct)
  case (3 c s)
  then show ?case by (cases s) auto
qed auto

lemma ascii_compact: "ascii (compact b s) \<longleftrightarrow> ascii s"
proof -
  have "(of_char c :: nat) < 128" if "json_space c" for c using that by (auto simp: json_space_def)
  then show ?thesis
    using compact_characters [where s = s and b = b] unfolding ascii_def list_all_iff by blast
qed

lemma ascii_text: "list_all (\<lambda>b. b < 128) p \<Longrightarrow> ascii (text_of p)"
  by (auto simp: ascii_def text_of_def list_all_iff word_less_nat_alt)

text \<open>
  C33: The printer changes nothing but the layout: on an ASCII payload that it accepts, the output and the input
  have the same text once the white space between the tokens is taken away; no character of a string, a number
  or a literal is lost, added or moved.
\<close>

theorem json_parse_preserves_tokens:
  assumes "json_process p = Some (Inr q)" "list_all (\<lambda>b. b < 128) p"
  shows "compact False (text_of q) = compact False (text_of p)"
proof -
  obtain out where out: "json_pretty_print (text_of p) = Some (Some out)" "q = into_bytes out"
    using assms(1) by (auto simp: json_process_def payload_as_str_def from_utf8_def split: if_splits option.splits)
  from out(1) obtain r where "prints (skip_ws (text_of p)) out r" "skip_ws r = []"
    by (rule json_pretty_print_cases)
  then have same: "compact False out = compact False (text_of p)"
    using compact_spaces [of r] by (simp add: prints_def)
  then have "ascii out" using ascii_text [OF assms(2)] by (metis ascii_compact)
  then show ?thesis using same out(2) by (simp add: into_bytes_ascii text_of_chars)
qed

theorem json_parse_preserves_tokens_witness:
  "compact False (text_of [0x5B, 0x0A, 0x20, 0x20, 0x37, 0x2C, 0x0A, 0x20, 0x20, 0x7B, 0x7D, 0x0A, 0x5D]) =
     compact False (text_of [0x5B, 0x37, 0x2C, 0x20, 0x7B, 0x7D, 0x5D])"
proof (rule json_parse_preserves_tokens)
  show "json_process [0x5B, 0x37, 0x2C, 0x20, 0x7B, 0x7D, 0x5D] =
      Some (Inr [0x5B, 0x0A, 0x20, 0x20, 0x37, 0x2C, 0x0A, 0x20, 0x20, 0x7B, 0x7D, 0x0A, 0x5D])" by code_simp
qed simp

text \<open>
  A string that is not ASCII is not printed as it is: each byte of its encoding is pushed as a character of
  its own and encoded again, so the two bytes of \<open>e\<close> with an acute accent come out as four.
\<close>

theorem json_parse_encodes_twice:
  "json_process [0x22, 0xC3, 0xA9, 0x22] = Some (Inr [0x22, 0xC3, 0x83, 0xC2, 0xA9, 0x22])"
  by code_simp

text \<open>
  More than JSON is accepted: inside a string an escape nobody defines and a bare control character pass.
\<close>

theorem json_parse_accepts_bad_strings:
  "json_process [0x22, 0x5C, 0x71, 0x0A, 0x22] = Some (Inr [0x22, 0x5C, 0x71, 0x0A, 0x22])"
  by code_simp

section \<open>The grammar and the reference printer\<close>

text \<open>
  JSON by its grammar (RFC 8259), which does not mention the scanner: numbers, the characters of a string, the
  values with their tokens as text, and the texts that lay a value out, with any white space between its tokens.
\<close>

definition json_digits :: "string \<Rightarrow> bool" where
  "json_digits ds \<longleftrightarrow> ds \<noteq> [] \<and> list_all is_digit ds"

inductive json_integer :: "string \<Rightarrow> bool" where
  integer_zero: "json_integer ''0''"
| integer_digits: "is_digit d \<Longrightarrow> d \<noteq> CHR ''0'' \<Longrightarrow> list_all is_digit ds \<Longrightarrow> json_integer (d # ds)"

inductive json_fraction :: "string \<Rightarrow> bool" where
  fraction_none: "json_fraction []"
| fraction_digits: "json_digits ds \<Longrightarrow> json_fraction (CHR ''.'' # ds)"

inductive json_exponent :: "string \<Rightarrow> bool" where
  exponent_none: "json_exponent []"
| exponent_digits: "e \<in> {CHR ''e'', CHR ''E''} \<Longrightarrow> sign \<in> {[], ''+'', ''-''} \<Longrightarrow> json_digits ds \<Longrightarrow>
    json_exponent (e # sign @ ds)"

inductive json_number :: "string \<Rightarrow> bool" where
  number_parts: "m \<in> {[], ''-''} \<Longrightarrow> json_integer i \<Longrightarrow> json_fraction f \<Longrightarrow> json_exponent e \<Longrightarrow>
    json_number (m @ i @ f @ e)"

definition hex_digit :: "char \<Rightarrow> bool" where
  "hex_digit c \<longleftrightarrow> is_digit c \<or> c \<in> set ''abcdefABCDEF''"

inductive json_chars :: "string \<Rightarrow> bool" where
  chars_end: "json_chars []"
| chars_plain: "0x20 \<le> (of_char c :: nat) \<Longrightarrow> c \<noteq> CHR 0x22 \<Longrightarrow> c \<noteq> CHR 0x5C \<Longrightarrow> json_chars s \<Longrightarrow> json_chars (c # s)"
| chars_escape: "c \<in> set ([CHR 0x22, CHR 0x5C] @ ''/bfnrt'') \<Longrightarrow> json_chars s \<Longrightarrow> json_chars (CHR 0x5C # c # s)"
| chars_unicode: "list_all hex_digit [a, b, c, d] \<Longrightarrow> json_chars s \<Longrightarrow>
    json_chars (CHR 0x5C # CHR ''u'' # a # b # c # d # s)"

datatype json = Scalar string | Text string | Array "json list" | Object "(string \<times> json) list"

definition in_quotes :: "string \<Rightarrow> string" where
  "in_quotes b = [CHR 0x22] @ b @ [CHR 0x22]"

definition blank :: "string \<Rightarrow> bool" where
  "blank a \<longleftrightarrow> list_all json_space a"

inductive lays_out :: "json \<Rightarrow> string \<Rightarrow> bool"
  and lays_out_items :: "json list \<Rightarrow> string \<Rightarrow> bool"
  and lays_out_members :: "(string \<times> json) list \<Rightarrow> string \<Rightarrow> bool" where
  lays_literal: "t \<in> {''true'', ''false'', ''null''} \<Longrightarrow> lays_out (Scalar t) t"
| lays_number: "json_number t \<Longrightarrow> lays_out (Scalar t) t"
| lays_text: "json_chars b \<Longrightarrow> lays_out (Text b) (in_quotes b)"
| lays_empty_array: "blank a \<Longrightarrow> lays_out (Array []) (''['' @ a @ '']'')"
| lays_array: "lays_out_items vs s \<Longrightarrow> lays_out (Array vs) (''['' @ s @ '']'')"
| lays_empty_object: "blank a \<Longrightarrow> lays_out (Object []) (''{'' @ a @ ''}'')"
| lays_object: "lays_out_members ms s \<Longrightarrow> lays_out (Object ms) (''{'' @ s @ ''}'')"
| lays_item: "blank a \<Longrightarrow> lays_out v s \<Longrightarrow> blank b \<Longrightarrow> lays_out_items [v] (a @ s @ b)"
| lays_items: "blank a \<Longrightarrow> lays_out v s \<Longrightarrow> blank b \<Longrightarrow> lays_out_items vs x \<Longrightarrow>
    lays_out_items (v # vs) (a @ s @ b @ '','' @ x)"
| lays_member: "blank a \<Longrightarrow> json_chars k \<Longrightarrow> blank b \<Longrightarrow> blank c \<Longrightarrow> lays_out v s \<Longrightarrow> blank d \<Longrightarrow>
    lays_out_members [(k, v)] (a @ in_quotes k @ b @ '':'' @ c @ s @ d)"
| lays_members: "blank a \<Longrightarrow> json_chars k \<Longrightarrow> blank b \<Longrightarrow> blank c \<Longrightarrow> lays_out v s \<Longrightarrow> blank d \<Longrightarrow>
    lays_out_members ms x \<Longrightarrow> lays_out_members ((k, v) # ms) (a @ in_quotes k @ b @ '':'' @ c @ s @ d @ '','' @ x)"

text \<open>The reference printer, with an indent of two spaces.\<close>

definition joined :: "string \<Rightarrow> string list \<Rightarrow> string" where
  "joined sep ts = concat (case ts of [] \<Rightarrow> [] | t # ts \<Rightarrow> t # map (\<lambda>t. sep @ t) ts)"

fun pretty :: "nat \<Rightarrow> json \<Rightarrow> string" where
  "pretty n (Scalar t) = t"
| "pretty n (Text b) = in_quotes b"
| "pretty n (Array vs) =
     (if vs = [] then ''[]''
      else ''['' @ joined '','' (map (\<lambda>v. new_line (n + 2) @ pretty (n + 2) v) vs) @ new_line n @ '']'')"
| "pretty n (Object ms) =
     (if ms = [] then ''{}''
      else ''{'' @ joined '','' (map (\<lambda>(k, v). new_line (n + 2) @ in_quotes k @ '': '' @ pretty (n + 2) v) ms)
                @ new_line n @ ''}'')"

lemma joined_simps [simp]:
  "joined sep [] = []" "joined sep [t] = t" "joined sep (t # u # ts) = t @ sep @ joined sep (u # ts)"
  by (simp_all add: joined_def)

section \<open>The scanner reads the grammar\<close>

text \<open>What may follow a value: the end of the text, white space or punctuation.\<close>

definition boundary :: "string \<Rightarrow> bool" where
  "boundary r \<longleftrightarrow> r = [] \<or> json_space (hd r) \<or> hd r \<in> {CHR '','', CHR '']'', CHR ''}''}"

lemma number_boundary: "boundary r \<Longrightarrow> r = [] \<or> \<not> is_digit (hd r) \<and> hd r \<notin> set ''-+.eE''"
  by (auto simp: boundary_def json_space_def is_digit_def)

lemma boundary_blank: "blank a \<Longrightarrow> boundary r \<Longrightarrow> boundary (a @ r)"
  by (cases a) (auto simp: boundary_def blank_def)

lemma boundary_punctuation [simp]: "boundary (CHR '','' # x)" "boundary (CHR '']'' # x)" "boundary (CHR ''}'' # x)"
  by (simp_all add: boundary_def)

lemma skip_ws_blank [simp]: "blank a \<Longrightarrow> skip_ws (a @ x) = skip_ws x"
  by (induction a) (simp_all add: blank_def skip_ws_def)

lemma skip_ws_punctuation [simp]:
  "skip_ws (CHR '','' # x) = CHR '','' # x" "skip_ws (CHR '']'' # x) = CHR '']'' # x"
  "skip_ws (CHR ''}'' # x) = CHR ''}'' # x" "skip_ws (CHR '':'' # x) = CHR '':'' # x"
  "skip_ws (CHR ''['' # x) = CHR ''['' # x" "skip_ws (CHR ''{'' # x) = CHR ''{'' # x"
  "skip_ws (in_quotes k @ x) = in_quotes k @ x"
  by (simp_all add: skip_ws_def json_space_def in_quotes_def)

lemma skip_ws_idem [simp]: "skip_ws (skip_ws s) = skip_ws s"
  by (simp add: skip_ws_def)

lemma format_value_skip: "format_value n indent (skip_ws s) = format_value n indent s"
  by (cases n) simp_all

lemma format_literal_self: "format_literal t (t @ r) = Some (t, r)"
  by (simp add: format_literal_def)

lemma digits_required_all:
  "json_digits ds \<Longrightarrow> r = [] \<or> \<not> is_digit (hd r) \<Longrightarrow> digits_required (ds @ r) = Some r"
  by (cases ds; cases r) (auto simp: digits_required_def json_digits_def list_all_iff)

lemma exponent_part_all:
  assumes "json_exponent e" "boundary r"
  shows "exponent_part (e @ r) = Some r"
  using assms(1)
proof cases
  case exponent_none
  then show ?thesis using number_boundary [OF assms(2)] by (auto simp: exponent_part_def)
next
  case (exponent_digits x sign ds)
  then have "ds \<noteq> []" "is_digit (hd ds)" by (cases ds; simp add: json_digits_def)+
  then have "\<not> (hd (ds @ r) = CHR ''+'' \<or> hd (ds @ r) = CHR ''-'')" by (auto simp: is_digit_def)
  moreover have "digits_required (ds @ r) = Some r"
    using number_boundary [OF assms(2)] by (intro digits_required_all [OF exponent_digits(4)]) auto
  ultimately show ?thesis using exponent_digits(1-3) by (auto simp: exponent_part_def Let_def)
qed

lemma exponent_start: "json_exponent e \<Longrightarrow> boundary r \<Longrightarrow> e @ r = [] \<or> \<not> is_digit (hd (e @ r)) \<and> hd (e @ r) \<noteq> CHR ''.''"
  by (erule json_exponent.cases) (use number_boundary [of r] in \<open>auto simp: is_digit_def\<close>)

lemma fraction_part_all:
  assumes "json_fraction f" "json_exponent e" "boundary r"
  shows "fraction_part (f @ e @ r) = Some (e @ r)"
  using assms(1)
proof cases
  case fraction_none
  then show ?thesis using exponent_start [OF assms(2,3)] by (auto simp: fraction_part_def)
next
  case (fraction_digits ds)
  then show ?thesis
    using exponent_start [OF assms(2,3)] digits_required_all [OF fraction_digits(2), of "e @ r"] by (auto simp: fraction_part_def)
qed

lemma fraction_start:
  "json_fraction f \<Longrightarrow> json_exponent e \<Longrightarrow> boundary r \<Longrightarrow> f @ e @ r = [] \<or> \<not> is_digit (hd (f @ e @ r))"
  by (erule json_fraction.cases) (use exponent_start [of e r] in \<open>auto simp: is_digit_def\<close>)

lemma integer_part_all:
  assumes "json_integer i" "x = [] \<or> \<not> is_digit (hd x)"
  shows "integer_part (i @ x) = Some x"
  using assms(1)
proof cases
  case (integer_digits d ds)
  then show ?thesis
    using digits_required_all [of "d # ds" x] assms(2) by (simp add: integer_part_def json_digits_def)
qed (simp add: integer_part_def)

lemma integer_start: "json_integer i \<Longrightarrow> \<exists>c s. i = c # s \<and> is_digit c"
  by (erule json_integer.cases) (simp_all add: is_digit_def)

lemma number_start: "json_number t \<Longrightarrow> \<exists>c s. t = c # s \<and> (c = CHR ''-'' \<or> is_digit c)"
  by (erule json_number.cases) (auto dest!: integer_start)

lemma format_number_self:
  assumes "json_number t" "boundary r"
  shows "format_number (t @ r) = Some (t, r)"
proof -
  from assms(1) obtain m i f e where t: "t = m @ i @ f @ e" "m \<in> {[], ''-''}" "json_integer i" "json_fraction f" "json_exponent e"
    by cases auto
  obtain c s where c: "i = c # s" "is_digit c" using integer_start [OF t(3)] by blast
  then have "skip_minus (t @ r) = i @ f @ e @ r" using t(1,2) by (auto simp: skip_minus_def is_digit_def)
  moreover have "integer_part (i @ f @ e @ r) = Some (f @ e @ r)"
    by (rule integer_part_all [OF t(3) fraction_start [OF t(4,5) assms(2)]])
  ultimately have "number_rest (t @ r) = Some r"
    using fraction_part_all [OF t(4,5) assms(2)] exponent_part_all [OF t(5) assms(2)] by (simp add: number_rest_def)
  moreover have "t \<noteq> []" "t \<noteq> ''-''" using t(1,2) c by (auto simp: is_digit_def)
  ultimately show ?thesis by (simp add: format_number_def)
qed

lemma string_body_chars: "json_chars b \<Longrightarrow> string_body (b @ CHR 0x22 # r) = Some (b @ [CHR 0x22], r)"
proof (induction rule: json_chars.induct)
  case (chars_unicode a b c d s)
  have "x \<noteq> CHR 0x22 \<and> x \<noteq> CHR 0x5C" if "hex_digit x" for x using that by (auto simp: hex_digit_def is_digit_def)
  then show ?case using chars_unicode by simp
qed auto

lemma format_quoted: "json_chars b \<Longrightarrow> format_string (in_quotes b @ r) = Some (in_quotes b, r)"
  using string_body_chars [of b r] by (simp add: format_string_def in_quotes_def)

text \<open>A value starts with the character that \<open>format_value\<close> tells its kind by.\<close>

definition starts :: "string \<Rightarrow> bool" where
  "starts s \<longleftrightarrow> s \<noteq> [] \<and> \<not> json_space (hd s) \<and> hd s \<noteq> CHR '']'' \<and> hd s \<noteq> CHR ''}''"

lemma starts_skip: "starts s \<Longrightarrow> skip_ws (s @ r) = s @ r"
  by (cases s) (simp_all add: starts_def skip_ws_def)

lemma digit_start: "is_digit c \<Longrightarrow> \<not> json_space c \<and> c \<noteq> CHR '']'' \<and> c \<noteq> CHR ''}''"
  by (auto simp: is_digit_def json_space_def)

lemma lays_out_starts: "lays_out v s \<Longrightarrow> starts s"
  by (erule lays_out.cases)
    (auto simp: starts_def in_quotes_def json_space_def dest!: number_start dest: digit_start [unfolded json_space_def])

text \<open>The items of a list, when the reader of one value is right about each of them.\<close>

definition reads :: "(string \<Rightarrow> (string \<times> string) option option) \<Rightarrow> string \<Rightarrow> string \<Rightarrow> bool" where
  "reads f s out \<longleftrightarrow> (\<forall>r. boundary r \<longrightarrow> f (s @ r) = Some (Some (out, r)))"

lemma readsD: "reads f s out \<Longrightarrow> boundary r \<Longrightarrow> f (s @ r) = Some (Some (out, r))"
  by (simp add: reads_def)

lemma reads_blank: "reads (format_value n i) s out \<Longrightarrow> blank a \<Longrightarrow> reads (format_value n i) (a @ s) out"
  unfolding reads_def by (metis append_assoc format_value_skip skip_ws_blank)

lemma reads_scalar:
  assumes "t \<in> {''true'', ''false'', ''null''} \<or> json_number t"
  shows "reads (format_value (Suc n) indent) t t"
  unfolding reads_def
proof (intro allI impI)
  fix r assume r: "boundary r"
  show "format_value (Suc n) indent (t @ r) = Some (Some (t, r))"
  proof (cases "json_number t")
    case True
    then obtain c s where c: "t = c # s" "c = CHR ''-'' \<or> is_digit c" using number_start by blast
    then have "c \<notin> set (CHR 0x22 # ''{[tfn'')" "\<not> json_space c" by (auto simp: is_digit_def json_space_def)
    then have "format_value (Suc n) indent (t @ r) = Some (format_number (t @ r))"
      using c by (auto simp: skip_ws_def)
    then show ?thesis using format_number_self [OF True r] by simp
  next
    case False
    then have "t \<in> {''true'', ''false'', ''null''}" using assms by simp
    then show ?thesis
      using format_literal_self [of "''true''" r] format_literal_self [of "''false''" r] format_literal_self [of "''null''" r]
      by (auto simp: skip_ws_def json_space_def)
  qed
qed

lemma reads_text: "json_chars b \<Longrightarrow> reads (format_value (Suc n) indent) (in_quotes b) (in_quotes b)"
  using format_quoted [of b] by (auto simp: reads_def in_quotes_def skip_ws_def json_space_def)

lemma element_last:
  assumes "reads f s out" "blank b"
  shows "elements_loop f n fst_one (Suc m) (s @ b @ CHR '']'' # r) = Some (Some (separator fst_one @ new_line n @ out, r))"
  using readsD [OF assms(1) boundary_blank [OF assms(2)], of "CHR '']'' # r"] assms(2) by (simp add: Let_def)

lemma element_more:
  assumes "reads f s out" "blank b"
  shows "elements_loop f n fst_one (Suc m) (s @ b @ CHR '','' # x) =
    map_option (map_option (apfst ((@) (separator fst_one @ new_line n @ out)))) (elements_loop f n False m x)"
  using readsD [OF assms(1) boundary_blank [OF assms(2)], of "CHR '','' # x"] assms(2) by (simp add: Let_def)

lemma member_last:
  assumes "blank a" "json_chars k" "blank b" "reads f s out" "blank d"
  shows "members_loop f n fst_one (Suc m) (a @ in_quotes k @ b @ CHR '':'' # s @ d @ CHR ''}'' # r) =
    Some (Some (separator fst_one @ new_line n @ in_quotes k @ '': '' @ out, r))"
  using readsD [OF assms(4) boundary_blank [OF assms(5)], of "CHR ''}'' # r"] assms(1,3,5)
  by (simp add: format_quoted [OF assms(2)] Let_def)

lemma member_more:
  assumes "blank a" "json_chars k" "blank b" "reads f s out" "blank d"
  shows "members_loop f n fst_one (Suc m) (a @ in_quotes k @ b @ CHR '':'' # s @ d @ CHR '','' # x) =
    map_option (map_option (apfst ((@) (separator fst_one @ new_line n @ in_quotes k @ '': '' @ out))))
      (members_loop f n False m x)"
  using readsD [OF assms(4) boundary_blank [OF assms(5)], of "CHR '','' # x"] assms(1,3,5)
  by (simp add: format_quoted [OF assms(2)] Let_def)

lemma elements_loop_skip: "elements_loop (format_value m i) i b k (skip_ws s) = elements_loop (format_value m i) i b k s"
  by (cases k) (simp_all add: format_value_skip)

lemma members_loop_skip: "members_loop f i b k (skip_ws s) = members_loop f i b k s"
  by (cases k) simp_all

lemma items_start: "lays_out_items vs s \<Longrightarrow> vs \<noteq> [] \<and> (\<exists>c u. skip_ws (s @ x) = c # u \<and> c \<noteq> CHR '']'')"
proof (erule lays_out_items.cases)
  have first: "\<exists>c u. s @ y = c # u \<and> c \<noteq> CHR '']''" if "starts s" for s y
    using that by (cases s) (simp_all add: starts_def)
  show "vs \<noteq> [] \<and> (\<exists>c u. skip_ws (s @ x) = c # u \<and> c \<noteq> CHR '']'')"
    if "vs = [v]" "s = a @ t @ b" "blank a" "lays_out v t" for a v t b
    using that first [OF lays_out_starts [OF that(4)]] by (simp add: starts_skip [OF lays_out_starts [OF that(4)]])
  show "vs \<noteq> [] \<and> (\<exists>c u. skip_ws (s @ x) = c # u \<and> c \<noteq> CHR '']'')"
    if "vs = v # ws" "s = a @ t @ b @ '','' @ y" "blank a" "lays_out v t" for a v t b ws y
    using that first [OF lays_out_starts [OF that(4)]] by (simp add: starts_skip [OF lays_out_starts [OF that(4)]])
qed

lemma members_start: "lays_out_members ms s \<Longrightarrow> ms \<noteq> [] \<and> (\<exists>u. skip_ws (s @ x) = CHR 0x22 # u)"
  by (erule lays_out_members.cases) (simp_all, simp_all add: in_quotes_def)

lemma lays_out_reads:
  "lays_out v s \<Longrightarrow> (\<forall>n indent. length s < n \<longrightarrow> reads (format_value n indent) s (pretty indent v))"
  "lays_out_items vs t \<Longrightarrow> (\<forall>m k i b r. length t < m \<longrightarrow> length t < k \<longrightarrow>
     elements_loop (format_value m i) i b k (t @ CHR '']'' # r) =
       Some (Some (separator b @ joined '','' (map (\<lambda>v. new_line i @ pretty i v) vs), r)))"
  "lays_out_members ms u \<Longrightarrow> (\<forall>m k i b r. length u < m \<longrightarrow> length u < k \<longrightarrow>
     members_loop (format_value m i) i b k (u @ CHR ''}'' # r) =
       Some (Some (separator b @ joined '','' (map (\<lambda>(k, v). new_line i @ in_quotes k @ '': '' @ pretty i v) ms), r)))"
proof (induction v s and vs t and ms u rule: lays_out_lays_out_items_lays_out_members.inducts)
  case (lays_literal t)
  show ?case
  proof (intro allI impI)
    fix n indent assume "length t < n"
    then obtain m where "n = Suc m" by (cases n) auto
    then show "reads (format_value n indent) t (pretty indent (Scalar t))" using reads_scalar [OF disjI1 [OF lays_literal], of m indent] by simp
  qed
next
  case (lays_number t)
  show ?case
  proof (intro allI impI)
    fix n indent assume "length t < n"
    then obtain m where "n = Suc m" by (cases n) auto
    then show "reads (format_value n indent) t (pretty indent (Scalar t))" using reads_scalar [OF disjI2 [OF lays_number], of m indent] by simp
  qed
next
  case (lays_text b)
  show ?case
  proof (intro allI impI)
    fix n indent assume "length (in_quotes b) < n"
    then obtain m where "n = Suc m" by (cases n) auto
    then show "reads (format_value n indent) (in_quotes b) (pretty indent (Text b))" using reads_text [OF lays_text] by simp
  qed
next
  case (lays_empty_array a)
  show ?case
  proof (intro allI impI)
    fix n indent assume "length (''['' @ a @ '']'') < n"
    then obtain m where "n = Suc m" by (cases n) auto
    then show "reads (format_value n indent) (''['' @ a @ '']'') (pretty indent (Array []))"
      using lays_empty_array by (simp add: reads_def format_array_def)
  qed
next
  case (lays_array vs s)
  show ?case
  proof (intro allI impI)
    fix n indent assume n: "length (''['' @ s @ '']'') < n"
    then obtain m where m: "n = Suc m" "length s < m" by (cases n) auto
    have "format_array (format_value m (indent + 2)) m indent (s @ CHR '']'' # r) = Some (Some (pretty indent (Array vs), r))" for r
    proof -
      obtain c u where c: "vs \<noteq> []" "skip_ws (s @ CHR '']'' # r) = c # u" "c \<noteq> CHR '']''"
        using items_start [OF lays_array(1)] by blast
      have "elements_loop (format_value m (indent + 2)) (indent + 2) True m (c # u) =
          Some (Some (separator True @ joined '','' (map (\<lambda>v. new_line (indent + 2) @ pretty (indent + 2) v) vs), r))"
        unfolding c(2) [symmetric] elements_loop_skip using lays_array(2) m(2) by blast
      then show ?thesis using c by (simp add: format_array_def separator_def)
    qed
    then show "reads (format_value n indent) (''['' @ s @ '']'') (pretty indent (Array vs))"
      by (simp add: m reads_def)
  qed
next
  case (lays_empty_object a)
  show ?case
  proof (intro allI impI)
    fix n indent assume "length (''{'' @ a @ ''}'') < n"
    then obtain m where "n = Suc m" by (cases n) auto
    then show "reads (format_value n indent) (''{'' @ a @ ''}'') (pretty indent (Object []))"
      using lays_empty_object by (simp add: reads_def format_object_def)
  qed
next
  case (lays_object ms s)
  show ?case
  proof (intro allI impI)
    fix n indent assume n: "length (''{'' @ s @ ''}'') < n"
    then obtain m where m: "n = Suc m" "length s < m" by (cases n) auto
    have "format_object (format_value m (indent + 2)) m indent (s @ CHR ''}'' # r) = Some (Some (pretty indent (Object ms), r))" for r
    proof -
      obtain u where u: "ms \<noteq> []" "skip_ws (s @ CHR ''}'' # r) = CHR 0x22 # u"
        using members_start [OF lays_object(1)] by blast
      have "members_loop (format_value m (indent + 2)) (indent + 2) True m (CHR 0x22 # u) =
          Some (Some (separator True @ joined '','' (map (\<lambda>(k, v). new_line (indent + 2) @ in_quotes k @ '': '' @
            pretty (indent + 2) v) ms), r))"
        unfolding u(2) [symmetric] members_loop_skip using lays_object(2) m(2) by blast
      then show ?thesis using u by (simp add: format_object_def separator_def)
    qed
    then show "reads (format_value n indent) (''{'' @ s @ ''}'') (pretty indent (Object ms))"
      by (simp add: m reads_def)
  qed
next
  case (lays_item a v s b)
  show ?case
  proof (intro allI impI)
    fix m k i bb r assume len: "length (a @ s @ b) < m" "length (a @ s @ b) < k"
    then obtain j where j: "k = Suc j" by (cases k) auto
    have "reads (format_value m i) (a @ s) (pretty i v)" using lays_item.hyps(1) lays_item.IH len(1) by (intro reads_blank) auto
    from element_last [OF this lays_item.hyps(3)]
    show "elements_loop (format_value m i) i bb k ((a @ s @ b) @ CHR '']'' # r) =
        Some (Some (separator bb @ joined '','' (map (\<lambda>v. new_line i @ pretty i v) [v]), r))" by (simp add: j)
  qed
next
  case (lays_items a v s b vs x)
  show ?case
  proof (intro allI impI)
    fix m k i bb r assume len: "length (a @ s @ b @ '','' @ x) < m" "length (a @ s @ b @ '','' @ x) < k"
    then obtain j where j: "k = Suc j" by (cases k) auto
    obtain w ws where vs: "vs = w # ws" using items_start [OF lays_items.hyps(4), of "[]"] by (cases vs) simp_all
    have "reads (format_value m i) (a @ s) (pretty i v)" using lays_items.hyps(1) lays_items.IH(1) len(1) by (intro reads_blank) auto
    moreover have "elements_loop (format_value m i) i False j (x @ CHR '']'' # r) =
        Some (Some (separator False @ joined '','' (map (\<lambda>v. new_line i @ pretty i v) vs), r))"
      using lays_items.IH(2) len j by auto
    ultimately show "elements_loop (format_value m i) i bb k ((a @ s @ b @ '','' @ x) @ CHR '']'' # r) =
        Some (Some (separator bb @ joined '','' (map (\<lambda>v. new_line i @ pretty i v) (v # vs)), r))"
      using element_more [OF _ lays_items.hyps(3), of "format_value m i" "a @ s" "pretty i v" i bb j "x @ CHR '']'' # r"]
      by (simp add: j vs separator_def)
  qed
next
  case (lays_member a k b c v s d)
  show ?case
  proof (intro allI impI)
    fix m j i bb r assume len: "length (a @ in_quotes k @ b @ '':'' @ c @ s @ d) < m" "length (a @ in_quotes k @ b @ '':'' @ c @ s @ d) < j"
    then obtain l where l: "j = Suc l" by (cases j) auto
    have "reads (format_value m i) (c @ s) (pretty i v)" using lays_member.hyps(4) lays_member.IH len(1) by (intro reads_blank) auto
    from member_last [OF lays_member.hyps(1-3) this lays_member.hyps(6)]
    show "members_loop (format_value m i) i bb j ((a @ in_quotes k @ b @ '':'' @ c @ s @ d) @ CHR ''}'' # r) =
        Some (Some (separator bb @ joined '','' (map (\<lambda>(k, v). new_line i @ in_quotes k @ '': '' @ pretty i v) [(k, v)]), r))"
      by (simp add: l)
  qed
next
  case (lays_members a k b c v s d ms x)
  show ?case
  proof (intro allI impI)
    fix m j i bb r
    assume len: "length (a @ in_quotes k @ b @ '':'' @ c @ s @ d @ '','' @ x) < m" "length (a @ in_quotes k @ b @ '':'' @ c @ s @ d @ '','' @ x) < j"
    then obtain l where l: "j = Suc l" by (cases j) auto
    obtain w ws where ms: "ms = w # ws" using members_start [OF lays_members.hyps(7), of "[]"] by (cases ms) simp_all
    have "reads (format_value m i) (c @ s) (pretty i v)" using lays_members.hyps(4) lays_members.IH(1) len(1) by (intro reads_blank) auto
    moreover have "members_loop (format_value m i) i False l (x @ CHR ''}'' # r) =
        Some (Some (separator False @ joined '','' (map (\<lambda>(k, v). new_line i @ in_quotes k @ '': '' @ pretty i v) ms), r))"
      using lays_members.IH(2) len l by auto
    ultimately show "members_loop (format_value m i) i bb j ((a @ in_quotes k @ b @ '':'' @ c @ s @ d @ '','' @ x) @ CHR ''}'' # r) =
        Some (Some (separator bb @ joined '','' (map (\<lambda>(k, v). new_line i @ in_quotes k @ '': '' @ pretty i v) ((k, v) # ms)), r))"
      using member_more [OF lays_members.hyps(1-3) _ lays_members.hyps(6), of "format_value m i" "c @ s" "pretty i v" i bb l "x @ CHR ''}'' # r"]
      by (simp add: l ms separator_def)
  qed
qed

lemma pretty_print_laid_out:
  assumes "lays_out v s" "blank a" "blank b"
  shows "json_pretty_print (a @ s @ b) = Some (Some (pretty 0 v))"
proof -
  note start = lays_out_starts [OF assms(1)]
  have skip: "skip_ws (a @ s @ b) = s @ b" "s @ b \<noteq> []" using assms(2) starts_skip [OF start] start by (simp_all add: starts_def)
  have "boundary b" using boundary_blank [OF assms(3), of "[]"] by (simp add: boundary_def)
  then have "format_value (length (s @ b) + 1) 0 (s @ b) = Some (Some (pretty 0 v, b))"
    using lays_out_reads(1) [OF assms(1), rule_format, of "length (s @ b) + 1" 0] by (simp add: reads_def del: format_value.simps)
  moreover have "skip_ws b = []" using skip_ws_blank [OF assms(3), of "[]"] by (simp add: skip_ws_def)
  ultimately show ?thesis using skip by (simp add: json_pretty_print_def Let_def del: format_value.simps length_append)
qed

text \<open>
  C19: The plugin refines a reference printer, from bytes to bytes: when the payload is UTF-8 and its text is a
  JSON value by the grammar, laid out with any white space between and around its tokens, it is accepted and
  the answer is the text of the reference printer with an indent of two. On an ASCII payload that text is the
  answer as it is; beyond ASCII every byte of a string was pushed as a character and is encoded once more.
\<close>

theorem json_parse_prints_reference:
  assumes "payload_as_str p = Inr (a @ s @ b)" "lays_out v s" "blank a" "blank b"
  shows "json_process p = Some (Inr (into_bytes (pretty 0 v))) \<and>
    (list_all (\<lambda>x. x < 128) p \<longrightarrow> into_bytes (pretty 0 v) = map of_char (pretty 0 v))"
proof -
  have "a @ s @ b \<noteq> []" using lays_out_starts [OF assms(2)] by (simp add: starts_def)
  then have j: "json_process p = Some (Inr (into_bytes (pretty 0 v)))"
    using assms(1) pretty_print_laid_out [OF assms(2-4)] by (simp add: json_process_def)
  have "a @ s @ b = text_of p" using assms(1) by (auto simp: payload_as_str_def from_utf8_def split: if_splits option.splits)
  moreover have "\<exists>r. prints (skip_ws (a @ s @ b)) (pretty 0 v) r \<and> skip_ws r = []"
    using json_pretty_print_cases [OF pretty_print_laid_out [OF assms(2-4)]] by blast
  ultimately have "compact False (pretty 0 v) = compact False (text_of p)"
    using compact_spaces by (auto simp: prints_def)
  then have "list_all (\<lambda>x. x < 128) p \<longrightarrow> ascii (pretty 0 v)" using ascii_text ascii_compact by metis
  with j show ?thesis using into_bytes_ascii by blast
qed

theorem json_parse_prints_reference_witness:
  "json_process [0x20, 0x5B, 0x2D, 0x31, 0x2E, 0x35, 0x65, 0x33, 0x0A, 0x2C, 0x22, 0xC3, 0xA9, 0x22, 0x5D] =
     Some (Inr (into_bytes (pretty 0 (Array [Scalar ''-1.5e3'', Text [CHR 0xC3, CHR 0xA9]]))))"
proof -
  have "json_exponent (CHR ''e'' # [] @ ''3'')" by (rule exponent_digits) (simp_all add: json_digits_def is_digit_def)
  then have "json_number (''-'' @ ''1'' @ ''.5'' @ (CHR ''e'' # [] @ ''3''))"
    by (intro number_parts) (auto intro!: integer_digits fraction_digits simp: json_digits_def is_digit_def)
  then have n: "lays_out (Scalar ''-1.5e3'') ''-1.5e3''" by (auto intro: lays_number)
  have "json_chars [CHR 0xC3, CHR 0xA9]" by (intro json_chars.intros) simp_all
  then have s: "lays_out (Text [CHR 0xC3, CHR 0xA9]) (in_quotes [CHR 0xC3, CHR 0xA9])" by (rule lays_text)
  have "lays_out_items [Scalar ''-1.5e3'', Text [CHR 0xC3, CHR 0xA9]]
      ([] @ ''-1.5e3'' @ [CHR 0x0A] @ '','' @ [] @ in_quotes [CHR 0xC3, CHR 0xA9] @ [])"
    by (intro lays_items lays_item n s) (simp_all add: blank_def json_space_def)
  from json_parse_prints_reference [OF _ lays_array [OF this], of _ "'' ''" "[]"] show ?thesis
    by (simp add: blank_def json_space_def) code_simp
qed

end
