(* ===== verification/Spec2Isabelle.thy ===== *)
theory Spec2Isabelle
  imports Sequence HttpDest Supervisor SwapApi BenchRun BatchSinks DlqWriter JsonParse
begin

text \<open>
  A verification development of Wafer, a stream-processing runtime whose operators are WebAssembly components.
  A configuration names sources, sinks, Wasm nodes (transforms, filters, routers) and the edges between them. It
  is validated (\<open>wafer-config\<close>), turned into a graph and into bundles of tasks and bounded queues (builder), and
  run by the orchestrator, which supervises one task per node. Each task is a loop (\<open>runner/\<close>) that takes a
  message from its queue or its retry buffer, calls the node, applies the error policy to a failure and hands the
  result downstream. A control API replaces the plugin of a running node: it prepares the component, claims the
  node's swap slot, sends the payload to the node's loop through a watch channel and waits for the outcome that
  the loop reports on a shared progress value; a transform watches the new instance during a canary window and
  rolls back when it traps. A measurement source and sink account for every message of a benchmark run.

  Theories and sources (paths under \<open>src/crates/wafer-core/src\<close> unless a crate is named).

  \<^item> \<open>Prelude\<close>: integer types, saturating and checked arithmetic, results, decimal text, shared lemmas.
    \<open>Host\<close>: the clocks; the world \<open>'w\<close> that effectful operations thread.
  \<^item> Data: \<open>Config\<close> (\<open>wafer-types/src/config\<close>), \<open>Envelope\<close> (\<open>queue/envelope.rs\<close>, \<open>dlq/mod.rs\<close>), \<open>ErrorTypes\<close> (\<open>error.rs\<close> and the error kinds of
    \<open>runner/error_policy.rs\<close>), \<open>Metrics\<close> (\<open>node/metrics.rs\<close>), \<open>NodeLifecycle\<close> (\<open>node/state.rs\<close>).
  \<^item> Validation and graph: \<open>HttpDest\<close> (\<open>engine/capabilities.rs\<close> and the destination rules of the
    configuration), \<open>Dag\<close> (\<open>dag/graph.rs\<close>), \<open>Validation\<close> (\<open>wafer-config/src/validation.rs\<close>), \<open>Builder\<close>
    (\<open>orchestrator/builder.rs\<close>).
  \<^item> Engine and nodes: \<open>EngineLoad\<close> (\<open>engine/cache.rs\<close>, \<open>engine/loader.rs\<close>), \<open>WasmNode\<close> (\<open>node/wasm.rs\<close>,
    \<open>node/native\<close>, \<open>engine/state.rs\<close>, \<open>engine/buffer.rs\<close>), \<open>HotSwap\<close> (progress and canary of
    \<open>runner/mod.rs\<close>), \<open>SwapPrepare\<close> (\<open>orchestrator/hotswap.rs\<close>).
  \<^item> Runner loops: \<open>ErrorPolicy\<close> (\<open>runner/error_policy.rs\<close>), \<open>Runner\<close> (queues, overflow policies and the wait
    for input of \<open>runner/mod.rs\<close>), \<open>NodeLoop\<close> (what the node loops share), \<open>FilterLoop\<close>, \<open>RouterLoop\<close>,
    \<open>TransformLoop\<close>, \<open>SourceLoop\<close>, \<open>SinkLoop\<close>.
  \<^item> Pipeline and control: \<open>PipelineHandle\<close> and \<open>Supervisor\<close> (\<open>orchestrator/pipeline.rs\<close>), \<open>DlqWriter\<close> (its
    dead-letter task), \<open>SwapApi\<close> (\<open>api/handlers.rs\<close>).
  \<^item> Sinks and measurement: \<open>BatchSinks\<close> (\<open>node/sink/batch.rs\<close>, \<open>file.rs\<close>, \<open>stdout.rs\<close>, \<open>http.rs\<close>),
    \<open>CoreUtil\<close> (\<open>util.rs\<close>), \<open>Sequence\<close> (\<open>sequence.rs\<close> and \<open>latency.rs\<close> of \<open>wafer-types\<close>), \<open>BurstBuckets\<close>, \<open>BenchRecorders\<close>
    and \<open>BenchSink\<close> (\<open>node/sink/bench.rs\<close>), \<open>Doubles\<close> (IEEE arithmetic of the language), \<open>BenchSource\<close>
    (\<open>node/source/bench.rs\<close>), \<open>BenchRun\<close> (source and sink together).
  \<^item> Guests: \<open>ThresholdFilter\<close> (\<open>src/plugins/threshold-filter\<close>, its second version, and the native filter that
    is to match it), \<open>JsonParse\<close> (\<open>src/plugins/json-parse\<close>).

  Correspondence. A struct is a record with prefixed field names, an enum a datatype, a \<open>u32\<close> or
  \<open>u64\<close> a word, a \<open>String\<close> the list of its bytes as characters (in \<open>JsonParse\<close>
  the output is code points until it is encoded). A method takes the value and returns it changed; an operation that
  awaits or uses the system threads the world after it. \<open>Result\<close> is a sum with the error on the left.
  What is not in the repository (tokio's channels, watches and task sets, wasmtime, the HTTP and MQTT clients, the
  file system, the histogram) is a record of operations, a parameter \<open>H\<close>, \<open>S\<close> or
  \<open>L\<close> of the definitions; what a theorem relies on of it is a named law (\<open>file_laws\<close>,
  \<open>buffer_table_laws\<close>, \<open>join_set_laws\<close>, \<open>abort_laws\<close>), and its witness runs the
  theorem on a concrete host. A shared \<open>Arc\<close> is an identity into the world; tasks that run concurrently
  appear as what the host's operations may do to the world, so an interleaving is any behaviour of the host.

  Interfaces. \<open>index_set\<close> (a bitmap behaves as a set of indices), \<open>delay_queue\<close> (the retry buffer behaves as a
  multiset ordered by due time), \<open>replaceable\<close> (an operation that replaces a node's instance or leaves the node
  as it was), \<open>recoverable\<close> (re-instantiation takes no message), \<open>conserving_loop\<close> and \<open>relay_node\<close> (a loop
  whose iteration settles the message it takes), \<open>batch_sink\<close> (delivered and buffered together are what was
  collected). Each is interpreted on the model's definitions in the theory that provides them.

  What the properties show. No message is lost or doubled without a trace: the loops of the nodes settle every
  message they take, the wait for input conserves it, each failure has one fate under the policy, the retry budget
  and buffer are bounded, file sinks and the dead-letter file hold exactly what was collected. Validation accepts
  exactly the well-formed pipelines, and those build when they have a node, with queues wired as the edges say. A
  swap is claimed once, its outcome is reported once and the API's answer is a named refusal or true of it; a failed
  swap keeps the old instance, a trap in the canary window rolls back once, a successful one keeps the grants. A run
  names every failed task, every aborted node and how the dead-letter writer ended. Outbound grants hold the
  canonical forms of permitted destinations, and the component cache is transparent as long as the hash does not
  collide on what is asked for. The wait for input and the replacement requests return, and so does the shutdown if
  aborted tasks end; without that it has no bound, which \<open>shutdown_returns\<close> shows too. The measured
  loss is exact, the intervals partition the population, the schedule is followed, artifacts are complete or named
  missing and never torn. The JSON printer answers every text of the grammar with that of a reference printer, and
  the native filter with the plugin on plain decimals.

  Fuel. Waits and drains of an open channel may go on as long as the world feeds them: \<open>next_input\<close>,
  \<open>run_loop\<close>, the drain of a sink, the dead-letter writer, the polls of the API and the joins of the
  supervisor take a number of rounds and give \<open>None\<close> without it. The termination theorems name the
  number that is enough: the wake-ups, messages or deadlines left in the world; for the shutdown also the wake-ups
  that aborted tasks need (\<open>abort_laws\<close>). The printer of \<open>JsonParse\<close> needs more than the
  length of the text, which it gives itself (\<open>json_parse_returns\<close>).

  Not modelled: the load generator, the process entry point and its command lines, the launcher that constructs
  nodes from their configuration, the client adapters (MQTT, HTTP, file and standard-input sources, the MQTT
  sink), the registry client, the transport under the outbound HTTP rules, the reading of TOML, the text of
  metrics and of JSON documents except where a property is about it, the other example plugins and the test
  support: each is calls into libraries that cannot be read here, or text formatting. Panics are modelled
  where the code can reach them; arithmetic is exact up to the width of the type, memory is unbounded.
\<close>

section \<open>Stopping\<close>

text \<open>
  \<open>stopping H sw\<close>: the cancellation token has fired, nobody undoes it, and no swap is pending.
\<close>

definition stopping :: "('x, 's, 'h) runner_host_scheme \<Rightarrow> nat \<Rightarrow> bool" where
  "stopping H sw \<longleftrightarrow> (\<forall>w. fst (h_cancelled H w)) \<and> (\<forall>w. \<not> swap_pending H sw w)"

lemma stopping_input:
  assumes "stopping H sw" "pending_retries (rn_policy r) = 0" "rn_held r = None" "0 < k"
  shows "\<exists>r1 w1. runner_input H k sw r w = Some (InputClosed, r1, w1) \<and>
    pending_retries (rn_policy r1) = 0 \<and> rn_metrics r1 = rn_metrics r"
proof -
  obtain k' where k': "k = Suc k'" using assms(4) by (cases k) auto
  obtain e x1 w1 where e: "next_ready_retry H (rn_policy r) w = (e, x1, w1)" by (metis prod_cases3)
  from next_ready_pending [OF e] assms(2) have none: "e = None" "pending_retries x1 = 0"
    by (auto split: option.splits)
  have c: "fst (h_cancelled H w1)" and s: "\<not> swap_pending H sw w" using assms(1) by (simp_all add: stopping_def)
  from c s e none show ?thesis
    by (cases "tr_eof (rn_receiver r) \<and> next_retry_deadline x1 = None")
       (auto simp: runner_input_def next_input_def assms(3) k' Let_def case_prod_beta)
qed

lemma stopping_swap: "stopping H sw \<Longrightarrow> take_pending_swap H sw w = (None, w)"
  by (simp add: take_pending_swap_def stopping_def)

lemma drain_empty:
  assumes "pending_retries (rn_policy r) = 0"
  shows "\<exists>r' w'. drain_and_exit H (e, r, w) = (e, r', w') \<and> rn_metrics r' = rn_metrics r"
  using assms by (simp add: drain_and_exit_def flush_to_dlq_def drain_all_def pending_retries_def buffer_len_def)

lemma stopping_node:
  assumes "stopping H sw" "pending_retries x = 0" "0 < k"
  shows "\<exists>r' w'. map_option (drain_and_exit H) (run_loop (node_iteration H apply message k sw) k
      (runner_start n rx x st m) w) = Some (Inr (), r', w') \<and> rn_metrics r' = m"
proof -
  let ?r = "runner_start n rx x st m"
  obtain k' where k': "k = Suc k'" using assms(3) by (cases k) auto
  have "pending_retries (rn_policy ?r) = 0" "rn_held ?r = None" using assms(2) by (simp_all add: runner_start_def)
  from stopping_input [OF assms(1) this assms(3), of w] obtain r1 w1 where
    i: "runner_input H k sw ?r w = Some (InputClosed, r1, w1)"
    and r1: "pending_retries (rn_policy r1) = 0" "rn_metrics r1 = m" by (auto simp: runner_start_def)
  from drain_empty [OF r1(1), of H "Inr ()" w1] r1(2) obtain r' w' where
    "drain_and_exit H (Inr (), r1, w1) = (Inr (), r', w')" "rn_metrics r' = m" by auto
  with i show ?thesis by (simp add: k' node_iteration_def stopping_swap [OF assms(1)])
qed

section \<open>Properties of the composed runtime\<close>

text \<open>
  C35: a cancelled node stops at once. When the token has fired, no swap is pending and no retry is
  buffered, the filter, router and transform loops return success in their first iteration, take
  no further message and leave their counters as they are.
\<close>

theorem cancelled_nodes_stop:
  assumes "stopping H sw" "pending_retries x = 0" "0 < k"
  shows "(\<exists>r' w'. run_filter_loop H k f rx senders sw x st m w = Some (Inr (), r', w') \<and> rn_metrics r' = m) \<and>
    (\<exists>r' w'. run_router_loop H k n rx senders sw x st m w = Some (Inr (), r', w') \<and> rn_metrics r' = m) \<and>
    (\<exists>r' w'. run_transform_loop H k t rx senders sw x st m w = Some (Inr (), r', w') \<and> rn_metrics r' = m)"
proof (intro conjI)
  show "\<exists>r' w'. run_filter_loop H k f rx senders sw x st m w = Some (Inr (), r', w') \<and> rn_metrics r' = m"
    using stopping_node [OF assms] unfolding run_filter_loop_def filter_iteration_def .
  show "\<exists>r' w'. run_router_loop H k n rx senders sw x st m w = Some (Inr (), r', w') \<and> rn_metrics r' = m"
    using stopping_node [OF assms] unfolding run_router_loop_def router_iteration_def .
  let ?r = "runner.extend (runner_start t rx x st m) \<lparr>tl_canary = None, tl_rollback_retry = None\<rparr>"
  obtain k' where k': "k = Suc k'" using assms(3) by (cases k) auto
  have r: "pending_retries (rn_policy ?r) = 0" "rn_held ?r = None" "rn_metrics ?r = m" "tl_canary ?r = None"
    "tl_rollback_retry ?r = None"
    using assms(2) by (simp_all add: runner_start_def runner.extend_def)
  from stopping_input [OF assms(1) r(1,2) assms(3), of w] obtain r1 w1 where
    i: "runner_input H k sw ?r w = Some (InputClosed, r1, w1)"
    and r1: "pending_retries (rn_policy r1) = 0" "rn_metrics r1 = m" using r(3) by auto
  from drain_empty [OF r1(1), of H "Inr ()" w1] r1(2) obtain r' w' where
    "drain_and_exit H (Inr (), r1, w1) = (Inr (), r', w')" "rn_metrics r' = m" by auto
  with i r(4,5) show "\<exists>r' w'. run_transform_loop H k t rx senders sw x st m w = Some (Inr (), r', w') \<and> rn_metrics r' = m"
    by (simp add: run_transform_loop_def run_transform_loop_with_config_def k' transform_iteration_def
        close_canary_def stopping_swap [OF assms(1)])
qed

theorem cancelled_nodes_stop_witness:
  "\<exists>r' w'. run_filter_loop (sample_runner\<lparr>h_cancelled := (\<lambda>w. (True, w))\<rparr>) 1 sample_filter
      (tracked_receiver_new 0 0) [] 0 sample_executor (state_new 0) node_metrics_new
      (sample_start [sample_envelope] 1) = Some (Inr (), r', w') \<and> rn_metrics r' = node_metrics_new"
proof -
  have "stopping (sample_runner\<lparr>h_cancelled := (\<lambda>w. (True, w))\<rparr>) 0"
    by (simp add: stopping_def swap_pending_def)
  moreover have "pending_retries sample_executor = 0"
    by (simp add: pending_retries_def buffer_len_def sample_executor_def executor_new_def retry_buffer_new_def)
  ultimately show ?thesis
    using cancelled_nodes_stop [of "sample_runner\<lparr>h_cancelled := (\<lambda>w. (True, w))\<rparr>" 0 sample_executor 1] by simp
qed

end
